(* ===== verification/Xv6_Prelude.thy ===== *)
theory Xv6_Prelude
  imports Main "HOL-Library.Word"
begin

unbundle bit_operations_syntax

section \<open>Shared vocabulary of the development\<close>

text \<open>
  What every component theory uses: the machine integer types, the outcome type of a kernel
  function with its sequencing operator, loops whose body may fail, byte arrays with their
  little-endian 16 and 32 bit accesses, and linked lists threaded through a table.

  Conventions. A C \<open>uint\<close> whose wrap-around can be observed is a \<open>32 word\<close>; a \<open>uint\<close> that is
  only compared, divided, or reduced under a guard is a \<open>nat\<close>; a C \<open>int\<close> is an \<open>int\<close> (its overflow
  is undefined in C). A pointer into a table is an index, NULL is \<open>None\<close>. A C array that is never
  resized is a function from its index. Every function takes the kernel state as its last argument
  and returns an outcome.
\<close>

type_synonym u8 = "8 word"
type_synonym u16 = "16 word"
type_synonym u32 = "32 word"

text \<open>Rules that remove lock operations, and frame rules of state fields.\<close>

named_theorems lock_simps \<open>normal forms of acquire and release\<close>
named_theorems frame_simps \<open>state components an operation leaves alone\<close>

subsection \<open>Outcomes\<close>

text \<open>
  A kernel function returns a value and the new state, or stops for good (\<open>panic\<close>, undefined
  behaviour such as a NULL dereference, or a loop that never ends), or gives the CPU away through
  \<^verbatim>\<open>swtch\<close> in a given state, from where another kernel thread goes on.
\<close>

datatype fault = Panic string | UB string | Hang

datatype ('s, 'a) res = Ok 'a 's | Fail fault | Swtch 's

fun bnd :: "('s, 'a) res \<Rightarrow> ('a \<Rightarrow> 's \<Rightarrow> ('s, 'b) res) \<Rightarrow> ('s, 'b) res" where
  "bnd (Ok x s) f = f x s"
| "bnd (Fail e) f = Fail e"
| "bnd (Swtch s) f = Swtch s"

lemma bnd_eq_Ok [simp]:
  "bnd r f = Ok y t \<longleftrightarrow> (\<exists>x s. r = Ok x s \<and> f x s = Ok y t)"
  by (cases r) auto

lemma bnd_Ok_eq [simp]:
  "Ok y t = bnd r f \<longleftrightarrow> (\<exists>x s. r = Ok x s \<and> f x s = Ok y t)"
  by (cases r) auto

lemma bnd_assoc: "bnd (bnd r f) g = bnd r (\<lambda>x s. bnd (f x s) g)"
  by (cases r) auto

lemma bnd_if: "bnd (if b then r else r') f = (if b then bnd r f else bnd r' f)"
  by simp

lemma bnd_cong [fundef_cong]:
  "r = r' \<Longrightarrow> (\<And>x s. r' = Ok x s \<Longrightarrow> f x s = g x s) \<Longrightarrow> bnd r f = bnd r' g"
  by (cases r') auto

text \<open>\<open>okpost r Q\<close>: the outcome is a return whose value and state satisfy \<open>Q\<close>.\<close>

fun okpost :: "('s, 'a) res \<Rightarrow> ('a \<Rightarrow> 's \<Rightarrow> bool) \<Rightarrow> bool" where
  "okpost (Ok x s) Q = Q x s"
| "okpost (Fail e) Q = False"
| "okpost (Swtch s) Q = False"

lemma okpost_bnd:
  "okpost r R \<Longrightarrow> (\<And>x s. R x s \<Longrightarrow> okpost (f x s) Q) \<Longrightarrow> okpost (bnd r f) Q"
  by (cases r) auto

lemma okpost_mono: "okpost r R \<Longrightarrow> (\<And>x s. R x s \<Longrightarrow> Q x s) \<Longrightarrow> okpost r Q"
  by (cases r) auto

lemma okpost_iff: "okpost r Q \<longleftrightarrow> (\<exists>x s. r = Ok x s \<and> Q x s)"
  by (cases r) auto

subsection \<open>Loops with a fallible body\<close>

fun for_each :: "('i \<Rightarrow> 's \<Rightarrow> ('s, unit) res) \<Rightarrow> 'i list \<Rightarrow> 's \<Rightarrow> ('s, unit) res" where
  "for_each f [] s = Ok () s"
| "for_each f (i # is) s = bnd (f i s) (\<lambda>_ s. for_each f is s)"

lemma for_each_append:
  "for_each f (xs @ ys) s = bnd (for_each f xs s) (\<lambda>_ s. for_each f ys s)"
proof (induction xs arbitrary: s)
  case (Cons x xs)
  then have "(\<lambda>_. for_each f (xs @ ys)) = (\<lambda>(_::unit) s. bnd (for_each f xs s) (\<lambda>_. for_each f ys))"
    by (intro ext)
  then show ?case by (simp add: bnd_assoc)
qed simp

lemma for_each_pure:
  "(\<And>i s. i \<in> set xs \<Longrightarrow> f i s = Ok () (g i s)) \<Longrightarrow> for_each f xs s = Ok () (fold g xs s)"
  by (induction xs arbitrary: s) simp_all

lemma for_each_pure_inv:
  assumes "I s" and "\<And>i s. i \<in> set xs \<Longrightarrow> I s \<Longrightarrow> f i s = Ok () (g i s) \<and> I (g i s)"
  shows "for_each f xs s = Ok () (fold g xs s) \<and> I (fold g xs s)"
  using assms by (induction xs arbitrary: s) simp_all

lemma for_each_inv:
  assumes "for_each f xs s = Ok () t" and "I s"
    and "\<And>i u v. i \<in> set xs \<Longrightarrow> I u \<Longrightarrow> f i u = Ok () v \<Longrightarrow> I v"
  shows "I t"
  using assms
proof (induction xs arbitrary: s)
  case Nil
  then show ?case by simp
next
  case (Cons x xs)
  from Cons.prems(1) obtain s' where 1: "f x s = Ok () s'" and 2: "for_each f xs s' = Ok () t"
    by auto
  have "I s'" using Cons.prems(2,3) 1 by (auto intro: Cons.prems(3))
  from Cons.IH[OF 2 this] Cons.prems(3) show ?case by (meson list.set_intros(2))
qed

subsection \<open>Searching a table\<close>

lemma find_upt_Some:
  "List.find P [0..<n] = Some i \<Longrightarrow> i < n \<and> P i \<and> (\<forall>j<i. \<not> P j)"
  by (auto simp: find_Some_iff)

lemma find_upt_None: "List.find P [0..<n] = None \<longleftrightarrow> (\<forall>i<n. \<not> P i)"
  by (auto simp: find_None_iff)

subsection \<open>Counting the slots of a table\<close>

text \<open>\<open>slots n P tb\<close>: how many of the first \<open>n\<close> entries of \<open>tb\<close> satisfy \<open>P\<close>.\<close>

definition slots :: "nat \<Rightarrow> ('a \<Rightarrow> bool) \<Rightarrow> (nat \<Rightarrow> 'a) \<Rightarrow> int" where
  "slots n P tb = (\<Sum>i<n. of_bool (P (tb i)))"

lemma slots_0 [simp]: "slots 0 P tb = 0"
  by (simp add: slots_def)

lemma slots_Suc [simp]: "slots (Suc n) P tb = slots n P tb + of_bool (P (tb n))"
  by (simp add: slots_def)

lemma slots_upd:
  assumes "p < n"
  shows "slots n P (tb(p := q)) = slots n P tb - of_bool (P (tb p)) + of_bool (P q)"
proof -
  have "slots n P tb' = of_bool (P (tb' p)) + (\<Sum>i\<in>{..<n} - {p}. of_bool (P (tb' i)))" for tb'
    unfolding slots_def using assms by (intro sum.remove) auto
  from this[of tb] this[of "tb(p := q)"] show ?thesis
    by (simp del: sum_of_bool_eq)
qed

lemma slots_upd_out [simp]: "n \<le> p \<Longrightarrow> slots n P (tb(p := q)) = slots n P tb"
  by (simp add: slots_def)

lemma slots_nonneg: "0 \<le> slots n P tb"
  by (simp add: slots_def sum_nonneg)

lemma slots_pos: "0 < slots n P tb \<longleftrightarrow> (\<exists>i<n. P (tb i))"
proof
  assume pos: "0 < slots n P tb"
  show "\<exists>i<n. P (tb i)"
  proof (rule ccontr)
    assume "\<not> ?thesis"
    then have "slots n P tb = 0" unfolding slots_def by (intro sum.neutral) auto
    with pos show False by simp
  qed
next
  assume "\<exists>i<n. P (tb i)"
  then obtain i where i: "i < n" "P (tb i)" by blast
  have "(1::int) = of_bool (P (tb i))" using i by simp
  also have "\<dots> \<le> slots n P tb"
    unfolding slots_def using i by (intro member_le_sum) auto
  finally show "0 < slots n P tb" by simp
qed

lemma slots_cong:
  "(\<And>i. i < n \<Longrightarrow> P (tb i) = Q (tb' i)) \<Longrightarrow> slots n P tb = slots n Q tb'"
  by (simp add: slots_def)

lemma slots_disj:
  "(\<And>i. i < n \<Longrightarrow> \<not> (P (tb i) \<and> Q (tb i))) \<Longrightarrow>
   slots n (\<lambda>x. P x \<or> Q x) tb = slots n P tb + slots n Q tb"
  unfolding slots_def sum.distrib[symmetric] by (rule sum.cong) auto

subsection \<open>Byte arrays\<close>

text \<open>
  A block of memory or of the disk is a function from byte offset to byte; integers are stored
  little-endian, as the x86 does.
\<close>

type_synonym bytes = "nat \<Rightarrow> u8"

definition get16 :: "bytes \<Rightarrow> nat \<Rightarrow> u16" where
  "get16 m a = ucast (m a) OR push_bit 8 (ucast (m (a + 1)))"

definition put16 :: "bytes \<Rightarrow> nat \<Rightarrow> u16 \<Rightarrow> bytes" where
  "put16 m a v = m(a := ucast v, a + 1 := ucast (drop_bit 8 v))"

definition get32 :: "bytes \<Rightarrow> nat \<Rightarrow> u32" where
  "get32 m a = ucast (m a) OR push_bit 8 (ucast (m (a + 1)))
     OR push_bit 16 (ucast (m (a + 2))) OR push_bit 24 (ucast (m (a + 3)))"

definition put32 :: "bytes \<Rightarrow> nat \<Rightarrow> u32 \<Rightarrow> bytes" where
  "put32 m a v = m(a := ucast v, a + 1 := ucast (drop_bit 8 v),
     a + 2 := ucast (drop_bit 16 v), a + 3 := ucast (drop_bit 24 v))"

text \<open>\<open>copy d di s si n\<close>: \<open>d\<close> with the \<open>n\<close> bytes of \<open>s\<close> from \<open>si\<close> on written at \<open>di\<close>.\<close>

definition copy :: "bytes \<Rightarrow> nat \<Rightarrow> bytes \<Rightarrow> nat \<Rightarrow> nat \<Rightarrow> bytes" where
  "copy d di s si n = (\<lambda>i. if di \<le> i \<and> i < di + n then s (si + (i - di)) else d i)"

lemma copy_0 [simp]: "copy d di s si 0 = d"
  by (rule ext) (auto simp: copy_def)

lemma copy_in: "i < n \<Longrightarrow> copy d di s si n (di + i) = s (si + i)"
  by (simp add: copy_def)

lemma copy_out: "i < di \<or> di + n \<le> i \<Longrightarrow> copy d di s si n i = d i"
  by (auto simp: copy_def)

lemma get16_put16 [simp]: "get16 (put16 m a v) a = v"
  unfolding get16_def put16_def
  by (rule bit_word_eqI) (auto simp: bit_simps)

lemma get16_put16_other:
  "b + 2 \<le> a \<or> a + 2 \<le> b \<Longrightarrow> get16 (put16 m a v) b = get16 m b"
  by (auto simp: get16_def put16_def)

lemma get32_put32 [simp]: "get32 (put32 m a v) a = v"
  unfolding get32_def put32_def
proof (rule bit_word_eqI, goal_cases)
  case (1 n)
  consider "n < 8" | "8 \<le> n" "n < 16" | "16 \<le> n" "n < 24" | "24 \<le> n" "n < 32"
    using 1 by fastforce
  then show ?case by cases (auto simp: bit_simps)
qed

lemma get32_put32_other:
  "b + 4 \<le> a \<or> a + 4 \<le> b \<Longrightarrow> get32 (put32 m a v) b = get32 m b"
  by (auto simp: get32_def put32_def)

lemma get16_put32_other:
  "b + 2 \<le> a \<or> a + 4 \<le> b \<Longrightarrow> get16 (put32 m a v) b = get16 m b"
  by (auto simp: get16_def put32_def)

lemma get32_put16_other:
  "b + 4 \<le> a \<or> a + 2 \<le> b \<Longrightarrow> get32 (put16 m a v) b = get32 m b"
  by (auto simp: get32_def put16_def)

lemma get32_zero [simp]: "get32 (\<lambda>_. 0) a = 0"
  by (simp add: get32_def)

lemma get16_zero [simp]: "get16 (\<lambda>_. 0) a = 0"
  by (simp add: get16_def)

lemma get32_array_put32:
  "get32 (put32 m (4 * i) v) (4 * j) = (if i = j then v else get32 m (4 * j))"
proof (cases "i = j")
  case False
  then have "4 * j + 4 \<le> 4 * i \<or> 4 * i + 4 \<le> 4 * j" by linarith
  with False show ?thesis by (simp add: get32_put32_other)
qed simp

subsection \<open>Linked lists threaded through a table\<close>

text \<open>
  \<open>chain lnk h xs\<close>: following the links from \<open>h\<close> visits exactly \<open>xs\<close> and then reaches NULL.
\<close>

fun chain :: "('p \<Rightarrow> 'p option) \<Rightarrow> 'p option \<Rightarrow> 'p list \<Rightarrow> bool" where
  "chain lnk h [] \<longleftrightarrow> h = None"
| "chain lnk h (x # xs) \<longleftrightarrow> h = Some x \<and> chain lnk (lnk x) xs"

lemma chain_unique: "chain lnk h xs \<Longrightarrow> chain lnk h ys \<Longrightarrow> xs = ys"
proof (induction xs arbitrary: h ys)
  case Nil
  then show ?case by (cases ys) auto
next
  case (Cons x xs)
  then show ?case by (cases ys) auto
qed

lemma chain_append: "chain lnk h (xs @ y # ys) \<Longrightarrow> chain lnk (Some y) (y # ys)"
  by (induction xs arbitrary: h) auto

lemma chain_distinct: "chain lnk h xs \<Longrightarrow> distinct xs"
proof (induction xs arbitrary: h)
  case (Cons x xs)
  have "x \<notin> set xs"
  proof
    assume "x \<in> set xs"
    then obtain as bs where xs: "xs = as @ x # bs" by (meson split_list)
    with Cons.prems have "chain lnk (Some x) (x # bs)"
      using chain_append[of lnk "lnk x" as x bs] by simp
    moreover have "chain lnk (Some x) (x # xs)" using Cons.prems by simp
    ultimately have "x # bs = x # xs" by (rule chain_unique)
    with xs show False by simp
  qed
  with Cons show ?case by auto
qed simp

lemma chain_cong: "(\<And>x. x \<in> set xs \<Longrightarrow> lnk x = lnk' x) \<Longrightarrow> chain lnk h xs = chain lnk' h xs"
  by (induction xs arbitrary: h) auto

lemma chain_length:
  assumes "chain lnk h xs" and "\<forall>x\<in>set xs. x < (n :: nat)"
  shows "length xs \<le> n"
proof -
  have "length xs = card (set xs)"
    using chain_distinct[OF assms(1)] by (simp add: distinct_card)
  also have "\<dots> \<le> card {..<n}" using assms(2) by (intro card_mono) auto
  finally show ?thesis by simp
qed

text \<open>
  The interface of the list removal routines: \<open>unlink n h p t\<close> walks from \<open>h\<close> to the entry whose
  link is \<open>p\<close> and makes it skip \<open>p\<close>; \<open>n\<close> bounds the walk.
\<close>

locale list_unlink =
  fixes lnk :: "'t \<Rightarrow> nat \<Rightarrow> nat option"
    and unlink :: "nat \<Rightarrow> nat option \<Rightarrow> nat \<Rightarrow> 't \<Rightarrow> 't option"
  assumes unlink_None: "unlink (Suc n) None p t = Some t"
    and unlink_hit: "lnk t q = Some p \<Longrightarrow> q \<noteq> p \<Longrightarrow>
      \<exists>t'. unlink (Suc n) (Some q) p t = Some t' \<and> lnk t' q = lnk t p \<and>
        (\<forall>r. r \<noteq> q \<longrightarrow> r \<noteq> p \<longrightarrow> lnk t' r = lnk t r)"
    and unlink_miss: "lnk t q \<noteq> Some p \<Longrightarrow> unlink (Suc n) (Some q) p t = unlink n (lnk t q) p t"
begin

lemma unlink_absent:
  "chain (lnk t) h xs \<Longrightarrow> p \<notin> set xs \<Longrightarrow> length xs < n \<Longrightarrow> unlink n h p t = Some t"
proof (induction xs arbitrary: h n)
  case Nil
  then show ?case by (cases n) (auto simp: unlink_None)
next
  case (Cons x xs)
  then obtain k where n: "n = Suc k" by (cases n) auto
  have "lnk t x \<noteq> Some p"
    using Cons.prems by (cases xs) auto
  with Cons n show ?case by (auto simp: unlink_miss)
qed

lemma unlink_present:
  assumes "chain (lnk t) h (as @ q # p # bs)" and "length as + 1 < n"
  shows "\<exists>t'. unlink n h p t = Some t' \<and> chain (lnk t') h (as @ q # bs) \<and>
    (\<forall>r. r \<noteq> q \<longrightarrow> r \<noteq> p \<longrightarrow> lnk t' r = lnk t r)"
proof -
  have dist: "distinct (as @ q # p # bs)" by (rule chain_distinct[OF assms(1)])
  have walk: "unlink n h p t = unlink (n - length as) (Some q) p t"
    using assms dist
  proof (induction as arbitrary: h n)
    case (Cons a as)
    then obtain k where n: "n = Suc k" by (cases n) auto
    have h: "h = Some a" and c: "chain (lnk t) (lnk t a) (as @ q # p # bs)"
      using Cons.prems by auto
    have "lnk t a \<noteq> Some p" using c Cons.prems(3) by (cases as) auto
    with Cons.IH[OF c, of k] Cons.prems n h show ?case by (simp add: unlink_miss)
  qed simp
  obtain k where k: "n - length as = Suc k" using assms(2) by (cases "n - length as") auto
  have c: "chain (lnk t) (Some q) (q # p # bs)" by (rule chain_append[OF assms(1)])
  then have "lnk t q = Some p" and cb: "chain (lnk t) (lnk t p) bs" by auto
  then obtain t' where t': "unlink n h p t = Some t'" "lnk t' q = lnk t p"
      "\<forall>r. r \<noteq> q \<longrightarrow> r \<noteq> p \<longrightarrow> lnk t' r = lnk t r"
    using unlink_hit[of t q p k] walk k dist by auto
  have "chain (lnk t') (lnk t p) bs"
    using cb dist t'(3) by (subst chain_cong[of bs _ "lnk t"]) auto
  then have tail: "chain (lnk t') (Some q) (q # bs)" using t'(2) by simp
  have "chain (lnk t') h (as @ q # bs)"
    using assms(1) dist
  proof (induction as arbitrary: h)
    case Nil
    then show ?case using tail by simp
  next
    case (Cons a as)
    have "lnk t' a = lnk t a" using Cons.prems t'(3) by auto
    with Cons show ?case by auto
  qed
  with t' show ?thesis by blast
qed

end

end
