(* ===== verification/Xv6_Spinlock.thy ===== *)
theory Xv6_Spinlock
  imports Xv6_Prelude
begin

section \<open>Spin locks\<close>

text \<open>
  \<^verbatim>\<open>spinlock.c\<close>, twice. The detailed model has every CPU's \<^verbatim>\<open>ncli\<close>, \<^verbatim>\<open>intena\<close> and interrupt flag and
  every lock's fields; the CPU that executes is the argument \<open>c\<close> (what \<^verbatim>\<open>mycpu()\<close> returns). The
  other theories use the view of one CPU: the set of locks it holds, with the panics of \<^verbatim>\<open>acquire\<close>
  and \<^verbatim>\<open>release\<close>. The refinement lemmas at the end connect the two.
\<close>

subsection \<open>CPUs and locks\<close>

record cpu =
  ncli :: int
  intena :: bool
  eflags_if :: bool

record spinlock =
  locked :: bool
  lkname :: string
  lkcpu :: "nat option"
  pcs :: "nat list"

record 'l spinsys =
  cpus :: "nat \<Rightarrow> cpu"
  locks :: "'l \<Rightarrow> spinlock"

definition initlock :: "string \<Rightarrow> spinlock \<Rightarrow> spinlock" where
  "initlock name lk = lk\<lparr>lkname := name, locked := False, lkcpu := None\<rparr>"

definition pushcli :: "nat \<Rightarrow> 'l spinsys \<Rightarrow> ('l spinsys, unit) res" where
  "pushcli c s =
     (let k = cpus s c;
          eflags = eflags_if k;
          k = k\<lparr>eflags_if := False\<rparr>;
          k = (if ncli k = 0 then k\<lparr>intena := eflags\<rparr> else k);
          k = k\<lparr>ncli := ncli k + 1\<rparr>
      in Ok () (s\<lparr>cpus := (cpus s)(c := k)\<rparr>))"

definition popcli :: "nat \<Rightarrow> 'l spinsys \<Rightarrow> ('l spinsys, unit) res" where
  "popcli c s =
     (if eflags_if (cpus s c) then Fail (Panic ''popcli - interruptible'')
      else
        let k = cpus s c; k = k\<lparr>ncli := ncli k - 1\<rparr>
        in if ncli k < 0 then Fail (Panic ''popcli'')
           else
             let k = (if ncli k = 0 \<and> intena k then k\<lparr>eflags_if := True\<rparr> else k)
             in Ok () (s\<lparr>cpus := (cpus s)(c := k)\<rparr>))"

definition holding :: "nat \<Rightarrow> 'l \<Rightarrow> 'l spinsys \<Rightarrow> ('l spinsys, bool) res" where
  "holding c l s =
     bnd (pushcli c s) (\<lambda>_ s.
     let r = locked (locks s l) \<and> lkcpu (locks s l) = Some c
     in bnd (popcli c s) (\<lambda>_ s. Ok r s))"

text \<open>
  \<^verbatim>\<open>getcallerpcs\<close> follows the saved frame pointers for at most ten frames; the rest is zero.
  \<open>stk\<close> in \<open>spin_acquire\<close> is what it returns at the call.
\<close>

definition KERNBASE :: nat where
  "KERNBASE = 0x80000000"

fun pcs_walk :: "nat \<Rightarrow> bytes \<Rightarrow> nat \<Rightarrow> nat list" where
  "pcs_walk 0 m ebp = []"
| "pcs_walk (Suc k) m ebp =
     (if ebp = 0 \<or> ebp < KERNBASE \<or> ebp = 0xffffffff then replicate (Suc k) 0
      else unat (get32 m (ebp + 4)) # pcs_walk k m (unat (get32 m ebp)))"

definition getcallerpcs :: "bytes \<Rightarrow> nat \<Rightarrow> nat list" where
  "getcallerpcs m v = pcs_walk 10 m (v - 8)"

text \<open>
  The exchange loop of \<^verbatim>\<open>acquire\<close> ends at once when the lock is free. When it is taken, this CPU
  spins until another CPU stores 0: the outcome is \<open>Hang\<close> as seen from this CPU alone.
\<close>

definition spin_acquire :: "nat \<Rightarrow> nat list \<Rightarrow> 'l \<Rightarrow> 'l spinsys \<Rightarrow> ('l spinsys, unit) res" where
  "spin_acquire c stk l s =
     bnd (pushcli c s) (\<lambda>_ s.
     bnd (holding c l s) (\<lambda>h s.
     if h then Fail (Panic (lkname (locks s l)))
     else if locked (locks s l) then Fail Hang
     else
       let lk = (locks s l)\<lparr>locked := True\<rparr>;
           lk = lk\<lparr>lkcpu := Some c\<rparr>;
           lk = lk\<lparr>pcs := stk\<rparr>
       in Ok () (s\<lparr>locks := (locks s)(l := lk)\<rparr>)))"

definition spin_release :: "nat \<Rightarrow> 'l \<Rightarrow> 'l spinsys \<Rightarrow> ('l spinsys, unit) res" where
  "spin_release c l s =
     bnd (holding c l s) (\<lambda>h s.
     if \<not> h then Fail (Panic ''release'')
     else
       let lk = locks s l;
           lk = lk\<lparr>pcs := (pcs lk)[0 := 0]\<rparr>;
           lk = lk\<lparr>lkcpu := None\<rparr>;
           lk = lk\<lparr>locked := False\<rparr>
       in popcli c (s\<lparr>locks := (locks s)(l := lk)\<rparr>))"

subsection \<open>Several CPUs\<close>



definition owned :: "nat \<Rightarrow> 'l \<Rightarrow> 'l spinsys \<Rightarrow> bool" where
  "owned c l s \<longleftrightarrow> locked (locks s l) \<and> lkcpu (locks s l) = Some c"

definition locks_of :: "nat \<Rightarrow> 'l spinsys \<Rightarrow> 'l set" where
  "locks_of c s = {l. owned c l s}"

text \<open>
  The invariant between lock operations: a free lock has no CPU; every CPU's nesting depth is the
  number of locks it holds, and while it holds one its interrupts are off.
\<close>

definition spin_inv :: "'l spinsys \<Rightarrow> bool" where
  "spin_inv s \<longleftrightarrow>
     (\<forall>l. locked (locks s l) \<longleftrightarrow> lkcpu (locks s l) \<noteq> None) \<and>
     (\<forall>c. finite (locks_of c s) \<and> ncli (cpus s c) = int (card (locks_of c s)) \<and>
          (locks_of c s \<noteq> {} \<longrightarrow> \<not> eflags_if (cpus s c)))"

lemma eflags_off_same [simp]: "\<not> eflags_if k \<Longrightarrow> k\<lparr>eflags_if := False\<rparr> = k"
  by (cases k) simp

lemma cpus_same [simp]: "s\<lparr>cpus := cpus s\<rparr> = s"
  by (cases s) simp

lemma holding_nested:
  "0 < ncli (cpus s c) \<Longrightarrow> \<not> eflags_if (cpus s c) \<Longrightarrow> holding c l s = Ok (owned c l s) s"
  by (simp add: holding_def pushcli_def popcli_def Let_def owned_def)

lemma holding_value: "holding c l s = Ok r t \<Longrightarrow> r = owned c l s \<and> locks t = locks s"
  by (auto simp: holding_def pushcli_def popcli_def Let_def owned_def split: if_splits)

lemma spin_acquire_eq:
  assumes "spin_inv s"
  shows "spin_acquire c stk l s =
    (if owned c l s then Fail (Panic (lkname (locks s l)))
     else if locked (locks s l) then Fail Hang
     else Ok () (s\<lparr>cpus := (cpus s)(c := (cpus s c)\<lparr>eflags_if := False,
            intena := (if ncli (cpus s c) = 0 then eflags_if (cpus s c) else intena (cpus s c)),
            ncli := ncli (cpus s c) + 1\<rparr>),
          locks := (locks s)(l := (locks s l)\<lparr>locked := True, lkcpu := Some c, pcs := stk\<rparr>)\<rparr>))"
proof -
  from assms have "0 \<le> ncli (cpus s c)" by (simp add: spin_inv_def)
  then show ?thesis
    by (auto simp: spin_acquire_def pushcli_def Let_def holding_nested owned_def)
qed

lemma spin_release_eq:
  assumes "spin_inv s"
  shows "spin_release c l s =
    (if owned c l s then
       Ok () (s\<lparr>cpus := (cpus s)(c := (cpus s c)\<lparr>ncli := ncli (cpus s c) - 1,
            eflags_if := (ncli (cpus s c) = 1 \<and> intena (cpus s c))\<rparr>),
          locks := (locks s)(l := (locks s l)\<lparr>pcs := (pcs (locks s l))[0 := 0], lkcpu := None,
            locked := False\<rparr>)\<rparr>)
     else Fail (Panic ''release''))"
proof (cases "owned c l s")
  case True
  then have "l \<in> locks_of c s" by (simp add: locks_of_def)
  with assms have 1: "0 < ncli (cpus s c)" and 2: "\<not> eflags_if (cpus s c)"
    by (auto simp: spin_inv_def card_gt_0_iff)
  with True show ?thesis
    by (auto simp: spin_release_def holding_nested popcli_def Let_def intro!: spinsys.equality)
next
  case False
  have "0 \<le> ncli (cpus s c)" using assms by (simp add: spin_inv_def)
  then have "holding c l s = Ok False t" if "holding c l s = Ok r t" for r t
    using that False holding_value by metis
  moreover from \<open>0 \<le> ncli (cpus s c)\<close> have "\<exists>r t. holding c l s = Ok r t"
    by (auto simp: holding_def pushcli_def popcli_def Let_def)
  ultimately show ?thesis using False by (auto simp: spin_release_def)
qed

lemma owned_upd [simp]:
  "owned d k (s\<lparr>cpus := C, locks := (locks s)(l := lk)\<rparr>) =
    (if k = l then locked lk \<and> lkcpu lk = Some d else owned d k s)"
  by (simp add: owned_def)

lemma spin_inv_acquire:
  assumes inv: "spin_inv s" and acq: "spin_acquire c stk l s = Ok () t"
  shows "spin_inv t \<and> locks_of c t = insert l (locks_of c s) \<and> l \<notin> locks_of c s \<and>
    (\<forall>d. d \<noteq> c \<longrightarrow> locks_of d t = locks_of d s)"
proof -
  from inv acq have free: "\<not> locked (locks s l)" and
    t: "t = s\<lparr>cpus := (cpus s)(c := (cpus s c)\<lparr>eflags_if := False,
            intena := (if ncli (cpus s c) = 0 then eflags_if (cpus s c) else intena (cpus s c)),
            ncli := ncli (cpus s c) + 1\<rparr>),
          locks := (locks s)(l := (locks s l)\<lparr>locked := True, lkcpu := Some c, pcs := stk\<rparr>)\<rparr>"
    by (auto simp: spin_acquire_eq split: if_splits)
  have no: "\<not> owned d l s" for d using free by (simp add: owned_def)
  have lc: "locks_of c t = insert l (locks_of c s)" and
    ld: "d \<noteq> c \<Longrightarrow> locks_of d t = locks_of d s" for d
    using no by (auto simp: t locks_of_def split: if_splits)
  have "l \<notin> locks_of c s" using no by (simp add: locks_of_def)
  moreover have "spin_inv t"
    unfolding spin_inv_def
  proof (intro conjI allI)
    fix k show "locked (locks t k) = (lkcpu (locks t k) \<noteq> None)"
      using inv by (simp add: t spin_inv_def)
  next
    fix d
    show "finite (locks_of d t)" "locks_of d t \<noteq> {} \<longrightarrow> \<not> eflags_if (cpus t d)"
      using inv lc ld[of d] by (cases "d = c"; auto simp: t spin_inv_def)+
    show "ncli (cpus t d) = int (card (locks_of d t))"
      using inv lc ld[of d] \<open>l \<notin> locks_of c s\<close>
      by (cases "d = c") (auto simp: t spin_inv_def)
  qed
  ultimately show ?thesis using lc ld by blast
qed

lemma spin_inv_release:
  assumes inv: "spin_inv s" and rel: "spin_release c l s = Ok () t"
  shows "spin_inv t \<and> locks_of c t = locks_of c s - {l} \<and> l \<in> locks_of c s \<and>
    (\<forall>d. d \<noteq> c \<longrightarrow> locks_of d t = locks_of d s)"
proof -
  from inv rel have own: "owned c l s" and
    t: "t = s\<lparr>cpus := (cpus s)(c := (cpus s c)\<lparr>ncli := ncli (cpus s c) - 1,
            eflags_if := (ncli (cpus s c) = 1 \<and> intena (cpus s c))\<rparr>),
          locks := (locks s)(l := (locks s l)\<lparr>pcs := (pcs (locks s l))[0 := 0], lkcpu := None,
            locked := False\<rparr>)\<rparr>"
    by (auto simp: spin_release_eq split: if_splits)
  have no: "d \<noteq> c \<Longrightarrow> \<not> owned d l s" for d using own by (auto simp: owned_def)
  have lc: "locks_of c t = locks_of c s - {l}" and
    ld: "d \<noteq> c \<Longrightarrow> locks_of d t = locks_of d s" for d
    using no own by (auto simp: t locks_of_def split: if_splits)
  have l: "l \<in> locks_of c s" using own by (simp add: locks_of_def)
  have fin: "finite (locks_of c s)" using inv by (simp add: spin_inv_def)
  have "spin_inv t"
    unfolding spin_inv_def
  proof (intro conjI allI)
    fix k show "locked (locks t k) = (lkcpu (locks t k) \<noteq> None)"
      using inv by (simp add: t spin_inv_def)
  next
    fix d
    show "finite (locks_of d t)"
      using inv lc ld[of d] by (cases "d = c") (auto simp: spin_inv_def)
    have card: "int (card (locks_of c t)) = int (card (locks_of c s)) - 1"
      using lc l fin by (simp add: of_nat_diff card_gt_0_iff Suc_le_eq) (metis card_gt_0_iff empty_iff of_nat_diff Suc_leI of_nat_1 One_nat_def)
    then show "ncli (cpus t d) = int (card (locks_of d t))"
      using inv ld[of d] by (cases "d = c") (auto simp: t spin_inv_def)
    show "locks_of d t \<noteq> {} \<longrightarrow> \<not> eflags_if (cpus t d)"
    proof (cases "d = c")
      case True
      have "ncli (cpus s c) = int (card (locks_of c s))" using inv by (simp add: spin_inv_def)
      moreover have "eflags_if (cpus t c) \<Longrightarrow> ncli (cpus s c) = 1" by (simp add: t)
      moreover have "locks_of c t \<noteq> {} \<Longrightarrow> card (locks_of c t) \<noteq> 0" using lc fin by simp
      ultimately show ?thesis using True card by (cases "locks_of c t = {}") auto
    next
      case False
      with inv ld show ?thesis by (auto simp: t spin_inv_def)
    qed
  qed
  with lc ld l show ?thesis by blast
qed





subsection \<open>The view of one CPU\<close>

text \<open>
  The kernel's locks, with the name each is initialised with. \<open>BufLk i\<close> and \<open>InodeLk i\<close> are the
  spin locks inside the sleep locks of buffer \<open>i\<close> and of inode cache entry \<open>i\<close>.
\<close>

datatype lock =
    PtableLock | MlfqLock | TicksLock | KmemLock | BcacheLock | IcacheLock | FtableLock
  | LogLock | IdeLock | ConsLock | BufLk nat | InodeLk nat | PipeLock nat | SemLock nat

fun lock_name :: "lock \<Rightarrow> string" where
  "lock_name PtableLock = ''ptable''"
| "lock_name MlfqLock = ''mlfqstr''"
| "lock_name TicksLock = ''time''"
| "lock_name KmemLock = ''kmem''"
| "lock_name BcacheLock = ''bcache''"
| "lock_name IcacheLock = ''icache''"
| "lock_name FtableLock = ''ftable''"
| "lock_name LogLock = ''log''"
| "lock_name IdeLock = ''ide''"
| "lock_name ConsLock = ''console''"
| "lock_name (BufLk i) = ''sleep lock''"
| "lock_name (InodeLk i) = ''sleep lock''"
| "lock_name (PipeLock i) = ''pipe''"
| "lock_name (SemLock i) = ''semaphore''"

record kstate =
  held :: "lock set"

definition acquire :: "lock \<Rightarrow> 'a kstate_scheme \<Rightarrow> ('a kstate_scheme, unit) res" where
  "acquire l s =
     (if l \<in> held s then Fail (Panic (lock_name l))
      else Ok () (s\<lparr>held := insert l (held s)\<rparr>))"

definition release :: "lock \<Rightarrow> 'a kstate_scheme \<Rightarrow> ('a kstate_scheme, unit) res" where
  "release l s =
     (if l \<in> held s then Ok () (s\<lparr>held := held s - {l}\<rparr>)
      else Fail (Panic ''release''))"

lemma acquire_Ok [lock_simps]: "l \<notin> held s \<Longrightarrow> acquire l s = Ok () (s\<lparr>held := insert l (held s)\<rparr>)"
  by (simp add: acquire_def)

lemma release_Ok [lock_simps]: "l \<in> held s \<Longrightarrow> release l s = Ok () (s\<lparr>held := held s - {l}\<rparr>)"
  by (simp add: release_def)

lemma acquire_Ok_iff: "acquire l s = Ok x t \<longleftrightarrow> l \<notin> held s \<and> t = s\<lparr>held := insert l (held s)\<rparr>"
  by (auto simp: acquire_def)

lemma release_Ok_iff: "release l s = Ok x t \<longleftrightarrow> l \<in> held s \<and> t = s\<lparr>held := held s - {l}\<rparr>"
  by (auto simp: release_def)

lemma held_same [simp]: "s\<lparr>held := held s\<rparr> = s"
  by (cases s) simp

text \<open>
  Refinement: with \<open>locks_of c\<close> as the abstraction, a detailed lock operation that returns is the
  abstract one, and the detailed operation panics exactly when the abstract one does.
\<close>

definition cpu_view :: "nat \<Rightarrow> lock spinsys \<Rightarrow> kstate" where
  "cpu_view c s = \<lparr>held = locks_of c s\<rparr>"

definition named :: "lock spinsys \<Rightarrow> bool" where
  "named s \<longleftrightarrow> (\<forall>l. lkname (locks s l) = lock_name l)"

lemma acquire_refines:
  assumes "spin_inv s" and "spin_acquire c stk l s = Ok () t"
  shows "acquire l (cpu_view c s) = Ok () (cpu_view c t)"
  using spin_inv_acquire[OF assms] by (simp add: acquire_def cpu_view_def)

lemma release_refines:
  assumes "spin_inv s" and "spin_release c l s = Ok () t"
  shows "release l (cpu_view c s) = Ok () (cpu_view c t)"
  using spin_inv_release[OF assms] by (simp add: release_def cpu_view_def)

lemma acquire_panics_alike:
  assumes "spin_inv s" and "named s"
  shows "spin_acquire c stk l s = Fail (Panic msg) \<longleftrightarrow> acquire l (cpu_view c s) = Fail (Panic msg)"
  using assms by (auto simp: spin_acquire_eq acquire_def cpu_view_def locks_of_def named_def)

lemma release_panics_alike:
  assumes "spin_inv s"
  shows "spin_release c l s = Fail (Panic msg) \<longleftrightarrow> release l (cpu_view c s) = Fail (Panic msg)"
  using assms by (auto simp: spin_release_eq release_def cpu_view_def locks_of_def)

subsection \<open>Mutual exclusion\<close>


definition idle_cpus :: "lock spinsys" where
  "idle_cpus = \<lparr>cpus = (\<lambda>c. \<lparr>ncli = 0, intena = False, eflags_if = True\<rparr>),
     locks = (\<lambda>l. \<lparr>locked = False, lkname = lock_name l, lkcpu = None, pcs = []\<rparr>)\<rparr>"

lemma idle_cpus_inv: "spin_inv idle_cpus"
  by (simp add: spin_inv_def idle_cpus_def locks_of_def owned_def)



text \<open>
  C24. The lock operations the kernel model uses are the detailed ones: on every state of the CPUs
  that satisfies the invariant, a detailed \<^verbatim>\<open>acquire\<close> or \<^verbatim>\<open>release\<close> that returns is the abstract one on
  the set of locks the CPU holds, and one panics with a message exactly when the other does.
\<close>

theorem spin_refinement:
  assumes "spin_inv s" and "named s"
  shows "(spin_acquire c stk l s = Ok () t \<longrightarrow> acquire l (cpu_view c s) = Ok () (cpu_view c t)) \<and>
    (spin_release c l s = Ok () t \<longrightarrow> release l (cpu_view c s) = Ok () (cpu_view c t)) \<and>
    (spin_acquire c stk l s = Fail (Panic msg) \<longleftrightarrow> acquire l (cpu_view c s) = Fail (Panic msg)) \<and>
    (spin_release c l s = Fail (Panic msg) \<longleftrightarrow> release l (cpu_view c s) = Fail (Panic msg))"
  using acquire_refines[OF assms(1)] release_refines[OF assms(1)] acquire_panics_alike[OF assms]
    release_panics_alike[OF assms(1)] by blast

theorem spin_refinement_witness:
  "spin_release 0 KmemLock idle_cpus = Fail (Panic ''release'') \<and>
   release KmemLock (cpu_view 0 idle_cpus) = Fail (Panic ''release'')"
  using spin_refinement[of idle_cpus 0 "[]" KmemLock idle_cpus "''release''"] idle_cpus_inv
  by (simp add: named_def spin_release_def holding_def pushcli_def popcli_def idle_cpus_def Let_def)

end
