(* ===== verification/Xv6_String.thy ===== *)
theory Xv6_String
  imports Xv6_Prelude
begin

section \<open>Memory and string routines\<close>

text \<open>
  The routines of \<^verbatim>\<open>string.c\<close>. They work on a byte memory; a pointer is an address. Every loop is a
  recursive function on the same variables as the C loop. The loop of \<^verbatim>\<open>strlen\<close>, which runs until a NUL byte
  and has no bound of its own, takes fuel; any fuel above the length of the string gives the result.
\<close>

subsection \<open>memset\<close>

text \<open>The \<^verbatim>\<open>rep stosb\<close> and \<^verbatim>\<open>rep stosl\<close> instructions of \<^verbatim>\<open>x86.h\<close>.\<close>

fun stosb :: "bytes \<Rightarrow> nat \<Rightarrow> u8 \<Rightarrow> nat \<Rightarrow> bytes" where
  "stosb m addr data 0 = m"
| "stosb m addr data (Suc cnt) = stosb (m(addr := data)) (addr + 1) data cnt"

fun stosl :: "bytes \<Rightarrow> nat \<Rightarrow> u32 \<Rightarrow> nat \<Rightarrow> bytes" where
  "stosl m addr data 0 = m"
| "stosl m addr data (Suc cnt) = stosl (put32 m addr data) (addr + 4) data cnt"

definition memset :: "bytes \<Rightarrow> nat \<Rightarrow> u32 \<Rightarrow> nat \<Rightarrow> bytes" where
  "memset m dst c n =
     (if dst mod 4 = 0 \<and> n mod 4 = 0 then
        (let c = c AND 0xFF
         in stosl m dst (push_bit 24 c OR push_bit 16 c OR push_bit 8 c OR c) (n div 4))
      else stosb m dst (ucast c) n)"

subsection \<open>memcmp, memmove, memcpy\<close>

fun memcmp :: "bytes \<Rightarrow> nat \<Rightarrow> nat \<Rightarrow> nat \<Rightarrow> int" where
  "memcmp m s1 s2 0 = 0"
| "memcmp m s1 s2 (Suc n) =
     (if m s1 \<noteq> m s2 then uint (m s1) - uint (m s2) else memcmp m (s1 + 1) (s2 + 1) n)"

text \<open>The two copying loops of \<^verbatim>\<open>memmove\<close>: downwards from the ends, upwards from the starts.\<close>

fun move_down :: "bytes \<Rightarrow> nat \<Rightarrow> nat \<Rightarrow> nat \<Rightarrow> bytes" where
  "move_down m d s 0 = m"
| "move_down m d s (Suc n) = move_down (m(d - 1 := m (s - 1))) (d - 1) (s - 1) n"

fun move_up :: "bytes \<Rightarrow> nat \<Rightarrow> nat \<Rightarrow> nat \<Rightarrow> bytes" where
  "move_up m d s 0 = m"
| "move_up m d s (Suc n) = move_up (m(d := m s)) (d + 1) (s + 1) n"

definition memmove :: "bytes \<Rightarrow> nat \<Rightarrow> nat \<Rightarrow> nat \<Rightarrow> bytes" where
  "memmove m dst src n =
     (if src < dst \<and> src + n > dst then move_down m (dst + n) (src + n) n
      else move_up m dst src n)"

definition memcpy :: "bytes \<Rightarrow> nat \<Rightarrow> nat \<Rightarrow> nat \<Rightarrow> bytes" where
  "memcpy m dst src n = memmove m dst src n"

subsection \<open>Strings\<close>

fun strncmp :: "bytes \<Rightarrow> nat \<Rightarrow> nat \<Rightarrow> nat \<Rightarrow> int" where
  "strncmp m p q 0 = 0"
| "strncmp m p q (Suc n) =
     (if m p \<noteq> 0 \<and> m p = m q then strncmp m (p + 1) (q + 1) n
      else uint (m p) - uint (m q))"

text \<open>
  \<^verbatim>\<open>strncpy\<close>: the first loop copies up to and including a NUL, the second pads with NUL. The count
  \<open>n\<close> is a C \<open>int\<close>; a count of zero or less copies nothing.
\<close>

fun pad_nul :: "bytes \<Rightarrow> nat \<Rightarrow> nat \<Rightarrow> bytes" where
  "pad_nul m s 0 = m"
| "pad_nul m s (Suc n) = pad_nul (m(s := 0)) (s + 1) n"

fun strncpy_loop :: "bytes \<Rightarrow> nat \<Rightarrow> nat \<Rightarrow> nat \<Rightarrow> bytes" where
  "strncpy_loop m s t 0 = m"
| "strncpy_loop m s t (Suc n) =
     (let m' = m(s := m t)
      in if m t \<noteq> 0 then strncpy_loop m' (s + 1) (t + 1) n else pad_nul m' (s + 1) n)"

definition strncpy :: "bytes \<Rightarrow> nat \<Rightarrow> nat \<Rightarrow> int \<Rightarrow> bytes" where
  "strncpy m s t n = strncpy_loop m s t (nat n)"

text \<open>\<^verbatim>\<open>safestrcpy\<close> copies at most \<open>n - 1\<close> bytes and always stores a NUL.\<close>

fun safestrcpy_loop :: "bytes \<Rightarrow> nat \<Rightarrow> nat \<Rightarrow> nat \<Rightarrow> bytes" where
  "safestrcpy_loop m s t 0 = m(s := 0)"
| "safestrcpy_loop m s t (Suc n) =
     (let m' = m(s := m t)
      in if m t \<noteq> 0 then safestrcpy_loop m' (s + 1) (t + 1) n else m'(s + 1 := 0))"

definition safestrcpy :: "bytes \<Rightarrow> nat \<Rightarrow> nat \<Rightarrow> int \<Rightarrow> bytes" where
  "safestrcpy m s t n = (if n \<le> 0 then m else safestrcpy_loop m s t (nat n - 1))"

fun strlen_loop :: "nat \<Rightarrow> bytes \<Rightarrow> nat \<Rightarrow> nat \<Rightarrow> nat option" where
  "strlen_loop 0 m s n = None"
| "strlen_loop (Suc fuel) m s n = (if m (s + n) \<noteq> 0 then strlen_loop fuel m s (n + 1) else Some n)"

definition strlen :: "nat \<Rightarrow> bytes \<Rightarrow> nat \<Rightarrow> nat option" where
  "strlen fuel m s = strlen_loop fuel m s 0"

subsection \<open>Properties\<close>

lemma stosb_eq: "stosb m a d n = (\<lambda>i. if a \<le> i \<and> i < a + n then d else m i)"
proof (rule ext)
  fix i
  show "stosb m a d n i = (if a \<le> i \<and> i < a + n then d else m i)"
    by (induction n arbitrary: m a) auto
qed

lemma byte_of_fill:
  fixes c :: u32
  defines "f \<equiv> push_bit 24 (c AND 0xFF) OR push_bit 16 (c AND 0xFF) OR push_bit 8 (c AND 0xFF) OR (c AND 0xFF)"
  shows "(ucast f :: u8) = ucast c" "(ucast (drop_bit 8 f) :: u8) = ucast c"
    "(ucast (drop_bit 16 f) :: u8) = ucast c" "(ucast (drop_bit 24 f) :: u8) = ucast c"
proof -
  have m: "(0xFF :: u32) = mask 8" by (simp add: mask_eq_exp_minus_1)
  show "(ucast f :: u8) = ucast c" "(ucast (drop_bit 8 f) :: u8) = ucast c"
    "(ucast (drop_bit 16 f) :: u8) = ucast c" "(ucast (drop_bit 24 f) :: u8) = ucast c"
    unfolding f_def m by (rule bit_word_eqI; auto simp: bit_simps)+
qed

lemma stosl_fill:
  assumes "(ucast f :: u8) = d" "(ucast (drop_bit 8 f) :: u8) = d"
    "(ucast (drop_bit 16 f) :: u8) = d" "(ucast (drop_bit 24 f) :: u8) = d"
  shows "stosl m a f n = (\<lambda>i. if a \<le> i \<and> i < a + 4 * n then d else m i)"
  using assms
proof (induction n arbitrary: m a)
  case (Suc n)
  from Suc.IH[OF Suc.prems] show ?case
    by (intro ext) (auto simp: put32_def Suc.prems)
qed (auto simp: fun_eq_iff)

lemma memset_eq: "memset m dst c n = (\<lambda>i. if dst \<le> i \<and> i < dst + n then ucast c else m i)"
proof (cases "dst mod 4 = 0 \<and> n mod 4 = 0")
  case True
  then have "4 * (n div 4) = n" by auto
  moreover have "memset m dst c n = stosl m dst (push_bit 24 (c AND 0xFF) OR
      push_bit 16 (c AND 0xFF) OR push_bit 8 (c AND 0xFF) OR (c AND 0xFF)) (n div 4)"
    using True by (simp only: memset_def Let_def if_True simp_thms)
  ultimately show ?thesis
    by (simp only: stosl_fill[OF byte_of_fill])
next
  case False
  then have "memset m dst c n = stosb m dst (ucast c) n" by (auto simp: memset_def)
  then show ?thesis by (simp add: stosb_eq)
qed

lemma move_up_eq:
  "d \<le> s \<or> s + n \<le> d \<Longrightarrow> move_up m d s n = copy m d m s n"
proof (induction n arbitrary: m d s)
  case (Suc n)
  then have "d + 1 \<le> s + 1 \<or> s + 1 + n \<le> d + 1" by auto
  then have "move_up (m(d := m s)) (d + 1) (s + 1) n =
      copy (m(d := m s)) (d + 1) (m(d := m s)) (s + 1) n"
    by (rule Suc.IH)
  also have "\<dots> = copy m d m s (Suc n)"
    using Suc.prems by (intro ext) (auto simp: copy_def Suc_diff_Suc Suc_diff_le)
  finally show ?case by simp
qed simp

lemma move_down_eq:
  "s \<le> d \<Longrightarrow> move_down m (d + n) (s + n) n = copy m d m s n"
proof (induction n arbitrary: m)
  case (Suc n)
  have "move_down m (d + Suc n) (s + Suc n) (Suc n) =
      copy (m(d + n := m (s + n))) d (m(d + n := m (s + n))) s n"
    using Suc by simp
  also have "\<dots> = copy m d m s (Suc n)"
    using Suc.prems by (intro ext) (auto simp: copy_def)
  finally show ?case .
qed simp

lemma memmove_eq: "memmove m dst src n = copy m dst m src n"
  by (auto simp: memmove_def move_down_eq move_up_eq)

subsubsection \<open>Comparison\<close>

lemma memcmp_zero_iff: "memcmp m s1 s2 n = 0 \<longleftrightarrow> (\<forall>i<n. m (s1 + i) = m (s2 + i))"
proof (induction m s1 s2 n rule: memcmp.induct)
  case (2 m s1 s2 n)
  have "(\<forall>i<Suc n. m (s1 + i) = m (s2 + i)) \<longleftrightarrow>
      m s1 = m s2 \<and> (\<forall>i<n. m (s1 + 1 + i) = m (s2 + 1 + i))"
    by (subst All_less_Suc2) simp
  with 2 show ?case by (auto simp: word_uint_eq_iff)
qed simp

text \<open>The first \<open>n\<close> bytes of a string, up to but not including a NUL.\<close>

fun cstr :: "bytes \<Rightarrow> nat \<Rightarrow> nat \<Rightarrow> u8 list" where
  "cstr m p 0 = []"
| "cstr m p (Suc n) = (if m p = 0 then [] else m p # cstr m (p + 1) n)"

lemma strncmp_zero_iff: "strncmp m p q n = 0 \<longleftrightarrow> cstr m p n = cstr m q n"
  by (induction m p q n rule: strncmp.induct) (auto simp: word_uint_eq_iff)

lemma strncpy_loop_frame: "i < s \<or> s + n \<le> i \<Longrightarrow> strncpy_loop m s t n i = m i"
proof (induction n arbitrary: m s t)
  case (Suc n)
  have pad: "j < s' \<or> s' + k \<le> j \<Longrightarrow> pad_nul m' s' k j = m' j" for m' s' k j
    by (induction k arbitrary: m' s') auto
  from Suc show ?case by (auto simp: Let_def pad)
qed simp

subsubsection \<open>Bounded copies\<close>

lemma safestrcpy_loop_frame: "i < s \<or> s + n < i \<Longrightarrow> safestrcpy_loop m s t n i = m i"
  by (induction n arbitrary: m s t) (auto simp: Let_def)

lemma safestrcpy_loop_nul: "\<exists>i\<le>n. safestrcpy_loop m s t n (s + i) = 0"
proof (induction n arbitrary: m s t)
  case (Suc n)
  show ?case
  proof (cases "m t = 0")
    case True
    then show ?thesis by (intro exI[of _ 0]) (simp add: Let_def)
  next
    case False
    from Suc obtain i where "i \<le> n" "safestrcpy_loop (m(s := m t)) (s + 1) (t + 1) n (s + 1 + i) = 0"
      by blast
    with False show ?thesis by (intro exI[of _ "Suc i"]) (simp add: Let_def)
  qed
qed simp

subsubsection \<open>strlen\<close>

lemma strlen_loop_eq:
  assumes "m (s + k) = 0" and "\<forall>i<k. m (s + i) \<noteq> 0" and "n \<le> k" and "k - n < fuel"
  shows "strlen_loop fuel m s n = Some k"
  using assms
proof (induction fuel arbitrary: n)
  case (Suc fuel)
  then show ?case by (cases "n = k") auto
qed simp

text \<open>
  C27. \<^verbatim>\<open>memmove\<close> copies \<open>n\<close> bytes also when source and destination overlap: every destination byte gets
  the value its source byte had before the call, and no other byte changes. \<^verbatim>\<open>memset\<close>, which stores
  words when address and length are multiples of four, sets exactly the \<open>n\<close> bytes.
\<close>

theorem memmove_memset_bytes:
  "memmove m dst src n i = (if dst \<le> i \<and> i < dst + n then m (src + (i - dst)) else m i) \<and>
   memset m dst c n i = (if dst \<le> i \<and> i < dst + n then ucast c else m i)"
  by (simp add: memmove_eq copy_def memset_eq)

end
