(* ===== verification/Xv6_Kalloc.thy ===== *)
theory Xv6_Kalloc
  imports Xv6_Spinlock Xv6_String
begin

section \<open>Physical page allocator\<close>

text \<open>
  \<^verbatim>\<open>kalloc.c\<close>: free pages are linked through their own first word. The state adds the kernel's
  memory (a byte memory over kernel addresses), the head of the free list and \<^verbatim>\<open>use_lock\<close>; \<open>kern_end\<close>
  is the linker's symbol \<^verbatim>\<open>end\<close>, and \<open>addr_trapret\<close>, \<open>addr_forkret\<close> are the addresses of the two
  routines a new process returns to: values fixed when the kernel is linked.
\<close>

definition PGSIZE :: nat where "PGSIZE = 4096"
definition PHYSTOP :: nat where "PHYSTOP = 0xE000000"
definition EXTMEM :: nat where "EXTMEM = 0x100000"
definition DEVSPACE :: nat where "DEVSPACE = 0xFE000000"

text \<open>Address arithmetic is modulo \<open>2 ^ 32\<close>.\<close>

definition V2P :: "nat \<Rightarrow> nat" where
  "V2P a = (a + 2 ^ 32 - KERNBASE) mod 2 ^ 32"

definition P2V :: "nat \<Rightarrow> nat" where
  "P2V a = (a + KERNBASE) mod 2 ^ 32"

definition PGROUNDUP :: "nat \<Rightarrow> nat" where
  "PGROUNDUP sz = ((sz + PGSIZE - 1) mod 2 ^ 32) div PGSIZE * PGSIZE"

definition PGROUNDDOWN :: "nat \<Rightarrow> nat" where
  "PGROUNDDOWN a = a div PGSIZE * PGSIZE"

record kmem_state = kstate +
  mem :: bytes
  use_lock :: bool
  freelist :: nat
  kern_end :: nat
  kern_data :: nat
  addr_trapret :: nat
  addr_forkret :: nat

definition kfree :: "nat \<Rightarrow> 'a kmem_state_scheme \<Rightarrow> ('a kmem_state_scheme, unit) res" where
  "kfree v s =
     (if v mod PGSIZE \<noteq> 0 \<or> v < kern_end s \<or> V2P v \<ge> PHYSTOP then Fail (Panic ''kfree'')
      else
        let s = s\<lparr>mem := memset (mem s) v 1 PGSIZE\<rparr>
        in bnd (if use_lock s then acquire KmemLock s else Ok () s) (\<lambda>_ s.
           let s = s\<lparr>mem := put32 (mem s) v (of_nat (freelist s))\<rparr>;
               s = s\<lparr>freelist := v\<rparr>
           in if use_lock s then release KmemLock s else Ok () s))"

definition kalloc :: "'a kmem_state_scheme \<Rightarrow> ('a kmem_state_scheme, nat) res" where
  "kalloc s =
     bnd (if use_lock s then acquire KmemLock s else Ok () s) (\<lambda>_ s.
     let r = freelist s;
         s = (if r \<noteq> 0 then s\<lparr>freelist := unat (get32 (mem s) r)\<rparr> else s)
     in bnd (if use_lock s then release KmemLock s else Ok () s) (\<lambda>_ s. Ok r s))"

function freerange_loop :: "nat \<Rightarrow> nat \<Rightarrow> 'a kmem_state_scheme \<Rightarrow> ('a kmem_state_scheme, unit) res" where
  "freerange_loop p vend s =
     (if p + PGSIZE \<le> vend
      then bnd (kfree p s) (\<lambda>_ s. freerange_loop (p + PGSIZE) vend s)
      else Ok () s)"
  by pat_completeness auto
termination
  by (relation "measure (\<lambda>(p, vend, s). Suc vend - p)") (auto simp: PGSIZE_def)

declare freerange_loop.simps [simp del]

definition freerange :: "nat \<Rightarrow> nat \<Rightarrow> 'a kmem_state_scheme \<Rightarrow> ('a kmem_state_scheme, unit) res" where
  "freerange vstart vend s = freerange_loop (PGROUNDUP vstart) vend s"

text \<open>\<^verbatim>\<open>initlock(&kmem.lock, "kmem")\<close> leaves the lock free.\<close>

definition kinit1 :: "nat \<Rightarrow> nat \<Rightarrow> 'a kmem_state_scheme \<Rightarrow> ('a kmem_state_scheme, unit) res" where
  "kinit1 vstart vend s =
     (let s = s\<lparr>held := held s - {KmemLock}\<rparr>;
          s = s\<lparr>use_lock := False\<rparr>
      in freerange vstart vend s)"

definition kinit2 :: "nat \<Rightarrow> nat \<Rightarrow> 'a kmem_state_scheme \<Rightarrow> ('a kmem_state_scheme, unit) res" where
  "kinit2 vstart vend s =
     bnd (freerange vstart vend s) (\<lambda>_ s. Ok () (s\<lparr>use_lock := True\<rparr>))"

subsection \<open>The free list as a list of pages\<close>

text \<open>A page the allocator may hand out.\<close>

definition good_page :: "nat \<Rightarrow> nat \<Rightarrow> bool" where
  "good_page e p \<longleftrightarrow> p mod PGSIZE = 0 \<and> e \<le> p \<and> V2P p < PHYSTOP \<and> 0 < p \<and> p < 2 ^ 32"

fun flist :: "nat \<Rightarrow> bytes \<Rightarrow> nat \<Rightarrow> nat list \<Rightarrow> bool" where
  "flist e m h [] \<longleftrightarrow> h = 0"
| "flist e m h (p # ps) \<longleftrightarrow> h = p \<and> good_page e p \<and> flist e m (unat (get32 m p)) ps"

definition kmem_inv :: "'a kmem_state_scheme \<Rightarrow> nat list \<Rightarrow> bool" where
  "kmem_inv s ps \<longleftrightarrow>
     flist (kern_end s) (mem s) (freelist s) ps \<and> distinct ps \<and> KmemLock \<notin> held s"

lemma kfree_eq [lock_simps]:
  assumes "KmemLock \<notin> held s"
  shows "kfree v s =
    (if v mod PGSIZE \<noteq> 0 \<or> v < kern_end s \<or> V2P v \<ge> PHYSTOP then Fail (Panic ''kfree'')
     else Ok () (s\<lparr>mem := put32 (memset (mem s) v 1 PGSIZE) v (of_nat (freelist s)), freelist := v\<rparr>))"
  using assms by (auto simp: kfree_def Let_def acquire_def release_def)

lemma kalloc_eq [lock_simps]:
  assumes "KmemLock \<notin> held s"
  shows "kalloc s = Ok (freelist s)
    (if freelist s \<noteq> 0 then s\<lparr>freelist := unat (get32 (mem s) (freelist s))\<rparr> else s)"
  using assms by (auto simp: kalloc_def Let_def acquire_def release_def)

lemma flist_good: "flist e m h ps \<Longrightarrow> p \<in> set ps \<Longrightarrow> good_page e p"
  by (induction ps arbitrary: h) auto

lemma pages_apart:
  assumes "good_page e p" and "good_page e q" and "p \<noteq> q"
  shows "p + PGSIZE \<le> q \<or> q + PGSIZE \<le> p"
proof -
  from assms obtain a b where "p = PGSIZE * a" "q = PGSIZE * b"
    by (auto simp: good_page_def elim!: dvdE)
  moreover from this assms(3) have "a + 1 \<le> b \<or> b + 1 \<le> a" by (auto simp: PGSIZE_def)
  ultimately show ?thesis by (auto simp: PGSIZE_def)
qed

text \<open>Writing inside one page leaves the links in the other pages alone.\<close>

lemma flist_frame:
  assumes "flist e m h ps" and "good_page e v" and "v \<notin> set ps"
    and "\<And>i. i < v \<or> v + PGSIZE \<le> i \<Longrightarrow> m' i = m i"
  shows "flist e m' h ps"
  using assms(1,3)
proof (induction ps arbitrary: h)
  case (Cons p ps)
  then have "p + PGSIZE \<le> v \<or> v + PGSIZE \<le> p"
    using pages_apart assms(2) by auto
  then have "get32 m' p = get32 m p"
    using assms(4) by (auto simp: get32_def PGSIZE_def)
  with Cons show ?case by auto
qed simp

lemma kfree_inv:
  assumes inv: "kmem_inv s ps" and v: "good_page (kern_end s) v" "v \<notin> set ps"
  shows "\<exists>t. kfree v s = Ok () t \<and> kmem_inv t (v # ps)"
proof -
  let ?m = "put32 (memset (mem s) v 1 PGSIZE) v (of_nat (freelist s))"
  have fl: "flist (kern_end s) (mem s) (freelist s) ps" using inv by (simp add: kmem_inv_def)
  have "flist (kern_end s) ?m (freelist s) ps"
    by (rule flist_frame[OF fl v]) (auto simp: put32_def memset_eq PGSIZE_def)
  moreover have "freelist s < 2 ^ 32"
    using fl flist_good[OF fl] by (cases ps) (auto simp: good_page_def)
  then have "unat (of_nat (freelist s) :: u32) = freelist s"
    by (simp add: unat_of_nat take_bit_eq_mod)
  ultimately show ?thesis
    using inv v by (auto simp: kmem_inv_def kfree_eq good_page_def)
qed

lemma kalloc_inv_Cons:
  assumes "kmem_inv s (p # ps)"
  shows "\<exists>t. kalloc s = Ok p t \<and> kmem_inv t ps \<and> mem t = mem s"
  using assms by (auto simp: kmem_inv_def kalloc_eq good_page_def)

lemma kalloc_inv_Nil:
  assumes "kmem_inv s []"
  shows "kalloc s = Ok 0 s"
  using assms by (auto simp: kmem_inv_def kalloc_eq)

subsection \<open>The allocator's interface\<close>

text \<open>
  What the clients (page tables, pipes, kernel stacks) rely on: \<open>avail s ps\<close> says which pages are
  free, in the order they will be handed out.
\<close>

locale page_allocator =
  fixes alloc :: "'s \<Rightarrow> ('s, nat) res"
    and free :: "nat \<Rightarrow> 's \<Rightarrow> ('s, unit) res"
    and avail :: "'s \<Rightarrow> nat list \<Rightarrow> bool"
    and page :: "'s \<Rightarrow> nat \<Rightarrow> bool"
  assumes alloc_Cons: "avail s (p # ps) \<Longrightarrow> \<exists>t. alloc s = Ok p t \<and> avail t ps \<and> page t = page s"
    and alloc_Nil: "avail s [] \<Longrightarrow> alloc s = Ok 0 s"
    and free_page: "avail s ps \<Longrightarrow> page s p \<Longrightarrow> p \<notin> set ps \<Longrightarrow>
      \<exists>t. free p s = Ok () t \<and> avail t (p # ps) \<and> page t = page s"
    and avail_distinct: "avail s ps \<Longrightarrow> distinct ps"
    and avail_page: "avail s ps \<Longrightarrow> p \<in> set ps \<Longrightarrow> page s p \<and> p \<noteq> 0"
begin

fun alloc_n :: "nat \<Rightarrow> 's \<Rightarrow> ('s, nat list) res" where
  "alloc_n 0 s = Ok [] s"
| "alloc_n (Suc n) s = bnd (alloc s) (\<lambda>p s. bnd (alloc_n n s) (\<lambda>ps s. Ok (p # ps) s))"

fun free_all :: "nat list \<Rightarrow> 's \<Rightarrow> ('s, unit) res" where
  "free_all [] s = Ok () s"
| "free_all (p # ps) s = bnd (free p s) (\<lambda>_ s. free_all ps s)"

lemma alloc_zero_iff: "avail s ps \<Longrightarrow> (\<exists>t. alloc s = Ok 0 t) \<longleftrightarrow> ps = []"
proof (cases ps)
  case (Cons p qs)
  assume a: "avail s ps"
  then obtain t where "alloc s = Ok p t" using alloc_Cons Cons by blast
  moreover have "p \<noteq> 0" using avail_page[OF a, of p] Cons by simp
  ultimately show ?thesis using Cons by simp
qed (simp add: alloc_Nil)

lemma alloc_n_take:
  "avail s ps \<Longrightarrow> n \<le> length ps \<Longrightarrow>
   \<exists>t. alloc_n n s = Ok (take n ps) t \<and> avail t (drop n ps) \<and> page t = page s"
proof (induction n arbitrary: s ps)
  case (Suc n)
  then obtain p qs where ps: "ps = p # qs" by (cases ps) auto
  with Suc.prems alloc_Cons obtain u where u: "alloc s = Ok p u" "avail u qs" "page u = page s"
    by blast
  from Suc.IH[OF u(2)] Suc.prems ps u(3) obtain t where
    "alloc_n n u = Ok (take n qs) t" "avail t (drop n qs)" "page t = page s" by auto
  with ps u(1) show ?case by simp
qed simp

lemma alloc_n_distinct:
  assumes "avail s ps" and "n \<le> length ps" and "alloc_n n s = Ok qs t"
  shows "distinct qs \<and> length qs = n \<and> 0 \<notin> set qs"
proof -
  have qs: "qs = take n ps" using alloc_n_take[OF assms(1,2)] assms(3) by auto
  have "0 \<notin> set ps" using avail_page[OF assms(1)] by blast
  with qs avail_distinct[OF assms(1)] assms(2) show ?thesis
    using in_set_takeD by (fastforce simp: distinct_take)
qed

lemma free_all_avail:
  "avail s ps \<Longrightarrow> distinct qs \<Longrightarrow> set qs \<inter> set ps = {} \<Longrightarrow> (\<forall>q\<in>set qs. page s q) \<Longrightarrow>
   \<exists>t. free_all qs s = Ok () t \<and> avail t (rev qs @ ps)"
proof (induction qs arbitrary: s ps)
  case (Cons q qs)
  then obtain u where u: "free q s = Ok () u" "avail u (q # ps)" "page u = page s"
    using free_page[of s ps q] by auto
  from Cons.IH[OF u(2)] Cons.prems u(3) obtain t where
    "free_all qs u = Ok () t" "avail t (rev qs @ q # ps)" by auto
  with u(1) show ?case by simp
qed simp

end

interpretation kmem: page_allocator kalloc kfree kmem_inv "\<lambda>s. good_page (kern_end s)"
proof unfold_locales
  fix s :: "'a kmem_state_scheme" and p ps
  assume a: "kmem_inv s (p # ps)"
  then show "\<exists>t. kalloc s = Ok p t \<and> kmem_inv t ps \<and> good_page (kern_end t) = good_page (kern_end s)"
    by (auto simp: kmem_inv_def kalloc_eq good_page_def)
next
  fix s :: "'a kmem_state_scheme" and ps p
  assume "kmem_inv s ps" "good_page (kern_end s) p" "p \<notin> set ps"
  moreover from this have "\<And>t. kfree p s = Ok () t \<Longrightarrow> kern_end t = kern_end s"
    by (auto simp: kmem_inv_def kfree_eq split: if_splits)
  ultimately show "\<exists>t. kfree p s = Ok () t \<and> kmem_inv t (p # ps) \<and>
      good_page (kern_end t) = good_page (kern_end s)"
    using kfree_inv by metis
next
  fix s :: "'a kmem_state_scheme" and ps p
  assume "kmem_inv s ps" "p \<in> set ps"
  then show "good_page (kern_end s) p \<and> p \<noteq> 0"
    by (auto simp: kmem_inv_def good_page_def dest: flist_good)
qed (auto simp: kmem_inv_def kalloc_inv_Nil)

subsection \<open>The allocator's properties\<close>

text \<open>
  C25. The page allocator: with the pages \<open>ps\<close> free, \<^verbatim>\<open>kalloc\<close> returns 0 exactly when \<open>ps\<close> is empty;
  otherwise it returns a page of \<open>ps\<close> which is then no longer free, leaving the other pages free, and
  does not write to memory.
\<close>

theorem kalloc_correct:
  assumes "kmem_inv s ps"
  shows "\<exists>r t. kalloc s = Ok r t \<and> mem t = mem s \<and>
    (if ps = [] then r = 0 \<and> t = s
     else r = hd ps \<and> r \<noteq> 0 \<and> r \<notin> set (tl ps) \<and> good_page (kern_end s) r \<and> kmem_inv t (tl ps))"
proof (cases ps)
  case Nil
  then show ?thesis using kalloc_inv_Nil assms by simp
next
  case (Cons p qs)
  then show ?thesis
    using kalloc_inv_Cons[of s p qs] assms kmem.avail_distinct[OF assms] kmem.avail_page[OF assms, of p]
    by auto
qed

definition two_pages :: kmem_state where
  "two_pages = \<lparr>held = {}, mem = put32 (\<lambda>_. 0) 0x80400000 0x80401000, use_lock = True,
     freelist = 0x80400000, kern_end = 0x80200000, kern_data = 0x80108000, addr_trapret = 0, addr_forkret = 0\<rparr>"

lemma two_pages_inv: "kmem_inv two_pages [0x80400000, 0x80401000]"
proof -
  have "get32 (mem two_pages) 0x80400000 = 0x80401000" by (simp add: two_pages_def)
  moreover have "get32 (mem two_pages) 0x80401000 = 0"
    by (simp add: two_pages_def get32_def put32_def)
  ultimately show ?thesis
    by (simp add: kmem_inv_def good_page_def two_pages_def PGSIZE_def V2P_def KERNBASE_def PHYSTOP_def)
qed

theorem kalloc_correct_witness:
  "\<exists>t. kalloc two_pages = Ok 0x80400000 t \<and> kmem_inv t [0x80401000]"
  using kalloc_correct[OF two_pages_inv] by auto

text \<open>
  C26. Freeing a page that is not free puts it at the front of the free list, so that the next
  \<^verbatim>\<open>kalloc\<close> returns exactly it and restores the list.
\<close>

theorem kfree_kalloc_roundtrip:
  assumes "kmem_inv s ps" and "good_page (kern_end s) v" and "v \<notin> set ps"
  shows "\<exists>t u. kfree v s = Ok () t \<and> kmem_inv t (v # ps) \<and> kalloc t = Ok v u \<and> kmem_inv u ps"
  using kfree_inv[OF assms] kalloc_inv_Cons by blast

theorem kfree_kalloc_roundtrip_witness:
  "\<exists>t u. kfree 0x80402000 two_pages = Ok () t \<and> kalloc t = Ok 0x80402000 u \<and>
     kmem_inv u [0x80400000, 0x80401000]"
proof -
  have "good_page (kern_end two_pages) 0x80402000"
    by (simp add: good_page_def two_pages_def PGSIZE_def V2P_def KERNBASE_def PHYSTOP_def)
  from kfree_kalloc_roundtrip[OF two_pages_inv this] show ?thesis by auto
qed

end
