(* ===== verification/Xv6_Proc.thy ===== *)
theory Xv6_Proc
  imports Xv6_Kalloc
begin

section \<open>Processes and the run queues\<close>

text \<open>
  The data of \<^verbatim>\<open>proc.h\<close> and \<^verbatim>\<open>proc.c\<close> (\<^verbatim>\<open>struct proc\<close>, \<^verbatim>\<open>ptable\<close>, \<^verbatim>\<open>mlfqstr\<close>) and the primitives on them:
  membership of the multi-level feedback queue (counters only), the linked list of stride
  processes, the linked list of the threads of a process, and the lookups in the process table. A
  \<^verbatim>\<open>struct proc *\<close> is the index of its slot in \<^verbatim>\<open>ptable.proc\<close>.
\<close>

subsection \<open>Data\<close>

definition NPROC :: nat where "NPROC = 64"
definition NOFILE :: nat where "NOFILE = 16"
definition KSTACKSIZE :: nat where "KSTACKSIZE = 4096"
definition STRIDE_DIVIDEND :: int where "STRIDE_DIVIDEND = 10000"

datatype procstate = UNUSED | EMBRYO | SLEEPING | RUNNABLE | RUNNING | ZOMBIE

text \<open>Sleep channels: the kernel addresses that are slept on.\<close>

datatype chan =
    ChanProc nat | ChanTicks | ChanLog | ChanBuf nat | ChanBufLk nat | ChanInodeLk nat
  | ChanPipeR nat | ChanPipeW nat | ChanInput | ChanSem nat

record trapframe =
  tf_edi :: u32
  tf_esi :: u32
  tf_ebp :: u32
  tf_oesp :: u32
  tf_ebx :: u32
  tf_edx :: u32
  tf_ecx :: u32
  tf_eax :: u32
  tf_gs :: u16
  tf_fs :: u16
  tf_es :: u16
  tf_ds :: u16
  tf_trapno :: u32
  tf_err :: u32
  tf_eip :: u32
  tf_cs :: u16
  tf_eflags :: u32
  tf_esp :: u32
  tf_ss :: u16

record kcontext =
  cx_edi :: u32
  cx_esi :: u32
  cx_ebx :: u32
  cx_ebp :: u32
  cx_eip :: u32

record proc =
  p_level :: u32
  p_timeallot :: u32
  p_timequant :: u32
  p_tickcount :: u32
  p_ustack :: nat
  p_share :: int
  p_stride :: int
  p_pass :: int
  p_waiting_tid :: int
  p_thread_count :: int
  p_next_tid :: int
  p_thread_id :: int
  p_lwpgroup :: "nat option"
  p_t_link :: "nat option"
  p_s_link :: "nat option"
  p_retval :: int
  p_sz :: nat
  p_pgdir :: nat
  p_kstack :: nat
  p_state :: procstate
  p_pid :: int
  p_parent :: "nat option"
  p_tf :: trapframe
  p_context :: kcontext
  p_chan :: "chan option"
  p_killed :: bool
  p_ofile :: "nat \<Rightarrow> nat option"
  p_cwd :: "nat option"
  p_name :: string

record mlfq =
  priboosttime :: u32
  mlfq_pass :: u32
  mlfq_stride :: u32
  mlfq_proc_cnt :: int
  stride_share :: int
  stride_head :: "nat option"
  qlevels :: "nat \<Rightarrow> int"
  next_t :: "nat \<Rightarrow> nat option"

text \<open>\<open>curproc\<close> is this CPU's \<^verbatim>\<open>c->proc\<close>; \<open>searchidx\<close> is the scheduler's local variable;
  \<open>cr3\<close> and \<open>ts_esp0\<close> are the page table register and the kernel stack of the task state segment.\<close>

record proc_state = kmem_state +
  ptable :: "nat \<Rightarrow> proc"
  mlfqstr :: mlfq
  initproc :: "nat option"
  nextpid :: int
  curproc :: "nat option"
  ticks :: u32
  searchidx :: nat
  kpgdir :: nat
  cr3 :: nat
  ts_esp0 :: nat

text \<open>\<open>NOLEVEL\<close> is the value -1 stored in the unsigned field \<^verbatim>\<open>level\<close> of a stride process.\<close>

definition NOLEVEL :: u32 where "NOLEVEL = - 1"

definition upd_proc :: "nat \<Rightarrow> (proc \<Rightarrow> proc) \<Rightarrow> 'a proc_state_scheme \<Rightarrow> 'a proc_state_scheme" where
  "upd_proc p f s = s\<lparr>ptable := (ptable s)(p := f (ptable s p))\<rparr>"

definition upd_mlfq :: "(mlfq \<Rightarrow> mlfq) \<Rightarrow> 'a proc_state_scheme \<Rightarrow> 'a proc_state_scheme" where
  "upd_mlfq f s = s\<lparr>mlfqstr := f (mlfqstr s)\<rparr>"

text \<open>\<^verbatim>\<open>myproc()\<close>; using its result when it is NULL is undefined.\<close>

definition myproc :: "'a proc_state_scheme \<Rightarrow> nat option" where
  "myproc s = curproc s"

definition with_myproc ::
  "(nat \<Rightarrow> 'a proc_state_scheme \<Rightarrow> ('a proc_state_scheme, 'b) res) \<Rightarrow>
   'a proc_state_scheme \<Rightarrow> ('a proc_state_scheme, 'b) res" where
  "with_myproc f s =
     (case myproc s of None \<Rightarrow> Fail (UB ''myproc is NULL'') | Some p \<Rightarrow> f p s)"

subsection \<open>C integer arithmetic\<close>

text \<open>
  C division truncates towards zero; \<open>round_cast q\<close> is \<^verbatim>\<open>(int)(q + 0.5)\<close> for an integer \<open>q\<close>, which
  the compiler has already divided.
\<close>

definition c_div :: "int \<Rightarrow> int \<Rightarrow> int" where
  "c_div a b = sgn a * sgn b * (\<bar>a\<bar> div \<bar>b\<bar>)"

definition round_cast :: "int \<Rightarrow> int" where
  "round_cast q = (if 0 \<le> q then q else q + 1)"

subsection \<open>The multi-level feedback queue\<close>

definition mlfqrm :: "nat \<Rightarrow> 'a proc_state_scheme \<Rightarrow> 'a proc_state_scheme" where
  "mlfqrm p s =
     (let lv = p_level (ptable s p);
          m = mlfqstr s;
          m = (if lv \<le> 2
               then m\<lparr>qlevels := (qlevels m)(unat lv := qlevels m (unat lv) - 1)\<rparr> else m);
          m = m\<lparr>mlfq_proc_cnt := mlfq_proc_cnt m - 1\<rparr>
      in s\<lparr>mlfqstr := m\<rparr>)"

definition mlfqadd :: "nat \<Rightarrow> 'a proc_state_scheme \<Rightarrow> 'a proc_state_scheme" where
  "mlfqadd p s =
     (let lv = p_level (ptable s p);
          m = mlfqstr s;
          m = (if lv \<le> 2
               then m\<lparr>qlevels := (qlevels m)(unat lv := qlevels m (unat lv) + 1)\<rparr> else m);
          m = m\<lparr>mlfq_proc_cnt := mlfq_proc_cnt m + 1\<rparr>
      in s\<lparr>mlfqstr := m\<rparr>)"

definition priboost_one :: "nat \<Rightarrow> 'a proc_state_scheme \<Rightarrow> 'a proc_state_scheme" where
  "priboost_one p s =
     (let q = ptable s p
      in if p_state q = RUNNABLE \<and> p_level q \<noteq> NOLEVEL \<and> p_pid q \<noteq> -1 then
           let s = upd_mlfq (\<lambda>m. m\<lparr>qlevels :=
                     (qlevels m)(unat (p_level q) := qlevels m (unat (p_level q)) - 1)\<rparr>) s;
               s = upd_proc p (\<lambda>q. q\<lparr>p_level := 2, p_timequant := 5, p_timeallot := 20,
                     p_tickcount := 0\<rparr>) s
           in upd_mlfq (\<lambda>m. m\<lparr>qlevels := (qlevels m)(2 := qlevels m 2 + 1)\<rparr>) s
         else s)"

definition priboost :: "'a proc_state_scheme \<Rightarrow> 'a proc_state_scheme" where
  "priboost s = fold priboost_one [0..<NPROC] s"

definition lowerlevel :: "nat \<Rightarrow> 'a proc_state_scheme \<Rightarrow> 'a proc_state_scheme" where
  "lowerlevel p s =
     (let lv = p_level (ptable s p)
      in if lv < 1 \<or> lv > 2 then s
         else
           let s = upd_mlfq (\<lambda>m. m\<lparr>qlevels := (qlevels m)(unat lv := qlevels m (unat lv) - 1)\<rparr>) s;
               lv = lv - 1;
               s = upd_proc p (\<lambda>q. q\<lparr>p_level := lv, p_tickcount := 0\<rparr>) s;
               s = (if lv = 1 then upd_proc p (\<lambda>q. q\<lparr>p_timequant := 10, p_timeallot := 40\<rparr>) s
                    else if lv = 0 then upd_proc p (\<lambda>q. q\<lparr>p_timequant := 20\<rparr>) s
                    else s)
           in upd_mlfq (\<lambda>m. m\<lparr>qlevels := (qlevels m)(unat lv := qlevels m (unat lv) + 1)\<rparr>) s)"

subsection \<open>The stride queue\<close>

text \<open>
  Walking a linked list of slots: there are \<open>NPROC\<close> slots, so a walk that has not ended after
  \<open>NPROC\<close> steps is on a cycle and never ends; \<open>None\<close> says so.
\<close>

definition WALK :: nat where "WALK = Suc NPROC"

fun stride_unlink :: "nat \<Rightarrow> nat option \<Rightarrow> nat \<Rightarrow> (nat \<Rightarrow> proc) \<Rightarrow> (nat \<Rightarrow> proc) option" where
  "stride_unlink 0 pptr p tb = None"
| "stride_unlink (Suc n) None p tb = Some tb"
| "stride_unlink (Suc n) (Some q) p tb =
     (if p_s_link (tb q) = Some p then Some (tb(q := (tb q)\<lparr>p_s_link := p_s_link (tb p)\<rparr>))
      else stride_unlink n (p_s_link (tb q)) p tb)"

definition set_mlfq_stride :: "'a proc_state_scheme \<Rightarrow> ('a proc_state_scheme, unit) res" where
  "set_mlfq_stride s =
     (let d = 100 - stride_share (mlfqstr s)
      in if d = 0 then Fail (UB ''division by zero'')
         else Ok () (upd_mlfq (\<lambda>m. m\<lparr>mlfq_stride :=
                word_of_int (round_cast (c_div STRIDE_DIVIDEND d))\<rparr>) s))"

definition striderm :: "nat \<Rightarrow> 'a proc_state_scheme \<Rightarrow> ('a proc_state_scheme, unit) res" where
  "striderm p s =
     bnd (if stride_head (mlfqstr s) = Some p
          then Ok () (upd_mlfq (\<lambda>m. m\<lparr>stride_head := p_s_link (ptable s p)\<rparr>) s)
          else case stride_unlink WALK (stride_head (mlfqstr s)) p (ptable s) of
                 None \<Rightarrow> Fail Hang
               | Some tb \<Rightarrow> Ok () (s\<lparr>ptable := tb\<rparr>)) (\<lambda>_ s.
     let s = upd_proc p (\<lambda>q. q\<lparr>p_s_link := None\<rparr>) s;
         s = upd_mlfq (\<lambda>m. m\<lparr>stride_share := stride_share m - p_share (ptable s p)\<rparr>) s
     in bnd (set_mlfq_stride s) (\<lambda>_ s.
        Ok () (if stride_head (mlfqstr s) = None then upd_mlfq (\<lambda>m. m\<lparr>mlfq_pass := 0\<rparr>) s else s)))"

definition strideadd :: "nat \<Rightarrow> 'a proc_state_scheme \<Rightarrow> 'a proc_state_scheme" where
  "strideadd p s =
     (let s = upd_proc p (\<lambda>q. q\<lparr>p_s_link := stride_head (mlfqstr s)\<rparr>) s
      in upd_mlfq (\<lambda>m. m\<lparr>stride_head := Some p\<rparr>) s)"

definition pinit :: "'a proc_state_scheme \<Rightarrow> ('a proc_state_scheme, unit) res" where
  "pinit s =
     (let s = s\<lparr>held := held s - {PtableLock}\<rparr>;
          s = s\<lparr>held := held s - {MlfqLock}\<rparr>
      in bnd (acquire MlfqLock s) (\<lambda>_ s.
         let s = upd_mlfq (\<lambda>m. m\<lparr>priboosttime := 0,
                   qlevels := (qlevels m)(0 := 0, 1 := 0, 2 := 0),
                   stride_head := None, stride_share := 0, mlfq_pass := 0, mlfq_stride := 0\<rparr>) s
         in release MlfqLock s))"

subsection \<open>Address space switch\<close>

text \<open>\<^verbatim>\<open>vm.c\<close>'s switches: the checks, the kernel stack for traps and the page table register.\<close>

definition switchkvm :: "'a proc_state_scheme \<Rightarrow> 'a proc_state_scheme" where
  "switchkvm s = s\<lparr>cr3 := V2P (kpgdir s)\<rparr>"

definition switchuvm :: "nat \<Rightarrow> 'a proc_state_scheme \<Rightarrow> ('a proc_state_scheme, unit) res" where
  "switchuvm p s =
     (if p_kstack (ptable s p) = 0 then Fail (Panic ''switchuvm: no kstack'')
      else if p_pgdir (ptable s p) = 0 then Fail (Panic ''switchuvm: no pgdir'')
      else Ok () (s\<lparr>ts_esp0 := p_kstack (ptable s p) + KSTACKSIZE, cr3 := V2P (p_pgdir (ptable s p))\<rparr>))"

subsection \<open>Lookups in the process table\<close>

definition find_unused :: "'a proc_state_scheme \<Rightarrow> ('a proc_state_scheme, nat option) res" where
  "find_unused s =
     bnd (acquire PtableLock s) (\<lambda>_ s.
     let r = List.find (\<lambda>p. p_state (ptable s p) = UNUSED) [0..<NPROC]
     in bnd (release PtableLock s) (\<lambda>_ s. Ok r s))"

text \<open>
  \<^verbatim>\<open>find_thread\<close> reads \<^verbatim>\<open>p->lwpgroup->pid\<close> of every slot whose thread id matches, also of a slot
  whose \<^verbatim>\<open>lwpgroup\<close> is NULL.
\<close>

fun find_thread_loop :: "int \<Rightarrow> int \<Rightarrow> (nat \<Rightarrow> proc) \<Rightarrow> nat list \<Rightarrow> nat option option" where
  "find_thread_loop tid gid tb [] = Some None"
| "find_thread_loop tid gid tb (p # ps) =
     (if p_thread_id (tb p) = tid then
        (case p_lwpgroup (tb p) of
           None \<Rightarrow> None
         | Some g \<Rightarrow> if p_pid (tb g) = gid then Some (Some p) else find_thread_loop tid gid tb ps)
      else find_thread_loop tid gid tb ps)"

definition find_thread :: "int \<Rightarrow> int \<Rightarrow> 'a proc_state_scheme \<Rightarrow> ('a proc_state_scheme, nat option) res" where
  "find_thread tid gid s =
     bnd (acquire PtableLock s) (\<lambda>_ s.
     case find_thread_loop tid gid (ptable s) [0..<NPROC] of
       None \<Rightarrow> Fail (UB ''lwpgroup is NULL'')
     | Some r \<Rightarrow> bnd (release PtableLock s) (\<lambda>_ s. Ok r s))"

subsection \<open>Threads of a process\<close>

text \<open>\<^verbatim>\<open>mlfqstr.next_t\<close> has \<open>NPROC\<close> entries and is indexed by a process id.\<close>

definition get_next_t :: "int \<Rightarrow> 'a proc_state_scheme \<Rightarrow> ('a proc_state_scheme, nat option) res" where
  "get_next_t i s =
     (if 0 \<le> i \<and> i < int NPROC then Ok (next_t (mlfqstr s) (nat i)) s
      else Fail (UB ''next_t index out of bounds''))"

definition set_next_t :: "int \<Rightarrow> nat option \<Rightarrow> 'a proc_state_scheme \<Rightarrow> ('a proc_state_scheme, unit) res" where
  "set_next_t i v s =
     (if 0 \<le> i \<and> i < int NPROC
      then Ok () (upd_mlfq (\<lambda>m. m\<lparr>next_t := (next_t m)(nat i := v)\<rparr>) s)
      else Fail (UB ''next_t index out of bounds''))"

definition init_next_t :: "nat \<Rightarrow> int \<Rightarrow> 'a proc_state_scheme \<Rightarrow> ('a proc_state_scheme, unit) res" where
  "init_next_t p i s =
     bnd (acquire MlfqLock s) (\<lambda>_ s.
     bnd (set_next_t i (Some p) s) (\<lambda>_ s.
     release MlfqLock s))"

definition eligible :: "proc \<Rightarrow> bool" where
  "eligible q \<longleftrightarrow> p_state q = RUNNABLE \<and> p_waiting_tid q = -1"

definition succ_t :: "(nat \<Rightarrow> proc) \<Rightarrow> nat \<Rightarrow> nat \<Rightarrow> nat" where
  "succ_t tb main_t t = (case p_t_link (tb t) of None \<Rightarrow> main_t | Some u \<Rightarrow> u)"

text \<open>
  The search loop of \<^verbatim>\<open>update_next_t\<close> and the test after it: \<open>Some (Some t)\<close> is the thread found,
  \<open>Some None\<close> that a full cycle found none, \<open>None\<close> that the loop does not end.
\<close>

fun next_eligible :: "nat \<Rightarrow> (nat \<Rightarrow> proc) \<Rightarrow> nat \<Rightarrow> nat \<Rightarrow> nat \<Rightarrow> nat option option" where
  "next_eligible 0 tb main_t old_t new_t = None"
| "next_eligible (Suc n) tb main_t old_t new_t =
     (if new_t = old_t then Some (if eligible (tb new_t) then Some new_t else None)
      else if eligible (tb new_t) then Some (Some new_t)
      else next_eligible n tb main_t old_t (succ_t tb main_t new_t))"

definition update_next_t :: "nat \<Rightarrow> 'a proc_state_scheme \<Rightarrow> ('a proc_state_scheme, int) res" where
  "update_next_t main_t s =
     bnd (get_next_t (p_pid (ptable s main_t)) s) (\<lambda>cur s.
     let old_t = (case cur of None \<Rightarrow> main_t | Some t \<Rightarrow> t);
         new_t = succ_t (ptable s) main_t old_t
     in case next_eligible WALK (ptable s) main_t old_t new_t of
          None \<Rightarrow> Fail Hang
        | Some r \<Rightarrow>
            bnd (set_next_t (p_pid (ptable s main_t)) r s) (\<lambda>_ s.
            Ok (if r = None then -1 else 0) s))"

definition add_thread :: "nat \<Rightarrow> 'a proc_state_scheme \<Rightarrow> ('a proc_state_scheme, unit) res" where
  "add_thread p s =
     bnd (acquire MlfqLock s) (\<lambda>_ s.
     case p_lwpgroup (ptable s p) of
       None \<Rightarrow> Fail (UB ''lwpgroup is NULL'')
     | Some g \<Rightarrow>
         bnd (get_next_t (p_pid (ptable s g)) s) (\<lambda>cur s.
         case cur of
           None \<Rightarrow> Fail (UB ''next_t is NULL'')
         | Some nt \<Rightarrow>
             let s = upd_proc p (\<lambda>q. q\<lparr>p_t_link := p_t_link (ptable s nt)\<rparr>) s;
                 s = upd_proc nt (\<lambda>q. q\<lparr>p_t_link := Some p\<rparr>) s
             in release MlfqLock s))"

fun thread_unlink :: "nat \<Rightarrow> nat option \<Rightarrow> nat \<Rightarrow> (nat \<Rightarrow> proc) \<Rightarrow> (nat \<Rightarrow> proc) option" where
  "thread_unlink 0 pptr p tb = None"
| "thread_unlink (Suc n) None p tb = Some tb"
| "thread_unlink (Suc n) (Some q) p tb =
     (if p_t_link (tb q) = Some p then
        (let tb = tb(q := (tb q)\<lparr>p_t_link := p_t_link (tb p)\<rparr>)
         in Some (tb(p := (tb p)\<lparr>p_t_link := None\<rparr>)))
      else thread_unlink n (p_t_link (tb q)) p tb)"

definition rm_thread :: "nat \<Rightarrow> 'a proc_state_scheme \<Rightarrow> ('a proc_state_scheme, unit) res" where
  "rm_thread p s =
     (case p_lwpgroup (ptable s p) of
        None \<Rightarrow> Fail (UB ''lwpgroup is NULL'')
      | Some main_t \<Rightarrow>
          bnd (acquire MlfqLock s) (\<lambda>_ s.
          bnd (get_next_t (p_pid (ptable s main_t)) s) (\<lambda>cur s.
          bnd (if cur = Some p then bnd (update_next_t main_t s) (\<lambda>_ s. Ok () s) else Ok () s) (\<lambda>_ s.
          bnd (release MlfqLock s) (\<lambda>_ s.
          case thread_unlink WALK (Some main_t) p (ptable s) of
            None \<Rightarrow> Fail Hang
          | Some tb \<Rightarrow> Ok () (s\<lparr>ptable := tb\<rparr>))))))"

definition acquire_ptable :: "'a proc_state_scheme \<Rightarrow> ('a proc_state_scheme, unit) res" where
  "acquire_ptable s = acquire PtableLock s"

definition release_ptable :: "'a proc_state_scheme \<Rightarrow> ('a proc_state_scheme, unit) res" where
  "release_ptable s = release PtableLock s"

definition is_holding_ptable :: "'a proc_state_scheme \<Rightarrow> int" where
  "is_holding_ptable s = (if PtableLock \<in> held s then 1 else 0)"

end
