(* ===== verification/Xv6_Sched.thy ===== *)
theory Xv6_Sched
  imports Xv6_Proc
begin

section \<open>Scheduler, yield, sleep and wakeup\<close>

text \<open>
  The scheduling operations of \<^verbatim>\<open>proc.c\<close>. A call of \<^verbatim>\<open>swtch\<close> ends the model of the running kernel
  thread with the outcome \<open>Swtch s\<close>; what the thread does after it is resumed is a definition of its
  own (\<open>scheduler_resume\<close>, \<open>sleep_resume\<close>, \<open>yield_resume\<close>).
\<close>

subsection \<open>sched and thread switch\<close>

text \<open>
  \<^verbatim>\<open>ncli\<close> counts the held locks, so \<^verbatim>\<open>ncli != 1\<close> with \<^verbatim>\<open>ptable.lock\<close> held means another lock is held;
  interrupts are off while a lock is held (\<open>spin_inv\<close>), so the last check of \<^verbatim>\<open>sched\<close> cannot fail.
\<close>

definition sched :: "'a proc_state_scheme \<Rightarrow> ('a proc_state_scheme, 'b) res" where
  "sched s =
     with_myproc (\<lambda>p s.
       if PtableLock \<notin> held s then Fail (Panic ''sched ptable.lock'')
       else if held s \<noteq> {PtableLock} then Fail (Panic ''sched locks'')
       else if p_state (ptable s p) = RUNNING then Fail (Panic ''sched running'')
       else Swtch s) s"

definition thread_swtch :: "nat \<Rightarrow> 'a proc_state_scheme \<Rightarrow> ('a proc_state_scheme, int) res" where
  "thread_swtch main_t s =
     bnd (acquire MlfqLock s) (\<lambda>_ s.
     bnd (get_next_t (p_pid (ptable s main_t)) s) (\<lambda>nt s.
     bnd (update_next_t main_t s) (\<lambda>_ s.
     bnd (release MlfqLock s) (\<lambda>_ s.
     case nt of
       None \<Rightarrow> Ok (-1) s
     | Some t \<Rightarrow>
         if myproc s = Some t then Ok 0 (upd_proc t (\<lambda>q. q\<lparr>p_state := RUNNING\<rparr>) s)
         else
           let s = s\<lparr>curproc := Some t\<rparr>
           in bnd (switchuvm t s) (\<lambda>_ s.
              Swtch (upd_proc t (\<lambda>q. q\<lparr>p_state := RUNNING\<rparr>) s))))))"

subsection \<open>The scheduler's choice\<close>

text \<open>
  The loop over the stride queue: the last runnable process, in queue order, whose pass is not above
  the smallest pass seen so far. \<^verbatim>\<open>min_pass\<close> is unsigned, so the comparison is unsigned.
\<close>

fun stride_scan :: "nat \<Rightarrow> (nat \<Rightarrow> proc) \<Rightarrow> nat option \<Rightarrow> u32 \<Rightarrow> nat option \<Rightarrow> nat option option" where
  "stride_scan 0 tb sp min_pass newproc = None"
| "stride_scan (Suc n) tb None min_pass newproc = Some newproc"
| "stride_scan (Suc n) tb (Some q) min_pass newproc =
     (if word_of_int (p_pass (tb q)) \<le> min_pass \<and> p_state (tb q) = RUNNABLE
      then stride_scan n tb (p_s_link (tb q)) (word_of_int (p_pass (tb q))) (Some q)
      else stride_scan n tb (p_s_link (tb q)) min_pass newproc)"

definition pick_stride :: "'a proc_state_scheme \<Rightarrow> nat option option" where
  "pick_stride s =
     (case stride_head (mlfqstr s) of
        None \<Rightarrow> Some None
      | Some h \<Rightarrow>
          let min_pass = (if mlfq_proc_cnt (mlfqstr s) > 0 then mlfq_pass (mlfqstr s)
                          else word_of_int (p_pass (ptable s h)))
          in stride_scan WALK (ptable s) (Some h) min_pass None)"

definition pick_level :: "mlfq \<Rightarrow> u32" where
  "pick_level m = (if qlevels m 2 > 0 then 2 else if qlevels m 1 > 0 then 1 else 0)"

text \<open>
  The search from \<^verbatim>\<open>searchidx\<close>, at most \<open>NPROC\<close> slots: \<open>k\<close> is the number of slots still to look at.
\<close>

definition next_idx :: "nat \<Rightarrow> nat" where
  "next_idx i = (if i < NPROC - 1 then i + 1 else 0)"

definition mlfq_match :: "u32 \<Rightarrow> proc \<Rightarrow> bool" where
  "mlfq_match lv q \<longleftrightarrow> p_state q = RUNNABLE \<and> p_level q = lv \<and> p_pid q \<noteq> -1"

fun mlfq_search :: "nat \<Rightarrow> (nat \<Rightarrow> proc) \<Rightarrow> u32 \<Rightarrow> nat \<Rightarrow> nat option \<times> nat" where
  "mlfq_search 0 tb lv i = (None, i)"
| "mlfq_search (Suc k) tb lv i =
     (if mlfq_match lv (tb i) then (Some i, next_idx i) else mlfq_search k tb lv (next_idx i))"

text \<open>
  One turn of the loop of \<^verbatim>\<open>scheduler\<close>: it switches to the chosen process (or thread), or finds none
  and releases the table.
\<close>

definition run_proc :: "nat \<Rightarrow> 'a proc_state_scheme \<Rightarrow> ('a proc_state_scheme, unit) res" where
  "run_proc p s =
     (if p_thread_count (ptable s p) > 1 then
        bnd (thread_swtch p s) (\<lambda>_ s.
        let s = switchkvm s; s = s\<lparr>curproc := None\<rparr>
        in release PtableLock s)
      else
        let s = s\<lparr>curproc := Some p\<rparr>
        in bnd (switchuvm p s) (\<lambda>_ s.
           Swtch (upd_proc p (\<lambda>q. q\<lparr>p_state := RUNNING\<rparr>) s)))"

definition scheduler :: "'a proc_state_scheme \<Rightarrow> ('a proc_state_scheme, unit) res" where
  "scheduler s =
     bnd (acquire PtableLock s) (\<lambda>_ s.
     bnd (acquire MlfqLock s) (\<lambda>_ s.
     case pick_stride s of
       None \<Rightarrow> Fail Hang
     | Some (Some p) \<Rightarrow> bnd (release MlfqLock s) (\<lambda>_ s. run_proc p s)
     | Some None \<Rightarrow>
         let lv = pick_level (mlfqstr s)
         in bnd (release MlfqLock s) (\<lambda>_ s.
            case mlfq_search NPROC (ptable s) lv (searchidx s) of
              (Some p, i) \<Rightarrow> run_proc p (s\<lparr>searchidx := i\<rparr>)
            | (None, i) \<Rightarrow> release PtableLock (s\<lparr>searchidx := i\<rparr>))))"

definition scheduler_resume :: "'a proc_state_scheme \<Rightarrow> ('a proc_state_scheme, unit) res" where
  "scheduler_resume s =
     (let s = switchkvm s; s = s\<lparr>curproc := None\<rparr> in release PtableLock s)"

subsection \<open>yield\<close>

text \<open>
  The tick accounting of \<^verbatim>\<open>yield\<close> up to the decision to switch: it returns the tick count before the
  increment and whether the level was lowered. \<^verbatim>\<open>level\<close> is unsigned: for a stride process it is
  \<open>2 ^ 32 - 1\<close>, which is above 0.
\<close>

definition yield_account :: "nat \<Rightarrow> nat \<Rightarrow> 'a proc_state_scheme \<Rightarrow> ('a proc_state_scheme, u32 \<times> bool) res" where
  "yield_account p main_t s =
     (let tickcount = p_tickcount (ptable s main_t);
          s = upd_proc main_t (\<lambda>q. q\<lparr>p_tickcount := tickcount + 1\<rparr>) s;
          level = p_level (ptable s main_t);
          timeallot = p_timeallot (ptable s main_t);
          s = upd_proc p (\<lambda>q. q\<lparr>p_state := RUNNABLE\<rparr>) s;
          lowered = (level > 0 \<and> tickcount \<ge> timeallot);
          s = (if lowered then lowerlevel main_t s else s)
      in bnd (acquire TicksLock s) (\<lambda>_ s.
         bnd (acquire MlfqLock s) (\<lambda>_ s.
         let s = (if ticks s - priboosttime (mlfqstr s) \<ge> 200
                  then priboost (upd_mlfq (\<lambda>m. m\<lparr>priboosttime := ticks s\<rparr>) s) else s)
         in bnd (release TicksLock s) (\<lambda>_ s.
            let s = (if stride_head (mlfqstr s) \<noteq> None then
                       if level = NOLEVEL
                       then upd_proc main_t (\<lambda>q. q\<lparr>p_pass := p_pass q + p_stride q\<rparr>) s
                       else upd_mlfq (\<lambda>m. m\<lparr>mlfq_pass := mlfq_pass m + mlfq_stride m\<rparr>) s
                     else s)
            in bnd (release MlfqLock s) (\<lambda>_ s. Ok (tickcount, lowered) s)))))"

definition yield :: "'a proc_state_scheme \<Rightarrow> ('a proc_state_scheme, int) res" where
  "yield s =
     bnd (acquire PtableLock s) (\<lambda>_ s.
     with_myproc (\<lambda>p s.
       case p_lwpgroup (ptable s p) of
         None \<Rightarrow> Fail (UB ''lwpgroup is NULL'')
       | Some main_t \<Rightarrow>
           bnd (yield_account p main_t s) (\<lambda>(tickcount, lowered) s.
           bnd (if p_thread_count (ptable s main_t) > 1 then
                  bnd (thread_swtch main_t s) (\<lambda>r s. if r = -1 then sched s else Ok () s)
                else if lowered then sched s
                else if p_timequant (ptable s main_t) = 0 then Fail (UB ''modulo by zero'')
                else if tickcount mod p_timequant (ptable s main_t) = 0 then sched s
                else Ok () s) (\<lambda>_ s.
           bnd (release PtableLock s) (\<lambda>_ s.
           Ok 0 s)))) s)"

definition yield_resume :: "'a proc_state_scheme \<Rightarrow> ('a proc_state_scheme, int) res" where
  "yield_resume s = bnd (release PtableLock s) (\<lambda>_ s. Ok 0 s)"

subsection \<open>sleep, wakeup, kill\<close>

definition mlfq_leave :: "nat \<Rightarrow> 'a proc_state_scheme \<Rightarrow> ('a proc_state_scheme, unit) res" where
  "mlfq_leave p s =
     bnd (acquire MlfqLock s) (\<lambda>_ s. let s = mlfqrm p s in release MlfqLock s)"

definition mlfq_enter :: "nat \<Rightarrow> 'a proc_state_scheme \<Rightarrow> ('a proc_state_scheme, unit) res" where
  "mlfq_enter p s =
     bnd (acquire MlfqLock s) (\<lambda>_ s. let s = mlfqadd p s in release MlfqLock s)"

definition sleep :: "chan \<Rightarrow> lock \<Rightarrow> 'a proc_state_scheme \<Rightarrow> ('a proc_state_scheme, 'b) res" where
  "sleep ch lk s =
     (case myproc s of
        None \<Rightarrow> Fail (Panic ''sleep'')
      | Some p \<Rightarrow>
          bnd (if lk \<noteq> PtableLock
               then bnd (acquire PtableLock s) (\<lambda>_ s. release lk s) else Ok () s) (\<lambda>_ s.
          let s = upd_proc p (\<lambda>q. q\<lparr>p_chan := Some ch, p_state := SLEEPING\<rparr>) s
          in bnd (if p_level (ptable s p) \<noteq> NOLEVEL then mlfq_leave p s else Ok () s) (\<lambda>_ s.
             sched s)))"

definition sleep_resume :: "nat \<Rightarrow> lock \<Rightarrow> 'a proc_state_scheme \<Rightarrow> ('a proc_state_scheme, unit) res" where
  "sleep_resume p lk s =
     (let s = upd_proc p (\<lambda>q. q\<lparr>p_chan := None\<rparr>) s
      in if lk \<noteq> PtableLock
         then bnd (release PtableLock s) (\<lambda>_ s. acquire lk s) else Ok () s)"

definition sleeps_on :: "chan \<Rightarrow> proc \<Rightarrow> bool" where
  "sleeps_on ch q \<longleftrightarrow> p_state q = SLEEPING \<and> p_chan q = Some ch"

definition wakeup_one :: "chan \<Rightarrow> 'a proc_state_scheme \<Rightarrow> 'a proc_state_scheme" where
  "wakeup_one ch s =
     (case List.find (\<lambda>p. sleeps_on ch (ptable s p)) [0..<NPROC] of
        None \<Rightarrow> s
      | Some p \<Rightarrow> upd_proc p (\<lambda>q. q\<lparr>p_state := RUNNABLE\<rparr>) s)"

definition wakeup1_slot :: "chan \<Rightarrow> nat \<Rightarrow> 'a proc_state_scheme \<Rightarrow> ('a proc_state_scheme, unit) res" where
  "wakeup1_slot ch p s =
     (if sleeps_on ch (ptable s p) then
        let s = upd_proc p (\<lambda>q. q\<lparr>p_state := RUNNABLE\<rparr>) s
        in if p_level (ptable s p) \<noteq> NOLEVEL then mlfq_enter p s else Ok () s
      else Ok () s)"

definition wakeup1 :: "chan \<Rightarrow> 'a proc_state_scheme \<Rightarrow> ('a proc_state_scheme, unit) res" where
  "wakeup1 ch s = for_each (wakeup1_slot ch) [0..<NPROC] s"

definition wakeup :: "chan \<Rightarrow> 'a proc_state_scheme \<Rightarrow> ('a proc_state_scheme, unit) res" where
  "wakeup ch s =
     bnd (acquire PtableLock s) (\<lambda>_ s.
     bnd (wakeup1 ch s) (\<lambda>_ s.
     release PtableLock s))"

definition kill :: "int \<Rightarrow> 'a proc_state_scheme \<Rightarrow> ('a proc_state_scheme, int) res" where
  "kill i s =
     bnd (acquire PtableLock s) (\<lambda>_ s.
     case List.find (\<lambda>p. p_pid (ptable s p) = i) [0..<NPROC] of
       Some p \<Rightarrow>
         let s = upd_proc p (\<lambda>q. q\<lparr>p_killed := True\<rparr>) s
         in bnd (if p_state (ptable s p) = SLEEPING then
                   let s = upd_proc p (\<lambda>q. q\<lparr>p_state := RUNNABLE\<rparr>) s
                   in if p_level (ptable s p) \<noteq> NOLEVEL then mlfq_enter p s else Ok () s
                 else Ok () s) (\<lambda>_ s.
            bnd (release PtableLock s) (\<lambda>_ s. Ok 0 s))
     | None \<Rightarrow> bnd (release PtableLock s) (\<lambda>_ s. Ok (-1) s))"

subsection \<open>Levels and shares\<close>

definition getlev :: "'a proc_state_scheme \<Rightarrow> ('a proc_state_scheme, int) res" where
  "getlev s =
     with_myproc (\<lambda>p s.
       let level = sint (p_level (ptable s p))
       in Ok (if level < 0 \<or> level > 2 then -1 else level) s) s"

text \<open>The walk of \<^verbatim>\<open>set_cpu_share\<close> along the stride queue, comparing process ids.\<close>

fun stride_member :: "nat \<Rightarrow> (nat \<Rightarrow> proc) \<Rightarrow> int \<Rightarrow> nat option \<Rightarrow> bool option" where
  "stride_member 0 tb i pptr = None"
| "stride_member (Suc n) tb i None = Some False"
| "stride_member (Suc n) tb i (Some q) =
     (if p_pid (tb q) = i then Some True else stride_member n tb i (p_s_link (tb q)))"

definition set_cpu_share :: "int \<Rightarrow> 'a proc_state_scheme \<Rightarrow> ('a proc_state_scheme, int) res" where
  "set_cpu_share share s =
     bnd (acquire PtableLock s) (\<lambda>_ s.
     bnd (acquire MlfqLock s) (\<lambda>_ s.
     if share \<le> 0 then Ok (-1) s
     else if stride_share (mlfqstr s) + share > 80 then Ok (-1) s
     else
       with_myproc (\<lambda>p s.
         bnd (case stride_head (mlfqstr s) of
                None \<Rightarrow>
                  let s = mlfqrm p s
                  in Ok () (upd_mlfq (\<lambda>m. m\<lparr>stride_head := Some p\<rparr>) s)
              | Some h \<Rightarrow>
                  (case stride_member WALK (ptable s) (p_pid (ptable s p)) (Some h) of
                     None \<Rightarrow> Fail Hang
                   | Some True \<Rightarrow> Ok () s
                   | Some False \<Rightarrow> let s = mlfqrm p s in Ok () (strideadd p s))) (\<lambda>_ s.
         let s = upd_mlfq (\<lambda>m. m\<lparr>stride_share := stride_share m + share\<rparr>) s;
             s = upd_proc p (\<lambda>q. q\<lparr>p_share := share\<rparr>) s;
             stride = round_cast (c_div STRIDE_DIVIDEND share);
             s = upd_proc p (\<lambda>q. q\<lparr>p_stride := stride\<rparr>) s;
             s = upd_proc p (\<lambda>q. q\<lparr>p_level := NOLEVEL, p_timequant := 5\<rparr>) s
         in bnd (set_mlfq_stride s) (\<lambda>_ s.
            bnd (release PtableLock s) (\<lambda>_ s.
            bnd (release MlfqLock s) (\<lambda>_ s.
            Ok 0 s))))) s))"

end
