(* ===== verification/Xv6_Sched_Props.thy ===== *)
theory Xv6_Sched_Props
  imports Xv6_Sched
begin

section \<open>Properties of the scheduler\<close>

text \<open>
  Normal forms of the operations with their locks removed, the accounting invariant of the
  multi-level feedback queue, and what the scheduler's two searches return.
\<close>

lemmas state_defs = upd_proc_def upd_mlfq_def

subsection \<open>wakeup\<close>

definition wake_proc :: "chan \<Rightarrow> proc \<Rightarrow> proc" where
  "wake_proc ch q = (if sleeps_on ch q then q\<lparr>p_state := RUNNABLE\<rparr> else q)"

definition wake_upto :: "nat \<Rightarrow> chan \<Rightarrow> (nat \<Rightarrow> proc) \<Rightarrow> nat \<Rightarrow> proc" where
  "wake_upto n ch tb = (\<lambda>p. if p < n then wake_proc ch (tb p) else tb p)"

text \<open>\<open>at_lv l lv\<close>: the unsigned level \<open>lv\<close> is the queue number \<open>l\<close> (one of 0, 1, 2).\<close>

definition at_lv :: "nat \<Rightarrow> u32 \<Rightarrow> bool" where
  "at_lv l lv \<longleftrightarrow> lv \<le> 2 \<and> unat lv = l"

definition wake_mlfq :: "nat \<Rightarrow> chan \<Rightarrow> (nat \<Rightarrow> proc) \<Rightarrow> mlfq \<Rightarrow> mlfq" where
  "wake_mlfq n ch tb m = m\<lparr>
     qlevels := (\<lambda>l. qlevels m l + slots n (\<lambda>q. sleeps_on ch q \<and> at_lv l (p_level q)) tb),
     mlfq_proc_cnt := mlfq_proc_cnt m + slots n (\<lambda>q. sleeps_on ch q \<and> p_level q \<noteq> NOLEVEL) tb\<rparr>"

lemma wake_upto_0 [simp]: "wake_upto 0 ch tb = tb"
  by (simp add: wake_upto_def)

lemma wake_mlfq_0 [simp]: "wake_mlfq 0 ch tb m = m"
  by (simp add: wake_mlfq_def)

lemma level_le_2: "(lv :: u32) \<le> 2 \<longleftrightarrow> lv = 0 \<or> lv = 1 \<or> lv = 2"
  by (simp add: word_le_nat_alt) (auto simp: word_unat_eq_iff)

lemma NOLEVEL_not_le [simp]: "\<not> NOLEVEL \<le> 2" "NOLEVEL \<noteq> 0" "NOLEVEL \<noteq> 1" "NOLEVEL \<noteq> 2"
  "0 \<noteq> NOLEVEL" "1 \<noteq> NOLEVEL" "2 \<noteq> NOLEVEL"
  by (simp_all add: NOLEVEL_def level_le_2)

definition level_hit :: "nat \<Rightarrow> u32 \<Rightarrow> int" where
  "level_hit l lv = of_bool (at_lv l lv)"

lemma at_lv_NOLEVEL [simp]: "\<not> at_lv l NOLEVEL"
  by (simp add: at_lv_def)

lemma level_hit_simps [simp]: "level_hit l NOLEVEL = 0"
  by (simp add: level_hit_def)

lemma level_hit_upd:
  "lv \<le> 2 \<Longrightarrow> (f :: nat \<Rightarrow> int)(unat lv := f (unat lv) + d) = (\<lambda>l. f l + d * level_hit l lv)"
  by (auto simp: level_hit_def at_lv_def fun_eq_iff)

lemma level_hit_none: "\<not> lv \<le> 2 \<Longrightarrow> level_hit l lv = 0"
  by (simp add: level_hit_def at_lv_def)

lemma mlfqadd_eq:
  "mlfqadd p s = s\<lparr>mlfqstr := (mlfqstr s)\<lparr>
     qlevels := (\<lambda>l. qlevels (mlfqstr s) l + level_hit l (p_level (ptable s p))),
     mlfq_proc_cnt := mlfq_proc_cnt (mlfqstr s) + 1\<rparr>\<rparr>"
  using level_hit_upd[of "p_level (ptable s p)" "qlevels (mlfqstr s)" 1]
  by (auto simp: mlfqadd_def Let_def level_hit_none)

lemma mlfqrm_eq:
  "mlfqrm p s = s\<lparr>mlfqstr := (mlfqstr s)\<lparr>
     qlevels := (\<lambda>l. qlevels (mlfqstr s) l - level_hit l (p_level (ptable s p))),
     mlfq_proc_cnt := mlfq_proc_cnt (mlfqstr s) - 1\<rparr>\<rparr>"
  using level_hit_upd[of "p_level (ptable s p)" "qlevels (mlfqstr s)" "- 1"]
  by (auto simp: mlfqrm_def Let_def level_hit_none)

lemma mlfq_enter_eq [lock_simps]: "MlfqLock \<notin> held s \<Longrightarrow> mlfq_enter p s = Ok () (mlfqadd p s)"
  by (simp add: mlfq_enter_def lock_simps mlfqadd_eq)

lemma mlfq_leave_eq [lock_simps]: "MlfqLock \<notin> held s \<Longrightarrow> mlfq_leave p s = Ok () (mlfqrm p s)"
  by (simp add: mlfq_leave_def lock_simps mlfqrm_eq)

lemma wake_mlfq_Suc:
  "wake_mlfq (Suc n) ch tb m =
    (if sleeps_on ch (tb n) \<and> p_level (tb n) \<noteq> NOLEVEL then
       (wake_mlfq n ch tb m)\<lparr>
         qlevels := (\<lambda>l. qlevels (wake_mlfq n ch tb m) l + level_hit l (p_level (tb n))),
         mlfq_proc_cnt := mlfq_proc_cnt (wake_mlfq n ch tb m) + 1\<rparr>
     else wake_mlfq n ch tb m)"
  by (auto simp: wake_mlfq_def level_hit_def fun_eq_iff at_lv_def)

lemma wake_upto_Suc:
  "wake_upto (Suc n) ch tb = (wake_upto n ch tb)(n := wake_proc ch (tb n))"
  by (auto simp: wake_upto_def)

lemma wakeup1_slot_eq:
  assumes "MlfqLock \<notin> held s"
    and "ptable s = wake_upto n ch tb" and "mlfqstr s = wake_mlfq n ch tb m"
  shows "wakeup1_slot ch n s =
    Ok () (s\<lparr>ptable := wake_upto (Suc n) ch tb, mlfqstr := wake_mlfq (Suc n) ch tb m\<rparr>)"
proof -
  have n: "ptable s n = tb n" using assms(2) by (simp add: wake_upto_def)
  show ?thesis
    using assms n
    by (auto simp: wakeup1_slot_def upd_proc_def lock_simps mlfqadd_eq wake_upto_Suc wake_mlfq_Suc
        wake_proc_def fun_upd_idem)
qed

lemma for_each_wakeup1_slot:
  assumes "MlfqLock \<notin> held s"
  shows "for_each (wakeup1_slot ch) [0..<n] s =
    Ok () (s\<lparr>ptable := wake_upto n ch (ptable s), mlfqstr := wake_mlfq n ch (ptable s) (mlfqstr s)\<rparr>)"
proof (induction n)
  case (Suc n)
  then show ?case
    using assms wakeup1_slot_eq[of "s\<lparr>ptable := wake_upto n ch (ptable s),
        mlfqstr := wake_mlfq n ch (ptable s) (mlfqstr s)\<rparr>" n ch "ptable s" "mlfqstr s"]
    by (simp add: for_each_append)
qed simp

lemma wakeup1_eq [lock_simps]:
  "MlfqLock \<notin> held s \<Longrightarrow> wakeup1 ch s =
    Ok () (s\<lparr>ptable := wake_upto NPROC ch (ptable s),
             mlfqstr := wake_mlfq NPROC ch (ptable s) (mlfqstr s)\<rparr>)"
  by (simp add: wakeup1_def for_each_wakeup1_slot)

lemma wakeup_eq [lock_simps]:
  "MlfqLock \<notin> held s \<Longrightarrow> PtableLock \<notin> held s \<Longrightarrow> wakeup ch s =
    Ok () (s\<lparr>ptable := wake_upto NPROC ch (ptable s),
             mlfqstr := wake_mlfq NPROC ch (ptable s) (mlfqstr s)\<rparr>)"
  by (simp add: wakeup_def lock_simps)

subsection \<open>The accounting of the multi-level feedback queue\<close>

definition active :: "proc \<Rightarrow> bool" where
  "active q \<longleftrightarrow> p_state q = RUNNABLE \<or> p_state q = RUNNING"

definition in_mlfq :: "proc \<Rightarrow> bool" where
  "in_mlfq q \<longleftrightarrow> active q \<and> p_level q \<noteq> NOLEVEL"

text \<open>
  \<open>mlfq_ok tb m\<close>: \<^verbatim>\<open>mlfq_proc_cnt\<close> is the number of ready or running processes that are not stride
  processes, and \<^verbatim>\<open>qlevels[l]\<close> the number of those at level \<open>l\<close>.
\<close>

definition mlfq_ok :: "(nat \<Rightarrow> proc) \<Rightarrow> mlfq \<Rightarrow> bool" where
  "mlfq_ok tb m \<longleftrightarrow>
     mlfq_proc_cnt m = slots NPROC in_mlfq tb \<and>
     (\<forall>l\<le>2. qlevels m l = slots NPROC (\<lambda>q. in_mlfq q \<and> at_lv l (p_level q)) tb)"

lemma mlfq_ok_upd:
  assumes "mlfq_ok tb m" and "p < NPROC"
    and "mlfq_proc_cnt m' = mlfq_proc_cnt m + of_bool (in_mlfq q) - of_bool (in_mlfq (tb p))"
    and "\<And>l. l \<le> 2 \<Longrightarrow> qlevels m' l = qlevels m l + of_bool (in_mlfq q \<and> at_lv l (p_level q))
      - of_bool (in_mlfq (tb p) \<and> at_lv l (p_level (tb p)))"
  shows "mlfq_ok (tb(p := q)) m'"
  using assms by (simp add: mlfq_ok_def slots_upd)

lemma mlfq_ok_same:
  assumes "mlfq_ok tb m" and "p < NPROC"
    and "in_mlfq q = in_mlfq (tb p)" and "p_level q = p_level (tb p)"
    and "mlfq_proc_cnt m' = mlfq_proc_cnt m" and "qlevels m' = qlevels m"
  shows "mlfq_ok (tb(p := q)) m'"
  using assms by (intro mlfq_ok_upd[OF assms(1,2)]) auto

lemma mlfq_ok_cong:
  assumes "mlfq_ok tb m" and "\<And>p. p < NPROC \<Longrightarrow> in_mlfq (tb' p) = in_mlfq (tb p)"
    and "\<And>p. p < NPROC \<Longrightarrow> p_level (tb' p) = p_level (tb p)"
    and "mlfq_proc_cnt m' = mlfq_proc_cnt m" and "qlevels m' = qlevels m"
  shows "mlfq_ok tb' m'"
proof -
  have "slots NPROC in_mlfq tb' = slots NPROC in_mlfq tb"
    by (rule slots_cong) (use assms in auto)
  moreover have "slots NPROC (\<lambda>q. in_mlfq q \<and> at_lv l (p_level q)) tb'
      = slots NPROC (\<lambda>q. in_mlfq q \<and> at_lv l (p_level q)) tb" for l
    by (rule slots_cong) (use assms in auto)
  ultimately show ?thesis using assms by (simp add: mlfq_ok_def)
qed

lemma in_mlfq_at_lv: "at_lv l (p_level q) \<Longrightarrow> in_mlfq q = active q"
  by (auto simp: in_mlfq_def)

lemma mlfq_ok_wake:
  assumes "mlfq_ok tb m"
  shows "mlfq_ok (wake_upto NPROC ch tb) (wake_mlfq NPROC ch tb m)"
proof -
  have "slots NPROC in_mlfq (wake_upto NPROC ch tb)
      = slots NPROC (\<lambda>q. in_mlfq q \<or> sleeps_on ch q \<and> p_level q \<noteq> NOLEVEL) tb"
    by (rule slots_cong)
      (auto simp: wake_upto_def wake_proc_def in_mlfq_def active_def sleeps_on_def)
  also have "\<dots> = slots NPROC in_mlfq tb + slots NPROC (\<lambda>q. sleeps_on ch q \<and> p_level q \<noteq> NOLEVEL) tb"
    by (rule slots_disj) (auto simp: in_mlfq_def active_def sleeps_on_def)
  finally have cnt: "slots NPROC in_mlfq (wake_upto NPROC ch tb) = \<dots>" .
  have lev: "slots NPROC (\<lambda>q. in_mlfq q \<and> at_lv l (p_level q)) (wake_upto NPROC ch tb)
      = slots NPROC (\<lambda>q. in_mlfq q \<and> at_lv l (p_level q)) tb
        + slots NPROC (\<lambda>q. sleeps_on ch q \<and> at_lv l (p_level q)) tb" for l
  proof -
    have "slots NPROC (\<lambda>q. in_mlfq q \<and> at_lv l (p_level q)) (wake_upto NPROC ch tb)
        = slots NPROC (\<lambda>q. in_mlfq q \<and> at_lv l (p_level q) \<or> sleeps_on ch q \<and> at_lv l (p_level q)) tb"
      by (rule slots_cong)
        (auto simp: wake_upto_def wake_proc_def in_mlfq_def active_def sleeps_on_def)
    also have "\<dots> = slots NPROC (\<lambda>q. in_mlfq q \<and> at_lv l (p_level q)) tb
        + slots NPROC (\<lambda>q. sleeps_on ch q \<and> at_lv l (p_level q)) tb"
      by (rule slots_disj) (auto simp: in_mlfq_def active_def sleeps_on_def)
    finally show ?thesis .
  qed
  show ?thesis using assms cnt lev by (simp add: mlfq_ok_def wake_mlfq_def)
qed

subsection \<open>The stride queue as a list\<close>

definition s_link :: "(nat \<Rightarrow> proc) \<Rightarrow> nat \<Rightarrow> nat option" where
  "s_link tb p = p_s_link (tb p)"

definition t_link :: "(nat \<Rightarrow> proc) \<Rightarrow> nat \<Rightarrow> nat option" where
  "t_link tb p = p_t_link (tb p)"

interpretation stride: list_unlink s_link stride_unlink
  by unfold_locales (auto simp: s_link_def)

interpretation threads: list_unlink t_link thread_unlink
  by unfold_locales (auto simp: t_link_def)

definition stride_proc :: "proc \<Rightarrow> bool" where
  "stride_proc q \<longleftrightarrow> p_level q = NOLEVEL \<and> p_state q \<in> {SLEEPING, RUNNABLE, RUNNING}"

text \<open>
  \<open>stride_ok tb m\<close>: the stride queue lists exactly the live stride processes, each once, every one
  has a positive share, the shares fit into \<^verbatim>\<open>stride_share\<close>, and that is at most 80 percent.
\<close>

definition stride_list :: "(nat \<Rightarrow> proc) \<Rightarrow> mlfq \<Rightarrow> nat list \<Rightarrow> bool" where
  "stride_list tb m xs \<longleftrightarrow>
     chain (s_link tb) (stride_head m) xs \<and> set xs = {p. p < NPROC \<and> stride_proc (tb p)} \<and>
     (\<forall>p\<in>set xs. 0 < p_share (tb p)) \<and>
     (\<Sum>p\<leftarrow>xs. p_share (tb p)) \<le> stride_share m"

definition stride_ok :: "(nat \<Rightarrow> proc) \<Rightarrow> mlfq \<Rightarrow> bool" where
  "stride_ok tb m \<longleftrightarrow> (\<exists>xs. stride_list tb m xs) \<and> stride_share m \<le> 80"

lemma stride_list_short:
  assumes "stride_list tb m xs"
  shows "length xs < WALK"
proof -
  have "length xs \<le> NPROC"
    using assms by (intro chain_length) (auto simp: stride_list_def)
  then show ?thesis by (simp add: WALK_def)
qed

lemma stride_list_cong:
  assumes "stride_list tb m xs" and "stride_head m' = stride_head m" and "stride_share m' = stride_share m"
    and "\<And>p. p < NPROC \<Longrightarrow> stride_proc (tb' p) = stride_proc (tb p)"
    and "\<And>p. p < NPROC \<Longrightarrow> stride_proc (tb p) \<Longrightarrow> p_s_link (tb' p) = p_s_link (tb p)"
    and "\<And>p. p < NPROC \<Longrightarrow> stride_proc (tb p) \<Longrightarrow> p_share (tb' p) = p_share (tb p)"
  shows "stride_list tb' m' xs"
proof -
  have set: "set xs = {p. p < NPROC \<and> stride_proc (tb p)}"
    using assms(1) by (simp add: stride_list_def)
  have "chain (s_link tb') (stride_head m) xs = chain (s_link tb) (stride_head m) xs"
    using set assms(5) by (intro chain_cong) (auto simp: s_link_def)
  moreover have "(\<Sum>p\<leftarrow>xs. p_share (tb' p)) = (\<Sum>p\<leftarrow>xs. p_share (tb p))"
    using set assms(6) by (intro arg_cong[where f = sum_list]) auto
  ultimately show ?thesis
    using assms set by (auto simp: stride_list_def)
qed

lemma stride_ok_cong:
  assumes "stride_ok tb m" and "stride_head m' = stride_head m" and "stride_share m' = stride_share m"
    and "\<And>p. p < NPROC \<Longrightarrow> stride_proc (tb' p) = stride_proc (tb p)"
    and "\<And>p. p < NPROC \<Longrightarrow> stride_proc (tb p) \<Longrightarrow> p_s_link (tb' p) = p_s_link (tb p)"
    and "\<And>p. p < NPROC \<Longrightarrow> stride_proc (tb p) \<Longrightarrow> p_share (tb' p) = p_share (tb p)"
  shows "stride_ok tb' m'"
  using assms stride_list_cong[of tb m _ m' tb'] unfolding stride_ok_def by metis

lemma stride_share_nonneg: "stride_list tb m xs \<Longrightarrow> 0 \<le> stride_share m"
proof -
  assume "stride_list tb m xs"
  then have "0 \<le> (\<Sum>p\<leftarrow>xs. p_share (tb p))" and "(\<Sum>p\<leftarrow>xs. p_share (tb p)) \<le> stride_share m"
    by (auto simp: stride_list_def less_imp_le intro!: sum_list_nonneg)
  then show ?thesis by linarith
qed

text \<open>Adding a process at the head, and removing one: the two list operations on the queue.\<close>

lemma stride_list_add:
  assumes "stride_list tb m xs" and p: "p < NPROC" "\<not> stride_proc (tb p)"
    and q: "stride_proc q" "p_s_link q = stride_head m" "0 < p_share q"
    and m': "stride_head m' = Some p" "stride_share m' = stride_share m + p_share q"
  shows "stride_list (tb(p := q)) m' (p # xs)"
proof -
  have xs: "set xs = {p. p < NPROC \<and> stride_proc (tb p)}" and "p \<notin> set xs"
    using assms by (auto simp: stride_list_def)
  have "chain (s_link (tb(p := q))) (stride_head m) xs"
    using assms(1) \<open>p \<notin> set xs\<close>
    by (subst chain_cong[of xs _ "s_link tb"]) (auto simp: s_link_def stride_list_def)
  moreover have "(\<Sum>r\<leftarrow>xs. p_share ((tb(p := q)) r)) = (\<Sum>r\<leftarrow>xs. p_share (tb r))"
    using \<open>p \<notin> set xs\<close> by (intro arg_cong[where f = sum_list]) auto
  ultimately show ?thesis
    using assms xs by (auto simp: stride_list_def s_link_def)
qed

lemma sum_list_remove1:
  "p \<in> set xs \<Longrightarrow> (\<Sum>r\<leftarrow>remove1 p xs. (f r :: int)) = (\<Sum>r\<leftarrow>xs. f r) - f p"
  by (induction xs) auto

lemma remove1_split: "p \<notin> set as \<Longrightarrow> remove1 p (as @ p # bs) = as @ bs"
  by (simp add: remove1_append)

text \<open>The list part of \<^verbatim>\<open>striderm\<close>.\<close>

lemma stride_unlink_ok:
  assumes c: "chain (s_link tb) (stride_head m) xs" and short: "length xs < WALK"
    and p: "p \<in> set xs" "stride_head m \<noteq> Some p"
  shows "\<exists>tb'. stride_unlink WALK (stride_head m) p tb = Some tb' \<and>
    chain (s_link tb') (stride_head m) (remove1 p xs) \<and>
    (\<forall>r. tb' r = (tb r)\<lparr>p_s_link := p_s_link (tb' r)\<rparr>) \<and>
    (\<forall>r. p_s_link (tb r) \<noteq> Some p \<longrightarrow> tb' r = tb r)"
proof -
  obtain as bs where xs: "xs = as @ p # bs" and pas: "p \<notin> set as"
    using p(1) by (meson split_list_first)
  have "as \<noteq> []" using xs c p(2) by (cases as) auto
  then obtain as' q where as: "as = as' @ [q]" by (meson rev_exhaust)
  have len: "length as' + 1 < WALK" using short xs as by simp
  obtain tb' where tb': "stride_unlink WALK (stride_head m) p tb = Some tb'"
      "chain (s_link tb') (stride_head m) (as' @ q # bs)"
    using stride.unlink_present[of tb "stride_head m" as' q p bs WALK] c xs as len by auto
  have frame: "stride_unlink n h p tb = Some tb' \<Longrightarrow> tb' r = (tb r)\<lparr>p_s_link := p_s_link (tb' r)\<rparr>" for n h r
    by (induction n h p tb rule: stride_unlink.induct) (auto split: if_splits)
  have "stride_unlink n h p tb = Some tb' \<Longrightarrow> p_s_link (tb r) \<noteq> Some p \<Longrightarrow> tb' r = tb r" for n h r
    by (induction n h p tb rule: stride_unlink.induct) (auto split: if_splits)
  then show ?thesis
    using tb' frame remove1_split[OF pas, of bs] xs as by (intro exI[of _ tb']) auto
qed

subsection \<open>The scheduler's invariant\<close>

definition alive :: "proc \<Rightarrow> bool" where
  "alive q \<longleftrightarrow> p_state q = SLEEPING \<or> p_state q = RUNNABLE \<or> p_state q = RUNNING"

text \<open>
  \<open>proc_ok p q\<close>: slot \<open>p\<close> holds a process without extra threads, its level is one of the three
  queues or the stride mark, and a live one has what \<^verbatim>\<open>switchuvm\<close> and \<^verbatim>\<open>yield\<close> rely on.
\<close>

definition proc_ok :: "nat \<Rightarrow> proc \<Rightarrow> bool" where
  "proc_ok p q \<longleftrightarrow>
     (p_level q \<le> 2 \<or> p_level q = NOLEVEL) \<and> p_pid q \<noteq> -1 \<and>
     (alive q \<longrightarrow> p_lwpgroup q = Some p \<and> p_thread_count q = 1 \<and> p_kstack q \<noteq> 0 \<and>
        p_pgdir q \<noteq> 0 \<and> p_timequant q \<noteq> 0 \<and> 0 < p_pid q \<and>
        (p_level q \<noteq> NOLEVEL \<longrightarrow> p_s_link q = None))"

definition table_ok :: "(nat \<Rightarrow> proc) \<Rightarrow> int \<Rightarrow> bool" where
  "table_ok tb np \<longleftrightarrow> (\<forall>p<NPROC. proc_ok p (tb p) \<and> p_pid (tb p) < np) \<and>
     (\<forall>p<NPROC. \<forall>p'<NPROC. alive (tb p) \<longrightarrow> alive (tb p') \<longrightarrow> p_pid (tb p) = p_pid (tb p') \<longrightarrow> p = p')"

definition sched_inv :: "'a proc_state_scheme \<Rightarrow> bool" where
  "sched_inv s \<longleftrightarrow> table_ok (ptable s) (nextpid s) \<and> mlfq_ok (ptable s) (mlfqstr s) \<and>
     stride_ok (ptable s) (mlfqstr s)"

definition cur_ok :: "'a proc_state_scheme \<Rightarrow> bool" where
  "cur_ok s \<longleftrightarrow> (\<forall>p. curproc s = Some p \<longrightarrow> p < NPROC \<and> active (ptable s p))"

lemma sched_invD:
  "sched_inv s \<Longrightarrow> table_ok (ptable s) (nextpid s)"
  "sched_inv s \<Longrightarrow> mlfq_ok (ptable s) (mlfqstr s)"
  "sched_inv s \<Longrightarrow> stride_ok (ptable s) (mlfqstr s)"
  by (simp_all add: sched_inv_def)

lemma active_alive: "active q \<Longrightarrow> alive q"
  by (auto simp: active_def alive_def)

lemma table_ok_upd:
  assumes "table_ok tb np" and "proc_ok p q" and "p_pid q = p_pid (tb p)" and "alive q \<Longrightarrow> alive (tb p)"
  shows "table_ok (tb(p := q)) np"
  using assms unfolding table_ok_def by (auto simp: fun_upd_apply)

lemma table_ok_proc: "table_ok tb np \<Longrightarrow> p < NPROC \<Longrightarrow> proc_ok p (tb p)"
  by (simp add: table_ok_def)

lemma table_ok_cong:
  assumes "table_ok tb np" and "\<And>p. p < NPROC \<Longrightarrow> proc_ok p (tb' p)"
    and "\<And>p. p < NPROC \<Longrightarrow> p_pid (tb' p) = p_pid (tb p)"
    and "\<And>p. p < NPROC \<Longrightarrow> alive (tb' p) \<Longrightarrow> alive (tb p)"
  shows "table_ok tb' np"
  using assms unfolding table_ok_def by auto

text \<open>The queue counters when a process at level \<open>lv\<close> enters or leaves.\<close>

definition mlfq_in :: "u32 \<Rightarrow> mlfq \<Rightarrow> mlfq" where
  "mlfq_in lv m = m\<lparr>qlevels := (\<lambda>l. qlevels m l + level_hit l lv), mlfq_proc_cnt := mlfq_proc_cnt m + 1\<rparr>"

definition mlfq_out :: "u32 \<Rightarrow> mlfq \<Rightarrow> mlfq" where
  "mlfq_out lv m = m\<lparr>qlevels := (\<lambda>l. qlevels m l - level_hit l lv), mlfq_proc_cnt := mlfq_proc_cnt m - 1\<rparr>"

lemma mlfqadd_in: "mlfqadd p s = s\<lparr>mlfqstr := mlfq_in (p_level (ptable s p)) (mlfqstr s)\<rparr>"
  by (simp add: mlfqadd_eq mlfq_in_def)

lemma mlfqrm_out: "mlfqrm p s = s\<lparr>mlfqstr := mlfq_out (p_level (ptable s p)) (mlfqstr s)\<rparr>"
  by (simp add: mlfqrm_eq mlfq_out_def)

lemma mlfq_inout_simps [simp]:
  "stride_head (mlfq_in lv m) = stride_head m" "stride_share (mlfq_in lv m) = stride_share m"
  "stride_head (mlfq_out lv m) = stride_head m" "stride_share (mlfq_out lv m) = stride_share m"
  "mlfq_pass (mlfq_in lv m) = mlfq_pass m" "mlfq_pass (mlfq_out lv m) = mlfq_pass m"
  "next_t (mlfq_in lv m) = next_t m" "next_t (mlfq_out lv m) = next_t m"
  by (simp_all add: mlfq_in_def mlfq_out_def)

lemma mlfq_ok_enter:
  assumes "mlfq_ok tb m" and "p < NPROC" and "\<not> in_mlfq (tb p)" and "in_mlfq q"
  shows "mlfq_ok (tb(p := q)) (mlfq_in (p_level q) m)"
  using assms by (intro mlfq_ok_upd[OF assms(1,2)]) (auto simp: mlfq_in_def level_hit_def)

lemma mlfq_ok_leave:
  assumes "mlfq_ok tb m" and "p < NPROC" and "in_mlfq (tb p)" and "\<not> in_mlfq q"
  shows "mlfq_ok (tb(p := q)) (mlfq_out (p_level (tb p)) m)"
  using assms by (intro mlfq_ok_upd[OF assms(1,2)]) (auto simp: mlfq_out_def level_hit_def)

lemma sched_inv_wake:
  assumes "sched_inv s"
  shows "sched_inv (s\<lparr>ptable := wake_upto NPROC ch (ptable s),
    mlfqstr := wake_mlfq NPROC ch (ptable s) (mlfqstr s)\<rparr>)"
proof -
  have "table_ok (wake_upto NPROC ch (ptable s)) (nextpid s)"
    using sched_invD(1)[OF assms]
    by (rule table_ok_cong) (use sched_invD(1)[OF assms] in
      \<open>auto simp: wake_upto_def wake_proc_def alive_def sleeps_on_def proc_ok_def table_ok_def\<close>)
  moreover have "stride_ok (wake_upto NPROC ch (ptable s)) (wake_mlfq NPROC ch (ptable s) (mlfqstr s))"
    using sched_invD(3)[OF assms]
    by (rule stride_ok_cong)
      (auto simp: wake_upto_def wake_proc_def wake_mlfq_def stride_proc_def sleeps_on_def)
  ultimately show ?thesis
    using assms mlfq_ok_wake[of "ptable s" "mlfqstr s" ch] by (simp add: sched_inv_def)
qed

text \<open>
  A process whose state changes between alive states: the counters follow, the rest is kept.
\<close>

lemma sched_inv_state:
  assumes inv: "sched_inv s" and p: "p < NPROC" "alive (ptable s p)"
    and q: "q = (ptable s p)\<lparr>p_state := st, p_chan := ch, p_killed := k\<rparr>" and "alive q"
    and m: "m = (if p_level (ptable s p) = NOLEVEL \<or> active q = active (ptable s p) then mlfqstr s
      else if active q then mlfq_in (p_level (ptable s p)) (mlfqstr s)
      else mlfq_out (p_level (ptable s p)) (mlfqstr s))"
  shows "sched_inv (s\<lparr>ptable := (ptable s)(p := q), mlfqstr := m\<rparr>)"
proof -
  have "proc_ok p (ptable s p)" using inv p by (simp add: sched_inv_def table_ok_def)
  then have "proc_ok p q" using p q \<open>alive q\<close> by (simp add: proc_ok_def)
  then have "table_ok ((ptable s)(p := q)) (nextpid s)"
    using sched_invD(1)[OF inv] p q by (auto intro: table_ok_upd)
  moreover have "stride_proc q = stride_proc (ptable s p)"
    using q p \<open>alive q\<close> by (auto simp: stride_proc_def alive_def)
  then have "stride_ok ((ptable s)(p := q)) m"
    using q m by (intro stride_ok_cong[OF sched_invD(3)[OF inv]]) auto
  moreover have "mlfq_ok ((ptable s)(p := q)) m"
  proof -
    have ok: "mlfq_ok (ptable s) (mlfqstr s)" using inv by (simp add: sched_inv_def)
    show ?thesis
      using mlfq_ok_same[OF ok p(1), of q "mlfqstr s"] mlfq_ok_enter[OF ok p(1), of q]
        mlfq_ok_leave[OF ok p(1), of q] q m
      by (auto simp: in_mlfq_def split: if_splits)
  qed
  ultimately show ?thesis by (simp add: sched_inv_def)
qed

lemma sched_inv_frame:
  "sched_inv s \<Longrightarrow> ptable s' = ptable s \<Longrightarrow> mlfqstr s' = mlfqstr s \<Longrightarrow> nextpid s' = nextpid s \<Longrightarrow> sched_inv s'"
  by (simp add: sched_inv_def)

end
