(* ===== verification/Xv6_Sem.thy ===== *)
theory Xv6_Sem
  imports Xv6_Sched
begin

section \<open>Semaphores, readers-writer locks and sleep locks\<close>

text \<open>
  \<^verbatim>\<open>semaphore.c\<close>, \<^verbatim>\<open>rwlock.c\<close> and \<^verbatim>\<open>sleeplock.c\<close>. A semaphore lives in user memory and is named by its
  address; a readers-writer lock at address \<open>r\<close> holds its semaphores at \<open>r\<close> and \<open>r + 60\<close>
  (\<^verbatim>\<open>sizeof(xem_t)\<close> is 60) and its reader count behind them. A wait that has to sleep ends with
  \<open>Swtch\<close>; what the process does when it is resumed is the definition with suffix \<open>_resume\<close>.
\<close>

subsection \<open>State\<close>

record xem =
  xvalue :: int
  xchan :: int

record sleeplock =
  sl_locked :: bool
  sl_name :: string
  sl_pid :: int

datatype slk = BufSl nat | InodeSl nat

record sem_state = proc_state +
  xems :: "nat \<Rightarrow> xem"
  rwreaders :: "nat \<Rightarrow> int"
  slocks :: "slk \<Rightarrow> sleeplock"

definition upd_xem :: "nat \<Rightarrow> (xem \<Rightarrow> xem) \<Rightarrow> 'a sem_state_scheme \<Rightarrow> 'a sem_state_scheme" where
  "upd_xem a f s = s\<lparr>xems := (xems s)(a := f (xems s a))\<rparr>"

definition upd_slock :: "slk \<Rightarrow> (sleeplock \<Rightarrow> sleeplock) \<Rightarrow> 'a sem_state_scheme \<Rightarrow> 'a sem_state_scheme" where
  "upd_slock k f s = s\<lparr>slocks := (slocks s)(k := f (slocks s k))\<rparr>"

definition set_readers :: "nat \<Rightarrow> int \<Rightarrow> 'a sem_state_scheme \<Rightarrow> 'a sem_state_scheme" where
  "set_readers r v s = s\<lparr>rwreaders := (rwreaders s)(r := v)\<rparr>"

subsection \<open>Semaphores\<close>

definition xem_init :: "nat \<Rightarrow> 'a sem_state_scheme \<Rightarrow> ('a sem_state_scheme, int) res" where
  "xem_init a s =
     (let s = upd_xem a (\<lambda>x. x\<lparr>xvalue := 1, xchan := 0\<rparr>) s;
          s = s\<lparr>held := held s - {SemLock a}\<rparr>
      in Ok 0 s)"

definition xem_wait_loop :: "nat \<Rightarrow> 'a sem_state_scheme \<Rightarrow> ('a sem_state_scheme, int) res" where
  "xem_wait_loop a s =
     (if xvalue (xems s a) \<le> 0 then sleep (ChanSem a) (SemLock a) s
      else
        let s = upd_xem a (\<lambda>x. x\<lparr>xvalue := xvalue x - 1\<rparr>) s
        in bnd (release (SemLock a) s) (\<lambda>_ s. Ok 0 s))"

definition xem_wait :: "nat \<Rightarrow> 'a sem_state_scheme \<Rightarrow> ('a sem_state_scheme, int) res" where
  "xem_wait a s = bnd (acquire (SemLock a) s) (\<lambda>_ s. xem_wait_loop a s)"

definition xem_wait_resume :: "nat \<Rightarrow> nat \<Rightarrow> 'a sem_state_scheme \<Rightarrow> ('a sem_state_scheme, int) res" where
  "xem_wait_resume p a s = bnd (sleep_resume p (SemLock a) s) (\<lambda>_ s. xem_wait_loop a s)"

definition xem_post :: "nat \<Rightarrow> 'a sem_state_scheme \<Rightarrow> ('a sem_state_scheme, int) res" where
  "xem_post a s =
     bnd (acquire (SemLock a) s) (\<lambda>_ s.
     let s = upd_xem a (\<lambda>x. x\<lparr>xvalue := xvalue x + 1\<rparr>) s;
         s = wakeup_one (ChanSem a) s
     in bnd (release (SemLock a) s) (\<lambda>_ s. Ok 0 s))"

subsection \<open>Readers-writer locks\<close>

definition rw_write :: "nat \<Rightarrow> nat" where "rw_write r = r + 60"

definition rwlock_init :: "nat \<Rightarrow> 'a sem_state_scheme \<Rightarrow> ('a sem_state_scheme, int) res" where
  "rwlock_init r s =
     (let s = set_readers r 0 s
      in bnd (xem_init r s) (\<lambda>_ s.
         bnd (xem_init (rw_write r) s) (\<lambda>_ s. Ok 0 s)))"

text \<open>\<open>rw_enter\<close> is the part of \<^verbatim>\<open>rwlock_acquire_readlock\<close> that runs with the reader-count semaphore held.\<close>

definition rw_enter :: "nat \<Rightarrow> 'a sem_state_scheme \<Rightarrow> ('a sem_state_scheme, int) res" where
  "rw_enter r s =
     (let s = set_readers r (rwreaders s r + 1) s
      in bnd (if rwreaders s r = 1 then xem_wait (rw_write r) s else Ok 0 s) (\<lambda>_ s.
         bnd (xem_post r s) (\<lambda>_ s. Ok 0 s)))"

definition rwlock_acquire_readlock :: "nat \<Rightarrow> 'a sem_state_scheme \<Rightarrow> ('a sem_state_scheme, int) res" where
  "rwlock_acquire_readlock r s = bnd (xem_wait r s) (\<lambda>_ s. rw_enter r s)"

definition rwlock_release_readlock :: "nat \<Rightarrow> 'a sem_state_scheme \<Rightarrow> ('a sem_state_scheme, int) res" where
  "rwlock_release_readlock r s =
     bnd (xem_wait r s) (\<lambda>_ s.
     let s = set_readers r (rwreaders s r - 1) s
     in bnd (if rwreaders s r = 0 then xem_post (rw_write r) s else Ok 0 s) (\<lambda>_ s.
        bnd (xem_post r s) (\<lambda>_ s. Ok 0 s)))"

definition rwlock_acquire_writelock :: "nat \<Rightarrow> 'a sem_state_scheme \<Rightarrow> ('a sem_state_scheme, int) res" where
  "rwlock_acquire_writelock r s = bnd (xem_wait (rw_write r) s) (\<lambda>_ s. Ok 0 s)"

definition rwlock_release_writelock :: "nat \<Rightarrow> 'a sem_state_scheme \<Rightarrow> ('a sem_state_scheme, int) res" where
  "rwlock_release_writelock r s = bnd (xem_post (rw_write r) s) (\<lambda>_ s. Ok 0 s)"

subsection \<open>Sleep locks\<close>

fun slk_spin :: "slk \<Rightarrow> lock" where
  "slk_spin (BufSl i) = BufLk i"
| "slk_spin (InodeSl i) = InodeLk i"

fun slk_chan :: "slk \<Rightarrow> chan" where
  "slk_chan (BufSl i) = ChanBufLk i"
| "slk_chan (InodeSl i) = ChanInodeLk i"

definition initsleeplock :: "slk \<Rightarrow> string \<Rightarrow> 'a sem_state_scheme \<Rightarrow> 'a sem_state_scheme" where
  "initsleeplock k nm s =
     (let s = s\<lparr>held := held s - {slk_spin k}\<rparr>
      in upd_slock k (\<lambda>l. l\<lparr>sl_name := nm, sl_locked := False, sl_pid := 0\<rparr>) s)"

definition acquiresleep_loop :: "slk \<Rightarrow> 'a sem_state_scheme \<Rightarrow> ('a sem_state_scheme, unit) res" where
  "acquiresleep_loop k s =
     (if sl_locked (slocks s k) then sleep (slk_chan k) (slk_spin k) s
      else
        let s = upd_slock k (\<lambda>l. l\<lparr>sl_locked := True\<rparr>) s
        in with_myproc (\<lambda>p s.
             let s = upd_slock k (\<lambda>l. l\<lparr>sl_pid := p_pid (ptable s p)\<rparr>) s
             in release (slk_spin k) s) s)"

definition acquiresleep :: "slk \<Rightarrow> 'a sem_state_scheme \<Rightarrow> ('a sem_state_scheme, unit) res" where
  "acquiresleep k s = bnd (acquire (slk_spin k) s) (\<lambda>_ s. acquiresleep_loop k s)"

definition acquiresleep_resume :: "nat \<Rightarrow> slk \<Rightarrow> 'a sem_state_scheme \<Rightarrow> ('a sem_state_scheme, unit) res" where
  "acquiresleep_resume p k s = bnd (sleep_resume p (slk_spin k) s) (\<lambda>_ s. acquiresleep_loop k s)"

definition releasesleep :: "slk \<Rightarrow> 'a sem_state_scheme \<Rightarrow> ('a sem_state_scheme, unit) res" where
  "releasesleep k s =
     bnd (acquire (slk_spin k) s) (\<lambda>_ s.
     let s = upd_slock k (\<lambda>l. l\<lparr>sl_locked := False, sl_pid := 0\<rparr>) s
     in bnd (wakeup (slk_chan k) s) (\<lambda>_ s.
        release (slk_spin k) s))"

definition holdingsleep :: "slk \<Rightarrow> 'a sem_state_scheme \<Rightarrow> ('a sem_state_scheme, bool) res" where
  "holdingsleep k s =
     bnd (acquire (slk_spin k) s) (\<lambda>_ s.
     bnd (if sl_locked (slocks s k)
          then with_myproc (\<lambda>p s. Ok (sl_pid (slocks s k) = p_pid (ptable s p)) s) s
          else Ok False s) (\<lambda>r s.
     bnd (release (slk_spin k) s) (\<lambda>_ s. Ok r s)))"

end
