(* ===== verification/Xv6_Bio.thy ===== *)
theory Xv6_Bio
  imports Xv6_Sem
begin

unbundle bit_operations_syntax

section \<open>Disk and buffer cache\<close>

text \<open>
  \<^verbatim>\<open>buf.h\<close>, \<^verbatim>\<open>bio.c\<close>, the in-memory disk driver \<^verbatim>\<open>memide.c\<close> and the interrupt-driven driver \<^verbatim>\<open>ide.c\<close>.
  A buffer is named by its index in \<^verbatim>\<open>bcache.buf\<close>; the list head \<^verbatim>\<open>bcache.head\<close> has the index \<open>NBUF\<close>.
  The disk is an array of blocks; \<open>dtrace\<close> records the blocks written to it, oldest first, and nothing
  in the code reads it.
\<close>

subsection \<open>State\<close>

definition BSIZE :: nat where "BSIZE = 512"
definition NBUF :: nat where "NBUF = 30"
definition FSSIZE :: nat where "FSSIZE = 50000"
definition SECTOR_SIZE :: nat where "SECTOR_SIZE = 512"

record buf =
  b_valid :: bool
  b_dirty :: bool
  b_dev :: nat
  b_blockno :: nat
  b_refcnt :: nat
  b_prev :: nat
  b_next :: nat
  b_qnext :: "nat option"
  b_data :: bytes

text \<open>What the IDE driver sends to the device: a byte to a port, or the words of a block.\<close>

datatype port_op = Outb nat u8 | Outsl nat bytes

record bio_state = sem_state +
  bufs :: "nat \<Rightarrow> buf"
  disk :: "nat \<Rightarrow> bytes"
  disksize :: nat
  dtrace :: "(nat \<times> bytes) list"
  idequeue :: "nat option"
  havedisk1 :: bool
  ide_out :: "port_op list"

definition upd_buf :: "nat \<Rightarrow> (buf \<Rightarrow> buf) \<Rightarrow> 'a bio_state_scheme \<Rightarrow> 'a bio_state_scheme" where
  "upd_buf b f s = s\<lparr>bufs := (bufs s)(b := f (bufs s b))\<rparr>"

definition disk_write :: "nat \<Rightarrow> bytes \<Rightarrow> (nat \<Rightarrow> bytes) \<Rightarrow> nat \<Rightarrow> bytes" where
  "disk_write n d dk = dk(n := copy (dk n) 0 d 0 BSIZE)"

subsection \<open>The in-memory disk\<close>

definition iderw :: "nat \<Rightarrow> 'a bio_state_scheme \<Rightarrow> ('a bio_state_scheme, unit) res" where
  "iderw b s =
     bnd (holdingsleep (BufSl b) s) (\<lambda>h s.
     if \<not> h then Fail (Panic ''iderw: buf not locked'')
     else if b_valid (bufs s b) \<and> \<not> b_dirty (bufs s b) then Fail (Panic ''iderw: nothing to do'')
     else if b_dev (bufs s b) \<noteq> 1 then Fail (Panic ''iderw: request not for disk 1'')
     else if b_blockno (bufs s b) \<ge> disksize s then Fail (Panic ''iderw: block out of range'')
     else
       let p = b_blockno (bufs s b);
           s = (if b_dirty (bufs s b) then
                  let s = upd_buf b (\<lambda>x. x\<lparr>b_dirty := False\<rparr>) s
                  in s\<lparr>disk := disk_write p (b_data (bufs s b)) (disk s),
                       dtrace := dtrace s @ [(p, b_data (bufs s b))]\<rparr>
                else upd_buf b (\<lambda>x. x\<lparr>b_data := copy (b_data x) 0 (disk s p) 0 BSIZE\<rparr>) s)
       in Ok () (upd_buf b (\<lambda>x. x\<lparr>b_valid := True\<rparr>) s))"

subsection \<open>The IDE driver\<close>

text \<open>
  \<^verbatim>\<open>idewait\<close> polls the status register until the drive is ready; \<open>st\<close> is the status it then reads.
\<close>

definition idewait :: "bool \<Rightarrow> u8 \<Rightarrow> int" where
  "idewait checkerr st = (if checkerr \<and> st AND (0x20 OR 0x01) \<noteq> 0 then -1 else 0)"

definition idestart :: "nat option \<Rightarrow> 'a bio_state_scheme \<Rightarrow> ('a bio_state_scheme, unit) res" where
  "idestart bp s =
     (case bp of
        None \<Rightarrow> Fail (Panic ''idestart'')
      | Some b \<Rightarrow>
          let x = bufs s b
          in if b_blockno x \<ge> FSSIZE then Fail (Panic ''incorrect blockno'')
             else
               let sector_per_block = BSIZE div SECTOR_SIZE;
                   sector = b_blockno x * sector_per_block;
                   read_cmd = (if sector_per_block = 1 then 0x20 else 0xc4);
                   write_cmd = (if sector_per_block = 1 then 0x30 else 0xc5)
               in if sector_per_block > 7 then Fail (Panic ''idestart'')
                  else Ok () (s\<lparr>ide_out := ide_out s @
                    [Outb 0x3f6 0, Outb 0x1f2 (of_nat sector_per_block), Outb 0x1f3 (of_nat sector),
                     Outb 0x1f4 (of_nat (sector div 2 ^ 8)), Outb 0x1f5 (of_nat (sector div 2 ^ 16)),
                     Outb 0x1f6 (0xe0 OR of_nat (b_dev x mod 2 * 2 ^ 4) OR
                                 of_nat (sector div 2 ^ 24 mod 2 ^ 4))] @
                    (if b_dirty x then [Outb 0x1f7 write_cmd, Outsl 0x1f0 (b_data x)]
                     else [Outb 0x1f7 read_cmd])\<rparr>))"

text \<open>
  The interrupt handler: \<open>st\<close> is the drive's status and \<open>din\<close> the data it delivers.
\<close>

definition ideintr :: "u8 \<Rightarrow> bytes \<Rightarrow> 'a bio_state_scheme \<Rightarrow> ('a bio_state_scheme, unit) res" where
  "ideintr st din s =
     bnd (acquire IdeLock s) (\<lambda>_ s.
     case idequeue s of
       None \<Rightarrow> release IdeLock s
     | Some b \<Rightarrow>
         let s = s\<lparr>idequeue := b_qnext (bufs s b)\<rparr>;
             s = (if \<not> b_dirty (bufs s b) \<and> idewait True st \<ge> 0
                  then upd_buf b (\<lambda>x. x\<lparr>b_data := copy (b_data x) 0 din 0 BSIZE\<rparr>) s else s);
             s = upd_buf b (\<lambda>x. x\<lparr>b_valid := True, b_dirty := False\<rparr>) s
         in bnd (wakeup (ChanBuf b) s) (\<lambda>_ s.
            bnd (if idequeue s \<noteq> None then idestart (idequeue s) s else Ok () s) (\<lambda>_ s.
            release IdeLock s)))"

text \<open>The last entry of the request queue, found by following \<^verbatim>\<open>qnext\<close>; \<open>Some None\<close> is \<^verbatim>\<open>&idequeue\<close>.\<close>

fun ide_tail :: "nat \<Rightarrow> (nat \<Rightarrow> buf) \<Rightarrow> nat option \<Rightarrow> nat option \<Rightarrow> nat option option" where
  "ide_tail 0 bs pp q = None"
| "ide_tail (Suc n) bs pp None = Some pp"
| "ide_tail (Suc n) bs pp (Some b) = ide_tail n bs (Some b) (b_qnext (bs b))"

definition ide_wait_loop :: "nat \<Rightarrow> 'a bio_state_scheme \<Rightarrow> ('a bio_state_scheme, unit) res" where
  "ide_wait_loop b s =
     (if \<not> (b_valid (bufs s b) \<and> \<not> b_dirty (bufs s b)) then sleep (ChanBuf b) IdeLock s
      else release IdeLock s)"

definition ide_iderw :: "nat \<Rightarrow> 'a bio_state_scheme \<Rightarrow> ('a bio_state_scheme, unit) res" where
  "ide_iderw b s =
     bnd (holdingsleep (BufSl b) s) (\<lambda>h s.
     if \<not> h then Fail (Panic ''iderw: buf not locked'')
     else if b_valid (bufs s b) \<and> \<not> b_dirty (bufs s b) then Fail (Panic ''iderw: nothing to do'')
     else if b_dev (bufs s b) \<noteq> 0 \<and> \<not> havedisk1 s then Fail (Panic ''iderw: ide disk 1 not present'')
     else
       bnd (acquire IdeLock s) (\<lambda>_ s.
       let s = upd_buf b (\<lambda>x. x\<lparr>b_qnext := None\<rparr>) s
       in case ide_tail (Suc (Suc NBUF)) (bufs s) None (idequeue s) of
            None \<Rightarrow> Fail Hang
          | Some pp \<Rightarrow>
              let s = (case pp of None \<Rightarrow> s\<lparr>idequeue := Some b\<rparr>
                       | Some l \<Rightarrow> upd_buf l (\<lambda>x. x\<lparr>b_qnext := Some b\<rparr>) s)
              in bnd (if idequeue s = Some b then idestart (Some b) s else Ok () s) (\<lambda>_ s.
                 ide_wait_loop b s)))"

definition ide_iderw_resume :: "nat \<Rightarrow> nat \<Rightarrow> 'a bio_state_scheme \<Rightarrow> ('a bio_state_scheme, unit) res" where
  "ide_iderw_resume p b s = bnd (sleep_resume p IdeLock s) (\<lambda>_ s. ide_wait_loop b s)"

subsection \<open>The buffer cache\<close>

definition binit_one :: "nat \<Rightarrow> 'a bio_state_scheme \<Rightarrow> 'a bio_state_scheme" where
  "binit_one b s =
     (let s = upd_buf b (\<lambda>x. x\<lparr>b_next := b_next (bufs s NBUF)\<rparr>) s;
          s = upd_buf b (\<lambda>x. x\<lparr>b_prev := NBUF\<rparr>) s;
          s = initsleeplock (BufSl b) ''buffer'' s;
          s = upd_buf (b_next (bufs s NBUF)) (\<lambda>x. x\<lparr>b_prev := b\<rparr>) s
      in upd_buf NBUF (\<lambda>x. x\<lparr>b_next := b\<rparr>) s)"

definition binit :: "'a bio_state_scheme \<Rightarrow> 'a bio_state_scheme" where
  "binit s =
     (let s = s\<lparr>held := held s - {BcacheLock}\<rparr>;
          s = upd_buf NBUF (\<lambda>x. x\<lparr>b_prev := NBUF, b_next := NBUF\<rparr>) s
      in fold binit_one [0..<NBUF] s)"

text \<open>
  The two searches of \<^verbatim>\<open>bget\<close> along the list; \<open>Some None\<close> is that the head was reached, \<open>None\<close> that the
  walk does not end.
\<close>

fun bget_cached :: "nat \<Rightarrow> (nat \<Rightarrow> buf) \<Rightarrow> nat \<Rightarrow> nat \<Rightarrow> nat \<Rightarrow> nat option option" where
  "bget_cached 0 bs dev blockno b = None"
| "bget_cached (Suc n) bs dev blockno b =
     (if b = NBUF then Some None
      else if b_dev (bs b) = dev \<and> b_blockno (bs b) = blockno then Some (Some b)
      else bget_cached n bs dev blockno (b_next (bs b)))"

fun bget_unused :: "nat \<Rightarrow> (nat \<Rightarrow> buf) \<Rightarrow> nat \<Rightarrow> nat option option" where
  "bget_unused 0 bs b = None"
| "bget_unused (Suc n) bs b =
     (if b = NBUF then Some None
      else if b_refcnt (bs b) = 0 \<and> \<not> b_dirty (bs b) then Some (Some b)
      else bget_unused n bs (b_prev (bs b)))"

definition bget :: "nat \<Rightarrow> nat \<Rightarrow> 'a bio_state_scheme \<Rightarrow> ('a bio_state_scheme, nat) res" where
  "bget dev blockno s =
     bnd (acquire BcacheLock s) (\<lambda>_ s.
     case bget_cached (Suc NBUF) (bufs s) dev blockno (b_next (bufs s NBUF)) of
       None \<Rightarrow> Fail Hang
     | Some (Some b) \<Rightarrow>
         let s = upd_buf b (\<lambda>x. x\<lparr>b_refcnt := b_refcnt x + 1\<rparr>) s
         in bnd (release BcacheLock s) (\<lambda>_ s.
            bnd (acquiresleep (BufSl b) s) (\<lambda>_ s. Ok b s))
     | Some None \<Rightarrow>
         (case bget_unused (Suc NBUF) (bufs s) (b_prev (bufs s NBUF)) of
            None \<Rightarrow> Fail Hang
          | Some None \<Rightarrow> Fail (Panic ''bget: no buffers'')
          | Some (Some b) \<Rightarrow>
              let s = upd_buf b (\<lambda>x. x\<lparr>b_dev := dev, b_blockno := blockno, b_valid := False,
                        b_dirty := False, b_refcnt := 1\<rparr>) s
              in bnd (release BcacheLock s) (\<lambda>_ s.
                 bnd (acquiresleep (BufSl b) s) (\<lambda>_ s. Ok b s))))"

definition bread :: "nat \<Rightarrow> nat \<Rightarrow> 'a bio_state_scheme \<Rightarrow> ('a bio_state_scheme, nat) res" where
  "bread dev blockno s =
     bnd (bget dev blockno s) (\<lambda>b s.
     bnd (if \<not> b_valid (bufs s b) then iderw b s else Ok () s) (\<lambda>_ s.
     Ok b s))"

definition bwrite :: "nat \<Rightarrow> 'a bio_state_scheme \<Rightarrow> ('a bio_state_scheme, unit) res" where
  "bwrite b s =
     bnd (holdingsleep (BufSl b) s) (\<lambda>h s.
     if \<not> h then Fail (Panic ''bwrite'')
     else iderw b (upd_buf b (\<lambda>x. x\<lparr>b_dirty := True\<rparr>) s))"

definition brelse :: "nat \<Rightarrow> 'a bio_state_scheme \<Rightarrow> ('a bio_state_scheme, unit) res" where
  "brelse b s =
     bnd (holdingsleep (BufSl b) s) (\<lambda>h s.
     if \<not> h then Fail (Panic ''brelse'')
     else
       bnd (releasesleep (BufSl b) s) (\<lambda>_ s.
       bnd (acquire BcacheLock s) (\<lambda>_ s.
       let s = upd_buf b (\<lambda>x. x\<lparr>b_refcnt := (b_refcnt x + 2 ^ 32 - 1) mod 2 ^ 32\<rparr>) s;
           s = (if b_refcnt (bufs s b) = 0 then
                  let s = upd_buf (b_next (bufs s b)) (\<lambda>x. x\<lparr>b_prev := b_prev (bufs s b)\<rparr>) s;
                      s = upd_buf (b_prev (bufs s b)) (\<lambda>x. x\<lparr>b_next := b_next (bufs s b)\<rparr>) s;
                      s = upd_buf b (\<lambda>x. x\<lparr>b_next := b_next (bufs s NBUF)\<rparr>) s;
                      s = upd_buf b (\<lambda>x. x\<lparr>b_prev := NBUF\<rparr>) s;
                      s = upd_buf (b_next (bufs s NBUF)) (\<lambda>x. x\<lparr>b_prev := b\<rparr>) s
                  in upd_buf NBUF (\<lambda>x. x\<lparr>b_next := b\<rparr>) s
                else s)
       in release BcacheLock s)))"

end
