(* ===== verification/Xv6_Log.thy ===== *)
theory Xv6_Log
  imports Xv6_Bio
begin

section \<open>The write-ahead log\<close>

text \<open>
  \<^verbatim>\<open>log.c\<close>, and \<^verbatim>\<open>readsb\<close> of \<^verbatim>\<open>fs.c\<close>, which \<^verbatim>\<open>initlog\<close> calls. The in-memory header \<^verbatim>\<open>log.lh\<close> is \<open>lg_n\<close>
  and \<open>lg_block\<close>.
\<close>

subsection \<open>State\<close>

definition MAXOPBLOCKS :: nat where "MAXOPBLOCKS = 10"
definition LOGSIZE :: nat where "LOGSIZE = MAXOPBLOCKS * 3"

record superblock =
  sb_size :: nat
  sb_nblocks :: nat
  sb_ninodes :: nat
  sb_nlog :: nat
  sb_logstart :: nat
  sb_inodestart :: nat
  sb_bmapstart :: nat

record log_state = bio_state +
  lg_start :: nat
  lg_size :: int
  lg_outstanding :: int
  lg_committing :: bool
  lg_dev :: nat
  lg_n :: int
  lg_block :: "nat \<Rightarrow> nat"

definition set_data :: "nat \<Rightarrow> bytes \<Rightarrow> 'a bio_state_scheme \<Rightarrow> 'a bio_state_scheme" where
  "set_data b d s = upd_buf b (\<lambda>x. x\<lparr>b_data := d\<rparr>) s"

definition parse_sb :: "bytes \<Rightarrow> superblock" where
  "parse_sb d = \<lparr>sb_size = unat (get32 d 0), sb_nblocks = unat (get32 d 4), sb_ninodes = unat (get32 d 8),
     sb_nlog = unat (get32 d 12), sb_logstart = unat (get32 d 16), sb_inodestart = unat (get32 d 20),
     sb_bmapstart = unat (get32 d 24)\<rparr>"

definition readsb :: "nat \<Rightarrow> 'a bio_state_scheme \<Rightarrow> ('a bio_state_scheme, superblock) res" where
  "readsb dev s =
     bnd (bread dev 1 s) (\<lambda>bp s.
     let sb = parse_sb (b_data (bufs s bp))
     in bnd (brelse bp s) (\<lambda>_ s. Ok sb s))"

subsection \<open>The header block\<close>

text \<open>
  \<^verbatim>\<open>struct logheader\<close> on disk: the count, then the block numbers. A count above \<open>LOGSIZE\<close> makes \<^verbatim>\<open>read_head\<close>
  write behind \<^verbatim>\<open>log.lh.block\<close>.
\<close>

definition read_head :: "'a log_state_scheme \<Rightarrow> ('a log_state_scheme, unit) res" where
  "read_head s =
     bnd (bread (lg_dev s) (lg_start s) s) (\<lambda>buf s.
     let lh = b_data (bufs s buf);
         n = sint (get32 lh 0)
     in if n > int LOGSIZE then Fail (UB ''read_head: block index out of bounds'')
        else
          let s = s\<lparr>lg_n := n, lg_block := (\<lambda>i. if int i < n then unat (get32 lh (4 + 4 * i)) else lg_block s i)\<rparr>
          in brelse buf s)"

definition put_head :: "int \<Rightarrow> (nat \<Rightarrow> nat) \<Rightarrow> bytes \<Rightarrow> bytes" where
  "put_head n blk d =
     fold (\<lambda>i d. put32 d (4 + 4 * i) (of_nat (blk i))) [0..<nat n] (put32 d 0 (word_of_int n))"

definition write_head :: "'a log_state_scheme \<Rightarrow> ('a log_state_scheme, unit) res" where
  "write_head s =
     bnd (bread (lg_dev s) (lg_start s) s) (\<lambda>buf s.
     let s = set_data buf (put_head (lg_n s) (lg_block s) (b_data (bufs s buf))) s
     in bnd (bwrite buf s) (\<lambda>_ s.
        brelse buf s))"

subsection \<open>Copying between the log and the home locations\<close>

definition copy_block :: "nat \<Rightarrow> nat \<Rightarrow> 'a bio_state_scheme \<Rightarrow> 'a bio_state_scheme" where
  "copy_block dst src s = set_data dst (copy (b_data (bufs s dst)) 0 (b_data (bufs s src)) 0 BSIZE) s"

definition install_one :: "nat \<Rightarrow> 'a log_state_scheme \<Rightarrow> ('a log_state_scheme, unit) res" where
  "install_one tail s =
     bnd (bread (lg_dev s) (lg_start s + tail + 1) s) (\<lambda>lbuf s.
     bnd (bread (lg_dev s) (lg_block s tail) s) (\<lambda>dbuf s.
     let s = copy_block dbuf lbuf s
     in bnd (bwrite dbuf s) (\<lambda>_ s.
        bnd (brelse lbuf s) (\<lambda>_ s.
        brelse dbuf s))))"

definition install_trans :: "'a log_state_scheme \<Rightarrow> ('a log_state_scheme, unit) res" where
  "install_trans s = for_each install_one [0..<nat (lg_n s)] s"

definition write_log_one :: "nat \<Rightarrow> 'a log_state_scheme \<Rightarrow> ('a log_state_scheme, unit) res" where
  "write_log_one tail s =
     bnd (bread (lg_dev s) (lg_start s + tail + 1) s) (\<lambda>to s.
     bnd (bread (lg_dev s) (lg_block s tail) s) (\<lambda>from s.
     let s = copy_block to from s
     in bnd (bwrite to s) (\<lambda>_ s.
        bnd (brelse from s) (\<lambda>_ s.
        brelse to s))))"

definition write_log :: "'a log_state_scheme \<Rightarrow> ('a log_state_scheme, unit) res" where
  "write_log s = for_each write_log_one [0..<nat (lg_n s)] s"

subsection \<open>Transactions\<close>

definition recover_from_log :: "'a log_state_scheme \<Rightarrow> ('a log_state_scheme, unit) res" where
  "recover_from_log s =
     bnd (read_head s) (\<lambda>_ s.
     bnd (install_trans s) (\<lambda>_ s.
     write_head (s\<lparr>lg_n := 0\<rparr>)))"

text \<open>The first check of \<^verbatim>\<open>initlog\<close> compares the size of the header, \<open>4 + 4 * LOGSIZE\<close>, with a block.\<close>

definition initlog :: "nat \<Rightarrow> 'a log_state_scheme \<Rightarrow> ('a log_state_scheme, unit) res" where
  "initlog dev s =
     (if 4 + 4 * LOGSIZE \<ge> BSIZE then Fail (Panic ''initlog: too big logheader'')
      else
        let s = s\<lparr>held := held s - {LogLock}\<rparr>
        in bnd (readsb dev s) (\<lambda>sb s.
           recover_from_log (s\<lparr>lg_start := sb_logstart sb, lg_size := int (sb_nlog sb), lg_dev := dev\<rparr>)))"

definition commit :: "'a log_state_scheme \<Rightarrow> ('a log_state_scheme, unit) res" where
  "commit s =
     (if lg_n s > 0 then
        bnd (write_log s) (\<lambda>_ s.
        bnd (write_head s) (\<lambda>_ s.
        bnd (install_trans s) (\<lambda>_ s.
        write_head (s\<lparr>lg_n := 0\<rparr>))))
      else Ok () s)"

definition begin_op_loop :: "'a log_state_scheme \<Rightarrow> ('a log_state_scheme, unit) res" where
  "begin_op_loop s =
     (if lg_committing s then sleep ChanLog LogLock s
      else if lg_n s + (lg_outstanding s + 1) * int MAXOPBLOCKS > int LOGSIZE then sleep ChanLog LogLock s
      else release LogLock (s\<lparr>lg_outstanding := lg_outstanding s + 1\<rparr>))"

definition begin_op :: "'a log_state_scheme \<Rightarrow> ('a log_state_scheme, unit) res" where
  "begin_op s = bnd (acquire LogLock s) (\<lambda>_ s. begin_op_loop s)"

definition begin_op_resume :: "nat \<Rightarrow> 'a log_state_scheme \<Rightarrow> ('a log_state_scheme, unit) res" where
  "begin_op_resume p s = bnd (sleep_resume p LogLock s) (\<lambda>_ s. begin_op_loop s)"

definition end_op :: "'a log_state_scheme \<Rightarrow> ('a log_state_scheme, unit) res" where
  "end_op s =
     bnd (acquire LogLock s) (\<lambda>_ s.
     let s = s\<lparr>lg_outstanding := lg_outstanding s - 1\<rparr>
     in if lg_committing s then Fail (Panic ''log.committing'')
        else if lg_outstanding s = 0 then
          let s = s\<lparr>lg_committing := True\<rparr>
          in bnd (release LogLock s) (\<lambda>_ s.
             bnd (commit s) (\<lambda>_ s.
             bnd (acquire LogLock s) (\<lambda>_ s.
             let s = s\<lparr>lg_committing := False\<rparr>
             in bnd (wakeup ChanLog s) (\<lambda>_ s.
                release LogLock s))))
        else
          bnd (wakeup ChanLog s) (\<lambda>_ s.
          release LogLock s))"

definition log_write :: "nat \<Rightarrow> 'a log_state_scheme \<Rightarrow> ('a log_state_scheme, unit) res" where
  "log_write b s =
     (if lg_n s \<ge> int LOGSIZE \<or> lg_n s \<ge> lg_size s - 1 then Fail (Panic ''too big a transaction'')
      else if lg_outstanding s < 1 then Fail (Panic ''log_write outside of trans'')
      else
        bnd (acquire LogLock s) (\<lambda>_ s.
        let i = (case List.find (\<lambda>i. lg_block s i = b_blockno (bufs s b)) [0..<nat (lg_n s)] of
                   Some i \<Rightarrow> i | None \<Rightarrow> nat (lg_n s));
            s = s\<lparr>lg_block := (lg_block s)(i := b_blockno (bufs s b))\<rparr>;
            s = (if int i = lg_n s then s\<lparr>lg_n := lg_n s + 1\<rparr> else s);
            s = upd_buf b (\<lambda>x. x\<lparr>b_dirty := True\<rparr>) s
        in release LogLock s))"

end
