(* ===== verification/Xv6_VM.thy ===== *)
theory Xv6_VM
  imports Xv6_Kalloc
begin

unbundle bit_operations_syntax

section \<open>Page tables\<close>

text \<open>
  \<^verbatim>\<open>vm.c\<close> over physical memory: page directories and page tables are pages of little-endian 32-bit
  entries in \<open>mem\<close>. Addresses are numbers below \<open>2 ^ 32\<close>; a NULL pointer is 0. \<^verbatim>\<open>loaduvm\<close>, which reads
  an inode, is in the theory of \<^verbatim>\<open>exec.c\<close>; \<^verbatim>\<open>switchuvm\<close> and \<^verbatim>\<open>switchkvm\<close> are in \<open>Xv6_Proc\<close>.
\<close>

subsection \<open>Entries and addresses\<close>

definition NPDENTRIES :: nat where "NPDENTRIES = 1024"

definition PDX :: "nat \<Rightarrow> nat" where
  "PDX va = va div 2 ^ 22 mod 1024"

definition PTX :: "nat \<Rightarrow> nat" where
  "PTX va = va div 2 ^ 12 mod 1024"

definition PGADDR :: "nat \<Rightarrow> nat \<Rightarrow> nat \<Rightarrow> nat" where
  "PGADDR d t off = d * 2 ^ 22 + t * 2 ^ 12 + off"

definition PTE_P :: u32 where "PTE_P = 1"
definition PTE_W :: u32 where "PTE_W = 2"
definition PTE_U :: u32 where "PTE_U = 4"

definition PTE_ADDR :: "u32 \<Rightarrow> nat" where
  "PTE_ADDR e = unat (e AND NOT 0xFFF)"

definition PTE_FLAGS :: "u32 \<Rightarrow> u32" where
  "PTE_FLAGS e = e AND 0xFFF"

definition has_bit :: "u32 \<Rightarrow> u32 \<Rightarrow> bool" where
  "has_bit e f \<longleftrightarrow> e AND f \<noteq> 0"

subsection \<open>Walking and mapping\<close>

definition walkpgdir ::
  "nat \<Rightarrow> nat \<Rightarrow> bool \<Rightarrow> 'a kmem_state_scheme \<Rightarrow> ('a kmem_state_scheme, nat) res" where
  "walkpgdir pgdir va alloc s =
     (let pde = pgdir + 4 * PDX va
      in if has_bit (get32 (mem s) pde) PTE_P
         then Ok (P2V (PTE_ADDR (get32 (mem s) pde)) + 4 * PTX va) s
         else if \<not> alloc then Ok 0 s
         else bnd (kalloc s) (\<lambda>pgtab s.
           if pgtab = 0 then Ok 0 s
           else
             let s = s\<lparr>mem := memset (mem s) pgtab 0 PGSIZE\<rparr>;
                 s = s\<lparr>mem := put32 (mem s) pde (of_nat (V2P pgtab) OR PTE_P OR PTE_W OR PTE_U)\<rparr>
             in Ok (pgtab + 4 * PTX va) s))"

text \<open>
  The loop of \<^verbatim>\<open>mappages\<close>: \<open>n\<close> is the number of pages after the one at \<open>a\<close>; \<open>a\<close> and \<open>pa\<close> wrap at 32 bits.
\<close>

fun mappages_loop ::
  "nat \<Rightarrow> nat \<Rightarrow> nat \<Rightarrow> nat \<Rightarrow> u32 \<Rightarrow> 'a kmem_state_scheme \<Rightarrow> ('a kmem_state_scheme, int) res" where
  "mappages_loop n pgdir a pa perm s =
     bnd (walkpgdir pgdir a True s) (\<lambda>pte s.
     if pte = 0 then Ok (-1) s
     else if has_bit (get32 (mem s) pte) PTE_P then Fail (Panic ''remap'')
     else
       let s = s\<lparr>mem := put32 (mem s) pte (of_nat pa OR perm OR PTE_P)\<rparr>
       in case n of
            0 \<Rightarrow> Ok 0 s
          | Suc k \<Rightarrow> mappages_loop k pgdir ((a + PGSIZE) mod 2 ^ 32) ((pa + PGSIZE) mod 2 ^ 32) perm s)"

declare mappages_loop.simps [simp del]

definition mappages ::
  "nat \<Rightarrow> nat \<Rightarrow> nat \<Rightarrow> nat \<Rightarrow> u32 \<Rightarrow> 'a kmem_state_scheme \<Rightarrow> ('a kmem_state_scheme, int) res" where
  "mappages pgdir va sz pa perm s =
     (let a = PGROUNDDOWN va;
          last = PGROUNDDOWN ((va + sz + 2 ^ 32 - 1) mod 2 ^ 32)
      in mappages_loop (((last + 2 ^ 32 - a) mod 2 ^ 32) div PGSIZE) pgdir a pa perm s)"

subsection \<open>Freeing\<close>

text \<open>
  \<^verbatim>\<open>deallocuvm\<close> skips to the next page directory entry when there is no page table for \<open>a\<close>. For the
  last directory entry the next address wraps to 0 and the loop starts over, forever.
\<close>

function deallocuvm_loop :: "nat \<Rightarrow> nat \<Rightarrow> nat \<Rightarrow> 'a kmem_state_scheme \<Rightarrow> ('a kmem_state_scheme, unit) res" where
  "deallocuvm_loop pgdir a oldsz s =
     (if a < oldsz then
        bnd (walkpgdir pgdir a False s) (\<lambda>pte s.
        let e = get32 (mem s) pte;
            skip = PGADDR (PDX a + 1) 0 0 mod 2 ^ 32
        in if pte = 0 then
             (if skip \<le> a then Fail Hang else deallocuvm_loop pgdir skip oldsz s)
           else if has_bit e PTE_P then
             (if PTE_ADDR e = 0 then Fail (Panic ''kfree'')
              else bnd (kfree (P2V (PTE_ADDR e)) s) (\<lambda>_ s.
                   deallocuvm_loop pgdir (a + PGSIZE) oldsz (s\<lparr>mem := put32 (mem s) pte 0\<rparr>)))
           else deallocuvm_loop pgdir (a + PGSIZE) oldsz s)
      else Ok () s)"
  by pat_completeness auto
termination
  by (relation "measure (\<lambda>(pgdir, a, oldsz, s). oldsz - a)") (auto simp: PGSIZE_def)

declare deallocuvm_loop.simps [simp del]

definition deallocuvm :: "nat \<Rightarrow> nat \<Rightarrow> nat \<Rightarrow> 'a kmem_state_scheme \<Rightarrow> ('a kmem_state_scheme, nat) res" where
  "deallocuvm pgdir oldsz newsz s =
     (if newsz \<ge> oldsz then Ok oldsz s
      else bnd (deallocuvm_loop pgdir (PGROUNDUP newsz) oldsz s) (\<lambda>_ s. Ok newsz s))"

definition free_pgtab :: "nat \<Rightarrow> nat \<Rightarrow> 'a kmem_state_scheme \<Rightarrow> ('a kmem_state_scheme, unit) res" where
  "free_pgtab pgdir i s =
     (let pde = get32 (mem s) (pgdir + 4 * i)
      in if has_bit pde PTE_P then kfree (P2V (PTE_ADDR pde)) s else Ok () s)"

definition freevm :: "nat \<Rightarrow> 'a kmem_state_scheme \<Rightarrow> ('a kmem_state_scheme, unit) res" where
  "freevm pgdir s =
     (if pgdir = 0 then Fail (Panic ''freevm: no pgdir'')
      else bnd (deallocuvm pgdir KERNBASE 0 s) (\<lambda>_ s.
           bnd (for_each (free_pgtab pgdir) [0..<NPDENTRIES] s) (\<lambda>_ s.
           kfree pgdir s)))"

subsection \<open>The kernel part\<close>

record kmap_entry =
  km_virt :: nat
  km_start :: nat
  km_end :: nat
  km_perm :: u32

definition KERNLINK :: nat where "KERNLINK = KERNBASE + EXTMEM"

definition kmap :: "'a kmem_state_scheme \<Rightarrow> kmap_entry list" where
  "kmap s =
    [\<lparr>km_virt = KERNBASE, km_start = 0, km_end = EXTMEM, km_perm = PTE_W\<rparr>,
     \<lparr>km_virt = KERNLINK, km_start = V2P KERNLINK, km_end = V2P (kern_data s), km_perm = 0\<rparr>,
     \<lparr>km_virt = kern_data s, km_start = V2P (kern_data s), km_end = PHYSTOP, km_perm = PTE_W\<rparr>,
     \<lparr>km_virt = DEVSPACE, km_start = DEVSPACE, km_end = 0, km_perm = PTE_W\<rparr>]"

fun setupkvm_loop ::
  "nat \<Rightarrow> kmap_entry list \<Rightarrow> 'a kmem_state_scheme \<Rightarrow> ('a kmem_state_scheme, nat) res" where
  "setupkvm_loop pgdir [] s = Ok pgdir s"
| "setupkvm_loop pgdir (k # ks) s =
     bnd (mappages pgdir (km_virt k) ((km_end k + 2 ^ 32 - km_start k) mod 2 ^ 32) (km_start k)
       (km_perm k) s) (\<lambda>r s.
     if r < 0 then bnd (freevm pgdir s) (\<lambda>_ s. Ok 0 s)
     else setupkvm_loop pgdir ks s)"

definition setupkvm :: "'a kmem_state_scheme \<Rightarrow> ('a kmem_state_scheme, nat) res" where
  "setupkvm s =
     bnd (kalloc s) (\<lambda>pgdir s.
     if pgdir = 0 then Ok 0 s
     else
       let s = s\<lparr>mem := memset (mem s) pgdir 0 PGSIZE\<rparr>
       in if P2V PHYSTOP > DEVSPACE then Fail (Panic ''PHYSTOP too high'')
          else setupkvm_loop pgdir (kmap s) s)"

subsection \<open>User memory\<close>

text \<open>
  \<^verbatim>\<open>inituvm\<close> does not check the result of \<^verbatim>\<open>kalloc\<close>; writing through NULL is undefined. \<open>init\<close> is the
  initial program's bytes.
\<close>

definition inituvm :: "nat \<Rightarrow> bytes \<Rightarrow> nat \<Rightarrow> 'a kmem_state_scheme \<Rightarrow> ('a kmem_state_scheme, unit) res" where
  "inituvm pgdir init sz s =
     (if sz \<ge> PGSIZE then Fail (Panic ''inituvm: more than a page'')
      else bnd (kalloc s) (\<lambda>pg s.
        if pg = 0 then Fail (UB ''inituvm: memset of NULL'')
        else
          let s = s\<lparr>mem := memset (mem s) pg 0 PGSIZE\<rparr>
          in bnd (mappages pgdir 0 PGSIZE (V2P pg) (PTE_W OR PTE_U) s) (\<lambda>_ s.
             Ok () (s\<lparr>mem := copy (mem s) pg init 0 sz\<rparr>))))"

function allocuvm_loop ::
  "nat \<Rightarrow> nat \<Rightarrow> nat \<Rightarrow> nat \<Rightarrow> 'a kmem_state_scheme \<Rightarrow> ('a kmem_state_scheme, nat) res" where
  "allocuvm_loop pgdir a oldsz newsz s =
     (if a < newsz then
        bnd (kalloc s) (\<lambda>pg s.
        if pg = 0 then bnd (deallocuvm pgdir newsz oldsz s) (\<lambda>_ s. Ok 0 s)
        else
          let s = s\<lparr>mem := memset (mem s) pg 0 PGSIZE\<rparr>
          in bnd (mappages pgdir a PGSIZE (V2P pg) (PTE_W OR PTE_U) s) (\<lambda>r s.
             if r < 0 then
               bnd (deallocuvm pgdir newsz oldsz s) (\<lambda>_ s.
               bnd (kfree pg s) (\<lambda>_ s. Ok 0 s))
             else allocuvm_loop pgdir (a + PGSIZE) oldsz newsz s))
      else Ok newsz s)"
  by pat_completeness auto
termination
  by (relation "measure (\<lambda>(pgdir, a, oldsz, newsz, s). newsz - a)") (auto simp: PGSIZE_def)

declare allocuvm_loop.simps [simp del]

definition allocuvm :: "nat \<Rightarrow> nat \<Rightarrow> nat \<Rightarrow> 'a kmem_state_scheme \<Rightarrow> ('a kmem_state_scheme, nat) res" where
  "allocuvm pgdir oldsz newsz s =
     (if newsz \<ge> KERNBASE then Ok 0 s
      else if newsz < oldsz then Ok oldsz s
      else allocuvm_loop pgdir (PGROUNDUP oldsz) oldsz newsz s)"

definition clearpteu :: "nat \<Rightarrow> nat \<Rightarrow> 'a kmem_state_scheme \<Rightarrow> ('a kmem_state_scheme, unit) res" where
  "clearpteu pgdir uva s =
     bnd (walkpgdir pgdir uva False s) (\<lambda>pte s.
     if pte = 0 then Fail (Panic ''clearpteu'')
     else Ok () (s\<lparr>mem := put32 (mem s) pte (get32 (mem s) pte AND NOT PTE_U)\<rparr>))"

function copyuvm_loop ::
  "nat \<Rightarrow> nat \<Rightarrow> nat \<Rightarrow> nat \<Rightarrow> 'a kmem_state_scheme \<Rightarrow> ('a kmem_state_scheme, nat) res" where
  "copyuvm_loop pgdir d i sz s =
     (if i < sz then
        bnd (walkpgdir pgdir i False s) (\<lambda>pte s.
        if pte = 0 then Fail (Panic ''copyuvm: pte should exist'')
        else
          let e = get32 (mem s) pte
          in if \<not> has_bit e PTE_P then Fail (Panic ''copyuvm: page not present'')
             else bnd (kalloc s) (\<lambda>pg s.
               if pg = 0 then bnd (freevm d s) (\<lambda>_ s. Ok 0 s)
               else
                 let s = s\<lparr>mem := memmove (mem s) pg (P2V (PTE_ADDR e)) PGSIZE\<rparr>
                 in bnd (mappages d i PGSIZE (V2P pg) (PTE_FLAGS e) s) (\<lambda>r s.
                    if r < 0 then bnd (kfree pg s) (\<lambda>_ s. bnd (freevm d s) (\<lambda>_ s. Ok 0 s))
                    else copyuvm_loop pgdir d (i + PGSIZE) sz s)))
      else Ok d s)"
  by pat_completeness auto
termination
  by (relation "measure (\<lambda>(pgdir, d, i, sz, s). sz - i)") (auto simp: PGSIZE_def)

declare copyuvm_loop.simps [simp del]

definition copyuvm :: "nat \<Rightarrow> nat \<Rightarrow> 'a kmem_state_scheme \<Rightarrow> ('a kmem_state_scheme, nat) res" where
  "copyuvm pgdir sz s =
     bnd (setupkvm s) (\<lambda>d s.
     if d = 0 then Ok 0 s else copyuvm_loop pgdir d 0 sz s)"

text \<open>
  \<^verbatim>\<open>uva2ka\<close> dereferences the entry pointer without checking it; without a page table that is NULL.
\<close>

definition uva2ka :: "nat \<Rightarrow> nat \<Rightarrow> 'a kmem_state_scheme \<Rightarrow> ('a kmem_state_scheme, nat) res" where
  "uva2ka pgdir uva s =
     bnd (walkpgdir pgdir uva False s) (\<lambda>pte s.
     if pte = 0 then Fail (UB ''uva2ka: pte is NULL'')
     else
       let e = get32 (mem s) pte
       in if \<not> has_bit e PTE_P then Ok 0 s
          else if \<not> has_bit e PTE_U then Ok 0 s
          else Ok (P2V (PTE_ADDR e)) s)"

text \<open>\<open>buf\<close> is the kernel data to copy, read from offset \<open>k\<close> on.\<close>

function copyout_loop ::
  "nat \<Rightarrow> nat \<Rightarrow> bytes \<Rightarrow> nat \<Rightarrow> nat \<Rightarrow> 'a kmem_state_scheme \<Rightarrow> ('a kmem_state_scheme, int) res" where
  "copyout_loop pgdir va buf k len s =
     (if len > 0 then
        let va0 = PGROUNDDOWN va
        in bnd (uva2ka pgdir va0 s) (\<lambda>pa0 s.
           if pa0 = 0 then Ok (-1) s
           else
             let n = min (PGSIZE - (va - va0)) len;
                 s = s\<lparr>mem := copy (mem s) (pa0 + (va - va0)) buf k n\<rparr>
             in copyout_loop pgdir (va0 + PGSIZE) buf (k + n) (len - n) s)
      else Ok 0 s)"
  by pat_completeness auto
termination
proof (relation "measure (\<lambda>(pgdir, va, buf, k, len, s). len)", goal_cases)
  case (2 pgdir va buf k len s va0 x xa n xb)
  have "va - PGROUNDDOWN va < PGSIZE"
    by (simp add: PGROUNDDOWN_def PGSIZE_def minus_div_mult_eq_mod)
  with 2 show ?case by simp
qed simp

declare copyout_loop.simps [simp del]

definition copyout ::
  "nat \<Rightarrow> nat \<Rightarrow> bytes \<Rightarrow> nat \<Rightarrow> 'a kmem_state_scheme \<Rightarrow> ('a kmem_state_scheme, int) res" where
  "copyout pgdir va buf len s = copyout_loop pgdir va buf 0 len s"

end
