(* ===== verification/Xv6_UMem.thy ===== *)
theory Xv6_UMem
  imports Xv6_VM Xv6_Proc
begin

section \<open>Virtual memory of the running process\<close>

text \<open>
  What a load or store at a virtual address does while the page table in \<^verbatim>\<open>cr3\<close> is active: kernel
  addresses are mapped directly, a user address goes through the page directory and a page table.
  An address without a present mapping faults, and a fault in the kernel ends
  in the panic of \<^verbatim>\<open>trap.c\<close>.
\<close>

definition vtrans :: "'a proc_state_scheme \<Rightarrow> nat \<Rightarrow> nat option" where
  "vtrans s va =
     (if va \<ge> KERNBASE then Some va
      else
        let pde = get32 (mem s) (P2V (cr3 s) + 4 * PDX va);
            pte = get32 (mem s) (P2V (PTE_ADDR pde) + 4 * PTX va)
        in if has_bit pde PTE_P \<and> has_bit pte PTE_P
           then Some (P2V (PTE_ADDR pte) + va mod PGSIZE) else None)"

fun vstore :: "nat \<Rightarrow> bytes \<Rightarrow> nat \<Rightarrow> nat \<Rightarrow> 'a proc_state_scheme \<Rightarrow> ('a proc_state_scheme, unit) res" where
  "vstore a d k 0 s = Ok () s"
| "vstore a d k (Suc m) s =
     (case vtrans s a of
        None \<Rightarrow> Fail (Panic ''trap'')
      | Some x \<Rightarrow> vstore (a + 1) d (k + 1) m (s\<lparr>mem := (mem s)(x := d k)\<rparr>))"

fun vload :: "'a proc_state_scheme \<Rightarrow> nat \<Rightarrow> nat \<Rightarrow> u8 list option" where
  "vload s a 0 = Some []"
| "vload s a (Suc m) =
     (case vtrans s a of
        None \<Rightarrow> None
      | Some x \<Rightarrow> (case vload s (a + 1) m of None \<Rightarrow> None | Some bs \<Rightarrow> Some (mem s x # bs)))"

definition of_list :: "u8 list \<Rightarrow> bytes" where
  "of_list bs i = (if i < length bs then bs ! i else 0)"

definition vload32 :: "'a proc_state_scheme \<Rightarrow> nat \<Rightarrow> u32 option" where
  "vload32 s a = map_option (\<lambda>bs. get32 (of_list bs) 0) (vload s a 4)"

definition vstore32 :: "nat \<Rightarrow> u32 \<Rightarrow> 'a proc_state_scheme \<Rightarrow> ('a proc_state_scheme, unit) res" where
  "vstore32 a v s = vstore a (put32 (\<lambda>_. 0) 0 v) 0 4 s"

lemma vload_length: "vload s a m = Some bs \<Longrightarrow> length bs = m"
  by (induction m arbitrary: a bs) (auto split: option.splits)

lemma vload_kernel: "a \<ge> KERNBASE \<Longrightarrow> vload s a m = Some (map (\<lambda>i. mem s (a + i)) [0..<m])"
proof (induction m arbitrary: a)
  case (Suc m)
  then have "vload s (a + 1) m = Some (map (\<lambda>i. mem s (a + 1 + i)) [0..<m])" by simp
  moreover have "[0..<Suc m] = 0 # map Suc [0..<m]" by (simp add: map_Suc_upt upt_conv_Cons)
  ultimately show ?case using Suc.prems by (simp add: vtrans_def)
qed simp

lemma vload_mapped:
  "\<forall>i<m. \<exists>x. vtrans s (a + i) = Some x \<and> mem s x = w i \<Longrightarrow> vload s a m = Some (map w [0..<m])"
proof (induction m arbitrary: a w)
  case (Suc m)
  have "\<exists>x. vtrans s (a + 1 + i) = Some x \<and> mem s x = w (Suc i)" if "i < m" for i
    using Suc.prems[rule_format, of "Suc i"] that by simp
  then have "vload s (a + 1) m = Some (map (\<lambda>i. w (Suc i)) [0..<m])" using Suc.IH[of "a + 1" "\<lambda>i. w (Suc i)"] by blast
  moreover obtain x where "vtrans s a = Some x" "mem s x = w 0" using Suc.prems by force
  moreover have "map w [0..<Suc m] = w 0 # map (\<lambda>i. w (Suc i)) [0..<m]" by (simp add: map_upt_Suc del: upt_Suc)
  ultimately show ?case by simp
qed simp

lemma vload_cong:
  assumes "mem t = mem s" and "cr3 t = cr3 s"
  shows "vload t a m = vload s a m"
proof -
  have v: "vtrans t b = vtrans s b" for b using assms by (simp add: vtrans_def)
  show ?thesis by (induction m arbitrary: a) (simp_all add: v assms split: option.split)
qed

subsection \<open>Stores and loads\<close>

lemma vstore_cong:
  fixes s :: "'a proc_state_scheme"
  shows "(\<And>j. j < m \<Longrightarrow> d (k + j) = e (l + j)) \<Longrightarrow> vstore a d k m s = vstore a e l m s"
proof (induction m arbitrary: a k l s)
  case (Suc m)
  have "d (k + 1 + j) = e (l + 1 + j)" if "j < m" for j using Suc.prems[of "Suc j"] that by simp
  then have "vstore (a + 1) d (k + 1) m t = vstore (a + 1) e (l + 1) m t" for t :: "'a proc_state_scheme" by (rule Suc.IH)
  then show ?case using Suc.prems[of 0] by (simp split: option.splits)
qed simp

lemma vstore_frame: "vstore a d k m s = Ok () t \<Longrightarrow> \<exists>f. t = s\<lparr>mem := f\<rparr>"
proof (induction m arbitrary: a k s)
  case (Suc m)
  then obtain x where "vstore (a + 1) d (k + 1) m (s\<lparr>mem := (mem s)(x := d k)\<rparr>) = Ok () t" by (auto split: option.splits)
  then show ?case using Suc.IH by fastforce
qed (auto intro: exI[of _ "mem t"])

text \<open>
  \<open>buf_ok s a n\<close>: the \<open>n\<close> bytes from \<open>a\<close> are mapped, to different places, and stores to them leave the mapping alone.
\<close>

definition buf_ok :: "'a proc_state_scheme \<Rightarrow> nat \<Rightarrow> nat \<Rightarrow> bool" where
  "buf_ok s a n \<longleftrightarrow> (\<exists>g. inj_on g {..<n} \<and>
     (\<forall>f. (\<forall>x. x \<notin> g ` {..<n} \<longrightarrow> f x = mem s x) \<longrightarrow> (\<forall>i<n. vtrans (s\<lparr>mem := f\<rparr>) (a + i) = Some (g i))))"

lemma buf_ok_cong:
  assumes "buf_ok s a n" and "mem t = mem s" and "cr3 t = cr3 s"
  shows "buf_ok t a n"
proof -
  have "vtrans (t\<lparr>mem := f\<rparr>) b = vtrans (s\<lparr>mem := f\<rparr>) b" for f b using assms(3) by (simp add: vtrans_def)
  then show ?thesis using assms(1,2) by (simp add: buf_ok_def)
qed

lemma buf_ok_kernel: "a \<ge> KERNBASE \<Longrightarrow> buf_ok s a n"
  unfolding buf_ok_def by (intro exI[of _ "\<lambda>i. a + i"]) (simp add: vtrans_def inj_on_def)

lemma vstore_vload:
  assumes b: "buf_ok s a n" and m: "m \<le> n" "m = length bs"
  shows "\<exists>f. vstore a (of_list bs) 0 m s = Ok () (s\<lparr>mem := f\<rparr>) \<and> vload (s\<lparr>mem := f\<rparr>) a m = Some bs"
proof -
  obtain g where g: "inj_on g {..<n}"
      "\<And>f i. \<forall>x. x \<notin> g ` {..<n} \<longrightarrow> f x = mem s x \<Longrightarrow> i < n \<Longrightarrow> vtrans (s\<lparr>mem := f\<rparr>) (a + i) = Some (g i)"
    using b unfolding buf_ok_def by blast
  have "\<exists>f. vstore (a + k) (of_list bs) k j (s\<lparr>mem := e\<rparr>) = Ok () (s\<lparr>mem := f\<rparr>) \<and> (\<forall>x. x \<notin> g ` {..<n} \<longrightarrow> f x = mem s x) \<and>
      (\<forall>i<n. f (g i) = (if k \<le> i \<and> i < k + j then of_list bs i else e (g i)))"
    if "k + j \<le> n" "\<forall>x. x \<notin> g ` {..<n} \<longrightarrow> e x = mem s x" for j k e
    using that
  proof (induction j arbitrary: k e)
    case (Suc j)
    let ?e = "e(g k := of_list bs k)"
    have "\<forall>x. x \<notin> g ` {..<n} \<longrightarrow> ?e x = mem s x" using Suc.prems by auto
    then obtain f where f: "vstore (a + Suc k) (of_list bs) (Suc k) j (s\<lparr>mem := ?e\<rparr>) = Ok () (s\<lparr>mem := f\<rparr>)"
        "\<forall>x. x \<notin> g ` {..<n} \<longrightarrow> f x = mem s x"
        "\<forall>i<n. f (g i) = (if Suc k \<le> i \<and> i < Suc k + j then of_list bs i else ?e (g i))"
      using Suc.IH[of "Suc k" ?e] Suc.prems(1) unfolding add_Suc_shift by blast
    have "vtrans (s\<lparr>mem := e\<rparr>) (a + k) = Some (g k)" using g(2)[of e k] Suc.prems by simp
    then have "vstore (a + k) (of_list bs) k (Suc j) (s\<lparr>mem := e\<rparr>) = Ok () (s\<lparr>mem := f\<rparr>)" using f(1) by simp
    moreover have "?e (g i) = (if i = k then of_list bs k else e (g i))" if "i < n" for i
      using g(1) that Suc.prems(1) by (auto simp: inj_on_def)
    then have "\<forall>i<n. f (g i) = (if k \<le> i \<and> i < k + Suc j then of_list bs i else e (g i))" using f(3) by auto
    ultimately show ?case using f(2) by blast
  qed auto
  from this[of 0 m "mem s"] obtain f where f: "vstore a (of_list bs) 0 m s = Ok () (s\<lparr>mem := f\<rparr>)"
      "\<forall>x. x \<notin> g ` {..<n} \<longrightarrow> f x = mem s x" "\<forall>i<n. i < m \<longrightarrow> f (g i) = of_list bs i"
    using m by auto
  have "\<forall>i<m. \<exists>x. vtrans (s\<lparr>mem := f\<rparr>) (a + i) = Some x \<and> mem (s\<lparr>mem := f\<rparr>) x = bs ! i"
    using g(2)[of f] f(2,3) m by (auto simp: of_list_def)
  then have "vload (s\<lparr>mem := f\<rparr>) a m = Some (map (\<lambda>i. bs ! i) [0..<m])" by (rule vload_mapped)
  then have "vload (s\<lparr>mem := f\<rparr>) a m = Some bs" by (simp add: m(2) map_nth)
  then show ?thesis using f(1) by blast
qed

end
