(* ===== verification/Xv6_Fs.thy ===== *)
theory Xv6_Fs
  imports Xv6_Log Xv6_UMem
begin

unbundle bit_operations_syntax

section \<open>Blocks and inodes\<close>

text \<open>
  \<^verbatim>\<open>fs.c\<close> up to \<^verbatim>\<open>writei\<close>: the free block bitmap, the inode cache, the mapping of file blocks to disk
  blocks with single, double and triple indirection, truncation, reading and writing. An in-memory
  inode is named by its index in \<^verbatim>\<open>icache.inode\<close>. The device table \<^verbatim>\<open>devsw\<close> is an argument of the
  operations that call through it.
\<close>

subsection \<open>State\<close>

definition NINODE :: nat where "NINODE = 50"
definition NDEV :: nat where "NDEV = 10"
definition NDIRECT :: nat where "NDIRECT = 10"
definition NINDIRECT :: nat where "NINDIRECT = BSIZE div 4"
definition NDINDIRECT :: nat where "NDINDIRECT = (BSIZE div 4) * (BSIZE div 4)"
definition NTINDIRECT :: nat where "NTINDIRECT = (BSIZE div 4) * (BSIZE div 4) * (BSIZE div 4)"
definition MAXFILE :: nat where "MAXFILE = NDIRECT + NINDIRECT + NDINDIRECT + NTINDIRECT"
definition DINODESZ :: nat where "DINODESZ = 12 + 4 * (NDIRECT + 3)"
definition IPB :: nat where "IPB = BSIZE div DINODESZ"
definition BPB :: nat where "BPB = BSIZE * 8"
definition T_DIR :: int where "T_DIR = 1"
definition T_FILE :: int where "T_FILE = 2"
definition T_DEV :: int where "T_DEV = 3"

record inode =
  i_dev :: nat
  i_inum :: nat
  i_ref :: int
  i_valid :: bool
  i_type :: int
  i_major :: int
  i_minor :: int
  i_nlink :: int
  i_size :: nat
  i_addrs :: "nat \<Rightarrow> nat"

record fs_state = log_state +
  sb :: superblock
  icache :: "nat \<Rightarrow> inode"

definition upd_inode :: "nat \<Rightarrow> (inode \<Rightarrow> inode) \<Rightarrow> 'a fs_state_scheme \<Rightarrow> 'a fs_state_scheme" where
  "upd_inode ip f s = s\<lparr>icache := (icache s)(ip := f (icache s ip))\<rparr>"

definition IBLOCK :: "nat \<Rightarrow> superblock \<Rightarrow> nat" where
  "IBLOCK i sblk = i div IPB + sb_inodestart sblk"

definition BBLOCK :: "nat \<Rightarrow> superblock \<Rightarrow> nat" where
  "BBLOCK b sblk = b div BPB + sb_bmapstart sblk"

subsection \<open>Blocks\<close>

definition bzero :: "nat \<Rightarrow> nat \<Rightarrow> 'a fs_state_scheme \<Rightarrow> ('a fs_state_scheme, unit) res" where
  "bzero dev bno s =
     bnd (bread dev bno s) (\<lambda>bp s.
     let s = set_data bp (memset (b_data (bufs s bp)) 0 0 BSIZE) s
     in bnd (log_write bp s) (\<lambda>_ s.
        brelse bp s))"

definition bit_used :: "bytes \<Rightarrow> nat \<Rightarrow> bool" where
  "bit_used d bi \<longleftrightarrow> d (bi div 8) AND push_bit (bi mod 8) 1 \<noteq> 0"

definition mark_used :: "nat \<Rightarrow> bytes \<Rightarrow> bytes" where
  "mark_used bi d = d(bi div 8 := d (bi div 8) OR push_bit (bi mod 8) 1)"

definition mark_free :: "nat \<Rightarrow> bytes \<Rightarrow> bytes" where
  "mark_free bi d = d(bi div 8 := d (bi div 8) AND NOT (push_bit (bi mod 8) 1))"

fun balloc_scan :: "nat \<Rightarrow> nat list \<Rightarrow> 'a fs_state_scheme \<Rightarrow> ('a fs_state_scheme, nat) res" where
  "balloc_scan dev [] s = Fail (Panic ''balloc: out of blocks'')"
| "balloc_scan dev (b # bs) s =
     bnd (bread dev (BBLOCK b (sb s)) s) (\<lambda>bp s.
     case List.find (\<lambda>bi. \<not> bit_used (b_data (bufs s bp)) bi) [0..<min BPB (sb_size (sb s) - b)] of
       Some bi \<Rightarrow>
         let s = set_data bp (mark_used bi (b_data (bufs s bp))) s
         in bnd (log_write bp s) (\<lambda>_ s.
            bnd (brelse bp s) (\<lambda>_ s.
            bnd (bzero dev (b + bi) s) (\<lambda>_ s.
            Ok (b + bi) s)))
     | None \<Rightarrow> bnd (brelse bp s) (\<lambda>_ s. balloc_scan dev bs s))"

definition balloc :: "nat \<Rightarrow> 'a fs_state_scheme \<Rightarrow> ('a fs_state_scheme, nat) res" where
  "balloc dev s =
     balloc_scan dev (map (\<lambda>k. k * BPB) [0..<(sb_size (sb s) + BPB - 1) div BPB]) s"

definition bfree :: "nat \<Rightarrow> nat \<Rightarrow> 'a fs_state_scheme \<Rightarrow> ('a fs_state_scheme, unit) res" where
  "bfree dev b s =
     bnd (bread dev (BBLOCK b (sb s)) s) (\<lambda>bp s.
     let bi = b mod BPB
     in if \<not> bit_used (b_data (bufs s bp)) bi then Fail (Panic ''freeing free block'')
        else
          let s = set_data bp (mark_free bi (b_data (bufs s bp))) s
          in bnd (log_write bp s) (\<lambda>_ s.
             brelse bp s))"

subsection \<open>Inodes on disk\<close>

definition dinode_off :: "nat \<Rightarrow> nat" where
  "dinode_off inum = (inum mod IPB) * DINODESZ"

definition put_addrs :: "nat \<Rightarrow> (nat \<Rightarrow> nat) \<Rightarrow> bytes \<Rightarrow> bytes" where
  "put_addrs q addrs d = fold (\<lambda>i d. put32 d (q + 12 + 4 * i) (of_nat (addrs i))) [0..<NDIRECT + 3] d"

definition put_dinode :: "nat \<Rightarrow> inode \<Rightarrow> bytes \<Rightarrow> bytes" where
  "put_dinode q ip d =
     (let d = put16 d q (word_of_int (i_type ip));
          d = put16 d (q + 2) (word_of_int (i_major ip));
          d = put16 d (q + 4) (word_of_int (i_minor ip));
          d = put16 d (q + 6) (word_of_int (i_nlink ip));
          d = put32 d (q + 8) (of_nat (i_size ip))
      in put_addrs q (i_addrs ip) d)"

definition get_dinode :: "nat \<Rightarrow> bytes \<Rightarrow> inode \<Rightarrow> inode" where
  "get_dinode q d ip = ip\<lparr>
     i_type := sint (get16 d q), i_major := sint (get16 d (q + 2)), i_minor := sint (get16 d (q + 4)),
     i_nlink := sint (get16 d (q + 6)), i_size := unat (get32 d (q + 8)),
     i_addrs := (\<lambda>i. if i < NDIRECT + 3 then unat (get32 d (q + 12 + 4 * i)) else i_addrs ip i)\<rparr>"

definition iinit :: "nat \<Rightarrow> 'a fs_state_scheme \<Rightarrow> ('a fs_state_scheme, unit) res" where
  "iinit dev s =
     (let s = s\<lparr>held := held s - {IcacheLock}\<rparr>;
          s = fold (\<lambda>i. initsleeplock (InodeSl i) ''inode'') [0..<NINODE] s
      in bnd (readsb dev s) (\<lambda>x s. Ok () (s\<lparr>sb := x\<rparr>)))"

definition iget :: "nat \<Rightarrow> nat \<Rightarrow> 'a fs_state_scheme \<Rightarrow> ('a fs_state_scheme, nat) res" where
  "iget dev inum s =
     bnd (acquire IcacheLock s) (\<lambda>_ s.
     case List.find (\<lambda>ip. i_ref (icache s ip) > 0 \<and> i_dev (icache s ip) = dev \<and> i_inum (icache s ip) = inum)
            [0..<NINODE] of
       Some ip \<Rightarrow>
         let s = upd_inode ip (\<lambda>x. x\<lparr>i_ref := i_ref x + 1\<rparr>) s
         in bnd (release IcacheLock s) (\<lambda>_ s. Ok ip s)
     | None \<Rightarrow>
         (case List.find (\<lambda>ip. i_ref (icache s ip) = 0) [0..<NINODE] of
            None \<Rightarrow> Fail (Panic ''iget: no inodes'')
          | Some ip \<Rightarrow>
              let s = upd_inode ip (\<lambda>x. x\<lparr>i_dev := dev, i_inum := inum, i_ref := 1, i_valid := False\<rparr>) s
              in bnd (release IcacheLock s) (\<lambda>_ s. Ok ip s)))"

fun ialloc_scan :: "nat \<Rightarrow> int \<Rightarrow> nat list \<Rightarrow> 'a fs_state_scheme \<Rightarrow> ('a fs_state_scheme, nat) res" where
  "ialloc_scan dev type [] s = Fail (Panic ''ialloc: no inodes'')"
| "ialloc_scan dev type (inum # is) s =
     bnd (bread dev (IBLOCK inum (sb s)) s) (\<lambda>bp s.
     let q = dinode_off inum
     in if sint (get16 (b_data (bufs s bp)) q) = 0 then
          let s = set_data bp (memset (b_data (bufs s bp)) q 0 DINODESZ) s;
              s = set_data bp (put16 (b_data (bufs s bp)) q (word_of_int type)) s
          in bnd (log_write bp s) (\<lambda>_ s.
             bnd (brelse bp s) (\<lambda>_ s.
             iget dev inum s))
        else bnd (brelse bp s) (\<lambda>_ s. ialloc_scan dev type is s))"

definition ialloc :: "nat \<Rightarrow> int \<Rightarrow> 'a fs_state_scheme \<Rightarrow> ('a fs_state_scheme, nat) res" where
  "ialloc dev type s = ialloc_scan dev type [1..<sb_ninodes (sb s)] s"

definition iupdate :: "nat \<Rightarrow> 'a fs_state_scheme \<Rightarrow> ('a fs_state_scheme, unit) res" where
  "iupdate ip s =
     bnd (bread (i_dev (icache s ip)) (IBLOCK (i_inum (icache s ip)) (sb s)) s) (\<lambda>bp s.
     let s = set_data bp (put_dinode (dinode_off (i_inum (icache s ip))) (icache s ip) (b_data (bufs s bp))) s
     in bnd (log_write bp s) (\<lambda>_ s.
        brelse bp s))"

definition idup :: "nat \<Rightarrow> 'a fs_state_scheme \<Rightarrow> ('a fs_state_scheme, nat) res" where
  "idup ip s =
     bnd (acquire IcacheLock s) (\<lambda>_ s.
     let s = upd_inode ip (\<lambda>x. x\<lparr>i_ref := i_ref x + 1\<rparr>) s
     in bnd (release IcacheLock s) (\<lambda>_ s. Ok ip s))"

definition ilock :: "nat option \<Rightarrow> 'a fs_state_scheme \<Rightarrow> ('a fs_state_scheme, unit) res" where
  "ilock ipp s =
     (case ipp of
        None \<Rightarrow> Fail (Panic ''ilock'')
      | Some ip \<Rightarrow>
          if i_ref (icache s ip) < 1 then Fail (Panic ''ilock'')
          else bnd (acquiresleep (InodeSl ip) s) (\<lambda>_ s.
            if \<not> i_valid (icache s ip) then
              bnd (bread (i_dev (icache s ip)) (IBLOCK (i_inum (icache s ip)) (sb s)) s) (\<lambda>bp s.
              let s = upd_inode ip (get_dinode (dinode_off (i_inum (icache s ip))) (b_data (bufs s bp))) s
              in bnd (brelse bp s) (\<lambda>_ s.
                 let s = upd_inode ip (\<lambda>x. x\<lparr>i_valid := True\<rparr>) s
                 in if i_type (icache s ip) = 0 then Fail (Panic ''ilock: no type'') else Ok () s))
            else Ok () s))"

definition iunlock :: "nat option \<Rightarrow> 'a fs_state_scheme \<Rightarrow> ('a fs_state_scheme, unit) res" where
  "iunlock ipp s =
     (case ipp of
        None \<Rightarrow> Fail (Panic ''iunlock'')
      | Some ip \<Rightarrow>
          bnd (holdingsleep (InodeSl ip) s) (\<lambda>h s.
          if \<not> h \<or> i_ref (icache s ip) < 1 then Fail (Panic ''iunlock'')
          else releasesleep (InodeSl ip) s))"

subsection \<open>Mapping file blocks\<close>

text \<open>
  The step the code repeats for every level: slot \<open>i\<close> of the inode, or entry \<open>i\<close> of the block at
  \<open>addr\<close>, is filled with a new block when it is zero.
\<close>

definition bmap_slot :: "nat \<Rightarrow> nat \<Rightarrow> 'a fs_state_scheme \<Rightarrow> ('a fs_state_scheme, nat) res" where
  "bmap_slot ip i s =
     (if i_addrs (icache s ip) i = 0
      then bnd (balloc (i_dev (icache s ip)) s) (\<lambda>addr s.
           Ok addr (upd_inode ip (\<lambda>x. x\<lparr>i_addrs := (i_addrs x)(i := addr)\<rparr>) s))
      else Ok (i_addrs (icache s ip) i) s)"

definition bmap_entry :: "nat \<Rightarrow> nat \<Rightarrow> nat \<Rightarrow> 'a fs_state_scheme \<Rightarrow> ('a fs_state_scheme, nat) res" where
  "bmap_entry dev addr i s =
     bnd (bread dev addr s) (\<lambda>bp s.
     bnd (if get32 (b_data (bufs s bp)) (4 * i) = 0
          then bnd (balloc dev s) (\<lambda>na s.
               let s = set_data bp (put32 (b_data (bufs s bp)) (4 * i) (of_nat na)) s
               in bnd (log_write bp s) (\<lambda>_ s. Ok na s))
          else Ok (unat (get32 (b_data (bufs s bp)) (4 * i))) s) (\<lambda>na s.
     bnd (brelse bp s) (\<lambda>_ s. Ok na s)))"

definition bmap :: "nat \<Rightarrow> nat \<Rightarrow> 'a fs_state_scheme \<Rightarrow> ('a fs_state_scheme, nat) res" where
  "bmap ip bn s =
     (let dev = i_dev (icache s ip)
      in if bn < NDIRECT then bmap_slot ip bn s
         else let bn = bn - NDIRECT
         in if bn < NINDIRECT then
              bnd (bmap_slot ip NDIRECT s) (\<lambda>addr s.
              bmap_entry dev addr bn s)
         else let bn = bn - NINDIRECT
         in if bn < NDINDIRECT then
              bnd (bmap_slot ip (NDIRECT + 1) s) (\<lambda>addr s.
              bnd (bmap_entry dev addr (bn div 128) s) (\<lambda>addr s.
              bmap_entry dev addr (bn mod 128) s))
         else let bn = bn - NDINDIRECT
         in if bn < NTINDIRECT then
              bnd (bmap_slot ip (NDIRECT + 2) s) (\<lambda>addr s.
              bnd (bmap_entry dev addr (bn div (128 * 128)) s) (\<lambda>addr s.
              bnd (bmap_entry dev addr (bn mod (128 * 128) div 128) s) (\<lambda>addr s.
              bmap_entry dev addr (bn mod (128 * 128) mod 128) s)))
         else Fail (Panic ''bmap: out of range''))"

subsection \<open>Truncation\<close>

text \<open>
  \<open>free_tree lv dev b\<close> frees the block \<open>b\<close> and, when it is an indirection block of level \<open>lv\<close>, first
  everything below it: the nested loops of \<^verbatim>\<open>itrunc\<close>.
\<close>

primrec free_tree :: "nat \<Rightarrow> nat \<Rightarrow> nat \<Rightarrow> 'a fs_state_scheme \<Rightarrow> ('a fs_state_scheme, unit) res" where
  "free_tree 0 dev b s = bfree dev b s"
| "free_tree (Suc lv) dev b s =
     bnd (bread dev b s) (\<lambda>bp s.
     bnd (for_each (\<lambda>j s.
            let a = unat (get32 (b_data (bufs s bp)) (4 * j))
            in if a \<noteq> 0 then free_tree lv dev a s else Ok () s) [0..<128] s) (\<lambda>_ s.
     bnd (brelse bp s) (\<lambda>_ s.
     bfree dev b s)))"

definition itrunc_slot :: "nat \<Rightarrow> nat \<Rightarrow> nat \<Rightarrow> 'a fs_state_scheme \<Rightarrow> ('a fs_state_scheme, unit) res" where
  "itrunc_slot ip lv i s =
     (if i_addrs (icache s ip) i \<noteq> 0 then
        bnd (free_tree lv (i_dev (icache s ip)) (i_addrs (icache s ip) i) s) (\<lambda>_ s.
        Ok () (upd_inode ip (\<lambda>x. x\<lparr>i_addrs := (i_addrs x)(i := 0)\<rparr>) s))
      else Ok () s)"

definition itrunc :: "nat \<Rightarrow> 'a fs_state_scheme \<Rightarrow> ('a fs_state_scheme, unit) res" where
  "itrunc ip s =
     bnd (for_each (itrunc_slot ip 0) [0..<NDIRECT] s) (\<lambda>_ s.
     bnd (itrunc_slot ip 1 NDIRECT s) (\<lambda>_ s.
     bnd (itrunc_slot ip 2 (NDIRECT + 1) s) (\<lambda>_ s.
     bnd (itrunc_slot ip 3 (NDIRECT + 2) s) (\<lambda>_ s.
     let s = upd_inode ip (\<lambda>x. x\<lparr>i_size := 0\<rparr>) s
     in iupdate ip s))))"

definition iput :: "nat \<Rightarrow> 'a fs_state_scheme \<Rightarrow> ('a fs_state_scheme, unit) res" where
  "iput ip s =
     bnd (acquiresleep (InodeSl ip) s) (\<lambda>_ s.
     bnd (if i_valid (icache s ip) \<and> i_nlink (icache s ip) = 0 then
            bnd (acquire IcacheLock s) (\<lambda>_ s.
            let r = i_ref (icache s ip)
            in bnd (release IcacheLock s) (\<lambda>_ s.
               if r = 1 then
                 bnd (itrunc ip s) (\<lambda>_ s.
                 let s = upd_inode ip (\<lambda>x. x\<lparr>i_type := 0\<rparr>) s
                 in bnd (iupdate ip s) (\<lambda>_ s.
                    Ok () (upd_inode ip (\<lambda>x. x\<lparr>i_valid := False\<rparr>) s)))
               else Ok () s))
          else Ok () s) (\<lambda>_ s.
     bnd (releasesleep (InodeSl ip) s) (\<lambda>_ s.
     bnd (acquire IcacheLock s) (\<lambda>_ s.
     let s = upd_inode ip (\<lambda>x. x\<lparr>i_ref := i_ref x - 1\<rparr>) s
     in release IcacheLock s))))"

definition iunlockput :: "nat \<Rightarrow> 'a fs_state_scheme \<Rightarrow> ('a fs_state_scheme, unit) res" where
  "iunlockput ip s = bnd (iunlock (Some ip) s) (\<lambda>_ s. iput ip s)"

subsection \<open>Reading and writing\<close>

record stat =
  st_type :: int
  st_dev :: nat
  st_ino :: nat
  st_nlink :: int
  st_size :: nat

definition stati :: "nat \<Rightarrow> 'a fs_state_scheme \<Rightarrow> stat" where
  "stati ip s = \<lparr>st_type = i_type (icache s ip), st_dev = i_dev (icache s ip), st_ino = i_inum (icache s ip),
     st_nlink = i_nlink (icache s ip), st_size = i_size (icache s ip)\<rparr>"

text \<open>
  A destination is a virtual address or a variable of the kernel; the bytes read are returned in
  either case. A source is a variable's bytes or a virtual address. \<open>dsw\<close> is the table \<^verbatim>\<open>devsw\<close>: for a
  major number the read and the write function, if there is one.
\<close>

datatype dest = ToVar | ToAddr nat

datatype src = FromVar bytes | FromAddr nat

record 's devsw_entry =
  dev_read :: "(nat \<Rightarrow> dest \<Rightarrow> int \<Rightarrow> 's \<Rightarrow> ('s, int \<times> bytes) res) option"
  dev_write :: "(nat \<Rightarrow> src \<Rightarrow> int \<Rightarrow> 's \<Rightarrow> ('s, int) res) option"

type_synonym 's devsw = "nat \<Rightarrow> 's devsw_entry"

definition to_dest :: "dest \<Rightarrow> nat \<Rightarrow> bytes \<Rightarrow> nat \<Rightarrow> nat \<Rightarrow> 'a fs_state_scheme \<Rightarrow> ('a fs_state_scheme, unit) res" where
  "to_dest dst tot d k m s =
     (case dst of ToVar \<Rightarrow> Ok () s | ToAddr a \<Rightarrow> vstore ((a + tot) mod 2 ^ 32) d k m s)"

definition from_src :: "src \<Rightarrow> nat \<Rightarrow> nat \<Rightarrow> 'a fs_state_scheme \<Rightarrow> ('a fs_state_scheme, bytes) res" where
  "from_src src tot m s =
     (case src of
        FromVar d \<Rightarrow> Ok (\<lambda>i. d (tot + i)) s
      | FromAddr a \<Rightarrow>
          (case vload s ((a + tot) mod 2 ^ 32) m of
             None \<Rightarrow> Fail (Panic ''trap'') | Some bs \<Rightarrow> Ok (of_list bs) s))"

function readi_loop ::
  "nat \<Rightarrow> dest \<Rightarrow> nat \<Rightarrow> nat \<Rightarrow> nat \<Rightarrow> bytes \<Rightarrow> 'a fs_state_scheme \<Rightarrow> ('a fs_state_scheme, bytes) res" where
  "readi_loop ip dst off tot n acc s =
     (if tot < n then
        let dev = i_dev (icache s ip);
            m = min (n - tot) (BSIZE - off mod BSIZE)
        in bnd (bmap ip (off div BSIZE) s) (\<lambda>addr s.
           bnd (bread dev addr s) (\<lambda>bp s.
           let d = b_data (bufs s bp)
           in bnd (to_dest dst tot d (off mod BSIZE) m s) (\<lambda>_ s.
              bnd (brelse bp s) (\<lambda>_ s.
              readi_loop ip dst (off + m) (tot + m) n (copy acc tot d (off mod BSIZE) m) s))))
      else Ok acc s)"
  by pat_completeness auto
termination
  by (relation "measure (\<lambda>(ip, dst, off, tot, n, acc, s). n - tot)") (auto simp: BSIZE_def)

declare readi_loop.simps [simp del]

definition readi ::
  "'a fs_state_scheme devsw \<Rightarrow> nat \<Rightarrow> dest \<Rightarrow> nat \<Rightarrow> nat \<Rightarrow> 'a fs_state_scheme \<Rightarrow>
   ('a fs_state_scheme, int \<times> bytes) res" where
  "readi dsw ip dst off n s =
     (let x = icache s ip
      in if i_type x = T_DEV then
           (if i_major x < 0 \<or> i_major x \<ge> int NDEV then Ok (-1, \<lambda>_. 0) s
            else case dev_read (dsw (nat (i_major x))) of
                   None \<Rightarrow> Ok (-1, \<lambda>_. 0) s
                 | Some rd \<Rightarrow> rd ip dst (sint (of_nat n :: u32)) s)
         else if off > i_size x \<or> (off + n) mod 2 ^ 32 < off then Ok (-1, \<lambda>_. 0) s
         else
           let n = (if off + n > i_size x then i_size x - off else n)
           in bnd (readi_loop ip dst off 0 n (\<lambda>_. 0) s) (\<lambda>d s. Ok (int n, d) s))"

function writei_loop ::
  "nat \<Rightarrow> src \<Rightarrow> nat \<Rightarrow> nat \<Rightarrow> nat \<Rightarrow> 'a fs_state_scheme \<Rightarrow> ('a fs_state_scheme, nat) res" where
  "writei_loop ip src off tot n s =
     (if tot < n then
        let dev = i_dev (icache s ip);
            m = min (n - tot) (BSIZE - off mod BSIZE)
        in bnd (bmap ip (off div BSIZE) s) (\<lambda>addr s.
           bnd (bread dev addr s) (\<lambda>bp s.
           bnd (from_src src tot m s) (\<lambda>d s.
           let s = set_data bp (copy (b_data (bufs s bp)) (off mod BSIZE) d 0 m) s
           in bnd (log_write bp s) (\<lambda>_ s.
              bnd (brelse bp s) (\<lambda>_ s.
              writei_loop ip src (off + m) (tot + m) n s)))))
      else Ok off s)"
  by pat_completeness auto
termination
  by (relation "measure (\<lambda>(ip, src, off, tot, n, s). n - tot)") (auto simp: BSIZE_def)

declare writei_loop.simps [simp del]

definition writei ::
  "'a fs_state_scheme devsw \<Rightarrow> nat \<Rightarrow> src \<Rightarrow> nat \<Rightarrow> nat \<Rightarrow> 'a fs_state_scheme \<Rightarrow>
   ('a fs_state_scheme, int) res" where
  "writei dsw ip src off n s =
     (let x = icache s ip
      in if i_type x = T_DEV then
           (if i_major x < 0 \<or> i_major x \<ge> int NDEV then Ok (-1) s
            else case dev_write (dsw (nat (i_major x))) of
                   None \<Rightarrow> Ok (-1) s
                 | Some wr \<Rightarrow> wr ip src (sint (of_nat n :: u32)) s)
         else if off > i_size x \<or> (off + n) mod 2 ^ 32 < off then Ok (-1) s
         else if off + n > MAXFILE * BSIZE then Ok (-1) s
         else
           bnd (writei_loop ip src off 0 n s) (\<lambda>off s.
           bnd (if n > 0 \<and> off > i_size (icache s ip)
                then let s = upd_inode ip (\<lambda>x. x\<lparr>i_size := off\<rparr>) s in iupdate ip s
                else Ok () s) (\<lambda>_ s.
           Ok (int n) s)))"

end
