(* ===== verification/Xv6_Dir.thy ===== *)
theory Xv6_Dir
  imports Xv6_Fs
begin

section \<open>Directories and path names\<close>

text \<open>
  \<^verbatim>\<open>fs.c\<close> from \<^verbatim>\<open>namecmp\<close> on. A C string is the list of its characters before the terminating NUL. A
  directory entry is 16 bytes: the inode number and 14 characters, padded with NUL.
\<close>

definition DIRSIZ :: nat where "DIRSIZ = 14"
definition DIRENTSZ :: nat where "DIRENTSZ = 2 + DIRSIZ"
definition ROOTDEV :: nat where "ROOTDEV = 1"
definition ROOTINO :: nat where "ROOTINO = 1"

subsection \<open>Names\<close>

fun strncmp_str :: "nat \<Rightarrow> string \<Rightarrow> string \<Rightarrow> int" where
  "strncmp_str 0 s t = 0"
| "strncmp_str (Suc n) [] [] = 0"
| "strncmp_str (Suc n) (c # s) [] = of_char c"
| "strncmp_str (Suc n) [] (d # t) = - of_char d"
| "strncmp_str (Suc n) (c # s) (d # t) = (if c = d then strncmp_str n s t else of_char c - of_char d)"

definition namecmp :: "string \<Rightarrow> string \<Rightarrow> int" where
  "namecmp s t = strncmp_str DIRSIZ s t"

text \<open>The string stored at offset \<open>k\<close>, at most \<open>n\<close> characters.\<close>

fun name_at :: "bytes \<Rightarrow> nat \<Rightarrow> nat \<Rightarrow> string" where
  "name_at d k 0 = []"
| "name_at d k (Suc n) = (if d k = 0 then [] else char_of (unat (d k)) # name_at d (k + 1) n)"

definition put_name :: "string \<Rightarrow> bytes" where
  "put_name nm i = (if i < length nm \<and> i < DIRSIZ then of_char (nm ! i) else 0)"

definition dirent :: "nat \<Rightarrow> string \<Rightarrow> bytes" where
  "dirent inum nm = put16 (\<lambda>i. if i < 2 then 0 else put_name nm (i - 2)) 0 (of_nat inum)"

subsection \<open>Lookup and insertion\<close>

text \<open>The offsets the loops visit: multiples of the entry size below \<^verbatim>\<open>dp->size\<close>.\<close>

definition dir_offs :: "nat \<Rightarrow> nat list" where
  "dir_offs sz = map (\<lambda>k. k * DIRENTSZ) [0..<(sz + DIRENTSZ - 1) div DIRENTSZ]"

fun dirlookup_loop ::
  "'a fs_state_scheme devsw \<Rightarrow> nat \<Rightarrow> string \<Rightarrow> nat list \<Rightarrow> 'a fs_state_scheme \<Rightarrow>
   ('a fs_state_scheme, (nat \<times> nat) option) res" where
  "dirlookup_loop dsw dp nm [] s = Ok None s"
| "dirlookup_loop dsw dp nm (off # offs) s =
     bnd (readi dsw dp ToVar off DIRENTSZ s) (\<lambda>(r, de) s.
     if r \<noteq> int DIRENTSZ then Fail (Panic ''dirlookup read'')
     else if get16 de 0 = 0 then dirlookup_loop dsw dp nm offs s
     else if namecmp nm (name_at de 2 DIRSIZ) = 0 then
       bnd (iget (i_dev (icache s dp)) (unat (get16 de 0)) s) (\<lambda>ip s. Ok (Some (ip, off)) s)
     else dirlookup_loop dsw dp nm offs s)"

definition dirlookup ::
  "'a fs_state_scheme devsw \<Rightarrow> nat \<Rightarrow> string \<Rightarrow> 'a fs_state_scheme \<Rightarrow>
   ('a fs_state_scheme, (nat \<times> nat) option) res" where
  "dirlookup dsw dp nm s =
     (if i_type (icache s dp) \<noteq> T_DIR then Fail (Panic ''dirlookup not DIR'')
      else dirlookup_loop dsw dp nm (dir_offs (i_size (icache s dp))) s)"

text \<open>The offset at which \<^verbatim>\<open>dirlink\<close> writes: the first empty entry, or the end \<open>e\<close> of the loop.\<close>

fun dirlink_slot ::
  "'a fs_state_scheme devsw \<Rightarrow> nat \<Rightarrow> nat \<Rightarrow> nat list \<Rightarrow> 'a fs_state_scheme \<Rightarrow> ('a fs_state_scheme, nat) res" where
  "dirlink_slot dsw dp e [] s = Ok e s"
| "dirlink_slot dsw dp e (off # offs) s =
     bnd (readi dsw dp ToVar off DIRENTSZ s) (\<lambda>(r, de) s.
     if r \<noteq> int DIRENTSZ then Fail (Panic ''dirlink read'')
     else if get16 de 0 = 0 then Ok off s
     else dirlink_slot dsw dp e offs s)"

definition dirlink ::
  "'a fs_state_scheme devsw \<Rightarrow> nat \<Rightarrow> string \<Rightarrow> nat \<Rightarrow> 'a fs_state_scheme \<Rightarrow> ('a fs_state_scheme, int) res" where
  "dirlink dsw dp nm inum s =
     bnd (dirlookup dsw dp nm s) (\<lambda>r s.
     case r of
       Some (ip, off) \<Rightarrow> bnd (iput ip s) (\<lambda>_ s. Ok (-1) s)
     | None \<Rightarrow>
         let offs = dir_offs (i_size (icache s dp))
         in bnd (dirlink_slot dsw dp (length offs * DIRENTSZ) offs s) (\<lambda>off s.
            bnd (writei dsw dp (FromVar (dirent inum nm)) off DIRENTSZ s) (\<lambda>r s.
            if r \<noteq> int DIRENTSZ then Fail (Panic ''dirlink'') else Ok 0 s)))"

subsection \<open>Paths\<close>

definition slash :: "char \<Rightarrow> bool" where
  "slash c \<longleftrightarrow> c = CHR ''/''"

definition skipelem :: "string \<Rightarrow> (string \<times> string) option" where
  "skipelem path =
     (let path = dropWhile slash path
      in if path = [] then None
         else
           let s = takeWhile (\<lambda>c. \<not> slash c) path;
               path = dropWhile (\<lambda>c. \<not> slash c) path;
               nm = (if length s \<ge> DIRSIZ then take DIRSIZ s else s)
           in Some (dropWhile slash path, nm))"

lemma skipelem_shorter:
  assumes "skipelem path = Some (rest, nm)"
  shows "length rest < length path"
proof -
  let ?p = "dropWhile slash path"
  have p: "?p \<noteq> []" and rest: "rest = dropWhile slash (dropWhile (\<lambda>c. \<not> slash c) ?p)"
    using assms by (auto simp: skipelem_def Let_def split: if_splits)
  from p obtain c cs where cs: "?p = c # cs" by (cases ?p) auto
  have "\<not> slash c" using hd_dropWhile[of slash path] p cs by simp
  then have "length rest \<le> length cs"
    using rest cs by (auto intro: le_trans[OF length_dropWhile_le] simp: length_dropWhile_le)
  also have "\<dots> < length ?p" using cs by simp
  also have "\<dots> \<le> length path" by (rule length_dropWhile_le)
  finally show ?thesis .
qed

function namex_loop ::
  "'a fs_state_scheme devsw \<Rightarrow> nat \<Rightarrow> string \<Rightarrow> bool \<Rightarrow> string \<Rightarrow> 'a fs_state_scheme \<Rightarrow>
   ('a fs_state_scheme, nat option \<times> string) res" where
  "namex_loop dsw ip path parent nm s =
     (case skipelem path of
        None \<Rightarrow>
          if parent then bnd (iput ip s) (\<lambda>_ s. Ok (None, nm) s)
          else Ok (Some ip, nm) s
      | Some (path', nm') \<Rightarrow>
          bnd (ilock (Some ip) s) (\<lambda>_ s.
          if i_type (icache s ip) \<noteq> T_DIR then bnd (iunlockput ip s) (\<lambda>_ s. Ok (None, nm') s)
          else if parent \<and> path' = [] then bnd (iunlock (Some ip) s) (\<lambda>_ s. Ok (Some ip, nm') s)
          else bnd (dirlookup dsw ip nm' s) (\<lambda>r s.
            case r of
              None \<Rightarrow> bnd (iunlockput ip s) (\<lambda>_ s. Ok (None, nm') s)
            | Some (next, off) \<Rightarrow>
                bnd (iunlockput ip s) (\<lambda>_ s. namex_loop dsw next path' parent nm' s))))"
  by pat_completeness auto
termination
  by (relation "measure (\<lambda>(dsw, ip, path, parent, nm, s). length path)") (auto dest: skipelem_shorter)

declare namex_loop.simps [simp del]

definition namex ::
  "'a fs_state_scheme devsw \<Rightarrow> string \<Rightarrow> bool \<Rightarrow> 'a fs_state_scheme \<Rightarrow>
   ('a fs_state_scheme, nat option \<times> string) res" where
  "namex dsw path parent s =
     bnd (if path \<noteq> [] \<and> slash (hd path) then iget ROOTDEV ROOTINO s
          else with_myproc (\<lambda>p s.
                 case p_cwd (ptable s p) of
                   None \<Rightarrow> Fail (UB ''idup of NULL'')
                 | Some ip \<Rightarrow> idup ip s) s) (\<lambda>ip s.
     namex_loop dsw ip path parent [] s)"

definition namei ::
  "'a fs_state_scheme devsw \<Rightarrow> string \<Rightarrow> 'a fs_state_scheme \<Rightarrow> ('a fs_state_scheme, nat option) res" where
  "namei dsw path s = bnd (namex dsw path False s) (\<lambda>(ip, nm) s. Ok ip s)"

definition nameiparent ::
  "'a fs_state_scheme devsw \<Rightarrow> string \<Rightarrow> 'a fs_state_scheme \<Rightarrow>
   ('a fs_state_scheme, nat option \<times> string) res" where
  "nameiparent dsw path s = namex dsw path True s"

end
