(* ===== verification/Xv6_File.thy ===== *)
theory Xv6_File
  imports Xv6_Dir
begin

section \<open>Pipes and open files\<close>

text \<open>
  \<^verbatim>\<open>pipe.c\<close> and \<^verbatim>\<open>file.c\<close>. A pipe is named by the page it was allocated in; \<^verbatim>\<open>nread\<close> and \<^verbatim>\<open>nwrite\<close> are
  unsigned and wrap. An open file is named by its index in \<^verbatim>\<open>ftable.file\<close>.
\<close>

subsection \<open>State\<close>

definition PIPESIZE :: nat where "PIPESIZE = 512"
definition NFILE :: nat where "NFILE = 100"

record pipe =
  pi_data :: "nat \<Rightarrow> u8"
  pi_nread :: u32
  pi_nwrite :: u32
  pi_readopen :: bool
  pi_writeopen :: bool

datatype ftype = FD_NONE | FD_PIPE | FD_INODE

record kfile =
  f_type :: ftype
  f_ref :: int
  f_readable :: bool
  f_writable :: bool
  f_pipe :: nat
  f_ip :: "nat option"
  f_off :: nat

record file_state = fs_state +
  pipes :: "nat \<Rightarrow> pipe"
  ftable :: "nat \<Rightarrow> kfile"

definition upd_pipe :: "nat \<Rightarrow> (pipe \<Rightarrow> pipe) \<Rightarrow> 'a file_state_scheme \<Rightarrow> 'a file_state_scheme" where
  "upd_pipe pp f s = s\<lparr>pipes := (pipes s)(pp := f (pipes s pp))\<rparr>"

definition upd_file :: "nat \<Rightarrow> (kfile \<Rightarrow> kfile) \<Rightarrow> 'a file_state_scheme \<Rightarrow> 'a file_state_scheme" where
  "upd_file fp f s = s\<lparr>ftable := (ftable s)(fp := f (ftable s fp))\<rparr>"

subsection \<open>Pipes\<close>

definition pipe_full :: "pipe \<Rightarrow> bool" where
  "pipe_full q \<longleftrightarrow> pi_nwrite q = pi_nread q + of_nat PIPESIZE"

definition pipe_put :: "u8 \<Rightarrow> pipe \<Rightarrow> pipe" where
  "pipe_put c q = q\<lparr>pi_data := (pi_data q)(unat (pi_nwrite q) mod PIPESIZE := c), pi_nwrite := pi_nwrite q + 1\<rparr>"

definition pipe_peek :: "pipe \<Rightarrow> u8" where
  "pipe_peek q = pi_data q (unat (pi_nread q) mod PIPESIZE)"

definition pipe_drop :: "pipe \<Rightarrow> pipe" where
  "pipe_drop q = q\<lparr>pi_nread := pi_nread q + 1\<rparr>"

definition pipeclose :: "nat \<Rightarrow> bool \<Rightarrow> 'a file_state_scheme \<Rightarrow> ('a file_state_scheme, unit) res" where
  "pipeclose pp writable s =
     bnd (acquire (PipeLock pp) s) (\<lambda>_ s.
     bnd (if writable then
            let s = upd_pipe pp (\<lambda>q. q\<lparr>pi_writeopen := False\<rparr>) s in wakeup (ChanPipeR pp) s
          else
            let s = upd_pipe pp (\<lambda>q. q\<lparr>pi_readopen := False\<rparr>) s in wakeup (ChanPipeW pp) s) (\<lambda>_ s.
     if \<not> pi_readopen (pipes s pp) \<and> \<not> pi_writeopen (pipes s pp)
     then bnd (release (PipeLock pp) s) (\<lambda>_ s. kfree pp s)
     else release (PipeLock pp) s))"

text \<open>
  The loop of \<^verbatim>\<open>pipewrite\<close> from byte \<open>i\<close> on, with \<open>k\<close> bytes left. When the pipe is full and open it
  sleeps; after the wakeup it tests again, at the same byte.
\<close>

fun pipewrite_loop :: "nat \<Rightarrow> nat \<Rightarrow> nat \<Rightarrow> nat \<Rightarrow> 'a file_state_scheme \<Rightarrow> ('a file_state_scheme, int) res" where
  "pipewrite_loop pp addr i 0 s =
     bnd (wakeup (ChanPipeR pp) s) (\<lambda>_ s.
     bnd (release (PipeLock pp) s) (\<lambda>_ s. Ok (int i) s))"
| "pipewrite_loop pp addr i (Suc k) s =
     (if pipe_full (pipes s pp) then
        with_myproc (\<lambda>p s.
          if \<not> pi_readopen (pipes s pp) \<or> p_killed (ptable s p)
          then bnd (release (PipeLock pp) s) (\<lambda>_ s. Ok (-1) s)
          else bnd (wakeup (ChanPipeR pp) s) (\<lambda>_ s. sleep (ChanPipeW pp) (PipeLock pp) s)) s
      else case vtrans s (addr + i) of
             None \<Rightarrow> Fail (Panic ''trap'')
           | Some x \<Rightarrow> pipewrite_loop pp addr (i + 1) k (upd_pipe pp (pipe_put (mem s x)) s))"

definition pipewrite :: "nat \<Rightarrow> nat \<Rightarrow> int \<Rightarrow> 'a file_state_scheme \<Rightarrow> ('a file_state_scheme, int) res" where
  "pipewrite pp addr n s =
     bnd (acquire (PipeLock pp) s) (\<lambda>_ s.
     bnd (pipewrite_loop pp addr 0 (nat n) s) (\<lambda>r s.
     Ok (if r = -1 then -1 else n) s))"

definition pipewrite_resume ::
  "nat \<Rightarrow> nat \<Rightarrow> nat \<Rightarrow> nat \<Rightarrow> nat \<Rightarrow> 'a file_state_scheme \<Rightarrow> ('a file_state_scheme, int) res" where
  "pipewrite_resume p pp addr i k s =
     bnd (sleep_resume p (PipeLock pp) s) (\<lambda>_ s. pipewrite_loop pp addr i k s)"

fun piperead_copy :: "nat \<Rightarrow> nat \<Rightarrow> nat \<Rightarrow> nat \<Rightarrow> 'a file_state_scheme \<Rightarrow> ('a file_state_scheme, nat) res" where
  "piperead_copy pp addr i 0 s = Ok i s"
| "piperead_copy pp addr i (Suc k) s =
     (if pi_nread (pipes s pp) = pi_nwrite (pipes s pp) then Ok i s
      else
        let c = pipe_peek (pipes s pp);
            s = upd_pipe pp pipe_drop s
        in bnd (vstore (addr + i) (\<lambda>_. c) 0 1 s) (\<lambda>_ s.
           piperead_copy pp addr (i + 1) k s))"

definition piperead_loop :: "nat \<Rightarrow> nat \<Rightarrow> int \<Rightarrow> 'a file_state_scheme \<Rightarrow> ('a file_state_scheme, int) res" where
  "piperead_loop pp addr n s =
     (if pi_nread (pipes s pp) = pi_nwrite (pipes s pp) \<and> pi_writeopen (pipes s pp) then
        with_myproc (\<lambda>p s.
          if p_killed (ptable s p) then bnd (release (PipeLock pp) s) (\<lambda>_ s. Ok (-1) s)
          else sleep (ChanPipeR pp) (PipeLock pp) s) s
      else
        bnd (piperead_copy pp addr 0 (nat n) s) (\<lambda>i s.
        bnd (wakeup (ChanPipeW pp) s) (\<lambda>_ s.
        bnd (release (PipeLock pp) s) (\<lambda>_ s. Ok (int i) s))))"

definition piperead :: "nat \<Rightarrow> nat \<Rightarrow> int \<Rightarrow> 'a file_state_scheme \<Rightarrow> ('a file_state_scheme, int) res" where
  "piperead pp addr n s =
     bnd (acquire (PipeLock pp) s) (\<lambda>_ s. piperead_loop pp addr n s)"

definition piperead_resume ::
  "nat \<Rightarrow> nat \<Rightarrow> nat \<Rightarrow> int \<Rightarrow> 'a file_state_scheme \<Rightarrow> ('a file_state_scheme, int) res" where
  "piperead_resume p pp addr n s =
     bnd (sleep_resume p (PipeLock pp) s) (\<lambda>_ s. piperead_loop pp addr n s)"

subsection \<open>The file table\<close>

definition fileinit :: "'a file_state_scheme \<Rightarrow> 'a file_state_scheme" where
  "fileinit s = s\<lparr>held := held s - {FtableLock}\<rparr>"

definition filealloc :: "'a file_state_scheme \<Rightarrow> ('a file_state_scheme, nat option) res" where
  "filealloc s =
     bnd (acquire FtableLock s) (\<lambda>_ s.
     case List.find (\<lambda>fp. f_ref (ftable s fp) = 0) [0..<NFILE] of
       Some fp \<Rightarrow>
         let s = upd_file fp (\<lambda>f. f\<lparr>f_ref := 1\<rparr>) s
         in bnd (release FtableLock s) (\<lambda>_ s. Ok (Some fp) s)
     | None \<Rightarrow> bnd (release FtableLock s) (\<lambda>_ s. Ok None s))"

definition filedup :: "nat \<Rightarrow> 'a file_state_scheme \<Rightarrow> ('a file_state_scheme, nat) res" where
  "filedup fp s =
     bnd (acquire FtableLock s) (\<lambda>_ s.
     if f_ref (ftable s fp) < 1 then Fail (Panic ''filedup'')
     else
       let s = upd_file fp (\<lambda>f. f\<lparr>f_ref := f_ref f + 1\<rparr>) s
       in bnd (release FtableLock s) (\<lambda>_ s. Ok fp s))"

definition fileclose :: "nat \<Rightarrow> 'a file_state_scheme \<Rightarrow> ('a file_state_scheme, unit) res" where
  "fileclose fp s =
     bnd (acquire FtableLock s) (\<lambda>_ s.
     if f_ref (ftable s fp) < 1 then Fail (Panic ''fileclose'')
     else
       let s = upd_file fp (\<lambda>f. f\<lparr>f_ref := f_ref f - 1\<rparr>) s
       in if f_ref (ftable s fp) > 0 then release FtableLock s
          else
            let ff = ftable s fp;
                s = upd_file fp (\<lambda>f. f\<lparr>f_ref := 0, f_type := FD_NONE\<rparr>) s
            in bnd (release FtableLock s) (\<lambda>_ s.
               case f_type ff of
                 FD_PIPE \<Rightarrow> pipeclose (f_pipe ff) (f_writable ff) s
               | FD_INODE \<Rightarrow>
                   bnd (begin_op s) (\<lambda>_ s.
                   bnd (case f_ip ff of None \<Rightarrow> Fail (UB ''iput of NULL'') | Some ip \<Rightarrow> iput ip s) (\<lambda>_ s.
                   end_op s))
               | FD_NONE \<Rightarrow> Ok () s))"

definition filestat :: "nat \<Rightarrow> 'a file_state_scheme \<Rightarrow> ('a file_state_scheme, stat option) res" where
  "filestat fp s =
     (let f = ftable s fp
      in if f_type f = FD_INODE then
           bnd (ilock (f_ip f) s) (\<lambda>_ s.
           let st = stati (the (f_ip f)) s
           in bnd (iunlock (f_ip f) s) (\<lambda>_ s. Ok (Some st) s))
         else Ok None s)"

definition u32_of_int :: "int \<Rightarrow> nat" where
  "u32_of_int n = nat (n mod 2 ^ 32)"

definition fileread ::
  "'a file_state_scheme devsw \<Rightarrow> nat \<Rightarrow> nat \<Rightarrow> int \<Rightarrow> 'a file_state_scheme \<Rightarrow> ('a file_state_scheme, int) res" where
  "fileread dsw fp addr n s =
     (let f = ftable s fp
      in if \<not> f_readable f then Ok (-1) s
         else case f_type f of
           FD_PIPE \<Rightarrow> piperead (f_pipe f) addr n s
         | FD_INODE \<Rightarrow>
             bnd (ilock (f_ip f) s) (\<lambda>_ s.
             bnd (readi dsw (the (f_ip f)) (ToAddr addr) (f_off (ftable s fp)) (u32_of_int n) s) (\<lambda>(r, d) s.
             let s = (if r > 0 then upd_file fp (\<lambda>f. f\<lparr>f_off := (f_off f + nat r) mod 2 ^ 32\<rparr>) s else s)
             in bnd (iunlock (f_ip f) s) (\<lambda>_ s. Ok r s)))
         | FD_NONE \<Rightarrow> Fail (Panic ''fileread''))"

definition FILEMAX :: int where
  "FILEMAX = ((int MAXOPBLOCKS - 1 - 1 - 2) div 2) * 512"

text \<open>The loop of \<^verbatim>\<open>filewrite\<close>: one transaction for each chunk of at most \<open>FILEMAX\<close> bytes.\<close>

function filewrite_loop ::
  "'a file_state_scheme devsw \<Rightarrow> nat \<Rightarrow> nat \<Rightarrow> int \<Rightarrow> int \<Rightarrow> 'a file_state_scheme \<Rightarrow>
   ('a file_state_scheme, int) res" where
  "filewrite_loop dsw fp addr i n s =
     (if i < n then
        let n1 = min (n - i) FILEMAX;
            ipp = f_ip (ftable s fp)
        in bnd (begin_op s) (\<lambda>_ s.
           bnd (ilock ipp s) (\<lambda>_ s.
           bnd (writei dsw (the ipp) (FromAddr (addr + nat i)) (f_off (ftable s fp)) (nat n1) s) (\<lambda>r s.
           let s = (if r > 0 then upd_file fp (\<lambda>f. f\<lparr>f_off := (f_off f + nat r) mod 2 ^ 32\<rparr>) s else s)
           in bnd (iunlock ipp s) (\<lambda>_ s.
              bnd (end_op s) (\<lambda>_ s.
              if r < 0 then Ok i s
              else if r \<noteq> n1 then Fail (Panic ''short filewrite'')
              else filewrite_loop dsw fp addr (i + n1) n s)))))
      else Ok i s)"
  by pat_completeness auto
termination
  by (relation "measure (\<lambda>(dsw, fp, addr, i, n, s). nat (n - i))")
    (auto simp: FILEMAX_def MAXOPBLOCKS_def)

declare filewrite_loop.simps [simp del]

definition filewrite ::
  "'a file_state_scheme devsw \<Rightarrow> nat \<Rightarrow> nat \<Rightarrow> int \<Rightarrow> 'a file_state_scheme \<Rightarrow> ('a file_state_scheme, int) res" where
  "filewrite dsw fp addr n s =
     (let f = ftable s fp
      in if \<not> f_writable f then Ok (-1) s
         else case f_type f of
           FD_PIPE \<Rightarrow> pipewrite (f_pipe f) addr n s
         | FD_INODE \<Rightarrow>
             bnd (filewrite_loop dsw fp addr 0 n s) (\<lambda>i s.
             Ok (if i = n then n else -1) s)
         | FD_NONE \<Rightarrow> Fail (Panic ''filewrite''))"

function pos_write_loop ::
  "'a file_state_scheme devsw \<Rightarrow> nat \<Rightarrow> nat \<Rightarrow> int \<Rightarrow> int \<Rightarrow> int \<Rightarrow> 'a file_state_scheme \<Rightarrow>
   ('a file_state_scheme, int) res" where
  "pos_write_loop dsw fp addr off i n s =
     (if i < n then
        let n1 = min (n - i) FILEMAX;
            ipp = f_ip (ftable s fp)
        in bnd (begin_op s) (\<lambda>_ s.
           bnd (ilock ipp s) (\<lambda>_ s.
           bnd (writei dsw (the ipp) (FromAddr (addr + nat i)) (u32_of_int (off + i)) (nat n1) s) (\<lambda>r s.
           bnd (iunlock ipp s) (\<lambda>_ s.
           bnd (end_op s) (\<lambda>_ s.
           if r < 0 then Ok i s
           else if r \<noteq> n1 then Fail (Panic ''short pos write'')
           else pos_write_loop dsw fp addr off (i + n1) n s)))))
      else Ok i s)"
  by pat_completeness auto
termination
  by (relation "measure (\<lambda>(dsw, fp, addr, off, i, n, s). nat (n - i))")
    (auto simp: FILEMAX_def MAXOPBLOCKS_def)

declare pos_write_loop.simps [simp del]

definition pos_write ::
  "'a file_state_scheme devsw \<Rightarrow> nat \<Rightarrow> nat \<Rightarrow> int \<Rightarrow> int \<Rightarrow> 'a file_state_scheme \<Rightarrow>
   ('a file_state_scheme, int) res" where
  "pos_write dsw fp addr n off s =
     (let f = ftable s fp
      in if \<not> f_writable f then Ok (-1) s
         else case f_type f of
           FD_PIPE \<Rightarrow> Ok (-1) s
         | FD_INODE \<Rightarrow>
             bnd (pos_write_loop dsw fp addr off 0 n s) (\<lambda>i s.
             Ok (if i = n then n else -1) s)
         | FD_NONE \<Rightarrow> Fail (Panic ''pos_write''))"

definition pos_read ::
  "'a file_state_scheme devsw \<Rightarrow> nat \<Rightarrow> nat \<Rightarrow> int \<Rightarrow> int \<Rightarrow> 'a file_state_scheme \<Rightarrow>
   ('a file_state_scheme, int) res" where
  "pos_read dsw fp addr n off s =
     (let f = ftable s fp
      in if \<not> f_readable f then Ok (-1) s
         else case f_type f of
           FD_PIPE \<Rightarrow> Ok (-1) s
         | FD_INODE \<Rightarrow>
             bnd (ilock (f_ip f) s) (\<lambda>_ s.
             bnd (readi dsw (the (f_ip f)) (ToAddr addr) (u32_of_int off) (u32_of_int n) s) (\<lambda>(r, d) s.
             bnd (iunlock (f_ip f) s) (\<lambda>_ s. Ok r s)))
         | FD_NONE \<Rightarrow> Fail (Panic ''pos_read''))"

subsection \<open>Creating a pipe\<close>

definition close_opt :: "nat option \<Rightarrow> 'a file_state_scheme \<Rightarrow> ('a file_state_scheme, unit) res" where
  "close_opt fo s = (case fo of None \<Rightarrow> Ok () s | Some fp \<Rightarrow> fileclose fp s)"

definition pipealloc :: "'a file_state_scheme \<Rightarrow> ('a file_state_scheme, (nat \<times> nat) option) res" where
  "pipealloc s =
     bnd (filealloc s) (\<lambda>f0 s.
     case f0 of
       None \<Rightarrow> Ok None s
     | Some fp0 \<Rightarrow>
         bnd (filealloc s) (\<lambda>f1 s.
         case f1 of
           None \<Rightarrow> bnd (close_opt f0 s) (\<lambda>_ s. Ok None s)
         | Some fp1 \<Rightarrow>
             bnd (kalloc s) (\<lambda>pp s.
             if pp = 0 then
               bnd (close_opt f0 s) (\<lambda>_ s.
               bnd (close_opt f1 s) (\<lambda>_ s. Ok None s))
             else
               let s = upd_pipe pp (\<lambda>q. q\<lparr>pi_readopen := True, pi_writeopen := True, pi_nwrite := 0, pi_nread := 0\<rparr>) s;
                   s = s\<lparr>held := held s - {PipeLock pp}\<rparr>;
                   s = upd_file fp0 (\<lambda>f. f\<lparr>f_type := FD_PIPE, f_readable := True, f_writable := False, f_pipe := pp\<rparr>) s;
                   s = upd_file fp1 (\<lambda>f. f\<lparr>f_type := FD_PIPE, f_readable := False, f_writable := True, f_pipe := pp\<rparr>) s
               in Ok (Some (fp0, fp1)) s)))"

end
