(* ===== verification/Xv6_Life.thy ===== *)
theory Xv6_Life
  imports Xv6_File
begin

unbundle bit_operations_syntax

section \<open>Life of processes and threads\<close>

text \<open>
  The part of \<^verbatim>\<open>proc.c\<close> that creates and ends processes, and \<^verbatim>\<open>lwp.c\<close>. The trap frame and the saved
  context, which the code keeps on the kernel stack and reaches through \<^verbatim>\<open>p->tf\<close> and \<^verbatim>\<open>p->context\<close>, are
  the fields \<open>p_tf\<close> and \<open>p_context\<close>; the return address below them is written to memory.
\<close>

record life_state = file_state +
  first_run :: bool

definition TFSIZE :: nat where "TFSIZE = 76"

definition FL_IF :: u32 where "FL_IF = 0x200"
definition UCODE_SEL :: u16 where "UCODE_SEL = 0x1b"
definition UDATA_SEL :: u16 where "UDATA_SEL = 0x23"

definition zero_context :: kcontext where
  "zero_context = \<lparr>cx_edi = 0, cx_esi = 0, cx_ebx = 0, cx_ebp = 0, cx_eip = 0\<rparr>"

definition zero_trapframe :: trapframe where
  "zero_trapframe = \<lparr>tf_edi = 0, tf_esi = 0, tf_ebp = 0, tf_oesp = 0, tf_ebx = 0, tf_edx = 0, tf_ecx = 0,
     tf_eax = 0, tf_gs = 0, tf_fs = 0, tf_es = 0, tf_ds = 0, tf_trapno = 0, tf_err = 0, tf_eip = 0,
     tf_cs = 0, tf_eflags = 0, tf_esp = 0, tf_ss = 0\<rparr>"

subsection \<open>Creating processes\<close>

text \<open>The kernel stack of a new process: the return address \<^verbatim>\<open>trapret\<close>, and the context that starts at \<^verbatim>\<open>forkret\<close>.\<close>

definition setup_kstack :: "nat \<Rightarrow> nat \<Rightarrow> 'a proc_state_scheme \<Rightarrow> 'a proc_state_scheme" where
  "setup_kstack p ks s =
     (let sp = ks + KSTACKSIZE - TFSIZE - 4;
          s = s\<lparr>mem := put32 (mem s) sp (of_nat (addr_trapret s))\<rparr>
      in upd_proc p (\<lambda>q. q\<lparr>p_context := zero_context\<lparr>cx_eip := of_nat (addr_forkret s)\<rparr>\<rparr>) s)"

definition allocproc :: "'a proc_state_scheme \<Rightarrow> ('a proc_state_scheme, nat option) res" where
  "allocproc s =
     bnd (acquire PtableLock s) (\<lambda>_ s.
     case List.find (\<lambda>p. p_state (ptable s p) = UNUSED) [0..<NPROC] of
       None \<Rightarrow> bnd (release PtableLock s) (\<lambda>_ s. Ok None s)
     | Some p \<Rightarrow>
         let s = upd_proc p (\<lambda>q. q\<lparr>p_state := EMBRYO, p_pid := nextpid s\<rparr>) s;
             s = s\<lparr>nextpid := nextpid s + 1\<rparr>;
             s = upd_proc p (\<lambda>q. q\<lparr>p_level := 2, p_timequant := 5, p_timeallot := 20, p_tickcount := 0,
                   p_s_link := None, p_share := 0, p_stride := -1, p_pass := 0,
                   p_thread_count := 1, p_thread_id := 0, p_next_tid := 1, p_lwpgroup := Some p,
                   p_waiting_tid := -1\<rparr>) s
         in bnd (release PtableLock s) (\<lambda>_ s.
            bnd (kalloc s) (\<lambda>ks s.
            let s = upd_proc p (\<lambda>q. q\<lparr>p_kstack := ks\<rparr>) s
            in if ks = 0 then Ok None (upd_proc p (\<lambda>q. q\<lparr>p_state := UNUSED\<rparr>) s)
               else Ok (Some p) (setup_kstack p ks s))))"

text \<open>\<open>initcode\<close> and \<open>initsz\<close> are the bytes of \<^verbatim>\<open>initcode.S\<close> linked into the kernel.\<close>

definition userinit ::
  "'a fs_state_scheme devsw \<Rightarrow> bytes \<Rightarrow> nat \<Rightarrow> 'a fs_state_scheme \<Rightarrow> ('a fs_state_scheme, unit) res" where
  "userinit dsw initcode initsz s =
     bnd (allocproc s) (\<lambda>po s.
     let s = s\<lparr>initproc := po\<rparr>
     in case po of
          None \<Rightarrow> Fail (UB ''userinit: no process'')
        | Some p \<Rightarrow>
            bnd (setupkvm s) (\<lambda>pd s.
            let s = upd_proc p (\<lambda>q. q\<lparr>p_pgdir := pd\<rparr>) s
            in if pd = 0 then Fail (Panic ''userinit: out of memory?'')
               else bnd (inituvm pd initcode initsz s) (\<lambda>_ s.
                 let s = upd_proc p (\<lambda>q. q\<lparr>p_sz := PGSIZE, p_tf := zero_trapframe\<lparr>
                           tf_cs := UCODE_SEL, tf_ds := UDATA_SEL, tf_es := UDATA_SEL, tf_ss := UDATA_SEL,
                           tf_eflags := FL_IF, tf_esp := of_nat PGSIZE, tf_eip := 0\<rparr>,
                           p_name := ''initcode''\<rparr>) s
                 in bnd (namei dsw ''/'' s) (\<lambda>ip s.
                    let s = upd_proc p (\<lambda>q. q\<lparr>p_cwd := ip\<rparr>) s
                    in bnd (acquire PtableLock s) (\<lambda>_ s.
                       let s = upd_proc p (\<lambda>q. q\<lparr>p_state := RUNNABLE\<rparr>) s
                       in bnd (release PtableLock s) (\<lambda>_ s.
                          mlfq_enter p s))))))"

definition growproc :: "int \<Rightarrow> 'a proc_state_scheme \<Rightarrow> ('a proc_state_scheme, int) res" where
  "growproc n s =
     with_myproc (\<lambda>p s.
       let sz = p_sz (ptable s p);
           pd = p_pgdir (ptable s p);
           newsz = u32_of_int (int sz + n)
       in bnd (if n > 0 then allocuvm pd sz newsz s
               else if n < 0 then deallocuvm pd sz newsz s
               else Ok sz s) (\<lambda>sz s.
          if n \<noteq> 0 \<and> sz = 0 then Ok (-1) s
          else
            let s = upd_proc p (\<lambda>q. q\<lparr>p_sz := sz\<rparr>) s
            in bnd (switchuvm p s) (\<lambda>_ s. Ok 0 s))) s"

definition dup_ofile :: "nat \<Rightarrow> nat \<Rightarrow> nat \<Rightarrow> 'a file_state_scheme \<Rightarrow> ('a file_state_scheme, unit) res" where
  "dup_ofile p np fd s =
     (case p_ofile (ptable s p) fd of
        None \<Rightarrow> Ok () s
      | Some f \<Rightarrow>
          bnd (filedup f s) (\<lambda>f s.
          Ok () (upd_proc np (\<lambda>q. q\<lparr>p_ofile := (p_ofile q)(fd := Some f)\<rparr>) s)))"

definition fork :: "'a file_state_scheme \<Rightarrow> ('a file_state_scheme, int) res" where
  "fork s =
     with_myproc (\<lambda>p s.
       bnd (allocproc s) (\<lambda>npo s.
       case npo of
         None \<Rightarrow> Ok (-1) s
       | Some np \<Rightarrow>
           bnd (copyuvm (p_pgdir (ptable s p)) (p_sz (ptable s p)) s) (\<lambda>d s.
           let s = upd_proc np (\<lambda>q. q\<lparr>p_pgdir := d\<rparr>) s
           in if d = 0 then
                bnd (kfree (p_kstack (ptable s np)) s) (\<lambda>_ s.
                Ok (-1) (upd_proc np (\<lambda>q. q\<lparr>p_kstack := 0, p_state := UNUSED\<rparr>) s))
              else
                let s = upd_proc np (\<lambda>q. q\<lparr>p_sz := p_sz (ptable s p), p_ustack := p_sz (ptable s p),
                          p_parent := Some p, p_tf := (p_tf (ptable s p))\<lparr>tf_eax := 0\<rparr>\<rparr>) s
                in bnd (for_each (dup_ofile p np) [0..<NOFILE] s) (\<lambda>_ s.
                   case p_cwd (ptable s p) of
                     None \<Rightarrow> Fail (UB ''idup of NULL'')
                   | Some cwd \<Rightarrow>
                       bnd (idup cwd s) (\<lambda>ip s.
                       let s = upd_proc np (\<lambda>q. q\<lparr>p_cwd := Some ip, p_name := p_name (ptable s p)\<rparr>) s;
                           pid = p_pid (ptable s np)
                       in bnd (acquire PtableLock s) (\<lambda>_ s.
                          let s = upd_proc np (\<lambda>q. q\<lparr>p_state := RUNNABLE\<rparr>) s
                          in bnd (if p_level (ptable s np) \<noteq> NOLEVEL then mlfq_enter np s else Ok () s) (\<lambda>_ s.
                             bnd (release PtableLock s) (\<lambda>_ s. Ok pid s)))))))) s"

subsection \<open>Ending processes\<close>

definition close_fd :: "nat \<Rightarrow> nat \<Rightarrow> 'a file_state_scheme \<Rightarrow> ('a file_state_scheme, unit) res" where
  "close_fd p fd s =
     (case p_ofile (ptable s p) fd of
        None \<Rightarrow> Ok () s
      | Some f \<Rightarrow>
          bnd (fileclose f s) (\<lambda>_ s.
          Ok () (upd_proc p (\<lambda>q. q\<lparr>p_ofile := (p_ofile q)(fd := None)\<rparr>) s)))"

text \<open>No process sleeps on NULL, so waking a parent that is NULL wakes nobody.\<close>

definition wake_parent :: "nat option \<Rightarrow> 'a proc_state_scheme \<Rightarrow> ('a proc_state_scheme, unit) res" where
  "wake_parent par s = (case par of None \<Rightarrow> Ok () s | Some q \<Rightarrow> wakeup1 (ChanProc q) s)"

definition reparent_one :: "nat \<Rightarrow> nat \<Rightarrow> 'a proc_state_scheme \<Rightarrow> ('a proc_state_scheme, unit) res" where
  "reparent_one cur p s =
     (if p_parent (ptable s p) = Some cur then
        let s = upd_proc p (\<lambda>q. q\<lparr>p_parent := initproc s\<rparr>) s
        in if p_state (ptable s p) = ZOMBIE then wake_parent (initproc s) s else Ok () s
      else Ok () s)"

definition leave_queue :: "nat \<Rightarrow> 'a proc_state_scheme \<Rightarrow> ('a proc_state_scheme, unit) res" where
  "leave_queue p s =
     (if p_level (ptable s p) \<noteq> NOLEVEL then mlfq_leave p s
      else bnd (acquire MlfqLock s) (\<lambda>_ s. bnd (striderm p s) (\<lambda>_ s. release MlfqLock s)))"

text \<open>The end of \<^verbatim>\<open>exit\<close>, from \<^verbatim>\<open>acquire(&ptable.lock)\<close> on.\<close>

definition exit_sched :: "nat \<Rightarrow> 'a proc_state_scheme \<Rightarrow> ('a proc_state_scheme, unit) res" where
  "exit_sched p s =
     bnd (acquire PtableLock s) (\<lambda>_ s.
     bnd (wake_parent (p_parent (ptable s p)) s) (\<lambda>_ s.
     bnd (for_each (reparent_one p) [0..<NPROC] s) (\<lambda>_ s.
     let s = upd_proc p (\<lambda>q. q\<lparr>p_state := ZOMBIE\<rparr>) s
     in bnd (leave_queue p s) (\<lambda>_ s.
        bnd (sched s) (\<lambda>(_ :: unit) s.
        Fail (Panic ''zombie exit''))))))"

definition exit :: "'a file_state_scheme \<Rightarrow> ('a file_state_scheme, unit) res" where
  "exit s =
     with_myproc (\<lambda>p s.
       if Some p = initproc s then Fail (Panic ''init exiting'')
       else
         bnd (for_each (close_fd p) [0..<NOFILE] s) (\<lambda>_ s.
         bnd (begin_op s) (\<lambda>_ s.
         bnd (case p_cwd (ptable s p) of None \<Rightarrow> Fail (UB ''iput of NULL'') | Some ip \<Rightarrow> iput ip s) (\<lambda>_ s.
         bnd (end_op s) (\<lambda>_ s.
         let s = upd_proc p (\<lambda>q. q\<lparr>p_cwd := None\<rparr>) s
         in exit_sched p s))))) s"

text \<open>One turn of the loop of \<^verbatim>\<open>wait\<close>, with \<^verbatim>\<open>ptable.lock\<close> held.\<close>

definition wait_loop :: "nat \<Rightarrow> 'a proc_state_scheme \<Rightarrow> ('a proc_state_scheme, int) res" where
  "wait_loop cur s =
     (case List.find (\<lambda>p. p_parent (ptable s p) = Some cur \<and> p_state (ptable s p) = ZOMBIE) [0..<NPROC] of
        Some p \<Rightarrow>
          let pid = p_pid (ptable s p)
          in bnd (kfree (p_kstack (ptable s p)) s) (\<lambda>_ s.
             let s = upd_proc p (\<lambda>q. q\<lparr>p_kstack := 0\<rparr>) s
             in bnd (freevm (p_pgdir (ptable s p)) s) (\<lambda>_ s.
                let s = upd_proc p (\<lambda>q. q\<lparr>p_pid := 0, p_parent := None, p_name := [], p_killed := False,
                          p_state := UNUSED\<rparr>) s
                in bnd (release PtableLock s) (\<lambda>_ s. Ok pid s)))
      | None \<Rightarrow>
          if \<not> (\<exists>p\<in>{0..<NPROC}. p_parent (ptable s p) = Some cur) \<or> p_killed (ptable s cur)
          then bnd (release PtableLock s) (\<lambda>_ s. Ok (-1) s)
          else sleep (ChanProc cur) PtableLock s)"

definition wait :: "'a proc_state_scheme \<Rightarrow> ('a proc_state_scheme, int) res" where
  "wait s = with_myproc (\<lambda>p s. bnd (acquire PtableLock s) (\<lambda>_ s. wait_loop p s)) s"

definition wait_resume :: "nat \<Rightarrow> 'a proc_state_scheme \<Rightarrow> ('a proc_state_scheme, int) res" where
  "wait_resume p s = bnd (sleep_resume p PtableLock s) (\<lambda>_ s. wait_loop p s)"

definition forkret :: "'a life_state_scheme \<Rightarrow> ('a life_state_scheme, unit) res" where
  "forkret s =
     bnd (release PtableLock s) (\<lambda>_ s.
     if first_run s then
       let s = s\<lparr>first_run := False\<rparr>
       in bnd (iinit ROOTDEV s) (\<lambda>_ s. initlog ROOTDEV s)
     else Ok () s)"

subsection \<open>Threads\<close>

text \<open>
  The search for a free stack page in \<^verbatim>\<open>thread_create\<close>: the first thread of the group whose \<^verbatim>\<open>ustack\<close>
  address is not mapped. \<open>Some None\<close> is the end of the list.
\<close>

fun find_stack :: "nat \<Rightarrow> nat \<Rightarrow> nat option \<Rightarrow> 'a proc_state_scheme \<Rightarrow> ('a proc_state_scheme, nat option) res" where
  "find_stack 0 pd pptr s = Fail Hang"
| "find_stack (Suc n) pd None s = Ok None s"
| "find_stack (Suc n) pd (Some q) s =
     bnd (walkpgdir pd (p_ustack (ptable s q)) False s) (\<lambda>pte s.
     if pte = 0 then Fail (UB ''thread_create: pte is NULL'')
     else if \<not> has_bit (get32 (mem s) pte) PTE_P then Ok (Some q) s
     else find_stack n pd (p_t_link (ptable s q)) s)"

text \<open>Everything in \<^verbatim>\<open>thread_create\<close> after the user stack is allocated; \<open>th\<close> is the address of the caller's \<^verbatim>\<open>thread_t\<close>.\<close>

definition thread_start ::
  "nat \<Rightarrow> nat \<Rightarrow> nat \<Rightarrow> nat \<Rightarrow> u32 \<Rightarrow> 'a file_state_scheme \<Rightarrow> ('a file_state_scheme, int) res" where
  "thread_start cur p th start arg s =
     bnd (for_each (dup_ofile cur p) [0..<NOFILE] s) (\<lambda>_ s.
     let s = upd_proc p (\<lambda>q. q\<lparr>p_cwd := p_cwd (ptable s cur), p_name := p_name (ptable s cur)\<rparr>) s;
         sp = (p_ustack (ptable s p) - 4) div 4 * 4
     in bnd (vstore32 sp arg s) (\<lambda>_ s.
        let sp = sp - 4
        in bnd (vstore32 sp 0xFFFFFFFF s) (\<lambda>_ s.
           let s = upd_proc p (\<lambda>q. q\<lparr>p_pgdir := p_pgdir (ptable s cur), p_sz := p_sz (ptable s cur),
                     p_tf := (p_tf (ptable s cur))\<lparr>tf_esp := of_nat sp, tf_eip := of_nat start,
                       tf_ebp := of_nat (p_ustack (ptable s p))\<rparr>\<rparr>) s
           in bnd (if p_thread_count (ptable s cur) = 1 then
                     bnd (init_next_t p (p_pid (ptable s cur)) s) (\<lambda>_ s.
                     let s = upd_proc cur (\<lambda>q. q\<lparr>p_t_link := Some p\<rparr>) s
                     in Ok () (upd_proc p (\<lambda>q. q\<lparr>p_t_link := None\<rparr>) s))
                   else add_thread p s) (\<lambda>_ s.
              let tid = p_next_tid (ptable s cur);
                  s = upd_proc p (\<lambda>q. q\<lparr>p_thread_id := tid\<rparr>) s;
                  s = upd_proc cur (\<lambda>q. q\<lparr>p_next_tid := tid + 1\<rparr>) s
              in bnd (vstore32 (th + 4) (word_of_int (p_pid (ptable s cur))) s) (\<lambda>_ s.
                 bnd (vstore32 th (word_of_int (p_thread_id (ptable s p))) s) (\<lambda>_ s.
                 let s = upd_proc cur (\<lambda>q. q\<lparr>p_thread_count := p_thread_count q + 1\<rparr>) s;
                     s = upd_proc p (\<lambda>q. q\<lparr>p_state := RUNNABLE\<rparr>) s
                 in bnd (release_ptable s) (\<lambda>_ s. Ok 0 s)))))))"

definition thread_create ::
  "nat \<Rightarrow> nat \<Rightarrow> u32 \<Rightarrow> 'a file_state_scheme \<Rightarrow> ('a file_state_scheme, int) res" where
  "thread_create th start arg s =
     with_myproc (\<lambda>cur s.
       bnd (find_unused s) (\<lambda>po s.
       case po of
         None \<Rightarrow> Ok (-1) s
       | Some p \<Rightarrow>
           bnd (acquire_ptable s) (\<lambda>_ s.
           let s = upd_proc p (\<lambda>q. q\<lparr>p_state := EMBRYO, p_pid := -1, p_lwpgroup := Some cur,
                     p_waiting_tid := -1, p_parent := None, p_timequant := 1, p_s_link := None,
                     p_share := 0, p_stride := -1, p_pass := 0\<rparr>) s
           in bnd (kalloc s) (\<lambda>ks s.
              let s = upd_proc p (\<lambda>q. q\<lparr>p_kstack := ks\<rparr>) s
              in if ks = 0 then Ok (-1) (upd_proc p (\<lambda>q. q\<lparr>p_state := UNUSED\<rparr>) s)
                 else
                   let s = setup_kstack p ks s;
                       pd = p_pgdir (ptable s cur)
                   in bnd (find_stack WALK pd (Some cur) s) (\<lambda>q s.
                      case q of
                        None \<Rightarrow> Ok (-1) s
                      | Some q \<Rightarrow>
                          let us = p_ustack (ptable s q) + PGSIZE;
                              s = upd_proc p (\<lambda>q. q\<lparr>p_ustack := us\<rparr>) s
                          in bnd (allocuvm pd (us - PGSIZE) us s) (\<lambda>sz s.
                             if sz = 0 then
                               bnd (kfree (p_kstack (ptable s p)) s) (\<lambda>_ s.
                               Ok (-1) (upd_proc p (\<lambda>q. q\<lparr>p_kstack := 0, p_state := UNUSED\<rparr>) s))
                             else
                               let s = upd_proc cur (\<lambda>q. q\<lparr>p_sz := sz\<rparr>) s
                               in bnd (switchuvm cur s) (\<lambda>_ s.
                                  thread_start cur p th start arg s))))))) s"

definition thread_exit :: "int \<Rightarrow> 'a proc_state_scheme \<Rightarrow> ('a proc_state_scheme, unit) res" where
  "thread_exit retval s =
     with_myproc (\<lambda>p s.
       case p_lwpgroup (ptable s p) of
         None \<Rightarrow> Fail (UB ''lwpgroup is NULL'')
       | Some main_t \<Rightarrow>
           bnd (acquire_ptable s) (\<lambda>_ s.
           let s = upd_proc p (\<lambda>q. q\<lparr>p_state := ZOMBIE, p_retval := retval\<rparr>) s;
               s = upd_proc main_t (\<lambda>q. q\<lparr>p_thread_count := p_thread_count q - 1\<rparr>) s
           in bnd (rm_thread p s) (\<lambda>_ s.
              let s = (if p_waiting_tid (ptable s main_t) = p_thread_id (ptable s p)
                       then upd_proc main_t (\<lambda>q. q\<lparr>p_waiting_tid := -1\<rparr>) s else s)
              in bnd (deallocuvm (p_pgdir (ptable s main_t)) (p_ustack (ptable s p))
                       (u32_of_int (int (p_ustack (ptable s p)) - int PGSIZE)) s) (\<lambda>sz s.
                 let s = upd_proc main_t (\<lambda>q. q\<lparr>p_sz := sz\<rparr>) s
                 in bnd (thread_swtch main_t s) (\<lambda>r s.
                    if r = -1 then sched s else Ok () s))))) s"

definition thread_join_finish :: "nat \<Rightarrow> nat \<Rightarrow> 'a proc_state_scheme \<Rightarrow> ('a proc_state_scheme, int) res" where
  "thread_join_finish p rv s =
     bnd (vstore32 rv (word_of_int (p_retval (ptable s p))) s) (\<lambda>_ s.
     bnd (kfree (p_kstack (ptable s p)) s) (\<lambda>_ s.
     let s = upd_proc p (\<lambda>q. q\<lparr>p_kstack := 0, p_pid := 0, p_lwpgroup := None, p_thread_id := 0,
               p_killed := False, p_state := UNUSED, p_name := [], p_t_link := None, p_s_link := None,
               p_pgdir := 0\<rparr>) s
     in bnd (release_ptable s) (\<lambda>_ s. Ok 0 s)))"

definition thread_join :: "int \<Rightarrow> int \<Rightarrow> nat \<Rightarrow> 'a proc_state_scheme \<Rightarrow> ('a proc_state_scheme, int) res" where
  "thread_join tid gid rv s =
     with_myproc (\<lambda>cur s.
       bnd (find_thread tid gid s) (\<lambda>po s.
       case po of
         None \<Rightarrow> Ok (-1) s
       | Some p \<Rightarrow>
           bnd (acquire_ptable s) (\<lambda>_ s.
           bnd (if p_state (ptable s p) \<noteq> ZOMBIE then
                  let s = upd_proc cur (\<lambda>q. q\<lparr>p_waiting_tid := tid, p_state := RUNNABLE\<rparr>) s
                  in bnd (release_ptable s) (\<lambda>_ s.
                     bnd (yield s) (\<lambda>_ s.
                     acquire_ptable s))
                else Ok () s) (\<lambda>_ s.
           thread_join_finish p rv s)))) s"

definition thread_join_resume :: "nat \<Rightarrow> nat \<Rightarrow> 'a proc_state_scheme \<Rightarrow> ('a proc_state_scheme, int) res" where
  "thread_join_resume p rv s =
     bnd (yield_resume s) (\<lambda>_ s.
     bnd (acquire_ptable s) (\<lambda>_ s.
     thread_join_finish p rv s))"

end
