(* ===== verification/Xv6_Console.thy ===== *)
theory Xv6_Console
  imports Xv6_Life
begin

unbundle bit_operations_syntax

section \<open>Console\<close>

text \<open>
  \<^verbatim>\<open>console.c\<close>, \<^verbatim>\<open>kbd.c\<close> and the output side of \<^verbatim>\<open>uart.c\<close>: number formatting, the screen, the input line
  editor and the console device. Output to the serial port is the list \<open>uart_out\<close>; the screen memory
  is \<open>crt\<close> with the cursor \<open>crt_pos\<close>, which the code keeps in the video controller's registers.
\<close>

subsection \<open>State\<close>

definition INPUT_BUF :: nat where "INPUT_BUF = 128"
definition BACKSPACE :: int where "BACKSPACE = 256"
definition CONSOLE :: nat where "CONSOLE = 1"

record cons_state = life_state +
  panicked :: bool
  cons_locking :: bool
  crt :: "nat \<Rightarrow> u16"
  crt_pos :: nat
  uart :: bool
  uart_out :: "u8 list"
  in_buf :: "nat \<Rightarrow> u8"
  in_r :: u32
  in_w :: u32
  in_e :: u32
  kbd_shift :: u32

subsection \<open>Formatting\<close>

definition digit_char :: "nat \<Rightarrow> char" where
  "digit_char d = ''0123456789abcdef'' ! d"

text \<open>The digits in the order the loop produces them, least significant first.\<close>

function printint_digits :: "nat \<Rightarrow> nat \<Rightarrow> string" where
  "printint_digits base x =
     digit_char (x mod base) # (if x div base \<noteq> 0 \<and> 1 < base then printint_digits base (x div base) else [])"
  by pat_completeness auto
termination
  by (relation "measure snd") (auto intro!: div_less_dividend gr0I)

declare printint_digits.simps [simp del]

definition printint :: "int \<Rightarrow> nat \<Rightarrow> bool \<Rightarrow> string" where
  "printint xx base sign =
     (let neg = sign \<and> xx < 0;
          x = u32_of_int (if neg then - xx else xx);
          buf = printint_digits base x;
          buf = (if neg then buf @ ''-'' else buf)
      in rev buf)"

text \<open>
  The arguments of \<^verbatim>\<open>cprintf\<close>: a word, or a string pointer (NULL or a string). \<open>None\<close> is that the format
  reads an argument that was not passed, or not of that kind.
\<close>

datatype cp_arg = Word u32 | Str "string option"

fun cprintf_fmt :: "string \<Rightarrow> cp_arg list \<Rightarrow> string option" where
  "cprintf_fmt [] as = Some []"
| "cprintf_fmt (c # f) as =
     (if c \<noteq> CHR ''%'' then map_option (\<lambda>r. c # r) (cprintf_fmt f as)
      else case f of
        [] \<Rightarrow> Some []
      | k # f \<Rightarrow>
          if k = CHR ''d'' then
            (case as of Word w # as \<Rightarrow> map_option (\<lambda>r. printint (sint w) 10 True @ r) (cprintf_fmt f as)
             | _ \<Rightarrow> None)
          else if k = CHR ''x'' \<or> k = CHR ''p'' then
            (case as of Word w # as \<Rightarrow> map_option (\<lambda>r. printint (sint w) 16 False @ r) (cprintf_fmt f as)
             | _ \<Rightarrow> None)
          else if k = CHR ''s'' then
            (case as of Str so # as \<Rightarrow>
               map_option (\<lambda>r. (case so of None \<Rightarrow> ''(null)'' | Some t \<Rightarrow> t) @ r) (cprintf_fmt f as)
             | _ \<Rightarrow> None)
          else if k = CHR ''%'' then map_option (\<lambda>r. CHR ''%'' # r) (cprintf_fmt f as)
          else map_option (\<lambda>r. CHR ''%'' # k # r) (cprintf_fmt f as))"

subsection \<open>The screen\<close>

definition cga_move :: "int \<Rightarrow> nat \<Rightarrow> nat" where
  "cga_move c pos =
     (if c = 10 then pos + (80 - pos mod 80)
      else if c = BACKSPACE then pos - 1
      else pos + 1)"

definition cgaputc :: "int \<Rightarrow> 'a cons_state_scheme \<Rightarrow> ('a cons_state_scheme, unit) res" where
  "cgaputc c s =
     (let pos = crt_pos s;
          s = (if c \<noteq> 10 \<and> c \<noteq> BACKSPACE
               then s\<lparr>crt := (crt s)(pos := word_of_int (c mod 256) OR 0x0700)\<rparr> else s);
          pos = cga_move c pos
      in if pos > 25 * 80 then Fail (Panic ''pos under/overflow'')
         else
           let (pos, s) =
             (if pos div 80 \<ge> 24 then
                let s = s\<lparr>crt := (\<lambda>i. if i < 23 * 80 then crt s (i + 80) else crt s i)\<rparr>;
                    pos = pos - 80
                in (pos, s\<lparr>crt := (\<lambda>i. if pos \<le> i \<and> i < 24 * 80 then 0 else crt s i)\<rparr>)
              else (pos, s))
           in Ok () (s\<lparr>crt_pos := pos, crt := (crt s)(pos := 0x0720)\<rparr>))"

definition uartputc :: "u8 \<Rightarrow> 'a cons_state_scheme \<Rightarrow> 'a cons_state_scheme" where
  "uartputc c s = (if uart s then s\<lparr>uart_out := uart_out s @ [c]\<rparr> else s)"

definition consputc :: "int \<Rightarrow> 'a cons_state_scheme \<Rightarrow> ('a cons_state_scheme, unit) res" where
  "consputc c s =
     (if panicked s then Fail Hang
      else
        let s = (if c = BACKSPACE then uartputc 8 (uartputc 32 (uartputc 8 s))
                 else uartputc (word_of_int c) s)
        in cgaputc c s)"

definition cprintf :: "string \<Rightarrow> cp_arg list \<Rightarrow> 'a cons_state_scheme \<Rightarrow> ('a cons_state_scheme, unit) res" where
  "cprintf fmt as s =
     (let locking = cons_locking s
      in bnd (if locking then acquire ConsLock s else Ok () s) (\<lambda>_ s.
         case cprintf_fmt fmt as of
           None \<Rightarrow> Fail (UB ''cprintf: missing argument'')
         | Some out \<Rightarrow>
             bnd (for_each (\<lambda>c. consputc (of_char c)) out s) (\<lambda>_ s.
             if locking then release ConsLock s else Ok () s)))"

subsection \<open>Line editing\<close>

definition ctrl :: "char \<Rightarrow> int" where
  "ctrl c = of_char c - 64"

text \<open>The loop of Control-U: erase back to the last newline or to the end of the committed input.\<close>

fun kill_line :: "nat \<Rightarrow> 'a cons_state_scheme \<Rightarrow> ('a cons_state_scheme, unit) res" where
  "kill_line 0 s = Fail Hang"
| "kill_line (Suc k) s =
     (if in_e s \<noteq> in_w s \<and> in_buf s (unat (in_e s - 1) mod INPUT_BUF) \<noteq> 10 then
        bnd (consputc BACKSPACE (s\<lparr>in_e := in_e s - 1\<rparr>)) (\<lambda>_ s. kill_line k s)
      else Ok () s)"

text \<open>One turn of the loop of \<^verbatim>\<open>consoleintr\<close>; the result says whether a process listing is due.\<close>

definition cons_char :: "int \<Rightarrow> 'a cons_state_scheme \<Rightarrow> ('a cons_state_scheme, bool) res" where
  "cons_char c s =
     (if c = ctrl CHR ''P'' then Ok True s
      else if c = ctrl CHR ''U'' then bnd (kill_line (Suc (unat (in_e s - in_w s))) s) (\<lambda>_ s. Ok False s)
      else if c = ctrl CHR ''H'' \<or> c = 127 then
        (if in_e s \<noteq> in_w s
         then bnd (consputc BACKSPACE (s\<lparr>in_e := in_e s - 1\<rparr>)) (\<lambda>_ s. Ok False s)
         else Ok False s)
      else if c \<noteq> 0 \<and> in_e s - in_r s < of_nat INPUT_BUF then
        let c = (if c = 13 then 10 else c);
            s = s\<lparr>in_buf := (in_buf s)(unat (in_e s) mod INPUT_BUF := word_of_int c), in_e := in_e s + 1\<rparr>
        in bnd (consputc c s) (\<lambda>_ s.
           if c = 10 \<or> c = ctrl CHR ''D'' \<or> in_e s = in_r s + of_nat INPUT_BUF then
             bnd (wakeup ChanInput (s\<lparr>in_w := in_e s\<rparr>)) (\<lambda>_ s. Ok False s)
           else Ok False s)
      else Ok False s)"

fun cons_chars :: "int list \<Rightarrow> bool \<Rightarrow> 'a cons_state_scheme \<Rightarrow> ('a cons_state_scheme, bool) res" where
  "cons_chars [] dump s = Ok dump s"
| "cons_chars (c # cs) dump s = bnd (cons_char c s) (\<lambda>d s. cons_chars cs (dump \<or> d) s)"

text \<open>
  \<open>cs\<close> is what \<^verbatim>\<open>getc\<close> returns until it returns a negative value. The process listing is printed after
  the lock is released and changes nothing else.
\<close>

definition consoleintr :: "int list \<Rightarrow> 'a cons_state_scheme \<Rightarrow> ('a cons_state_scheme, bool) res" where
  "consoleintr cs s =
     bnd (acquire ConsLock s) (\<lambda>_ s.
     bnd (cons_chars cs False s) (\<lambda>d s.
     bnd (release ConsLock s) (\<lambda>_ s. Ok d s)))"

subsection \<open>The console device\<close>

definition put_dest :: "dest \<Rightarrow> nat \<Rightarrow> u8 \<Rightarrow> 'a cons_state_scheme \<Rightarrow> ('a cons_state_scheme, unit) res" where
  "put_dest dst i c s = to_dest dst i (\<lambda>_. c) 0 1 s"

definition consoleread_end ::
  "nat \<Rightarrow> nat \<Rightarrow> bytes \<Rightarrow> 'a cons_state_scheme \<Rightarrow> ('a cons_state_scheme, int \<times> bytes) res" where
  "consoleread_end ip done acc s =
     bnd (release ConsLock s) (\<lambda>_ s.
     bnd (ilock (Some ip) s) (\<lambda>_ s.
     Ok (int done, acc) s))"

text \<open>The loop of \<^verbatim>\<open>consoleread\<close> with \<open>n\<close> characters wanted and \<open>done\<close> delivered.\<close>

fun consoleread_loop ::
  "nat \<Rightarrow> dest \<Rightarrow> nat \<Rightarrow> nat \<Rightarrow> bytes \<Rightarrow> 'a cons_state_scheme \<Rightarrow> ('a cons_state_scheme, int \<times> bytes) res" where
  "consoleread_loop ip dst 0 done acc s = consoleread_end ip done acc s"
| "consoleread_loop ip dst (Suc n) done acc s =
     (if in_r s = in_w s then
        with_myproc (\<lambda>p s.
          if p_killed (ptable s p)
          then bnd (release ConsLock s) (\<lambda>_ s. bnd (ilock (Some ip) s) (\<lambda>_ s. Ok (-1, acc) s))
          else sleep ChanInput ConsLock s) s
      else
        let c = in_buf s (unat (in_r s) mod INPUT_BUF);
            s = s\<lparr>in_r := in_r s + 1\<rparr>
        in if c = 4 then
             (if done > 0 then consoleread_end ip done acc (s\<lparr>in_r := in_r s - 1\<rparr>)
              else consoleread_end ip done acc s)
           else
             bnd (put_dest dst done c s) (\<lambda>_ s.
             if c = 10 then consoleread_end ip (done + 1) (acc(done := c)) s
             else consoleread_loop ip dst n (done + 1) (acc(done := c)) s))"

definition consoleread ::
  "nat \<Rightarrow> dest \<Rightarrow> int \<Rightarrow> 'a cons_state_scheme \<Rightarrow> ('a cons_state_scheme, int \<times> bytes) res" where
  "consoleread ip dst n s =
     bnd (iunlock (Some ip) s) (\<lambda>_ s.
     bnd (acquire ConsLock s) (\<lambda>_ s.
     consoleread_loop ip dst (nat n) 0 (\<lambda>_. 0) s))"

definition consoleread_resume ::
  "nat \<Rightarrow> nat \<Rightarrow> dest \<Rightarrow> nat \<Rightarrow> nat \<Rightarrow> bytes \<Rightarrow> 'a cons_state_scheme \<Rightarrow>
   ('a cons_state_scheme, int \<times> bytes) res" where
  "consoleread_resume p ip dst n done acc s =
     bnd (sleep_resume p ConsLock s) (\<lambda>_ s. consoleread_loop ip dst n done acc s)"

definition consolewrite_one :: "src \<Rightarrow> nat \<Rightarrow> 'a cons_state_scheme \<Rightarrow> ('a cons_state_scheme, unit) res" where
  "consolewrite_one src i s =
     bnd (from_src src i 1 s) (\<lambda>d s. consputc (uint (d 0)) s)"

definition consolewrite :: "nat \<Rightarrow> src \<Rightarrow> int \<Rightarrow> 'a cons_state_scheme \<Rightarrow> ('a cons_state_scheme, int) res" where
  "consolewrite ip src n s =
     bnd (iunlock (Some ip) s) (\<lambda>_ s.
     bnd (acquire ConsLock s) (\<lambda>_ s.
     bnd (for_each (consolewrite_one src) [0..<nat n] s) (\<lambda>_ s.
     bnd (release ConsLock s) (\<lambda>_ s.
     bnd (ilock (Some ip) s) (\<lambda>_ s.
     Ok n s)))))"

text \<open>The device table after \<^verbatim>\<open>consoleinit\<close>.\<close>

definition console_devsw :: "'a cons_state_scheme devsw" where
  "console_devsw m = (if m = CONSOLE then \<lparr>dev_read = Some consoleread, dev_write = Some consolewrite\<rparr>
     else \<lparr>dev_read = None, dev_write = None\<rparr>)"

definition consoleinit :: "'a cons_state_scheme \<Rightarrow> 'a cons_state_scheme" where
  "consoleinit s = s\<lparr>held := held s - {ConsLock}, cons_locking := True\<rparr>"

subsection \<open>Keyboard\<close>

definition E0ESC :: u32 where "E0ESC = 64"
definition CAPSLOCK :: u32 where "CAPSLOCK = 8"

definition shiftcode :: "u32 \<Rightarrow> u32" where
  "shiftcode d = (if d = 0x1D \<or> d = 0x9D then 2 else if d = 0x2A \<or> d = 0x36 then 1
     else if d = 0x38 \<or> d = 0xB8 then 4 else 0)"

definition togglecode :: "u32 \<Rightarrow> u32" where
  "togglecode d = (if d = 0x3A then 8 else if d = 0x45 then 16 else if d = 0x46 then 32 else 0)"

text \<open>
  One call of \<^verbatim>\<open>kbdgetc\<close> with a byte \<open>data\<close> in the controller; \<open>None\<close> is an empty controller. The maps
  from key codes to characters (\<^verbatim>\<open>normalmap\<close>, \<^verbatim>\<open>shiftmap\<close>, \<^verbatim>\<open>ctlmap\<close>) are the argument \<open>charcode\<close>.
\<close>

definition kbdgetc :: "(nat \<Rightarrow> nat \<Rightarrow> u8) \<Rightarrow> u8 option \<Rightarrow> 'a cons_state_scheme \<Rightarrow> int \<times> 'a cons_state_scheme" where
  "kbdgetc charcode inp s =
     (case inp of
        None \<Rightarrow> (-1, s)
      | Some b \<Rightarrow>
          let data = ucast b :: u32; shift = kbd_shift s
          in if data = 0xE0 then (0, s\<lparr>kbd_shift := shift OR E0ESC\<rparr>)
             else if data AND 0x80 \<noteq> 0 then
               let data = (if shift AND E0ESC \<noteq> 0 then data else data AND 0x7F)
               in (0, s\<lparr>kbd_shift := shift AND NOT (shiftcode data OR E0ESC)\<rparr>)
             else
               let (data, shift) = (if shift AND E0ESC \<noteq> 0 then (data OR 0x80, shift AND NOT E0ESC)
                                    else (data, shift));
                   shift = shift OR shiftcode data;
                   shift = shift XOR togglecode data;
                   c = uint (charcode (unat (shift AND 3)) (unat data));
                   c = (if shift AND CAPSLOCK \<noteq> 0 then
                          if 97 \<le> c \<and> c \<le> 122 then c - 32
                          else if 65 \<le> c \<and> c \<le> 90 then c + 32 else c
                        else c)
               in (c, s\<lparr>kbd_shift := shift\<rparr>))"

end
