(* ===== verification/Xv6_Example.thy ===== *)
theory Xv6_Example
  imports Xv6_Console
begin

section \<open>A small running system\<close>

text \<open>
  A concrete kernel state on which the theorems of the development are applied. Process 0 (pid 1) is
  running, process 1 (pid 2) is ready at level 2, process 2 (pid 3) is a ready stride process with a
  share of 20 percent, process 3 (pid 4) sleeps on the clock; the other slots are free. No lock is
  held. The cache is as \<^verbatim>\<open>binit\<close> leaves it up to the order of the list, except that buffer 0 holds the
  modified block 40 of a transaction; the log occupies the 30 blocks from block 2 on.
\<close>

definition proc0 :: proc where
  "proc0 = \<lparr>p_level = 0, p_timeallot = 0, p_timequant = 0, p_tickcount = 0, p_ustack = 0, p_share = 0,
     p_stride = 0, p_pass = 0, p_waiting_tid = -1, p_thread_count = 0, p_next_tid = 0, p_thread_id = 0,
     p_lwpgroup = None, p_t_link = None, p_s_link = None, p_retval = 0, p_sz = 0, p_pgdir = 0,
     p_kstack = 0, p_state = UNUSED, p_pid = 0, p_parent = None, p_tf = zero_trapframe,
     p_context = zero_context, p_chan = None, p_killed = False, p_ofile = (\<lambda>_. None), p_cwd = None,
     p_name = []\<rparr>"

text \<open>A live process without extra threads in slot \<open>p\<close>.\<close>

definition live_proc :: "nat \<Rightarrow> procstate \<Rightarrow> u32 \<Rightarrow> proc" where
  "live_proc p st lv = proc0\<lparr>p_state := st, p_level := lv, p_pid := int p + 1, p_lwpgroup := Some p,
     p_thread_count := 1, p_next_tid := 1, p_timequant := 5, p_timeallot := 20, p_kstack := 0x80500000,
     p_pgdir := 0x80600000, p_sz := 4096, p_cwd := Some 0\<rparr>"

definition ex_ptable :: "nat \<Rightarrow> proc" where
  "ex_ptable p =
     (if p = 0 then live_proc 0 RUNNING 2
      else if p = 1 then (live_proc 1 RUNNABLE 2)\<lparr>p_parent := Some 0\<rparr>
      else if p = 2 then (live_proc 2 RUNNABLE NOLEVEL)\<lparr>p_share := 20, p_stride := 500, p_pass := 40, p_parent := Some 0\<rparr>
      else if p = 3 then (live_proc 3 SLEEPING 1)\<lparr>p_chan := Some ChanTicks, p_parent := Some 0\<rparr>
      else proc0)"

definition ex_mlfq :: mlfq where
  "ex_mlfq = \<lparr>priboosttime = 0, mlfq_pass = 10, mlfq_stride = 125, mlfq_proc_cnt = 2, stride_share = 20,
     stride_head = Some 2, qlevels = (\<lambda>l. if l = 2 then 2 else 0), next_t = (\<lambda>_. None)\<rparr>"

definition ex_buf :: "nat \<Rightarrow> buf" where
  "ex_buf b = \<lparr>b_valid = (b = 0), b_dirty = (b = 0), b_dev = (if b = 0 then 1 else 0),
     b_blockno = (if b = 0 then 40 else 0), b_refcnt = 0, b_prev = (if b = 0 then NBUF else b - 1),
     b_next = (if b = NBUF then 0 else b + 1), b_qnext = None, b_data = (\<lambda>_. if b = 0 then 7 else 0)\<rparr>"

definition ex_sb :: superblock where
  "ex_sb = \<lparr>sb_size = 1000, sb_nblocks = 941, sb_ninodes = 200, sb_nlog = 30, sb_logstart = 2,
     sb_inodestart = 32, sb_bmapstart = 58\<rparr>"

definition ex_inode :: inode where
  "ex_inode = \<lparr>i_dev = 0, i_inum = 0, i_ref = 0, i_valid = False, i_type = 0, i_major = 0, i_minor = 0,
     i_nlink = 0, i_size = 0, i_addrs = (\<lambda>_. 0)\<rparr>"

definition ex_file :: kfile where
  "ex_file = \<lparr>f_type = FD_NONE, f_ref = 0, f_readable = False, f_writable = False, f_pipe = 0,
     f_ip = None, f_off = 0\<rparr>"

definition ex_pipe :: pipe where
  "ex_pipe = \<lparr>pi_data = (\<lambda>_. 0), pi_nread = 0, pi_nwrite = 0, pi_readopen = True, pi_writeopen = True\<rparr>"

definition ex_state :: cons_state where
  "ex_state = \<lparr>held = {}, mem = (\<lambda>_. 0), use_lock = True, freelist = 0, kern_end = 0x80200000,
     kern_data = 0x80108000, addr_trapret = 0x80106000, addr_forkret = 0x80104000,
     ptable = ex_ptable, mlfqstr = ex_mlfq, initproc = Some 0, nextpid = 5, curproc = Some 0, ticks = 50,
     searchidx = 0, kpgdir = 0x80700000, cr3 = 0x600000, ts_esp0 = 0,
     xems = (\<lambda>_. \<lparr>xvalue = 1, xchan = 0\<rparr>), rwreaders = (\<lambda>_. 0),
     slocks = (\<lambda>_. \<lparr>sl_locked = False, sl_name = [], sl_pid = 0\<rparr>),
     bufs = ex_buf, disk = (\<lambda>_ _. 0), disksize = 1000, dtrace = [], idequeue = None, havedisk1 = True, ide_out = [],
     lg_start = 2, lg_size = 30, lg_outstanding = 1, lg_committing = False, lg_dev = 1, lg_n = 1,
     lg_block = (\<lambda>_. 40), sb = ex_sb, icache = (\<lambda>_. ex_inode), pipes = (\<lambda>_. ex_pipe),
     ftable = (\<lambda>_. ex_file), first_run = False, panicked = False, cons_locking = True,
     crt = (\<lambda>_. 0), crt_pos = 0, uart = True, uart_out = [], in_buf = (\<lambda>_. 0), in_r = 0, in_w = 0,
     in_e = 0, kbd_shift = 0\<rparr>"

lemma ex_state_simps [simp]:
  "held ex_state = {}"
  "mem ex_state = (\<lambda>_. 0)"
  "use_lock ex_state = True"
  "freelist ex_state = 0"
  "kern_end ex_state = 0x80200000"
  "kern_data ex_state = 0x80108000"
  "addr_trapret ex_state = 0x80106000"
  "addr_forkret ex_state = 0x80104000"
  "ptable ex_state = ex_ptable"
  "mlfqstr ex_state = ex_mlfq"
  "initproc ex_state = Some 0"
  "nextpid ex_state = 5"
  "curproc ex_state = Some 0"
  "ticks ex_state = 50"
  "searchidx ex_state = 0"
  "kpgdir ex_state = 0x80700000"
  "cr3 ex_state = 0x600000"
  "ts_esp0 ex_state = 0"
  "xems ex_state = (\<lambda>_. \<lparr>xvalue = 1, xchan = 0\<rparr>)"
  "rwreaders ex_state = (\<lambda>_. 0)"
  "slocks ex_state = (\<lambda>_. \<lparr>sl_locked = False, sl_name = [], sl_pid = 0\<rparr>)"
  "bufs ex_state = ex_buf"
  "disk ex_state = (\<lambda>_ _. 0)"
  "disksize ex_state = 1000"
  "dtrace ex_state = []"
  "idequeue ex_state = None"
  "havedisk1 ex_state = True"
  "ide_out ex_state = []"
  "lg_start ex_state = 2"
  "lg_size ex_state = 30"
  "lg_outstanding ex_state = 1"
  "lg_committing ex_state = False"
  "lg_dev ex_state = 1"
  "lg_n ex_state = 1"
  "lg_block ex_state = (\<lambda>_. 40)"
  "sb ex_state = ex_sb"
  "icache ex_state = (\<lambda>_. ex_inode)"
  "pipes ex_state = (\<lambda>_. ex_pipe)"
  "ftable ex_state = (\<lambda>_. ex_file)"
  "first_run ex_state = False"
  "panicked ex_state = False"
  "cons_locking ex_state = True"
  "crt ex_state = (\<lambda>_. 0)"
  "crt_pos ex_state = 0"
  "uart ex_state = True"
  "uart_out ex_state = []"
  "in_buf ex_state = (\<lambda>_. 0)"
  "in_r ex_state = 0"
  "in_w ex_state = 0"
  "in_e ex_state = 0"
  "kbd_shift ex_state = 0"
  by (simp_all add: ex_state_def)

lemmas ex_defs = ex_state_def ex_ptable_def ex_mlfq_def ex_buf_def live_proc_def proc0_def

end
