(* ===== verification/Xv6_Bio_Props.thy ===== *)
theory Xv6_Bio_Props
  imports Xv6_Sched_Props Xv6_Example
begin

section \<open>The buffer cache presents the disk\<close>

text \<open>
  Closed forms of the sleep lock operations, the doubly linked list of \<^verbatim>\<open>bio.c\<close>, the invariant of the
  cache, and what \<^verbatim>\<open>bread\<close>, \<^verbatim>\<open>bwrite\<close> and \<^verbatim>\<open>brelse\<close> do to the contents of the blocks.
\<close>

subsection \<open>Sleep locks without waiting\<close>

definition wake :: "chan \<Rightarrow> 'a proc_state_scheme \<Rightarrow> 'a proc_state_scheme" where
  "wake ch s = s\<lparr>ptable := wake_upto NPROC ch (ptable s),
     mlfqstr := wake_mlfq NPROC ch (ptable s) (mlfqstr s)\<rparr>"

definition mypid :: "'a proc_state_scheme \<Rightarrow> int" where
  "mypid s = p_pid (ptable s (the (curproc s)))"

definition owns_slock :: "slk \<Rightarrow> 'a sem_state_scheme \<Rightarrow> bool" where
  "owns_slock k s \<longleftrightarrow> sl_locked (slocks s k) \<and> sl_pid (slocks s k) = mypid s"

text \<open>\<open>idle_locks s\<close>: the running process is in the kernel and holds no spin lock.\<close>

definition idle_locks :: "'a proc_state_scheme \<Rightarrow> bool" where
  "idle_locks s \<longleftrightarrow> held s = {} \<and> curproc s \<noteq> None"

lemma slk_spin_not [simp]: "slk_spin k \<noteq> PtableLock" "slk_spin k \<noteq> MlfqLock"
    "PtableLock \<noteq> slk_spin k" "MlfqLock \<noteq> slk_spin k"
  by (cases k; simp)+

lemma wakeup_wake:
  "held s = h \<Longrightarrow> MlfqLock \<notin> h \<Longrightarrow> PtableLock \<notin> h \<Longrightarrow> wakeup ch s = Ok () (wake ch s)"
  by (simp add: wakeup_eq wake_def)

lemma wake_pid [simp]: "p_pid (ptable (wake ch s) q) = p_pid (ptable s q)"
  by (simp add: wake_def wake_upto_def wake_proc_def)

lemma wake_keeps [simp]:
  "held (wake ch s) = held s" "curproc (wake ch s) = curproc s" "mypid (wake ch s) = mypid s"
  "nextpid (wake ch s) = nextpid s" "initproc (wake ch s) = initproc s"
  by (simp_all add: wake_def mypid_def wake_upto_def wake_proc_def)

lemma wake_sem_keeps [simp]: "slocks (wake ch s) = slocks s" "xems (wake ch s) = xems s"
  by (simp_all add: wake_def)

lemma wake_bio_keeps [simp]: "bufs (wake ch s) = bufs s" "disk (wake ch s) = disk s"
  "disksize (wake ch s) = disksize s" "dtrace (wake ch s) = dtrace s" "idequeue (wake ch s) = idequeue s"
  by (simp_all add: wake_def)

lemma holdingsleep_eq:
  "idle_locks s \<Longrightarrow> holdingsleep k s = Ok (owns_slock k s) s"
  by (auto simp: idle_locks_def holdingsleep_def with_myproc_def myproc_def lock_simps owns_slock_def mypid_def)

lemma acquiresleep_eq:
  "idle_locks s \<Longrightarrow> \<not> sl_locked (slocks s k) \<Longrightarrow> acquiresleep k s =
     Ok () (upd_slock k (\<lambda>l. l\<lparr>sl_locked := True, sl_pid := mypid s\<rparr>) s)"
  by (auto simp: idle_locks_def acquiresleep_def acquiresleep_loop_def with_myproc_def myproc_def
      lock_simps upd_slock_def mypid_def)

lemma releasesleep_eq:
  "idle_locks s \<Longrightarrow> releasesleep k s =
     Ok () (wake (slk_chan k) (upd_slock k (\<lambda>l. l\<lparr>sl_locked := False, sl_pid := 0\<rparr>) s))"
  by (simp add: idle_locks_def releasesleep_def lock_simps wakeup_wake upd_slock_def)
    (simp add: wake_def)

lemma upd_slock_keeps [simp]:
  "held (upd_slock k f s) = held s" "curproc (upd_slock k f s) = curproc s"
  "ptable (upd_slock k f s) = ptable s" "mypid (upd_slock k f s) = mypid s"
  "slocks (upd_slock k f s) = (slocks s)(k := f (slocks s k))"
  by (simp_all add: upd_slock_def mypid_def)

lemma upd_slock_bio_keeps [simp]: "bufs (upd_slock k f s) = bufs s" "disk (upd_slock k f s) = disk s"
  "disksize (upd_slock k f s) = disksize s" "dtrace (upd_slock k f s) = dtrace s"
  by (simp_all add: upd_slock_def)

lemma idle_locks_keeps [simp]:
  "idle_locks (wake ch s) = idle_locks s" "idle_locks (upd_slock k f s') = idle_locks s'"
  by (simp_all add: idle_locks_def)

subsection \<open>The circular doubly linked list\<close>

text \<open>\<open>linked nx pv ys\<close>: neighbours in \<open>ys\<close> point at each other.\<close>

fun linked :: "('p \<Rightarrow> 'p) \<Rightarrow> ('p \<Rightarrow> 'p) \<Rightarrow> 'p list \<Rightarrow> bool" where
  "linked nx pv (a # b # r) \<longleftrightarrow> nx a = b \<and> pv b = a \<and> linked nx pv (b # r)"
| "linked nx pv _ \<longleftrightarrow> True"

lemma linked_append:
  "linked nx pv (as @ x # bs) \<longleftrightarrow> linked nx pv (as @ [x]) \<and> linked nx pv (x # bs)"
proof (induction as)
  case (Cons a as)
  then show ?case by (cases as) auto
qed simp

lemma linked_cong:
  "(\<And>x. x \<in> set (butlast ys) \<Longrightarrow> nx x = nx' x) \<Longrightarrow> (\<And>x. x \<in> set (tl ys) \<Longrightarrow> pv x = pv' x) \<Longrightarrow>
   linked nx pv ys = linked nx' pv' ys"
proof (induction ys)
  case (Cons a ys)
  then show ?case
  proof (cases ys)
    case (Cons b r)
    then have "linked nx pv ys = linked nx' pv' ys"
      using Cons.prems local.Cons by (intro Cons.IH) (auto dest: list.set_sel(2))
    then show ?thesis using Cons Cons.prems by auto
  qed simp
qed simp

lemma ring_insert:
  assumes "linked nx pv (h # ys @ [h])" and "distinct (h # ys)" and "b \<notin> set (h # ys)"
  shows "linked (nx(b := nx h, h := b)) (pv(b := h, nx h := b)) (h # b # ys @ [h])"
proof (cases ys)
  case Nil
  then show ?thesis using assms by auto
next
  case (Cons y r)
  have "linked (nx(b := y, h := b)) (pv(b := h, y := b)) (y # r @ [h]) = linked nx pv (y # r @ [h])"
    using assms Cons by (intro linked_cong) (auto simp: butlast_append)
  then show ?thesis using assms Cons by auto
qed

lemma ring_remove:
  assumes l: "linked nx pv (h # as @ b # cs @ [h])" and d: "distinct (h # as @ b # cs)"
  shows "linked (nx(pv b := nx b)) (pv(nx b := pv b)) (h # as @ cs @ [h])"
proof -
  obtain as' p where as: "h # as = as' @ [p]" by (metis append_butlast_last_id list.distinct(1))
  obtain n cs' where cs: "cs @ [h] = n # cs'" by (cases "cs @ [h]") auto
  have all: "linked nx pv (as' @ p # b # n # cs')" using l as cs by (metis append.assoc append_Cons append_Nil)
  then have b: "nx p = b" "pv b = p" "nx b = n" "pv n = b"
    and l1: "linked nx pv (as' @ [p])" and l2: "linked nx pv (n # cs')"
    unfolding linked_append[of nx pv as' p "b # n # cs'"] by auto
  have dd: "distinct (as' @ p # b # cs)" using d as by (metis append.assoc append_Cons append_Nil)
  have n: "n \<notin> set (tl (as' @ [p]))" "n \<noteq> b"
  proof -
    have tl: "tl (as' @ [p]) = as" using as by (metis list.sel(3))
    show "n \<notin> set (tl (as' @ [p]))" "n \<noteq> b"
      using d cs unfolding tl by (cases cs; auto)+
  qed
  have "butlast (n # cs') = cs" using cs by (metis butlast_snoc)
  then have p: "p \<notin> set (butlast (n # cs'))" using dd by auto
  have "linked (nx(p := n)) (pv(n := p)) (as' @ [p]) = linked nx pv (as' @ [p])"
    using n dd by (intro linked_cong) auto
  moreover have "linked (nx(p := n)) (pv(n := p)) (n # cs') = linked nx pv (n # cs')"
  proof (intro linked_cong)
    fix x assume "x \<in> set (tl (n # cs'))"
    have "n \<notin> set cs'" using d cs by (cases cs) auto
    then show "(pv(n := p)) x = pv x" using \<open>x \<in> set (tl (n # cs'))\<close> by auto
  qed (use p in auto)
  ultimately have "linked (nx(p := n)) (pv(n := p)) (as' @ p # n # cs')"
    using l1 l2 unfolding linked_append[of _ _ as' p "n # cs'"] by auto
  moreover have "h # as @ cs @ [h] = as' @ p # n # cs'" using as cs by (metis append.assoc append_Cons append_Nil)
  ultimately show ?thesis using b by simp
qed

subsection \<open>The invariant of the cache\<close>

text \<open>
  \<open>holds_block s i n\<close>: buffer \<open>i\<close> is assigned to block \<open>n\<close> of the disk. \<open>view s n\<close> is what the kernel
  sees as the contents of block \<open>n\<close>: the cached copy if there is a valid one, else the disk.
\<close>

definition DISKDEV :: nat where "DISKDEV = 1"

definition holds_block :: "'a bio_state_scheme \<Rightarrow> nat \<Rightarrow> nat \<Rightarrow> bool" where
  "holds_block s i n \<longleftrightarrow> i < NBUF \<and> b_dev (bufs s i) = DISKDEV \<and> b_blockno (bufs s i) = n"

definition content :: "bytes \<Rightarrow> u8 list" where
  "content d = map d [0..<BSIZE]"

definition view :: "'a bio_state_scheme \<Rightarrow> nat \<Rightarrow> u8 list" where
  "view s n = (case List.find (\<lambda>i. holds_block s i n \<and> b_valid (bufs s i)) [0..<NBUF] of
     Some i \<Rightarrow> content (b_data (bufs s i)) | None \<Rightarrow> content (disk s n))"

definition dirty :: "'a bio_state_scheme \<Rightarrow> nat set" where
  "dirty s = {i. i < NBUF \<and> b_dirty (bufs s i)}"

definition ring_ok :: "'a bio_state_scheme \<Rightarrow> bool" where
  "ring_ok s \<longleftrightarrow> (\<exists>xs. linked (\<lambda>i. b_next (bufs s i)) (\<lambda>i. b_prev (bufs s i)) (NBUF # xs @ [NBUF]) \<and>
     distinct xs \<and> set xs = {0..<NBUF})"

text \<open>
  \<open>cache_ok H s\<close>: the list is a permutation of the buffers; no block is cached twice; the running
  process has locked the buffers \<open>H\<close>, and nobody uses another one; an unlocked valid buffer that is
  not dirty agrees with the disk; a dirty buffer is valid and belongs to a block of the disk.
\<close>

definition cache_ok :: "nat set \<Rightarrow> 'a bio_state_scheme \<Rightarrow> bool" where
  "cache_ok H s \<longleftrightarrow> idle_locks s \<and> ring_ok s \<and> H \<subseteq> {0..<NBUF} \<and>
     (\<forall>i n. \<forall>j. holds_block s i n \<longrightarrow> holds_block s j n \<longrightarrow> i = j) \<and>
     (\<forall>i<NBUF. b_refcnt (bufs s i) = (if i \<in> H then 1 else 0)) \<and>
     (\<forall>i<NBUF. sl_locked (slocks s (BufSl i)) = (i \<in> H)) \<and>
     (\<forall>i\<in>H. owns_slock (BufSl i) s \<and> b_valid (bufs s i) \<and> b_dev (bufs s i) = DISKDEV \<and>
        b_blockno (bufs s i) < disksize s) \<and>
     (\<forall>i n. holds_block s i n \<longrightarrow> b_valid (bufs s i) \<longrightarrow> \<not> b_dirty (bufs s i) \<longrightarrow> i \<notin> H \<longrightarrow>
        content (b_data (bufs s i)) = content (disk s n)) \<and>
     (\<forall>i\<in>dirty s. b_valid (bufs s i) \<and> b_dev (bufs s i) = DISKDEV \<and> b_blockno (bufs s i) < disksize s)"

lemma cache_okD:
  assumes "cache_ok H s"
  shows "idle_locks s" and "ring_ok s" and "i \<in> H \<Longrightarrow> i < NBUF"
    and "holds_block s i n \<Longrightarrow> holds_block s j n \<Longrightarrow> i = j"
    and "i < NBUF \<Longrightarrow> b_refcnt (bufs s i) = (if i \<in> H then 1 else 0)"
    and "i < NBUF \<Longrightarrow> sl_locked (slocks s (BufSl i)) = (i \<in> H)"
    and "i \<in> H \<Longrightarrow> owns_slock (BufSl i) s"
    and "i \<in> H \<Longrightarrow> b_valid (bufs s i)" and "i \<in> H \<Longrightarrow> b_dev (bufs s i) = DISKDEV"
    and "i \<in> H \<Longrightarrow> b_blockno (bufs s i) < disksize s"
    and "holds_block s i n \<Longrightarrow> b_valid (bufs s i) \<Longrightarrow> \<not> b_dirty (bufs s i) \<Longrightarrow> i \<notin> H \<Longrightarrow>
      content (b_data (bufs s i)) = content (disk s n)"
    and "i \<in> dirty s \<Longrightarrow> b_valid (bufs s i)" and "i \<in> dirty s \<Longrightarrow> b_dev (bufs s i) = DISKDEV"
    and "i \<in> dirty s \<Longrightarrow> b_blockno (bufs s i) < disksize s"
  using assms unfolding cache_ok_def subset_eq atLeastLessThan_iff by blast+

lemma view_cached:
  assumes "holds_block s i n" and "b_valid (bufs s i)"
    and "\<And>j. holds_block s j n \<Longrightarrow> j = i"
  shows "view s n = content (b_data (bufs s i))"
proof (cases "List.find (\<lambda>i. holds_block s i n \<and> b_valid (bufs s i)) [0..<NBUF]")
  case None
  then show ?thesis using assms(1,2) by (auto simp: find_upt_None holds_block_def)
next
  case (Some j)
  then have "holds_block s j n" using find_upt_Some[OF Some] by simp
  from assms(3)[OF this] Some show ?thesis by (simp add: view_def)
qed

lemma view_uncached:
  "(\<And>j. holds_block s j n \<Longrightarrow> \<not> b_valid (bufs s j)) \<Longrightarrow> view s n = content (disk s n)"
  by (cases "List.find (\<lambda>i. holds_block s i n \<and> b_valid (bufs s i)) [0..<NBUF]")
    (auto simp: view_def dest!: find_upt_Some)

lemma view_eq:
  assumes "cache_ok H s" and "holds_block s i n" and "b_valid (bufs s i)"
  shows "view s n = content (b_data (bufs s i))"
  using assms cache_okD(4)[OF assms(1)] by (intro view_cached) blast+

lemma content_copy [simp]: "content (copy d 0 e 0 BSIZE) = content e"
  by (auto simp: content_def copy_def)

lemma content_nth: "content d = content e \<Longrightarrow> i < BSIZE \<Longrightarrow> d i = e i"
  by (simp add: content_def)

lemma content_eqI: "(\<And>i. i < BSIZE \<Longrightarrow> d i = e i) \<Longrightarrow> content d = content e"
  by (simp add: content_def)

subsection \<open>The searches of bget\<close>

lemma bget_cached_walk:
  "linked nx pv (a # xs @ [NBUF]) \<Longrightarrow> nx = (\<lambda>i. b_next (bs i)) \<Longrightarrow> NBUF \<notin> set xs \<Longrightarrow> length xs < n \<Longrightarrow>
   bget_cached n bs dev blockno (nx a) =
     Some (List.find (\<lambda>i. b_dev (bs i) = dev \<and> b_blockno (bs i) = blockno) xs)"
proof (induction xs arbitrary: a n)
  case Nil
  then show ?case by (cases n) auto
next
  case (Cons x xs)
  then obtain k where "n = Suc k" by (cases n) auto
  with Cons show ?case by auto
qed

lemma bget_unused_walk:
  "linked nx pv (NBUF # xs @ [a]) \<Longrightarrow> pv = (\<lambda>i. b_prev (bs i)) \<Longrightarrow> NBUF \<notin> set xs \<Longrightarrow> length xs < n \<Longrightarrow>
   bget_unused n bs (pv a) = Some (List.find (\<lambda>i. b_refcnt (bs i) = 0 \<and> \<not> b_dirty (bs i)) (rev xs))"
proof (induction xs arbitrary: a n rule: rev_induct)
  case Nil
  then show ?case by (cases n) auto
next
  case (snoc x xs)
  then obtain k where n: "n = Suc k" by (cases n) auto
  have "linked nx pv ((NBUF # xs) @ x # [a])" using snoc.prems(1) by simp
  then have "linked nx pv (NBUF # xs @ [x])" "pv a = x"
    unfolding linked_append[of _ _ "NBUF # xs" x "[a]"] by auto
  with snoc n show ?case by auto
qed

lemma find_SomeD: "List.find P xs = Some x \<Longrightarrow> x \<in> set xs \<and> P x"
  by (induction xs) (auto split: if_splits)

lemma find_perm_unique:
  assumes "set xs = {0..<m}" and "\<And>i j. i < m \<Longrightarrow> j < m \<Longrightarrow> P i \<Longrightarrow> P j \<Longrightarrow> i = j"
  shows "List.find P xs = List.find P [0..<m]"
proof (cases "List.find P xs")
  case None
  then have "List.find P [0..<m] = None" using assms(1) unfolding find_None_iff by simp
  with None show ?thesis by simp
next
  case (Some i)
  then have i: "i < m" "P i" using find_SomeD[OF Some] assms(1) by auto
  then obtain j where j: "List.find P [0..<m] = Some j"
    by (cases "List.find P [0..<m]") (auto simp: find_upt_None)
  with i assms(2) find_upt_Some[OF j] Some show ?thesis by auto
qed

lemma ring_length: "distinct xs \<Longrightarrow> set xs = {0..<NBUF} \<Longrightarrow> length xs = NBUF"
  by (metis card_atLeastLessThan diff_zero distinct_card)

lemma bget_cached_eq:
  assumes "cache_ok H s"
  shows "bget_cached (Suc NBUF) (bufs s) DISKDEV n (b_next (bufs s NBUF)) =
    Some (List.find (\<lambda>i. holds_block s i n) [0..<NBUF])"
proof -
  obtain xs where xs: "linked (\<lambda>i. b_next (bufs s i)) (\<lambda>i. b_prev (bufs s i)) (NBUF # xs @ [NBUF])"
      "distinct xs" "set xs = {0..<NBUF}"
    using cache_okD(2)[OF assms] by (auto simp: ring_ok_def)
  let ?P = "\<lambda>i. b_dev (bufs s i) = DISKDEV \<and> b_blockno (bufs s i) = n"
  have "bget_cached (Suc NBUF) (bufs s) DISKDEV n (b_next (bufs s NBUF)) = Some (List.find ?P xs)"
    using xs(3) ring_length[OF xs(2,3)] by (intro bget_cached_walk[OF xs(1) refl]) simp_all
  also have "List.find ?P xs = List.find (\<lambda>i. holds_block s i n) xs"
    using xs(3) by (intro find_cong) (auto simp: holds_block_def)
  also have "\<dots> = List.find (\<lambda>i. holds_block s i n) [0..<NBUF]"
    using cache_okD(4)[OF assms] by (intro find_perm_unique[OF xs(3)]) blast
  finally show ?thesis .
qed

lemma bget_unused_eq:
  assumes "cache_ok H s" and "card (H \<union> dirty s) < NBUF"
  shows "\<exists>b. bget_unused (Suc NBUF) (bufs s) (b_prev (bufs s NBUF)) = Some (Some b) \<and>
    b < NBUF \<and> b \<notin> H \<and> b \<notin> dirty s"
proof -
  obtain xs where xs: "linked (\<lambda>i. b_next (bufs s i)) (\<lambda>i. b_prev (bufs s i)) (NBUF # xs @ [NBUF])"
      "distinct xs" "set xs = {0..<NBUF}"
    using cache_okD(2)[OF assms(1)] by (auto simp: ring_ok_def)
  let ?P = "\<lambda>i. b_refcnt (bufs s i) = 0 \<and> \<not> b_dirty (bufs s i)"
  have f: "bget_unused (Suc NBUF) (bufs s) (b_prev (bufs s NBUF)) = Some (List.find ?P (rev xs))"
    using xs(3) ring_length[OF xs(2,3)] by (intro bget_unused_walk[OF xs(1) refl]) simp_all
  have P: "?P i \<longleftrightarrow> i \<notin> H \<and> i \<notin> dirty s" if "i < NBUF" for i
    using cache_okD(5)[OF assms(1) that] that by (simp add: dirty_def)
  have "\<not> {0..<NBUF} \<subseteq> H \<union> dirty s"
  proof
    assume "{0..<NBUF} \<subseteq> H \<union> dirty s"
    moreover have "finite (H \<union> dirty s)"
      by (rule finite_subset[of _ "{0..<NBUF}"]) (auto simp: dirty_def dest: cache_okD(3)[OF assms(1)])
    ultimately have "card {0..<NBUF} \<le> card (H \<union> dirty s)" by (simp only: card_mono)
    with assms(2) show False by simp
  qed
  then obtain i where "i < NBUF" "i \<notin> H" "i \<notin> dirty s" unfolding subset_iff atLeastLessThan_iff by blast
  then have i: "i < NBUF" "?P i" using P[of i] by blast+
  then have "i \<in> set (rev xs)" using xs(3) by simp
  then have "List.find ?P (rev xs) \<noteq> None" using i(2) unfolding find_None_iff by blast
  then obtain b where b: "List.find ?P (rev xs) = Some b" by blast
  have "b < NBUF" and "?P b" using find_SomeD[OF b] xs(3) by auto
  moreover have "bget_unused (Suc NBUF) (bufs s) (b_prev (bufs s NBUF)) = Some (Some b)" using f b by simp
  ultimately show ?thesis using P[of b] by blast
qed

subsection \<open>Transfers\<close>

lemma upd_buf_keeps [simp]:
  "held (upd_buf b f s) = held s" "curproc (upd_buf b f s) = curproc s" "ptable (upd_buf b f s) = ptable s"
  "mypid (upd_buf b f s) = mypid s" "slocks (upd_buf b f s) = slocks s" "disk (upd_buf b f s) = disk s"
  "disksize (upd_buf b f s) = disksize s" "dtrace (upd_buf b f s) = dtrace s"
  "bufs (upd_buf b f s) = (bufs s)(b := f (bufs s b))" "idle_locks (upd_buf b f s) = idle_locks s"
  "owns_slock k (upd_buf b f s) = owns_slock k s"
  by (simp_all add: upd_buf_def mypid_def idle_locks_def owns_slock_def)

lemma iderw_read:
  assumes "idle_locks s" and "owns_slock (BufSl b) s" and "\<not> b_valid (bufs s b)" and "\<not> b_dirty (bufs s b)"
    and "b_dev (bufs s b) = DISKDEV" and "b_blockno (bufs s b) < disksize s"
  shows "iderw b s = Ok () (upd_buf b (\<lambda>x. x\<lparr>
    b_data := copy (b_data x) 0 (disk s (b_blockno x)) 0 BSIZE, b_valid := True\<rparr>) s)"
  using assms by (simp add: iderw_def holdingsleep_eq upd_buf_def DISKDEV_def Let_def)

lemma iderw_write:
  assumes "idle_locks s" and "owns_slock (BufSl b) s" and "b_dirty (bufs s b)"
    and "b_dev (bufs s b) = DISKDEV" and "b_blockno (bufs s b) < disksize s"
  shows "iderw b s = Ok () (s\<lparr>disk := disk_write (b_blockno (bufs s b)) (b_data (bufs s b)) (disk s),
    dtrace := dtrace s @ [(b_blockno (bufs s b), b_data (bufs s b))],
    bufs := (bufs s)(b := (bufs s b)\<lparr>b_dirty := False, b_valid := True\<rparr>)\<rparr>)"
  using assms by (simp add: iderw_def holdingsleep_eq upd_buf_def DISKDEV_def Let_def)

text \<open>\<open>bio_frame s s'\<close>: only what the cache, the disk, sleep locks and wakeups own has changed.\<close>

definition bio_frame :: "'a bio_state_scheme \<Rightarrow> 'a bio_state_scheme \<Rightarrow> bool" where
  "bio_frame s s' \<longleftrightarrow> s' = s\<lparr>ptable := ptable s', mlfqstr := mlfqstr s', slocks := slocks s',
     bufs := bufs s', disk := disk s', dtrace := dtrace s'\<rparr> \<and>
     (\<forall>q. p_pid (ptable s' q) = p_pid (ptable s q))"

lemma bio_frame_refl [simp]: "bio_frame s s"
  by (simp add: bio_frame_def)

lemma bio_frame_trans:
  assumes "bio_frame s t" and "bio_frame t u"
  shows "bio_frame s u"
proof -
  have u: "u = t\<lparr>ptable := ptable u, mlfqstr := mlfqstr u, slocks := slocks u,
     bufs := bufs u, disk := disk u, dtrace := dtrace u\<rparr>"
    using assms(2) by (simp add: bio_frame_def)
  have t: "t = s\<lparr>ptable := ptable t, mlfqstr := mlfqstr t, slocks := slocks t,
     bufs := bufs t, disk := disk t, dtrace := dtrace t\<rparr>"
    using assms(1) by (simp add: bio_frame_def)
  have "u = s\<lparr>ptable := ptable u, mlfqstr := mlfqstr u, slocks := slocks u,
     bufs := bufs u, disk := disk u, dtrace := dtrace u\<rparr>"
    by (rule trans[OF u]) (subst t, simp)
  then show ?thesis using assms by (simp add: bio_frame_def)
qed

lemma bio_frame_keeps:
  assumes "bio_frame s s'"
  shows "held s' = held s" and "curproc s' = curproc s" and "disksize s' = disksize s" and "mypid s' = mypid s"
proof -
  have *: "s' = s\<lparr>ptable := ptable s', mlfqstr := mlfqstr s', slocks := slocks s',
     bufs := bufs s', disk := disk s', dtrace := dtrace s'\<rparr>" using assms by (simp add: bio_frame_def)
  show "held s' = held s" "disksize s' = disksize s" by (subst *, simp)+
  show "curproc s' = curproc s" by (subst *, simp)
  then show "mypid s' = mypid s" using assms by (simp add: bio_frame_def mypid_def)
qed

lemma held_idem: "held s = h \<Longrightarrow> s\<lparr>held := h\<rparr> = s"
  by auto

lemma bget_form:
  assumes ok: "cache_ok H s" and n: "n < disksize s"
    and free: "\<And>i. holds_block s i n \<Longrightarrow> i \<notin> H"
    and room: "(\<exists>i. holds_block s i n) \<or> card (H \<union> dirty s) < NBUF"
  obtains b x where "bget DISKDEV n s = Ok b (s\<lparr>bufs := (bufs s)(b := x),
      slocks := (slocks s)(BufSl b := (slocks s (BufSl b))\<lparr>sl_locked := True, sl_pid := mypid s\<rparr>)\<rparr>)"
    and "b < NBUF" and "b \<notin> H" and "b_dev x = DISKDEV" and "b_blockno x = n" and "b_refcnt x = 1"
    and "b_next x = b_next (bufs s b)" and "b_prev x = b_prev (bufs s b)"
    and "b_dirty x = b_dirty (bufs s b)" and "b_data x = b_data (bufs s b)"
    and "holds_block s b n \<and> b_valid x = b_valid (bufs s b) \<or>
      (\<forall>i. \<not> holds_block s i n) \<and> b \<notin> dirty s \<and> \<not> b_valid x"
proof -
  note idle = cache_okD(1)[OF ok]
  have lock: "bnd (acquiresleep (BufSl b) (upd_buf b f s)) (\<lambda>_ s. Ok b s) =
      Ok b (s\<lparr>bufs := (bufs s)(b := f (bufs s b)),
        slocks := (slocks s)(BufSl b := (slocks s (BufSl b))\<lparr>sl_locked := True, sl_pid := mypid s\<rparr>)\<rparr>)"
    if "b < NBUF" "b \<notin> H" for b f
    using cache_okD(6)[OF ok that(1)] that idle acquiresleep_eq[of "upd_buf b f s" "BufSl b"]
    by (simp add: upd_slock_def upd_buf_def idle_locks_def mypid_def)
  have held: "held s = {}" using idle by (simp add: idle_locks_def)
  show thesis
  proof (cases "List.find (\<lambda>i. holds_block s i n) [0..<NBUF]")
    case (Some b)
    then have hb: "holds_block s b n" and b: "b < NBUF" using find_upt_Some[OF Some] by auto
    note bH = free[OF hb]
    have rc: "b_refcnt (bufs s b) = 0" using cache_okD(5)[OF ok b] bH by simp
    let ?x = "(bufs s b)\<lparr>b_refcnt := b_refcnt (bufs s b) + 1\<rparr>"
    have "bget DISKDEV n s = bnd (acquiresleep (BufSl b) (upd_buf b (\<lambda>x. x\<lparr>b_refcnt := b_refcnt x + 1\<rparr>) s)) (\<lambda>_ s. Ok b s)"
      using bget_cached_eq[OF ok, of n] Some held by (simp add: bget_def lock_simps upd_buf_def held_idem del: bget_cached.simps)
    then have "bget DISKDEV n s = Ok b (s\<lparr>bufs := (bufs s)(b := ?x),
      slocks := (slocks s)(BufSl b := (slocks s (BufSl b))\<lparr>sl_locked := True, sl_pid := mypid s\<rparr>)\<rparr>)"
      using lock[OF b bH] by simp
    then show thesis using hb b bH rc by (intro that[of b ?x]) (auto simp: holds_block_def)
  next
    case None
    then have no: "\<forall>i. \<not> holds_block s i n" by (auto simp: find_upt_None holds_block_def)
    then obtain b where u: "bget_unused (Suc NBUF) (bufs s) (b_prev (bufs s NBUF)) = Some (Some b)"
        and b: "b < NBUF" "b \<notin> H" "b \<notin> dirty s"
      using bget_unused_eq[OF ok] room by blast
    let ?f = "\<lambda>x. x\<lparr>b_dev := DISKDEV, b_blockno := n, b_valid := False, b_dirty := False, b_refcnt := 1\<rparr>"
    have "bget DISKDEV n s = bnd (acquiresleep (BufSl b) (upd_buf b ?f s)) (\<lambda>_ s. Ok b s)"
      using bget_cached_eq[OF ok, of n] None held u
      by (simp add: bget_def lock_simps upd_buf_def held_idem del: bget_cached.simps bget_unused.simps)
    then have "bget DISKDEV n s = Ok b (s\<lparr>bufs := (bufs s)(b := ?f (bufs s b)),
      slocks := (slocks s)(BufSl b := (slocks s (BufSl b))\<lparr>sl_locked := True, sl_pid := mypid s\<rparr>)\<rparr>)"
      using lock[OF b(1,2), of ?f] by simp
    then show thesis using b no by (intro that[of b "?f (bufs s b)"]) (auto simp: dirty_def)
  qed
qed

lemma bread_form:
  assumes ok: "cache_ok H s" and n: "n < disksize s"
    and free: "\<And>i. holds_block s i n \<Longrightarrow> i \<notin> H"
    and room: "(\<exists>i. holds_block s i n) \<or> card (H \<union> dirty s) < NBUF"
  obtains b x where "bread DISKDEV n s = Ok b (s\<lparr>bufs := (bufs s)(b := x),
      slocks := (slocks s)(BufSl b := (slocks s (BufSl b))\<lparr>sl_locked := True, sl_pid := mypid s\<rparr>)\<rparr>)"
    and "b < NBUF" and "b \<notin> H" and "b_dev x = DISKDEV" and "b_blockno x = n" and "b_refcnt x = 1"
    and "b_next x = b_next (bufs s b)" and "b_prev x = b_prev (bufs s b)"
    and "b_dirty x = b_dirty (bufs s b)" and "b_valid x" and "content (b_data x) = view s n"
    and "holds_block s b n \<or> (\<forall>i. \<not> holds_block s i n) \<and> b \<notin> dirty s"
proof -
  obtain b x where *: "bget DISKDEV n s = Ok b (s\<lparr>bufs := (bufs s)(b := x),
      slocks := (slocks s)(BufSl b := (slocks s (BufSl b))\<lparr>sl_locked := True, sl_pid := mypid s\<rparr>)\<rparr>)"
    and b: "b < NBUF" "b \<notin> H" and x: "b_dev x = DISKDEV" "b_blockno x = n" "b_refcnt x = 1"
      "b_next x = b_next (bufs s b)" "b_prev x = b_prev (bufs s b)"
      "b_dirty x = b_dirty (bufs s b)" "b_data x = b_data (bufs s b)"
    and kind: "holds_block s b n \<and> b_valid x = b_valid (bufs s b) \<or>
      (\<forall>i. \<not> holds_block s i n) \<and> b \<notin> dirty s \<and> \<not> b_valid x"
    using bget_form[OF assms] by blast
  let ?t = "s\<lparr>bufs := (bufs s)(b := x),
      slocks := (slocks s)(BufSl b := (slocks s (BufSl b))\<lparr>sl_locked := True, sl_pid := mypid s\<rparr>)\<rparr>"
  show thesis
  proof (cases "b_valid x")
    case True
    with kind have hb: "holds_block s b n" "b_valid (bufs s b)" by auto
    have "bread DISKDEV n s = Ok b ?t" using * True by (simp add: bread_def)
    then show thesis using True b x hb view_eq[OF ok hb] by (intro that[of b x]) auto
  next
    case False
    have nd: "\<not> b_dirty x"
      using kind False x(6) b(1) cache_okD(12)[OF ok, of b] by (auto simp: dirty_def)
    have "iderw b ?t = Ok () (upd_buf b (\<lambda>x. x\<lparr>b_data := copy (b_data x) 0 (disk ?t (b_blockno x)) 0 BSIZE,
        b_valid := True\<rparr>) ?t)"
      using cache_okD(1)[OF ok] False nd x(1,2) n
      by (intro iderw_read) (auto simp: idle_locks_def owns_slock_def mypid_def)
    then have "bread DISKDEV n s = Ok b (s\<lparr>bufs := (bufs s)(b := x\<lparr>b_data := copy (b_data x) 0 (disk s n) 0 BSIZE,
        b_valid := True\<rparr>),
      slocks := (slocks s)(BufSl b := (slocks s (BufSl b))\<lparr>sl_locked := True, sl_pid := mypid s\<rparr>)\<rparr>)"
      using * False x(2) by (simp add: bread_def upd_buf_def)
    moreover have "view s n = content (disk s n)"
      using kind False cache_okD(4)[OF ok] by (intro view_uncached) blast
    ultimately show thesis using b x kind False
      by (intro that[of b "x\<lparr>b_data := copy (b_data x) 0 (disk s n) 0 BSIZE, b_valid := True\<rparr>"]) auto
  qed
qed

subsection \<open>What the operations do to the contents of the blocks\<close>

text \<open>The state after \<^verbatim>\<open>bread\<close>, with the new buffer \<open>x\<close> in slot \<open>b\<close>.\<close>

lemma holds_block_upd:
  assumes "bufs t = (bufs s)(b := x)" and "b < NBUF" and "b_dev x = DISKDEV" and "b_blockno x = n"
  shows "holds_block t i k \<longleftrightarrow> (if i = b then k = n else holds_block s i k)"
  using assms by (auto simp: holds_block_def)

lemma view_cong:
  assumes "\<And>j. holds_block t j m \<and> b_valid (bufs t j) \<longleftrightarrow> holds_block s j m \<and> b_valid (bufs s j)"
    and "\<And>j. holds_block s j m \<Longrightarrow> content (b_data (bufs t j)) = content (b_data (bufs s j))"
    and "content (disk t m) = content (disk s m)"
  shows "view t m = view s m"
proof (cases "List.find (\<lambda>i. holds_block s i m \<and> b_valid (bufs s i)) [0..<NBUF]")
  case None
  then show ?thesis using assms(3) by (simp add: view_def assms(1))
next
  case (Some j)
  then have "holds_block s j m" using find_upt_Some[OF Some] by simp
  from assms(2)[OF this] Some show ?thesis by (simp add: view_def assms(1))
qed

lemma view_clean:
  assumes ok: "cache_ok H s" and b: "holds_block s b m" "b \<notin> H" "b \<notin> dirty s"
  shows "view s m = content (disk s m)"
proof (cases "b_valid (bufs s b)")
  case True
  have "\<not> b_dirty (bufs s b)" using b by (simp add: dirty_def holds_block_def)
  then show ?thesis using view_eq[OF ok b(1) True] cache_okD(11)[OF ok b(1) True] b(2) by simp
next
  case False
  then show ?thesis using cache_okD(4)[OF ok b(1)] by (intro view_uncached) blast
qed

lemma view_locked:
  assumes ok: "cache_ok H s" and b: "b < NBUF" "b \<notin> H"
    and x: "b_dev x = DISKDEV" "b_blockno x = n" "b_valid x" "content (b_data x) = view s n"
    and kind: "holds_block s b n \<or> (\<forall>i. \<not> holds_block s i n) \<and> b \<notin> dirty s"
    and t: "bufs t = (bufs s)(b := x)" "disk t = disk s"
  shows "view t m = view s m"
proof -
  note hb = holds_block_upd[OF t(1) b(1) x(1,2)]
  consider "m = n" | "m \<noteq> n" "holds_block s b m" | "m \<noteq> n" "\<not> holds_block s b m" by blast
  then show ?thesis
  proof cases
    case 1
    have "j = b" if "holds_block t j n" for j
      using that kind cache_okD(4)[OF ok, of j n b] unfolding hb by (metis (full_types))
    moreover have "holds_block t b n" "b_valid (bufs t b)" using t x(3) by (simp_all add: hb)
    ultimately have "view t n = content (b_data (bufs t b))" by (intro view_cached)
    with 1 x t show ?thesis by simp
  next
    case 2
    have "\<not> holds_block t j m" for j
      using 2 cache_okD(4)[OF ok 2(2), of j] unfolding hb by (metis (full_types))
    then have "view t m = content (disk t m)" by (intro view_uncached) blast
    moreover have "b \<notin> dirty s" using kind 2 by (auto simp: holds_block_def)
    ultimately show ?thesis using view_clean[OF ok 2(2) b(2)] t(2) by simp
  next
    case 3
    then show ?thesis using t by (intro view_cong) (auto simp: hb)
  qed
qed

lemma cache_ok_locked:
  assumes ok: "cache_ok H s" and n: "n < disksize s" and b: "b < NBUF" "b \<notin> H"
    and x: "b_dev x = DISKDEV" "b_blockno x = n" "b_refcnt x = 1" "b_next x = b_next (bufs s b)"
      "b_prev x = b_prev (bufs s b)" "b_dirty x = b_dirty (bufs s b)" "b_valid x"
    and kind: "holds_block s b n \<or> (\<forall>i. \<not> holds_block s i n) \<and> b \<notin> dirty s"
    and t: "t = s\<lparr>bufs := (bufs s)(b := x),
      slocks := (slocks s)(BufSl b := (slocks s (BufSl b))\<lparr>sl_locked := True, sl_pid := mypid s\<rparr>)\<rparr>"
  shows "cache_ok (insert b H) t" and "dirty t = dirty s"
    and "i \<in> H \<union> dirty s \<Longrightarrow> holds_block t i m = holds_block s i m"
proof -
  have bufs: "bufs t = (bufs s)(b := x)" "disk t = disk s" "disksize t = disksize s" "mypid t = mypid s"
    using t by (simp_all add: mypid_def)
  show d: "dirty t = dirty s" using bufs x(6) by (auto simp: dirty_def)
  note hb = holds_block_upd[OF bufs(1) b(1) x(1,2)]
  have same: "holds_block s b m \<longleftrightarrow> m = n" if "holds_block s b n" for m
    using that by (auto simp: holds_block_def)
  show "i \<in> H \<union> dirty s \<Longrightarrow> holds_block t i m = holds_block s i m"
    unfolding hb using kind b(2) same by (cases "i = b") auto
  have links: "(\<lambda>i. b_next (bufs t i)) = (\<lambda>i. b_next (bufs s i))" "(\<lambda>i. b_prev (bufs t i)) = (\<lambda>i. b_prev (bufs s i))"
    using bufs x by auto
  show "cache_ok (insert b H) t"
    unfolding cache_ok_def
  proof (intro conjI)
    show "idle_locks t" using cache_okD(1)[OF ok] t by (simp add: idle_locks_def)
    show "ring_ok t" using cache_okD(2)[OF ok] unfolding ring_ok_def links .
    show "insert b H \<subseteq> {0..<NBUF}" using b cache_okD(3)[OF ok] by auto
    show "\<forall>i n j. holds_block t i n \<longrightarrow> holds_block t j n \<longrightarrow> i = j"
      unfolding hb using kind cache_okD(4)[OF ok] by (metis (full_types))
    show "\<forall>i<NBUF. b_refcnt (bufs t i) = (if i \<in> insert b H then 1 else 0)"
      using cache_okD(5)[OF ok] x(3) by (simp add: bufs)
    show "\<forall>i<NBUF. sl_locked (slocks t (BufSl i)) = (i \<in> insert b H)"
      using cache_okD(6)[OF ok] t by simp
    show "\<forall>i\<in>insert b H. owns_slock (BufSl i) t \<and> b_valid (bufs t i) \<and> b_dev (bufs t i) = DISKDEV \<and>
        b_blockno (bufs t i) < disksize t"
      using cache_okD(7-10)[OF ok] x n b by (auto simp: owns_slock_def bufs t mypid_def)
    show "\<forall>i n. holds_block t i n \<longrightarrow> b_valid (bufs t i) \<longrightarrow> \<not> b_dirty (bufs t i) \<longrightarrow> i \<notin> insert b H \<longrightarrow>
        content (b_data (bufs t i)) = content (disk t n)"
      using cache_okD(11)[OF ok] by (auto simp: hb bufs)
    show "\<forall>i\<in>dirty t. b_valid (bufs t i) \<and> b_dev (bufs t i) = DISKDEV \<and> b_blockno (bufs t i) < disksize t"
      unfolding d using cache_okD(12-14)[OF ok] x n by (auto simp: bufs)
  qed
qed

text \<open>\<^verbatim>\<open>bread\<close> returns a locked buffer with the contents of the block, and changes no contents.\<close>

lemma bread_ok:
  assumes ok: "cache_ok H s" and n: "n < disksize s"
    and free: "\<And>i. holds_block s i n \<Longrightarrow> i \<notin> H"
    and room: "(\<exists>i. holds_block s i n) \<or> card (H \<union> dirty s) < NBUF"
  shows "okpost (bread DISKDEV n s) (\<lambda>b s'. cache_ok (insert b H) s' \<and> b \<notin> H \<and> holds_block s' b n \<and>
    content (b_data (bufs s' b)) = view s n \<and> (\<forall>m. view s' m = view s m) \<and> dirty s' = dirty s \<and>
    disk s' = disk s \<and> dtrace s' = dtrace s \<and> bio_frame s s' \<and>
    (\<forall>i m. i \<in> H \<union> dirty s \<longrightarrow> holds_block s' i m = holds_block s i m))"
proof -
  obtain b x where *: "bread DISKDEV n s = Ok b (s\<lparr>bufs := (bufs s)(b := x),
      slocks := (slocks s)(BufSl b := (slocks s (BufSl b))\<lparr>sl_locked := True, sl_pid := mypid s\<rparr>)\<rparr>)"
    and b: "b < NBUF" "b \<notin> H" and x: "b_dev x = DISKDEV" "b_blockno x = n" "b_refcnt x = 1"
      "b_next x = b_next (bufs s b)" "b_prev x = b_prev (bufs s b)"
      "b_dirty x = b_dirty (bufs s b)" "b_valid x" "content (b_data x) = view s n"
    and kind: "holds_block s b n \<or> (\<forall>i. \<not> holds_block s i n) \<and> b \<notin> dirty s"
    using bread_form[OF assms] by blast
  let ?t = "s\<lparr>bufs := (bufs s)(b := x),
      slocks := (slocks s)(BufSl b := (slocks s (BufSl b))\<lparr>sl_locked := True, sl_pid := mypid s\<rparr>)\<rparr>"
  note c = cache_ok_locked[OF ok n b x(1-7) kind refl]
  have v: "view ?t m = view s m" for m
    using view_locked[OF ok b x(1,2,7,8) kind, of ?t] by simp
  have "holds_block ?t b n" "bio_frame s ?t" using b x by (simp_all add: holds_block_def bio_frame_def)
  then show ?thesis unfolding * okpost.simps using c v x(8) b by simp
qed

text \<open>The invariant when blocks, links and locks stay the same.\<close>

lemma cache_ok_same:
  assumes ok: "cache_ok H s"
    and keep: "\<And>i. b_dev (bufs t i) = b_dev (bufs s i)" "\<And>i. b_blockno (bufs t i) = b_blockno (bufs s i)"
      "\<And>i. b_refcnt (bufs t i) = b_refcnt (bufs s i)" "\<And>i. b_next (bufs t i) = b_next (bufs s i)"
      "\<And>i. b_prev (bufs t i) = b_prev (bufs s i)"
    and env: "slocks t = slocks s" "idle_locks t" "mypid t = mypid s" "disksize t = disksize s"
    and valid: "\<And>i. b_valid (bufs s i) \<Longrightarrow> b_valid (bufs t i)" and d: "dirty t \<subseteq> dirty s"
    and agree: "\<And>i n. holds_block s i n \<Longrightarrow> b_valid (bufs t i) \<Longrightarrow> \<not> b_dirty (bufs t i) \<Longrightarrow> i \<notin> H \<Longrightarrow>
      content (b_data (bufs t i)) = content (disk t n)"
  shows "cache_ok H t" and "holds_block t = holds_block s"
proof -
  show hb: "holds_block t = holds_block s" using keep by (intro ext) (simp add: holds_block_def)
  show "cache_ok H t"
    unfolding cache_ok_def
  proof (intro conjI)
    show "ring_ok t" using cache_okD(2)[OF ok] by (simp add: ring_ok_def keep)
    show "H \<subseteq> {0..<NBUF}" using cache_okD(3)[OF ok] by auto
    show "\<forall>i n j. holds_block t i n \<longrightarrow> holds_block t j n \<longrightarrow> i = j"
      unfolding hb using cache_okD(4)[OF ok] by blast
    show "\<forall>i<NBUF. b_refcnt (bufs t i) = (if i \<in> H then 1 else 0)"
      using cache_okD(5)[OF ok] by (simp add: keep)
    show "\<forall>i<NBUF. sl_locked (slocks t (BufSl i)) = (i \<in> H)" using cache_okD(6)[OF ok] env by simp
    show "\<forall>i\<in>H. owns_slock (BufSl i) t \<and> b_valid (bufs t i) \<and> b_dev (bufs t i) = DISKDEV \<and>
        b_blockno (bufs t i) < disksize t"
      using cache_okD(7-10)[OF ok] valid env by (simp add: keep owns_slock_def)
    show "\<forall>i n. holds_block t i n \<longrightarrow> b_valid (bufs t i) \<longrightarrow> \<not> b_dirty (bufs t i) \<longrightarrow> i \<notin> H \<longrightarrow>
        content (b_data (bufs t i)) = content (disk t n)"
      unfolding hb using agree by blast
    show "\<forall>i\<in>dirty t. b_valid (bufs t i) \<and> b_dev (bufs t i) = DISKDEV \<and> b_blockno (bufs t i) < disksize t"
      using cache_okD(12-14)[OF ok] valid env d by (auto simp: keep)
  qed (rule env)
qed

text \<open>Changing the data of a locked buffer changes the contents of its block, and nothing else.\<close>

lemma set_buf_ok:
  assumes ok: "cache_ok H s" and b: "b \<in> H" "holds_block s b n"
    and t: "t = upd_buf b (\<lambda>x. x\<lparr>b_data := d\<rparr>) s"
  shows "cache_ok H t" and "holds_block t = holds_block s" and "dirty t = dirty s"
    and "view t m = (if m = n then content d else view s m)" and "bio_frame s t"
proof -
  have bufs: "bufs t = (bufs s)(b := (bufs s b)\<lparr>b_data := d\<rparr>)" "disk t = disk s" using t by simp_all
  show dt: "dirty t = dirty s" using bufs by (auto simp: dirty_def)
  have agree: "content (b_data (bufs t i)) = content (disk t k)"
    if "holds_block s i k" "b_valid (bufs t i)" "\<not> b_dirty (bufs t i)" "i \<notin> H" for i k
  proof -
    have "i \<noteq> b" using that(4) b(1) by blast
    then show ?thesis using cache_okD(11)[OF ok that(1)] that bufs by simp
  qed
  have keep: "b_dev (bufs t i) = b_dev (bufs s i)" "b_blockno (bufs t i) = b_blockno (bufs s i)"
      "b_refcnt (bufs t i) = b_refcnt (bufs s i)" "b_next (bufs t i) = b_next (bufs s i)"
      "b_prev (bufs t i) = b_prev (bufs s i)" "b_valid (bufs s i) \<Longrightarrow> b_valid (bufs t i)" for i
    by (auto simp: bufs)
  have env: "slocks t = slocks s" "idle_locks t" "mypid t = mypid s" "disksize t = disksize s"
    using cache_okD(1)[OF ok] by (simp_all add: t)
  note same = cache_ok_same[OF ok keep(1-5) env keep(6) equalityD1[OF dt] agree]
  show c: "cache_ok H t" and hb: "holds_block t = holds_block s" by (rule same; assumption)+
  show "bio_frame s t" using t by (simp add: bio_frame_def upd_buf_def)
  show "view t m = (if m = n then content d else view s m)"
  proof (cases "m = n")
    case True
    have "b_valid (bufs t b)" using cache_okD(8)[OF ok b(1)] bufs by simp
    then show ?thesis using view_eq[OF c, of b n] b(2) hb bufs True by simp
  next
    case False
    have "j \<noteq> b" if "holds_block s j m" for j using that b(2) False by (auto simp: holds_block_def)
    then show ?thesis using False bufs hb by (simp, intro view_cong) auto
  qed
qed

lemma content_disk_write:
  "content (disk_write n d dk m) = (if m = n then content d else content (dk m))"
  by (simp add: disk_write_def)

text \<open>\<^verbatim>\<open>bwrite\<close> puts the contents of the buffer on the disk and records the write.\<close>

lemma bwrite_ok:
  assumes ok: "cache_ok H s" and b: "b \<in> H" "holds_block s b n"
  shows "okpost (bwrite b s) (\<lambda>_ t. cache_ok H t \<and> holds_block t = holds_block s \<and>
    (\<forall>m. view t m = view s m) \<and> dirty t = dirty s - {b} \<and>
    disk t = disk_write n (b_data (bufs s b)) (disk s) \<and>
    dtrace t = dtrace s @ [(n, b_data (bufs s b))] \<and> bio_frame s t)"
proof -
  let ?t = "s\<lparr>disk := disk_write n (b_data (bufs s b)) (disk s),
    dtrace := dtrace s @ [(n, b_data (bufs s b))],
    bufs := (bufs s)(b := (bufs s b)\<lparr>b_dirty := False, b_valid := True\<rparr>)\<rparr>"
  have bn: "b_dev (bufs s b) = DISKDEV" "b_blockno (bufs s b) = n" using b(2) by (auto simp: holds_block_def)
  have "bwrite b s = iderw b (upd_buf b (\<lambda>x. x\<lparr>b_dirty := True\<rparr>) s)"
    using cache_okD(7)[OF ok b(1)] by (simp add: bwrite_def holdingsleep_eq[OF cache_okD(1)[OF ok]])
  also have "\<dots> = Ok () ?t"
    using cache_okD(1)[OF ok] cache_okD(7,10)[OF ok b(1)] bn
    by (subst iderw_write) (simp_all add: upd_buf_def idle_locks_def owns_slock_def mypid_def)
  finally have *: "bwrite b s = Ok () ?t" .
  have d: "dirty ?t = dirty s - {b}" by (auto simp: dirty_def)
  have agree: "content (b_data (bufs ?t i)) = content (disk ?t k)"
    if h: "holds_block s i k" "b_valid (bufs ?t i)" "\<not> b_dirty (bufs ?t i)" "i \<notin> H" for i k
  proof -
    have "i \<noteq> b" using h(4) b(1) by blast
    moreover have "k \<noteq> n" using cache_okD(4)[OF ok b(2)] h(1) \<open>i \<noteq> b\<close> by blast
    ultimately show ?thesis using cache_okD(11)[OF ok h(1)] h by (simp add: content_disk_write)
  qed
  have dd: "dirty ?t \<subseteq> dirty s" unfolding d by blast
  have keep: "b_dev (bufs ?t i) = b_dev (bufs s i)" "b_blockno (bufs ?t i) = b_blockno (bufs s i)"
      "b_refcnt (bufs ?t i) = b_refcnt (bufs s i)" "b_next (bufs ?t i) = b_next (bufs s i)"
      "b_prev (bufs ?t i) = b_prev (bufs s i)" "b_valid (bufs s i) \<Longrightarrow> b_valid (bufs ?t i)" for i
    by (simp_all)
  have env: "slocks ?t = slocks s" "idle_locks ?t" "mypid ?t = mypid s" "disksize ?t = disksize s"
    using cache_okD(1)[OF ok] by (simp_all add: idle_locks_def mypid_def)
  note same = cache_ok_same[OF ok keep(1-5) env keep(6) dd agree]
  have c: "cache_ok H ?t" and hb: "holds_block ?t = holds_block s" by (rule same; assumption)+
  have v: "view ?t m = view s m" for m
  proof (cases "m = n")
    case True
    then show ?thesis using view_eq[OF c, of b n] view_eq[OF ok b(2)] cache_okD(8)[OF ok b(1)] b(2) hb by simp
  next
    case False
    have "j \<noteq> b" if "holds_block s j m" for j using that b(2) False by (auto simp: holds_block_def)
    then show ?thesis using False hb by (intro view_cong) (auto simp: content_disk_write)
  qed
  show ?thesis unfolding * okpost.simps using c hb v d by (simp add: bio_frame_def)
qed

text \<open>
  \<^verbatim>\<open>brelse\<close> unlocks the buffer and moves it to the front of the list. \<open>to_front b bs\<close> is the effect of its
  six assignments on the buffers.
\<close>

definition set_prev :: "nat \<Rightarrow> nat \<Rightarrow> (nat \<Rightarrow> buf) \<Rightarrow> nat \<Rightarrow> buf" where
  "set_prev j v bs = bs(j := (bs j)\<lparr>b_prev := v\<rparr>)"

definition set_next :: "nat \<Rightarrow> nat \<Rightarrow> (nat \<Rightarrow> buf) \<Rightarrow> nat \<Rightarrow> buf" where
  "set_next j v bs = bs(j := (bs j)\<lparr>b_next := v\<rparr>)"

definition to_front :: "nat \<Rightarrow> (nat \<Rightarrow> buf) \<Rightarrow> nat \<Rightarrow> buf" where
  "to_front b bs =
     (let bs = set_prev (b_next (bs b)) (b_prev (bs b)) bs;
          bs = set_next (b_prev (bs b)) (b_next (bs b)) bs;
          bs = set_next b (b_next (bs NBUF)) bs;
          bs = set_prev b NBUF bs;
          bs = set_prev (b_next (bs NBUF)) b bs
      in set_next NBUF b bs)"

text \<open>\<open>same_buf bs bs'\<close>: the buffers differ at most in their links.\<close>

definition same_buf :: "(nat \<Rightarrow> buf) \<Rightarrow> (nat \<Rightarrow> buf) \<Rightarrow> bool" where
  "same_buf bs bs' \<longleftrightarrow> (\<forall>i. b_dev (bs' i) = b_dev (bs i) \<and> b_blockno (bs' i) = b_blockno (bs i) \<and>
     b_refcnt (bs' i) = b_refcnt (bs i) \<and> b_valid (bs' i) = b_valid (bs i) \<and>
     b_dirty (bs' i) = b_dirty (bs i) \<and> b_data (bs' i) = b_data (bs i))"

lemma same_buf_set: "same_buf bs bs' \<Longrightarrow> same_buf bs (set_prev j v bs')"
    "same_buf bs bs' \<Longrightarrow> same_buf bs (set_next j v bs')"
  by (simp_all add: same_buf_def set_prev_def set_next_def)

lemma to_front_same: "same_buf bs (to_front b bs)"
  unfolding to_front_def Let_def by (intro same_buf_set) (simp add: same_buf_def)

lemma set_links:
  "b_next (set_prev j v bs i) = b_next (bs i)" "b_prev (set_next j v bs i) = b_prev (bs i)"
  "b_prev (set_prev j v bs i) = (if i = j then v else b_prev (bs i))"
  "b_next (set_next j v bs i) = (if i = j then v else b_next (bs i))"
  by (simp_all add: set_prev_def set_next_def)

lemma to_front_links:
  assumes "b_next (bs b) \<noteq> b" and "b_prev (bs b) \<noteq> b" and "b \<noteq> NBUF"
  defines "nx \<equiv> (\<lambda>i. b_next (bs i))(b_prev (bs b) := b_next (bs b))"
    and "pv \<equiv> (\<lambda>i. b_prev (bs i))(b_next (bs b) := b_prev (bs b))"
  shows "(\<lambda>i. b_next (to_front b bs i)) = nx(b := nx NBUF, NBUF := b)"
    and "nx NBUF \<noteq> b \<Longrightarrow> (\<lambda>i. b_prev (to_front b bs i)) = pv(b := NBUF, nx NBUF := b)"
proof -
  define bs1 where "bs1 = set_prev (b_next (bs b)) (b_prev (bs b)) bs"
  define bs2 where "bs2 = set_next (b_prev (bs1 b)) (b_next (bs1 b)) bs1"
  define bs3 where "bs3 = set_prev b NBUF (set_next b (b_next (bs2 NBUF)) bs2)"
  have 1: "b_next (bs1 i) = b_next (bs i)" "b_prev (bs1 i) = pv i" for i
    by (simp_all add: bs1_def pv_def set_links)
  have "pv b = b_prev (bs b)" using assms(1) by (simp add: pv_def)
  then have 2: "b_next (bs2 i) = nx i" "b_prev (bs2 i) = pv i" for i
    by (simp_all add: bs2_def nx_def set_links 1)
  have 3: "b_next (bs3 i) = (nx(b := nx NBUF)) i" "b_prev (bs3 i) = (pv(b := NBUF)) i" for i
    by (simp_all add: bs3_def set_links 2)
  have f: "to_front b bs = set_next NBUF b (set_prev (b_next (bs3 NBUF)) b bs3)"
    by (simp add: to_front_def Let_def bs1_def bs2_def bs3_def)
  show "(\<lambda>i. b_next (to_front b bs i)) = nx(b := nx NBUF, NBUF := b)"
    and "nx NBUF \<noteq> b \<Longrightarrow> (\<lambda>i. b_prev (to_front b bs i)) = pv(b := NBUF, nx NBUF := b)"
    using assms(3) by (auto simp: fun_eq_iff f set_links 3)
qed

lemma ring_to_front:
  assumes "linked (\<lambda>i. b_next (bs i)) (\<lambda>i. b_prev (bs i)) (NBUF # as @ b # cs @ [NBUF])"
    and d: "distinct (NBUF # as @ b # cs)"
  shows "linked (\<lambda>i. b_next (to_front b bs i)) (\<lambda>i. b_prev (to_front b bs i)) (NBUF # b # as @ cs @ [NBUF])"
proof -
  let ?nx = "\<lambda>i. b_next (bs i)" and ?pv = "\<lambda>i. b_prev (bs i)"
  let ?nx' = "?nx(?pv b := ?nx b)" and ?pv' = "?pv(?nx b := ?pv b)"
  have l: "linked ?nx' ?pv' (NBUF # (as @ cs) @ [NBUF])" using ring_remove[OF assms] by simp
  have "b \<notin> set ((as @ cs) @ [NBUF])" using d by auto
  then obtain y ys where y: "(as @ cs) @ [NBUF] = y # ys" "y \<noteq> b"
    by (metis append_is_Nil_conv list.set_intros(1) neq_Nil_conv not_Cons_self2)
  have "?nx' NBUF = y" using l unfolding y(1) by simp
  with y have ny: "?nx' NBUF \<noteq> b" by simp
  have "linked ?nx ?pv ((NBUF # as) @ b # cs @ [NBUF])" using assms(1) by simp
  then have l1: "linked ?nx ?pv ((NBUF # as) @ [b])" and l2: "linked ?nx ?pv (b # cs @ [NBUF])"
    unfolding linked_append[of _ _ "NBUF # as" b "cs @ [NBUF]"] by blast+
  have nb: "?nx b \<noteq> b" using l2 d by (cases cs) auto
  have pb: "?pv b \<noteq> b"
  proof (cases as rule: rev_cases)
    case Nil
    then show ?thesis using l1 d by simp
  next
    case (snoc as' a)
    then have "linked ?nx ?pv ((NBUF # as') @ a # [b])" using l1 by simp
    then have "?pv b = a" unfolding linked_append[of _ _ "NBUF # as'" a "[b]"] by simp
    then show ?thesis using d snoc by auto
  qed
  have "linked (?nx'(b := ?nx' NBUF, NBUF := b)) (?pv'(b := NBUF, ?nx' NBUF := b)) (NBUF # b # (as @ cs) @ [NBUF])"
    using d by (intro ring_insert[OF l]) auto
  moreover have "b \<noteq> NBUF" using d by auto
  ultimately show ?thesis using to_front_links[of bs b, OF nb pb \<open>b \<noteq> NBUF\<close>] ny by simp
qed

lemma ring_ok_to_front:
  assumes "ring_ok s" and "b < NBUF" and "\<And>i. b_next (bs i) = b_next (bufs s i)"
    and "\<And>i. b_prev (bs i) = b_prev (bufs s i)" and "bufs t = to_front b bs"
  shows "ring_ok t"
proof -
  obtain xs where xs: "linked (\<lambda>i. b_next (bs i)) (\<lambda>i. b_prev (bs i)) (NBUF # xs @ [NBUF])"
      "distinct xs" "set xs = {0..<NBUF}"
    using assms(1) unfolding ring_ok_def assms(3,4) by blast
  have "b \<in> set xs" using xs(3) assms(2) by simp
  then obtain as cs where split: "xs = as @ b # cs" by (meson split_list)
  have "NBUF \<notin> set xs" using xs(3) by simp
  then have "linked (\<lambda>i. b_next (bufs t i)) (\<lambda>i. b_prev (bufs t i)) (NBUF # (b # as @ cs) @ [NBUF])"
    using ring_to_front[of bs as b cs] xs split assms(5) by simp
  moreover have "distinct (b # as @ cs)" "set (b # as @ cs) = {0..<NBUF}" using xs(2,3) split by auto
  ultimately show ?thesis unfolding ring_ok_def by blast
qed

lemma brelse_links:
  "(let s = upd_buf (b_next (bufs s b)) (\<lambda>x. x\<lparr>b_prev := b_prev (bufs s b)\<rparr>) s;
        s = upd_buf (b_prev (bufs s b)) (\<lambda>x. x\<lparr>b_next := b_next (bufs s b)\<rparr>) s;
        s = upd_buf b (\<lambda>x. x\<lparr>b_next := b_next (bufs s NBUF)\<rparr>) s;
        s = upd_buf b (\<lambda>x. x\<lparr>b_prev := NBUF\<rparr>) s;
        s = upd_buf (b_next (bufs s NBUF)) (\<lambda>x. x\<lparr>b_prev := b\<rparr>) s
    in upd_buf NBUF (\<lambda>x. x\<lparr>b_next := b\<rparr>) s) = s\<lparr>bufs := to_front b (bufs s)\<rparr>"
proof -
  have "upd_buf j (\<lambda>x. x\<lparr>b_prev := v\<rparr>) t = t\<lparr>bufs := set_prev j v (bufs t)\<rparr>"
    "upd_buf j (\<lambda>x. x\<lparr>b_next := v\<rparr>) t = t\<lparr>bufs := set_next j v (bufs t)\<rparr>" for j v and t :: "'a bio_state_scheme"
    by (simp_all add: upd_buf_def set_prev_def set_next_def)
  then show ?thesis by (simp add: to_front_def Let_def)
qed

lemma brelse_form:
  assumes ok: "cache_ok H s" and b: "b \<in> H"
  shows "brelse b s = Ok () (wake (ChanBufLk b) (upd_slock (BufSl b) (\<lambda>l. l\<lparr>sl_locked := False, sl_pid := 0\<rparr>)
    (s\<lparr>bufs := to_front b ((bufs s)(b := (bufs s b)\<lparr>b_refcnt := 0\<rparr>))\<rparr>)))"
proof -
  have rc: "b_refcnt (bufs s b) = 1" using cache_okD(5)[OF ok cache_okD(3)[OF ok b]] b by simp
  have held: "held s = {}" using cache_okD(1)[OF ok] by (simp add: idle_locks_def)
  have hd: "holdingsleep (BufSl b) s = Ok True s"
    using cache_okD(7)[OF ok b] holdingsleep_eq[OF cache_okD(1)[OF ok]] by simp
  let ?u = "wake (ChanBufLk b) (upd_slock (BufSl b) (\<lambda>l. l\<lparr>sl_locked := False, sl_pid := 0\<rparr>) s)"
  have rs: "releasesleep (BufSl b) s = Ok () ?u" using releasesleep_eq[OF cache_okD(1)[OF ok]] by simp
  let ?v = "upd_buf b (\<lambda>x. x\<lparr>b_refcnt := (b_refcnt x + 2 ^ 32 - 1) mod 2 ^ 32\<rparr>) (?u\<lparr>held := {BcacheLock}\<rparr>)"
  have v: "bufs ?v = (bufs s)(b := (bufs s b)\<lparr>b_refcnt := 0\<rparr>)" using rc by (simp add: upd_buf_def)
  have "brelse b s = release BcacheLock (?v\<lparr>bufs := to_front b (bufs ?v)\<rparr>)"
    unfolding brelse_def hd rs bnd.simps brelse_links
    using held rc by (simp add: lock_simps)
  also have "\<dots> = Ok () (wake (ChanBufLk b) (upd_slock (BufSl b) (\<lambda>l. l\<lparr>sl_locked := False, sl_pid := 0\<rparr>)
    (s\<lparr>bufs := to_front b ((bufs s)(b := (bufs s b)\<lparr>b_refcnt := 0\<rparr>))\<rparr>)))"
    unfolding v using held by (simp add: lock_simps held_idem wake_def upd_slock_def upd_buf_def)
  finally show ?thesis .
qed

lemma brelse_ok:
  assumes ok: "cache_ok H s" and b: "b \<in> H" "holds_block s b n"
    and clean: "b \<in> dirty s \<or> view s n = content (disk s n)"
  shows "okpost (brelse b s) (\<lambda>_ t. cache_ok (H - {b}) t \<and> holds_block t = holds_block s \<and>
    (\<forall>m. view t m = view s m) \<and> dirty t = dirty s \<and> disk t = disk s \<and> dtrace t = dtrace s \<and> bio_frame s t)"
proof -
  let ?bs = "(bufs s)(b := (bufs s b)\<lparr>b_refcnt := 0\<rparr>)"
  let ?t = "wake (ChanBufLk b) (upd_slock (BufSl b) (\<lambda>l. l\<lparr>sl_locked := False, sl_pid := 0\<rparr>)
    (s\<lparr>bufs := to_front b ?bs\<rparr>))"
  have bufs: "bufs ?t = to_front b ?bs" by simp
  have keep: "b_dev (bufs ?t i) = b_dev (bufs s i)" "b_blockno (bufs ?t i) = b_blockno (bufs s i)"
      "b_refcnt (bufs ?t i) = (if i = b then 0 else b_refcnt (bufs s i))"
      "b_valid (bufs ?t i) = b_valid (bufs s i)" "b_dirty (bufs ?t i) = b_dirty (bufs s i)"
      "b_data (bufs ?t i) = b_data (bufs s i)" for i
    using to_front_same[of ?bs b] unfolding bufs same_buf_def by (auto split: if_splits)
  have hb: "holds_block ?t = holds_block s" by (intro ext) (simp only: holds_block_def keep)
  have d: "dirty ?t = dirty s" by (simp only: dirty_def keep)
  have env: "disk ?t = disk s" "disksize ?t = disksize s" "mypid ?t = mypid s" "dtrace ?t = dtrace s"
    "slocks ?t = (slocks s)(BufSl b := (slocks s (BufSl b))\<lparr>sl_locked := False, sl_pid := 0\<rparr>)"
    by (simp_all add: mypid_def wake_def wake_upto_def wake_proc_def)
  have v: "view ?t m = view s m" for m
    by (intro view_cong) (simp_all only: hb keep env)
  note b_less = cache_okD(3)[OF ok b(1)]
  have "cache_ok (H - {b}) ?t"
    unfolding cache_ok_def
  proof (intro conjI)
    show "idle_locks ?t" using cache_okD(1)[OF ok] by (simp add: idle_locks_def)
    show "ring_ok ?t" by (rule ring_ok_to_front[OF cache_okD(2)[OF ok] b_less _ _ bufs]) auto
    show "H - {b} \<subseteq> {0..<NBUF}" using cache_okD(3)[OF ok] by auto
    show "\<forall>i n j. holds_block ?t i n \<longrightarrow> holds_block ?t j n \<longrightarrow> i = j"
      unfolding hb using cache_okD(4)[OF ok] by blast
    show "\<forall>i<NBUF. b_refcnt (bufs ?t i) = (if i \<in> H - {b} then 1 else 0)"
      unfolding keep using cache_okD(5)[OF ok] by simp
    show "\<forall>i<NBUF. sl_locked (slocks ?t (BufSl i)) = (i \<in> H - {b})"
      unfolding env using cache_okD(6)[OF ok] by simp
    show "\<forall>i\<in>H - {b}. owns_slock (BufSl i) ?t \<and> b_valid (bufs ?t i) \<and> b_dev (bufs ?t i) = DISKDEV \<and>
        b_blockno (bufs ?t i) < disksize ?t"
      unfolding keep env owns_slock_def using cache_okD(7-10)[OF ok] by (simp add: owns_slock_def)
    show "\<forall>i n. holds_block ?t i n \<longrightarrow> b_valid (bufs ?t i) \<longrightarrow> \<not> b_dirty (bufs ?t i) \<longrightarrow> i \<notin> H - {b} \<longrightarrow>
        content (b_data (bufs ?t i)) = content (disk ?t n)"
    proof (intro allI impI)
      fix i k assume h: "holds_block ?t i k" "b_valid (bufs ?t i)" "\<not> b_dirty (bufs ?t i)" "i \<notin> H - {b}"
      show "content (b_data (bufs ?t i)) = content (disk ?t k)"
      proof (cases "i = b")
        case True
        then have "k = n" using h(1) b(2) unfolding hb by (simp add: holds_block_def)
        then show ?thesis using h True clean view_eq[OF ok b(2)] b_less
          unfolding keep env by (simp add: dirty_def)
      next
        case False
        then show ?thesis using h cache_okD(11)[OF ok, of i k] unfolding hb keep env by simp
      qed
    qed
    show "\<forall>i\<in>dirty ?t. b_valid (bufs ?t i) \<and> b_dev (bufs ?t i) = DISKDEV \<and> b_blockno (bufs ?t i) < disksize ?t"
      unfolding d keep env using cache_okD(12-14)[OF ok] by blast
  qed
  moreover have "bio_frame s ?t" by (simp add: bio_frame_def wake_def upd_slock_def wake_upto_def wake_proc_def)
  ultimately show ?thesis unfolding brelse_form[OF ok b(1)] okpost.simps using hb v d env by blast
qed

subsection \<open>The cache as a map from block numbers to contents\<close>

lemma ex_ring: "ring_ok ex_state"
proof -
  have "linked (\<lambda>i. b_next (bufs ex_state i)) (\<lambda>i. b_prev (bufs ex_state i)) (NBUF # [0..<NBUF] @ [NBUF])"
    by (simp add: ex_buf_def NBUF_def upt_rec)
  then show ?thesis unfolding ring_ok_def by (intro exI[of _ "[0..<NBUF]"]) simp
qed

lemma ex_holds: "holds_block ex_state i n \<longleftrightarrow> i = 0 \<and> n = 40"
  by (auto simp: holds_block_def ex_buf_def DISKDEV_def NBUF_def)

lemma ex_dirty: "dirty ex_state = {0}"
  by (auto simp: dirty_def ex_buf_def NBUF_def)

lemma ex_cache_ok: "cache_ok {} ex_state"
  unfolding cache_ok_def ex_holds ex_dirty
  using ex_ring by (auto simp: idle_locks_def ex_buf_def DISKDEV_def)


text \<open>
  C14. \<^verbatim>\<open>bread\<close> returns a buffer, locked by the caller, whose data is the contents of the requested block, as
  long as the block is not already locked by the caller and there is a buffer left that is neither in
  use nor dirty; it changes the contents of no block, and writes nothing to the disk.
\<close>

theorem bread_returns_contents:
  assumes "cache_ok H s" and "n < disksize s" and "\<forall>i. holds_block s i n \<longrightarrow> i \<notin> H"
    and "(\<exists>i. holds_block s i n) \<or> card (H \<union> dirty s) < NBUF"
  shows "\<exists>b t. bread DISKDEV n s = Ok b t \<and> b \<notin> H \<and> cache_ok (insert b H) t \<and> holds_block t b n \<and>
    content (b_data (bufs t b)) = view s n \<and> view t = view s \<and> disk t = disk s \<and> dtrace t = dtrace s"
  using bread_ok[of H s n] assms unfolding okpost_iff fun_eq_iff[of "view _"] by blast

theorem bread_returns_contents_witness:
  "\<exists>b t. bread DISKDEV 40 ex_state = Ok b t \<and> content (b_data (bufs t b)) = replicate BSIZE 7"
proof -
  have "view ex_state 40 = replicate BSIZE 7"
    using view_eq[OF ex_cache_ok, of 0 40] by (simp add: ex_holds ex_buf_def content_def map_replicate_const)
  then show ?thesis
    using bread_returns_contents[OF ex_cache_ok, of 40] by (auto simp: ex_holds)
qed

text \<open>
  C15. Writing a block through the cache, that is \<^verbatim>\<open>bread\<close>, changing the data of the buffer, \<^verbatim>\<open>bwrite\<close> and
  \<^verbatim>\<open>brelse\<close>, updates the map from block numbers to contents at that block only, puts the new contents on
  the disk in one write, and leaves every buffer released.
\<close>

theorem block_update:
  assumes ok: "cache_ok {} s" and n: "n < disksize s" and room: "card (dirty s) < NBUF"
  shows "\<exists>t. bnd (bread DISKDEV n s) (\<lambda>b s. bnd (bwrite b (upd_buf b (\<lambda>x. x\<lparr>b_data := d\<rparr>) s)) (\<lambda>_ s. brelse b s)) = Ok () t \<and>
    cache_ok {} t \<and> view t = (view s)(n := content d) \<and>
    (\<lambda>m. content (disk t m)) = (\<lambda>m. content (disk s m))(n := content d) \<and> dtrace t = dtrace s @ [(n, d)]"
proof -
  obtain b s1 where 1: "bread DISKDEV n s = Ok b s1" "cache_ok {b} s1" "holds_block s1 b n"
      "\<And>m. view s1 m = view s m" "disk s1 = disk s" "dtrace s1 = dtrace s"
    using bread_ok[OF ok n] room unfolding okpost_iff by auto
  define s2 where "s2 = upd_buf b (\<lambda>x. x\<lparr>b_data := d\<rparr>) s1"
  have bb: "b \<in> {b}" by simp
  note 2 = set_buf_ok[OF 1(2) bb 1(3) s2_def]
  have h2: "holds_block s2 b n" "b_data (bufs s2 b) = d" using 2(2) 1(3) by (simp_all add: s2_def)
  obtain u s3 where 3: "bwrite b s2 = Ok u s3" "cache_ok {b} s3" "holds_block s3 = holds_block s2"
      "\<forall>m. view s3 m = view s2 m" "disk s3 = disk_write n d (disk s2)" "dtrace s3 = dtrace s2 @ [(n, d)]"
    using bwrite_ok[OF 2(1) bb h2(1)] h2(2) unfolding okpost_iff by auto
  have h3: "holds_block s3 b n" using 3(3) h2 by simp
  have c3: "b \<in> dirty s3 \<or> view s3 n = content (disk s3 n)"
    using 3(4,5) 2(4)[of n] by (simp add: content_disk_write)
  obtain u4 t where 4: "brelse b s3 = Ok u4 t" "cache_ok ({b} - {b}) t" "\<forall>m. view t m = view s3 m"
      "disk t = disk s3" "dtrace t = dtrace s3"
    using brelse_ok[OF 3(2) bb h3 c3] unfolding okpost_iff by blast
  have "view t = (view s)(n := content d)" using 4(3) 3(4) 2(4) 1(4) by (auto simp: fun_eq_iff)
  moreover have "disk s2 = disk s" and "dtrace s2 = dtrace s" using 1 by (simp_all add: s2_def)
  moreover have "(\<lambda>m. content (disk t m)) = (\<lambda>m. content (disk s m))(n := content d)"
    using 4(4) 3(5) \<open>disk s2 = disk s\<close> by (intro ext) (simp add: content_disk_write)
  ultimately show ?thesis using 1(1) 3(1,6) 4(1,2,5) by (auto simp: s2_def[symmetric])
qed

theorem block_update_witness:
  "\<exists>t. bnd (bread DISKDEV 7 ex_state) (\<lambda>b s. bnd (bwrite b (upd_buf b (\<lambda>x. x\<lparr>b_data := (\<lambda>_. 9)\<rparr>) s)) (\<lambda>_ s. brelse b s)) = Ok () t \<and>
     content (disk t 7) = replicate BSIZE 9 \<and> content (disk t 8) = replicate BSIZE 0"
proof -
  have "card (dirty ex_state) < NBUF" by (simp add: ex_dirty NBUF_def)
  from block_update[OF ex_cache_ok _ this, of 7 "\<lambda>_. 9"] obtain t where
    t: "bnd (bread DISKDEV 7 ex_state) (\<lambda>b s. bnd (bwrite b (upd_buf b (\<lambda>x. x\<lparr>b_data := (\<lambda>_. 9)\<rparr>) s)) (\<lambda>_ s. brelse b s)) = Ok () t"
      "(\<lambda>m. content (disk t m)) = (\<lambda>m. content (disk ex_state m))(7 := content (\<lambda>_. 9))" by auto
  have "content (disk t 7) = content (\<lambda>_. 9)" "content (disk t 8) = content (disk ex_state 8)"
    using fun_cong[OF t(2), of 7] fun_cong[OF t(2), of 8] by simp_all
  then show ?thesis using t(1) by (auto simp: content_def map_replicate_const)
qed

end
