(* ===== verification/Xv6_Log_Props.thy ===== *)
theory Xv6_Log_Props
  imports Xv6_Bio_Props
begin

section \<open>The log makes a transaction atomic\<close>

text \<open>
  What the steps of \<^verbatim>\<open>commit\<close> and \<^verbatim>\<open>recover_from_log\<close> write to the disk, in order, and that a crash after any
  number of these writes, followed by recovery, leaves either none or all of the transaction.
\<close>

subsection \<open>Contents of the disk and sequences of writes\<close>

definition cdisk :: "'a bio_state_scheme \<Rightarrow> nat \<Rightarrow> u8 list" where
  "cdisk s n = content (disk s n)"

text \<open>The effect of a sequence of block writes on the contents of a disk.\<close>

fun creplay :: "(nat \<times> u8 list) list \<Rightarrow> (nat \<Rightarrow> u8 list) \<Rightarrow> nat \<Rightarrow> u8 list" where
  "creplay [] cd = cd"
| "creplay ((n, c) # w) cd = creplay w (cd(n := c))"

text \<open>\<open>wrote s t w\<close>: between \<open>s\<close> and \<open>t\<close> the driver has written the blocks \<open>w\<close>, in this order.\<close>

definition wrote :: "'a bio_state_scheme \<Rightarrow> 'a bio_state_scheme \<Rightarrow> (nat \<times> u8 list) list \<Rightarrow> bool" where
  "wrote s t w \<longleftrightarrow> cdisk t = creplay w (cdisk s) \<and>
     map (\<lambda>(n, d). (n, content d)) (dtrace t) = map (\<lambda>(n, d). (n, content d)) (dtrace s) @ w"

lemma creplay_append: "creplay (w @ w') cd = creplay w' (creplay w cd)"
  by (induction w arbitrary: cd) auto

lemma wrote_nil [simp]: "disk t = disk s \<Longrightarrow> dtrace t = dtrace s \<Longrightarrow> wrote s t []"
  by (simp add: wrote_def cdisk_def[abs_def])

lemma wrote_trans: "wrote s t w \<Longrightarrow> wrote t u w' \<Longrightarrow> wrote s u (w @ w')"
  by (simp add: wrote_def creplay_append)

lemma wrote_one:
  "disk t = disk_write n d (disk s) \<Longrightarrow> dtrace t = dtrace s @ [(n, d)] \<Longrightarrow> content d = c \<Longrightarrow> wrote s t [(n, c)]"
  by (auto simp: wrote_def cdisk_def[abs_def] content_disk_write)

lemma wrote_same: "disk t' = disk t \<Longrightarrow> dtrace t' = dtrace t \<Longrightarrow> wrote s t w \<Longrightarrow> wrote s t' w"
  by (simp add: wrote_def cdisk_def[abs_def])

lemma creplay_other: "m \<notin> fst ` set w \<Longrightarrow> creplay w cd m = cd m"
  by (induction w arbitrary: cd) auto

lemma creplay_distinct:
  "distinct (map fst w) \<Longrightarrow> (m, c) \<in> set w \<Longrightarrow> creplay w cd m = c"
proof (induction w arbitrary: cd)
  case (Cons x w)
  obtain n d where x: "x = (n, d)" by (cases x)
  show ?case
  proof (cases "(m, c) = x")
    case True
    then have "m \<notin> fst ` set w" using Cons.prems(1) x by (auto simp: image_iff)
    then show ?thesis using True x by (simp add: creplay_other)
  next
    case False
    then show ?thesis using Cons x by auto
  qed
qed simp

subsection \<open>The header block\<close>

definition head_n :: "u8 list \<Rightarrow> int" where
  "head_n c = sint (get32 (\<lambda>i. c ! i) 0)"

definition head_block :: "u8 list \<Rightarrow> nat \<Rightarrow> nat" where
  "head_block c i = unat (get32 (\<lambda>i. c ! i) (4 + 4 * i))"

lemma get32_content: "a + 4 \<le> BSIZE \<Longrightarrow> get32 (\<lambda>i. content d ! i) a = get32 d a"
  by (simp add: get32_def content_def)

lemma BSIZE_log: "4 + 4 * LOGSIZE \<le> BSIZE"
  by (simp add: LOGSIZE_def MAXOPBLOCKS_def BSIZE_def)

lemma put_head_n:
  "get32 (put_head n blk d) 0 = word_of_int n"
proof -
  have "get32 (fold (\<lambda>i d. put32 d (4 + 4 * i) (of_nat (blk i))) is e) 0 = get32 e 0" for "is" and e
    by (induction "is" arbitrary: e) (auto simp: get32_put32_other)
  then show ?thesis by (simp add: put_head_def)
qed

lemma put_head_block:
  assumes "i < nat n"
  shows "get32 (put_head n blk d) (4 + 4 * i) = of_nat (blk i)"
proof -
  have "i < k \<Longrightarrow> get32 (fold (\<lambda>i d. put32 d (4 + 4 * i) (of_nat (blk i))) [0..<k] e) (4 + 4 * i) = of_nat (blk i)"
    for k and e :: bytes
  proof (induction k)
    case (Suc k)
    then show ?case by (cases "i = k") (auto simp: get32_put32_other)
  qed simp
  with assms show ?thesis by (simp add: put_head_def)
qed

lemma sint_small: "0 \<le> n \<Longrightarrow> n < 2 ^ 31 \<Longrightarrow> sint (word_of_int n :: u32) = n"
  by (simp add: signed_take_bit_int_eq_self sint_sbintrunc')

lemma head_of_put:
  assumes "0 \<le> n" and "n \<le> int LOGSIZE" and "\<forall>i<nat n. blk i < 2 ^ 32"
  shows "head_n (content (put_head n blk d)) = n"
    and "i < nat n \<Longrightarrow> head_block (content (put_head n blk d)) i = blk i"
proof -
  have "n < 2 ^ 31" using assms(2) by (simp add: LOGSIZE_def MAXOPBLOCKS_def)
  then show "head_n (content (put_head n blk d)) = n"
    using assms(1) BSIZE_log by (simp add: head_n_def get32_content put_head_n sint_small)
  assume i: "i < nat n"
  then have "4 + 4 * i + 4 \<le> BSIZE" using assms(2) BSIZE_log by linarith
  then show "head_block (content (put_head n blk d)) i = blk i"
    using i assms(3) by (simp add: head_block_def get32_content put_head_block unsigned_of_nat take_bit_nat_eq_self)
qed

subsection \<open>Transactions in memory\<close>

lemma bio_frame_log:
  fixes s t :: "'a log_state_scheme"
  assumes "bio_frame s t"
  shows "lg_start t = lg_start s" and "lg_n t = lg_n s" and "lg_block t = lg_block s" and "lg_dev t = lg_dev s"
    and "lg_size t = lg_size s" and "lg_outstanding t = lg_outstanding s" and "lg_committing t = lg_committing s"
proof -
  have *: "t = s\<lparr>ptable := ptable t, mlfqstr := mlfqstr t, slocks := slocks t,
     bufs := bufs t, disk := disk t, dtrace := dtrace t\<rparr>" using assms by (simp add: bio_frame_def)
  show "lg_start t = lg_start s" "lg_n t = lg_n s" "lg_block t = lg_block s" "lg_dev t = lg_dev s"
    "lg_size t = lg_size s" "lg_outstanding t = lg_outstanding s" "lg_committing t = lg_committing s"
    by (subst *, simp)+
qed

text \<open>The dirty buffers, which only \<^verbatim>\<open>commit\<close> may write, stay in place.\<close>

definition same_pins :: "'a bio_state_scheme \<Rightarrow> 'a bio_state_scheme \<Rightarrow> bool" where
  "same_pins s t \<longleftrightarrow> dirty t = dirty s \<and> (\<forall>i\<in>dirty s. \<forall>m. holds_block t i m = holds_block s i m)"

lemma same_pins_trans: "same_pins s t \<Longrightarrow> same_pins t u \<Longrightarrow> same_pins s u"
  by (simp add: same_pins_def)

definition pinned :: "'a bio_state_scheme \<Rightarrow> nat \<Rightarrow> bool" where
  "pinned s n \<longleftrightarrow> (\<exists>b\<in>dirty s. holds_block s b n)"

lemma same_pins_pinned: "same_pins s t \<Longrightarrow> pinned t = pinned s"
  by (intro ext) (simp add: same_pins_def pinned_def)

text \<open>
  \<open>log_geo s\<close>: the log lies on the disk and is not larger than \<open>LOGSIZE\<close>. \<open>logzone s\<close> is its blocks.
  \<open>tx_ok s\<close>: the header in memory lists, once each, the blocks of the dirty buffers.
\<close>

definition logzone :: "'a log_state_scheme \<Rightarrow> nat set" where
  "logzone s = {lg_start s..<lg_start s + nat (lg_size s)}"

definition log_geo :: "'a log_state_scheme \<Rightarrow> bool" where
  "log_geo s \<longleftrightarrow> lg_dev s = DISKDEV \<and> 0 < lg_size s \<and> lg_size s \<le> int LOGSIZE \<and>
     lg_start s + nat (lg_size s) \<le> disksize s"

definition tx_ok :: "'a log_state_scheme \<Rightarrow> bool" where
  "tx_ok s \<longleftrightarrow> cache_ok {} s \<and> log_geo s \<and> 0 \<le> lg_n s \<and> lg_n s < lg_size s \<and>
     distinct (map (lg_block s) [0..<nat (lg_n s)]) \<and>
     (\<forall>i<nat (lg_n s). lg_block s i < disksize s \<and> lg_block s i < 2 ^ 32 \<and> lg_block s i \<notin> logzone s) \<and>
     (\<forall>m. pinned s m \<longleftrightarrow> (\<exists>i<nat (lg_n s). m = lg_block s i))"

lemma tx_okD:
  assumes "tx_ok s"
  shows "cache_ok {} s" and "log_geo s" and "0 \<le> lg_n s" and "lg_n s < lg_size s"
    and "i < nat (lg_n s) \<Longrightarrow> lg_block s i < disksize s" and "i < nat (lg_n s) \<Longrightarrow> lg_block s i < 2 ^ 32"
    and "i < nat (lg_n s) \<Longrightarrow> lg_block s i \<notin> logzone s" and "i < nat (lg_n s) \<Longrightarrow> pinned s (lg_block s i)"
    and "pinned s m \<Longrightarrow> \<exists>i<nat (lg_n s). m = lg_block s i"
    and "distinct (map (lg_block s) [0..<nat (lg_n s)])"
  using assms unfolding tx_ok_def by blast+

lemma dirty_card:
  assumes ok: "cache_ok H s" and pins: "\<And>m. pinned s m \<Longrightarrow> \<exists>i<n. m = blk i"
  shows "card (dirty s) \<le> n"
proof -
  have hb: "holds_block s b (b_blockno (bufs s b))" if "b \<in> dirty s" for b
    using that cache_okD(13)[OF ok that] by (simp add: holds_block_def dirty_def)
  have "inj_on (\<lambda>b. b_blockno (bufs s b)) (dirty s)"
    using hb cache_okD(4)[OF ok] by (intro inj_onI) metis
  moreover have "(\<lambda>b. b_blockno (bufs s b)) ` dirty s \<subseteq> blk ` {0..<n}"
  proof
    fix m assume "m \<in> (\<lambda>b. b_blockno (bufs s b)) ` dirty s"
    then have "pinned s m" using hb by (auto simp: pinned_def)
    from pins[OF this] show "m \<in> blk ` {0..<n}" by auto
  qed
  ultimately have "card (dirty s) \<le> card (blk ` {0..<n})"
    by (intro card_inj_on_le[of "\<lambda>b. b_blockno (bufs s b)"]) auto
  also have "\<dots> \<le> n" using card_image_le[of "{0..<n}" blk] by simp
  finally show ?thesis .
qed

lemma tx_room: "tx_ok s \<Longrightarrow> card (dirty s) < NBUF"
  using dirty_card[of "{}" s "nat (lg_n s)" "lg_block s"] tx_okD(1,2,3,4,9)[of s]
  by (fastforce simp: log_geo_def LOGSIZE_def MAXOPBLOCKS_def NBUF_def)

subsection \<open>Copying one block\<close>

lemma two_breads:
  assumes ok: "cache_ok {} s" and m: "m < disksize s" "k < disksize s" "m \<noteq> k" and np: "\<not> pinned s m"
    and room: "card (dirty s) < NBUF" "pinned s k \<or> card (dirty s) + 1 < NBUF"
  obtains a s1 b s2 where "bread DISKDEV m s = Ok a s1" and "bio_frame s s1" and "bread DISKDEV k s1 = Ok b s2"
    and "cache_ok {a, b} s2" and "a \<noteq> b" and "holds_block s2 a m" and "holds_block s2 b k"
    and "a \<notin> dirty s2" and "pinned s k \<Longrightarrow> b \<in> dirty s2" and "\<And>n. view s2 n = view s n" and "same_pins s s2"
    and "disk s2 = disk s" and "dtrace s2 = dtrace s" and "bio_frame s s2"
proof -
  obtain a s1 where 1: "bread DISKDEV m s = Ok a s1" "cache_ok {a} s1" "holds_block s1 a m"
      "\<And>n. view s1 n = view s n" "dirty s1 = dirty s" "disk s1 = disk s" "dtrace s1 = dtrace s" "bio_frame s s1"
      "\<And>i n. i \<in> dirty s \<Longrightarrow> holds_block s1 i n = holds_block s i n"
    using bread_ok[OF ok m(1)] room(1) unfolding okpost_iff by auto
  have a: "a \<notin> dirty s1" using np 1(3,5,9) unfolding pinned_def by blast
  have ds: "k < disksize s1" using bio_frame_keeps(3)[OF 1(8)] m(2) by simp
  have na: "i \<notin> {a}" if "holds_block s1 i k" for i
    using that 1(3) m(3) by (auto simp: holds_block_def)
  have "(\<exists>i. holds_block s1 i k) \<or> card ({a} \<union> dirty s1) < NBUF"
  proof (cases "pinned s k")
    case True
    then show ?thesis using 1(9) by (auto simp: pinned_def)
  next
    case False
    have "finite (dirty s)" by (rule finite_subset[of _ "{..<NBUF}"]) (auto simp: dirty_def)
    then show ?thesis using False room(2) 1(5) a by simp
  qed
  then obtain b s2 where 2: "bread DISKDEV k s1 = Ok b s2" "cache_ok (insert b {a}) s2" "b \<notin> {a}"
      "holds_block s2 b k" "\<And>n. view s2 n = view s1 n" "dirty s2 = dirty s1" "disk s2 = disk s1"
      "dtrace s2 = dtrace s1" "bio_frame s1 s2"
      "\<And>i n. i \<in> {a} \<union> dirty s1 \<Longrightarrow> holds_block s2 i n = holds_block s1 i n"
    using bread_ok[OF 1(2) ds na] unfolding okpost_iff by blast
  have ins: "insert b {a} = {a, b}" by blast
  have pins: "same_pins s s2" using 1(5,9) 2(6,10) by (simp add: same_pins_def)
  have "b \<in> dirty s2" if "pinned s k"
    using that pins 2(4) cache_okD(4)[OF 2(2)] unfolding same_pins_def pinned_def by metis
  then show thesis
    using 1 2 a ins pins bio_frame_trans[OF 1(8) 2(9)] by (intro that[of a s1 b s2]) auto
qed

lemma copy_finish:
  assumes ok: "cache_ok {d, e} s" and ne: "d \<noteq> e" and hd: "holds_block s d m" and he: "holds_block s e k"
    and ce: "e \<in> dirty s \<or> view s k = cdisk s k"
  shows "okpost (bnd (bwrite d (copy_block d e s)) (\<lambda>_ s. bnd (brelse e s) (\<lambda>_ s. brelse d s))) (\<lambda>_ t.
    cache_ok {} t \<and> bio_frame s t \<and> holds_block t = holds_block s \<and> dirty t = dirty s - {d} \<and>
    (\<forall>n. view t n = (if n = m then view s k else view s n)) \<and> wrote s t [(m, view s k)])"
proof -
  let ?c = "copy (b_data (bufs s d)) 0 (b_data (bufs s e)) 0 BSIZE"
  have vk: "view s k = content (b_data (bufs s e))" by (rule view_eq[OF ok he]) (simp add: cache_okD(8)[OF ok])
  have mk: "m \<noteq> k" using cache_okD(4)[OF ok hd, of e] he ne by blast
  define s1 where "s1 = upd_buf d (\<lambda>x. x\<lparr>b_data := ?c\<rparr>) s"
  have cb: "copy_block d e s = s1" by (simp add: copy_block_def set_data_def s1_def)
  have dd: "d \<in> {d, e}" and de: "e \<in> {d, e}" by simp_all
  note 1 = set_buf_ok[OF ok dd hd s1_def]
  have hd1: "holds_block s1 d m" using 1(2) hd by simp
  obtain u s2 where 2: "bwrite d s1 = Ok u s2" "cache_ok {d, e} s2" "holds_block s2 = holds_block s1"
      "\<forall>n. view s2 n = view s1 n" "dirty s2 = dirty s1 - {d}"
      "disk s2 = disk_write m (b_data (bufs s1 d)) (disk s1)"
      "dtrace s2 = dtrace s1 @ [(m, b_data (bufs s1 d))]" "bio_frame s1 s2"
    using bwrite_ok[OF 1(1) dd hd1] unfolding okpost_iff by blast
  have data: "content (b_data (bufs s1 d)) = view s k" by (simp add: s1_def vk)
  have w: "wrote s s2 [(m, view s k)]"
    using 2(6,7) data by (intro wrote_one[where d = "b_data (bufs s1 d)"]) (simp_all add: s1_def)
  have he2: "holds_block s2 e k" using 2(3) 1(2) he by simp
  have ce2: "e \<in> dirty s2 \<or> view s2 k = content (disk s2 k)"
    using ce 2(4,5,6) 1(3,4) ne mk by (auto simp: content_disk_write cdisk_def s1_def)
  obtain u3 s3 where 3: "brelse e s2 = Ok u3 s3" "cache_ok ({d, e} - {e}) s3" "holds_block s3 = holds_block s2"
      "\<forall>n. view s3 n = view s2 n" "dirty s3 = dirty s2" "disk s3 = disk s2" "dtrace s3 = dtrace s2" "bio_frame s2 s3"
    using brelse_ok[OF 2(2) de he2 ce2] unfolding okpost_iff by blast
  have H: "{d, e} - {e} = {d}" using ne by auto
  have c3: "cache_ok {d} s3" using 3(2) unfolding H .
  have hd3: "holds_block s3 d m" using 3(3) 2(3) hd1 by simp
  have cd3: "d \<in> dirty s3 \<or> view s3 m = content (disk s3 m)"
    using 3(4,6) 2(4,6) 1(4)[of m] data by (simp add: content_disk_write s1_def)
  obtain u4 s4 where 4: "brelse d s3 = Ok u4 s4" "cache_ok ({d} - {d}) s4" "holds_block s4 = holds_block s3"
      "\<forall>n. view s4 n = view s3 n" "dirty s4 = dirty s3" "disk s4 = disk s3" "dtrace s4 = dtrace s3" "bio_frame s3 s4"
    using brelse_ok[OF c3 _ hd3 cd3] unfolding okpost_iff by blast
  have frame: "bio_frame s s4"
    using 1(5) 2(8) 3(8) 4(8) by (meson bio_frame_trans)
  have view: "view s4 n = (if n = m then view s k else view s n)" for n
    using 4(4) 3(4) 2(4) 1(4)[of n] vk by simp
  have dirty: "dirty s4 = dirty s - {d}" using 4(5) 3(5) 2(5) 1(3) by simp
  have hb: "holds_block s4 = holds_block s" using 4(3) 3(3) 2(3) 1(2) by simp
  have wr: "wrote s s4 [(m, view s k)]"
    using w 3(6,7) 4(6,7) by (intro wrote_same[OF _ _ w]) simp_all
  show ?thesis using 4(2) frame view dirty hb wr by (simp add: cb 2(1) 3(1) 4(1))
qed

text \<open>Moving a block between the log and its home, in both directions.\<close>

definition log_slot :: "'a log_state_scheme \<Rightarrow> nat \<Rightarrow> nat" where
  "log_slot s i = lg_start s + i + 1"

lemma write_log_one_ok:
  fixes s :: "'a log_state_scheme"
  assumes ok: "cache_ok {} s" and dev: "lg_dev s = DISKDEV" and room: "card (dirty s) < NBUF"
    and slot: "log_slot s i < disksize s" "\<not> pinned s (log_slot s i)"
    and home: "lg_block s i < disksize s" "pinned s (lg_block s i)"
  shows "okpost (write_log_one i s) (\<lambda>_ t. cache_ok {} t \<and> bio_frame s t \<and> same_pins s t \<and>
    (\<forall>n. view t n = (if n = log_slot s i then view s (lg_block s i) else view s n)) \<and>
    wrote s t [(log_slot s i, view s (lg_block s i))])"
proof -
  have ne: "log_slot s i \<noteq> lg_block s i" using slot(2) home(2) by metis
  obtain a s1 b s2 where r: "bread DISKDEV (log_slot s i) s = Ok a s1" "bio_frame s s1"
      "bread DISKDEV (lg_block s i) s1 = Ok b s2"
    and c: "cache_ok {a, b} s2" "a \<noteq> b" "holds_block s2 a (log_slot s i)" "holds_block s2 b (lg_block s i)"
      "a \<notin> dirty s2" "b \<in> dirty s2" "\<And>n. view s2 n = view s n" "same_pins s s2"
      "disk s2 = disk s" "dtrace s2 = dtrace s" "bio_frame s s2"
    using two_breads[OF ok slot(1) home(1) ne slot(2) room] home(2) by metis
  note f1 = bio_frame_log[OF r(2)]
  obtain u t where fin: "bnd (bwrite a (copy_block a b s2)) (\<lambda>_ s. bnd (brelse b s) (\<lambda>_ s. brelse a s)) = Ok u t"
    and t: "cache_ok {} t" "bio_frame s2 t" "holds_block t = holds_block s2" "dirty t = dirty s2 - {a}"
      "\<forall>n. view t n = (if n = log_slot s i then view s2 (lg_block s i) else view s2 n)"
      "wrote s2 t [(log_slot s i, view s2 (lg_block s i))]"
    using copy_finish[OF c(1,2,3,4)] c(6) unfolding okpost_iff by blast
  have "write_log_one i s = Ok u t"
    unfolding write_log_one_def using r fin f1 dev by (simp add: log_slot_def Let_def)
  moreover have "same_pins s t"
    using c(5,8) t(3,4) by (simp add: same_pins_def)
  moreover have "wrote s t [(log_slot s i, view s (lg_block s i))]"
    using wrote_trans[OF wrote_nil[OF c(9,10)] t(6)] c(7) by simp
  ultimately show ?thesis using t c(7) bio_frame_trans[OF c(11) t(2)] by simp
qed

lemma install_one_ok:
  fixes s :: "'a log_state_scheme"
  assumes ok: "cache_ok {} s" and dev: "lg_dev s = DISKDEV"
    and room: "card (dirty s) < NBUF" "pinned s (lg_block s i) \<or> card (dirty s) + 1 < NBUF"
    and slot: "log_slot s i < disksize s" "\<not> pinned s (log_slot s i)"
    and clean: "view s (log_slot s i) = cdisk s (log_slot s i)"
    and home: "lg_block s i < disksize s" "lg_block s i \<noteq> log_slot s i"
  shows "okpost (install_one i s) (\<lambda>_ t. cache_ok {} t \<and> bio_frame s t \<and> dirty t \<subseteq> dirty s \<and>
    (\<forall>n. pinned t n \<longleftrightarrow> pinned s n \<and> n \<noteq> lg_block s i) \<and>
    (\<forall>n. view t n = (if n = lg_block s i then view s (log_slot s i) else view s n)) \<and>
    wrote s t [(lg_block s i, view s (log_slot s i))])"
proof -
  obtain a s1 b s2 where r: "bread DISKDEV (log_slot s i) s = Ok a s1" "bio_frame s s1"
      "bread DISKDEV (lg_block s i) s1 = Ok b s2"
    and c: "cache_ok {a, b} s2" "a \<noteq> b" "holds_block s2 a (log_slot s i)" "holds_block s2 b (lg_block s i)"
      "a \<notin> dirty s2" "\<And>n. view s2 n = view s n" "same_pins s s2"
      "disk s2 = disk s" "dtrace s2 = dtrace s" "bio_frame s s2"
    using two_breads[OF ok slot(1) home(1) home(2)[symmetric] slot(2) room] by metis
  note f1 = bio_frame_log[OF r(2)]
  have ba: "cache_ok {b, a} s2" using c(1) by (simp add: insert_commute)
  have cl: "view s2 (log_slot s i) = cdisk s2 (log_slot s i)" using clean c(6,8) by (simp add: cdisk_def)
  obtain u t where fin: "bnd (bwrite b (copy_block b a s2)) (\<lambda>_ s. bnd (brelse a s) (\<lambda>_ s. brelse b s)) = Ok u t"
    and t: "cache_ok {} t" "bio_frame s2 t" "holds_block t = holds_block s2" "dirty t = dirty s2 - {b}"
      "\<forall>n. view t n = (if n = lg_block s i then view s2 (log_slot s i) else view s2 n)"
      "wrote s2 t [(lg_block s i, view s2 (log_slot s i))]"
    using copy_finish[OF ba c(2)[symmetric] c(4,3)] cl unfolding okpost_iff by blast
  have "install_one i s = Ok u t"
    unfolding install_one_def using r fin f1 dev by (simp add: log_slot_def Let_def)
  moreover have "pinned t n \<longleftrightarrow> pinned s n \<and> n \<noteq> lg_block s i" for n
  proof -
    have "pinned t n \<longleftrightarrow> (\<exists>i\<in>dirty s2 - {b}. holds_block s2 i n)" using t(3,4) by (simp add: pinned_def)
    also have "\<dots> \<longleftrightarrow> pinned s2 n \<and> n \<noteq> lg_block s i"
      using c(4) cache_okD(4)[OF c(1) c(4)] unfolding pinned_def holds_block_def by blast
    finally show ?thesis using same_pins_pinned[OF c(7)] by simp
  qed
  moreover have "dirty t \<subseteq> dirty s" using c(7) t(4) by (auto simp: same_pins_def)
  moreover have "wrote s t [(lg_block s i, view s (log_slot s i))]"
    using wrote_trans[OF wrote_nil[OF c(8,9)] t(6)] c(6) by simp
  ultimately show ?thesis using t c(6) bio_frame_trans[OF c(10) t(2)] by simp
qed

lemma write_head_ok:
  fixes s :: "'a log_state_scheme"
  assumes ok: "cache_ok {} s" and dev: "lg_dev s = DISKDEV" and room: "card (dirty s) < NBUF"
    and head: "lg_start s < disksize s" "\<not> pinned s (lg_start s)"
    and n: "0 \<le> lg_n s" "lg_n s \<le> int LOGSIZE" "\<forall>i<nat (lg_n s). lg_block s i < 2 ^ 32"
  shows "okpost (write_head s) (\<lambda>_ t. cache_ok {} t \<and> bio_frame s t \<and> same_pins s t \<and>
    (\<exists>c. head_n c = lg_n s \<and> (\<forall>i<nat (lg_n s). head_block c i = lg_block s i) \<and>
      (\<forall>m. view t m = (if m = lg_start s then c else view s m)) \<and> wrote s t [(lg_start s, c)]))"
proof -
  obtain b s1 where 1: "bread DISKDEV (lg_start s) s = Ok b s1" "cache_ok {b} s1" "holds_block s1 b (lg_start s)"
      "\<And>n. view s1 n = view s n" "dirty s1 = dirty s" "disk s1 = disk s" "dtrace s1 = dtrace s" "bio_frame s s1"
      "\<And>i n. i \<in> dirty s \<Longrightarrow> holds_block s1 i n = holds_block s i n"
    using bread_ok[OF ok head(1)] room unfolding okpost_iff by auto
  have nb: "b \<notin> dirty s1" using head(2) 1(3,5,9) unfolding pinned_def by blast
  note f1 = bio_frame_log[OF 1(8)]
  let ?h = "put_head (lg_n s) (lg_block s) (b_data (bufs s1 b))"
  define s2 where "s2 = upd_buf b (\<lambda>x. x\<lparr>b_data := ?h\<rparr>) s1"
  have bb: "b \<in> {b}" by simp
  note 2 = set_buf_ok[OF 1(2) bb 1(3) s2_def]
  have h2: "holds_block s2 b (lg_start s)" using 2(2) 1(3) by simp
  obtain u s3 where 3: "bwrite b s2 = Ok u s3" "cache_ok {b} s3" "holds_block s3 = holds_block s2"
      "\<forall>n. view s3 n = view s2 n" "dirty s3 = dirty s2 - {b}"
      "disk s3 = disk_write (lg_start s) (b_data (bufs s2 b)) (disk s2)"
      "dtrace s3 = dtrace s2 @ [(lg_start s, b_data (bufs s2 b))]" "bio_frame s2 s3"
    using bwrite_ok[OF 2(1) bb h2] unfolding okpost_iff by blast
  have h3: "holds_block s3 b (lg_start s)" using 3(3) h2 by simp
  have c3: "b \<in> dirty s3 \<or> view s3 (lg_start s) = content (disk s3 (lg_start s))"
    using 3(4,6) 2(4)[of "lg_start s"] by (simp add: content_disk_write s2_def)
  obtain u4 s4 where 4: "brelse b s3 = Ok u4 s4" "cache_ok ({b} - {b}) s4" "holds_block s4 = holds_block s3"
      "\<forall>n. view s4 n = view s3 n" "dirty s4 = dirty s3" "disk s4 = disk s3" "dtrace s4 = dtrace s3" "bio_frame s3 s4"
    using brelse_ok[OF 3(2) bb h3 c3] unfolding okpost_iff by blast
  have "write_head s = Ok u4 s4"
    unfolding write_head_def using 1(1) 3(1) 4(1) f1 dev by (simp add: set_data_def s2_def Let_def)
  moreover have "bio_frame s s4" using 1(8) 2(5) 3(8) 4(8) by (meson bio_frame_trans)
  moreover have "same_pins s s4"
    using 1(5,9) 2(2,3) 3(3,5) 4(3,5) nb by (simp add: same_pins_def)
  moreover have "wrote s s4 [(lg_start s, content ?h)]"
    using 3(6,7) 4(6,7) 1(6,7) by (intro wrote_one[where d = "b_data (bufs s2 b)"]) (simp_all add: s2_def)
  moreover have "view s4 m = (if m = lg_start s then content ?h else view s m)" for m
    using 4(4) 3(4) 2(4)[of m] 1(4) by simp
  ultimately show ?thesis using 4(2) head_of_put[OF n, where d = "b_data (bufs s1 b)"] by auto
qed

subsection \<open>The loops of commit\<close>

lemma tx_slots:
  assumes "tx_ok s" and "i < nat (lg_n s)"
  shows "log_slot s i \<in> logzone s" and "log_slot s i < disksize s" and "\<not> pinned s (log_slot s i)"
proof -
  show z: "log_slot s i \<in> logzone s"
    using assms(2) tx_okD(3,4)[OF assms(1)] by (auto simp: logzone_def log_slot_def)
  then show "log_slot s i < disksize s" using tx_okD(2)[OF assms(1)] by (auto simp: logzone_def log_geo_def)
  show "\<not> pinned s (log_slot s i)" using z tx_okD(7,9)[OF assms(1)] by metis
qed

lemma tx_head:
  assumes "tx_ok s"
  shows "lg_start s \<in> logzone s" and "lg_start s < disksize s" and "\<not> pinned s (lg_start s)"
    and "lg_dev s = DISKDEV" and "lg_n s \<le> int LOGSIZE"
proof -
  show z: "lg_start s \<in> logzone s" using tx_okD(2)[OF assms] by (simp add: logzone_def log_geo_def)
  then show "lg_start s < disksize s" using tx_okD(2)[OF assms] by (auto simp: logzone_def log_geo_def)
  show "\<not> pinned s (lg_start s)" using z tx_okD(7,9)[OF assms] by metis
  show "lg_dev s = DISKDEV" "lg_n s \<le> int LOGSIZE" using tx_okD(2,4)[OF assms] by (simp_all add: log_geo_def)
qed

lemma log_slot_inj [simp]: "log_slot s i = log_slot s j \<longleftrightarrow> i = j"
  by (simp add: log_slot_def)

lemma bio_frame_slot: "bio_frame s t \<Longrightarrow> log_slot t = log_slot s"
  by (intro ext) (simp add: log_slot_def bio_frame_log)

lemma write_log_ok:
  assumes tx: "tx_ok s" and "k \<le> nat (lg_n s)"
  shows "okpost (for_each write_log_one [0..<k] s) (\<lambda>_ t. cache_ok {} t \<and> bio_frame s t \<and> same_pins s t \<and>
    (\<forall>i<k. view t (log_slot s i) = view s (lg_block s i)) \<and>
    (\<forall>m. (\<forall>i<k. m \<noteq> log_slot s i) \<longrightarrow> view t m = view s m) \<and>
    wrote s t (map (\<lambda>i. (log_slot s i, view s (lg_block s i))) [0..<k]))"
  using assms(2)
proof (induction k)
  case 0
  then show ?case using tx_okD(1)[OF tx] by (simp add: same_pins_def)
next
  case (Suc k)
  then have k: "k < nat (lg_n s)" by simp
  from Suc obtain t where run: "for_each write_log_one [0..<k] s = Ok () t"
    and t: "cache_ok {} t" "bio_frame s t" "same_pins s t" "\<forall>i<k. view t (log_slot s i) = view s (lg_block s i)"
      "\<forall>m. (\<forall>i<k. m \<noteq> log_slot s i) \<longrightarrow> view t m = view s m"
      "wrote s t (map (\<lambda>i. (log_slot s i, view s (lg_block s i))) [0..<k])"
    unfolding okpost_iff by auto
  note f = bio_frame_log[OF t(2)] bio_frame_slot[OF t(2)] bio_frame_keeps(3)[OF t(2)] same_pins_pinned[OF t(3)]
  have d: "dirty t = dirty s" using t(3) by (simp add: same_pins_def)
  obtain u where step: "write_log_one k t = Ok () u"
    and u: "cache_ok {} u" "bio_frame t u" "same_pins t u"
      "\<forall>n. view u n = (if n = log_slot s k then view t (lg_block s k) else view t n)"
      "wrote t u [(log_slot s k, view t (lg_block s k))]"
    using write_log_one_ok[OF t(1), of k] tx_head(4)[OF tx] tx_room[OF tx] tx_slots[OF tx k]
      tx_okD(5,8)[OF tx k] unfolding okpost_iff f d by auto
  have home: "view t (lg_block s k) = view s (lg_block s k)"
    using t(5) tx_okD(7)[OF tx k] tx_slots(1)[OF tx] k by (metis less_trans)
  have "for_each write_log_one [0..<Suc k] s = Ok () u" using run step by (simp add: for_each_append)
  moreover have "wrote s u (map (\<lambda>i. (log_slot s i, view s (lg_block s i))) [0..<Suc k])"
    using wrote_trans[OF t(6) u(5)] home by simp
  moreover have "\<forall>i<Suc k. view u (log_slot s i) = view s (lg_block s i)"
    using u(4) t(4) home by (simp add: less_Suc_eq)
  moreover have "\<forall>m. (\<forall>i<Suc k. m \<noteq> log_slot s i) \<longrightarrow> view u m = view s m" using u(4) t(5) by simp
  ultimately show ?case
    using u(1) bio_frame_trans[OF t(2) u(2)] same_pins_trans[OF t(3) u(3)] by simp
qed

text \<open>
  Installing, at commit and at recovery: the slots of the log agree with the disk, and there is room
  for the buffers of the home blocks.
\<close>

lemma install_ok:
  assumes ok: "cache_ok {} s" and dev: "lg_dev s = DISKDEV" and room: "card (dirty s) < NBUF"
      "\<And>i. i < nat (lg_n s) \<Longrightarrow> pinned s (lg_block s i) \<or> card (dirty s) + 1 < NBUF"
    and slot: "\<And>i. i < nat (lg_n s) \<Longrightarrow> log_slot s i < disksize s"
      "\<And>i. i < nat (lg_n s) \<Longrightarrow> \<not> pinned s (log_slot s i)"
      "\<And>i. i < nat (lg_n s) \<Longrightarrow> view s (log_slot s i) = cdisk s (log_slot s i)"
    and home: "\<And>i. i < nat (lg_n s) \<Longrightarrow> lg_block s i < disksize s"
      "\<And>i j. i < nat (lg_n s) \<Longrightarrow> j < nat (lg_n s) \<Longrightarrow> lg_block s i \<noteq> log_slot s j"
    and k: "k \<le> nat (lg_n s)" and dist: "distinct (map (lg_block s) [0..<nat (lg_n s)])"
  shows "okpost (for_each install_one [0..<k] s) (\<lambda>_ t. cache_ok {} t \<and> bio_frame s t \<and> dirty t \<subseteq> dirty s \<and>
    (\<forall>m. pinned t m \<longleftrightarrow> pinned s m \<and> (\<forall>i<k. m \<noteq> lg_block s i)) \<and>
    (\<forall>i<k. view t (lg_block s i) = view s (log_slot s i)) \<and>
    (\<forall>m. (\<forall>i<k. m \<noteq> lg_block s i) \<longrightarrow> view t m = view s m) \<and>
    wrote s t (map (\<lambda>i. (lg_block s i, view s (log_slot s i))) [0..<k]))"
  using k
proof (induction k)
  case 0
  then show ?case using ok by simp
next
  case (Suc k)
  then have k: "k < nat (lg_n s)" by simp
  from Suc obtain t where run: "for_each install_one [0..<k] s = Ok () t"
    and t: "cache_ok {} t" "bio_frame s t" "dirty t \<subseteq> dirty s"
      "\<forall>m. pinned t m \<longleftrightarrow> pinned s m \<and> (\<forall>i<k. m \<noteq> lg_block s i)"
      "\<forall>i<k. view t (lg_block s i) = view s (log_slot s i)"
      "\<forall>m. (\<forall>i<k. m \<noteq> lg_block s i) \<longrightarrow> view t m = view s m"
      "wrote s t (map (\<lambda>i. (lg_block s i, view s (log_slot s i))) [0..<k])"
    unfolding okpost_iff by auto
  note f = bio_frame_log[OF t(2)] bio_frame_slot[OF t(2)] bio_frame_keeps(3)[OF t(2)]
  have fin: "finite (dirty s)" by (rule finite_subset[of _ "{..<NBUF}"]) (auto simp: dirty_def)
  have card: "card (dirty t) \<le> card (dirty s)" using t(3) fin by (rule card_mono[rotated])
  have new: "\<forall>i<k. lg_block s k \<noteq> lg_block s i"
    using dist k unfolding distinct_map by (auto dest!: inj_onD[of _ _ k])
  have v: "view t (log_slot s k) = view s (log_slot s k)" using t(6) home(2) k by (metis less_trans)
  have c: "view t (log_slot s k) = cdisk t (log_slot s k)"
  proof -
    have ne: "log_slot s k \<noteq> lg_block s i" if "i < k" for i
      using home(2)[OF less_trans[OF that k] k] by simp
    have "log_slot s k \<notin> fst ` set (map (\<lambda>i. (lg_block s i, view s (log_slot s i))) [0..<k])"
    proof
      assume "log_slot s k \<in> fst ` set (map (\<lambda>i. (lg_block s i, view s (log_slot s i))) [0..<k])"
      then obtain i where "i < k" "log_slot s k = lg_block s i" by auto
      then show False using ne by blast
    qed
    then have "cdisk t (log_slot s k) = cdisk s (log_slot s k)"
      using t(7) unfolding wrote_def by (simp add: creplay_other)
    then show ?thesis using v slot(3)[OF k] by simp
  qed
  obtain u where step: "install_one k t = Ok () u"
    and u: "cache_ok {} u" "bio_frame t u" "dirty u \<subseteq> dirty t"
      "\<forall>n. pinned u n \<longleftrightarrow> pinned t n \<and> n \<noteq> lg_block s k"
      "\<forall>n. view u n = (if n = lg_block s k then view t (log_slot s k) else view t n)"
      "wrote t u [(lg_block s k, view t (log_slot s k))]"
    using install_one_ok[OF t(1), of k] dev card room(1) room(2)[OF k] slot(1,2)[OF k] c home(1)[OF k]
      home(2)[OF k k] t(4) new unfolding okpost_iff f by auto
  have "for_each install_one [0..<Suc k] s = Ok () u" using run step by (simp add: for_each_append)
  moreover have "wrote s u (map (\<lambda>i. (lg_block s i, view s (log_slot s i))) [0..<Suc k])"
    using wrote_trans[OF t(7) u(6)] v by simp
  moreover have "\<forall>i<Suc k. view u (lg_block s i) = view s (log_slot s i)"
    using u(5) t(5) v new by (metis less_Suc_eq)
  moreover have "\<forall>m. (\<forall>i<Suc k. m \<noteq> lg_block s i) \<longrightarrow> view u m = view s m" using u(5) t(6) by simp
  moreover have "\<forall>m. pinned u m \<longleftrightarrow> pinned s m \<and> (\<forall>i<Suc k. m \<noteq> lg_block s i)"
    using u(4) t(4) by (auto simp: less_Suc_eq)
  ultimately show ?case
    using u(1,3) t(3) bio_frame_trans[OF t(2) u(2)] by auto
qed

lemma cache_clean: "cache_ok {} s \<Longrightarrow> dirty s = {} \<Longrightarrow> view s m = cdisk s m"
  using view_clean[of "{}" s _ m] view_uncached[of s m] unfolding cdisk_def by blast

lemma view_unpinned:
  assumes ok: "cache_ok {} s" and "\<not> pinned s m"
  shows "view s m = cdisk s m"
proof (cases "\<exists>b. holds_block s b m")
  case True
  then obtain b where "holds_block s b m" ..
  with assms show ?thesis using view_clean[OF ok, of b m] by (auto simp: pinned_def cdisk_def)
next
  case False
  then show ?thesis using view_uncached[of s m] by (simp add: cdisk_def)
qed

text \<open>The fields of the log in memory play no role for the cache.\<close>

lemma bio_cong:
  assumes "bufs t = bufs s" and "disk t = disk s" and "dtrace t = dtrace s" and "slocks t = slocks s"
    and "ptable t = ptable s" and "curproc t = curproc s" and "held t = held s" and "disksize t = disksize s"
  shows "holds_block t = holds_block s" and "dirty t = dirty s" and "cache_ok H t = cache_ok H s"
    and "view t = view s" and "pinned t = pinned s" and "cdisk t = cdisk s"
proof -
  show hb: "holds_block t = holds_block s" by (intro ext) (simp add: holds_block_def assms)
  show d: "dirty t = dirty s" by (simp add: dirty_def assms)
  show "cache_ok H t = cache_ok H s"
    unfolding cache_ok_def hb d idle_locks_def ring_ok_def owns_slock_def mypid_def by (simp only: assms)
  show "view t = view s" by (intro ext) (simp only: view_def hb assms)
  show "pinned t = pinned s" "cdisk t = cdisk s"
    by (simp_all only: pinned_def[abs_def] cdisk_def[abs_def] hb d assms)
qed

lemma set_n_keeps [simp]:
  "cache_ok H (s\<lparr>lg_n := k\<rparr>) = cache_ok H s" "view (s\<lparr>lg_n := k\<rparr>) = view s" "dirty (s\<lparr>lg_n := k\<rparr>) = dirty s"
  "pinned (s\<lparr>lg_n := k\<rparr>) = pinned s" "cdisk (s\<lparr>lg_n := k\<rparr>) = cdisk s" "holds_block (s\<lparr>lg_n := k\<rparr>) = holds_block s"
  by (rule bio_cong; simp)+

lemma set_block_keeps [simp]:
  "cache_ok H (s\<lparr>lg_block := f\<rparr>) = cache_ok H s" "view (s\<lparr>lg_block := f\<rparr>) = view s"
  "dirty (s\<lparr>lg_block := f\<rparr>) = dirty s" "pinned (s\<lparr>lg_block := f\<rparr>) = pinned s"
  "cdisk (s\<lparr>lg_block := f\<rparr>) = cdisk s" "holds_block (s\<lparr>lg_block := f\<rparr>) = holds_block s"
  by (rule bio_cong; simp)+

lemma wrote_set_n: "wrote (s\<lparr>lg_n := k\<rparr>) t w = wrote s t w"
  by (simp add: wrote_def)

subsection \<open>commit\<close>

text \<open>The writes of a commit, in order; \<open>c\<close> and \<open>c0\<close> are the two header blocks.\<close>

definition log_writes :: "'a log_state_scheme \<Rightarrow> (nat \<times> u8 list) list" where
  "log_writes s = map (\<lambda>i. (log_slot s i, view s (lg_block s i))) [0..<nat (lg_n s)]"

definition home_writes :: "'a log_state_scheme \<Rightarrow> (nat \<times> u8 list) list" where
  "home_writes s = map (\<lambda>i. (lg_block s i, view s (lg_block s i))) [0..<nat (lg_n s)]"

definition commit_writes :: "u8 list \<Rightarrow> u8 list \<Rightarrow> 'a log_state_scheme \<Rightarrow> (nat \<times> u8 list) list" where
  "commit_writes c c0 s = log_writes s @ [(lg_start s, c)] @ home_writes s @ [(lg_start s, c0)]"

definition head_for :: "'a log_state_scheme \<Rightarrow> u8 list \<Rightarrow> bool" where
  "head_for s c \<longleftrightarrow> head_n c = lg_n s \<and> (\<forall>i<nat (lg_n s). head_block c i = lg_block s i)"

lemma log_writes_slot:
  assumes "wrote s t (log_writes s)" and "i < nat (lg_n s)"
  shows "cdisk t (log_slot s i) = view s (lg_block s i)"
proof -
  have "distinct (map fst (log_writes s))"
    by (simp add: log_writes_def comp_def distinct_map inj_on_def)
  then have "creplay (log_writes s) (cdisk s) (log_slot s i) = view s (lg_block s i)"
    using assms(2) by (intro creplay_distinct) (auto simp: log_writes_def)
  then show ?thesis using assms(1) by (simp add: wrote_def)
qed

lemma commit_logged:
  assumes tx: "tx_ok s"
  obtains t c where "bnd (write_log s) (\<lambda>_ s. write_head s) = Ok () t" and "cache_ok {} t" and "bio_frame s t"
    and "same_pins s t" and "head_for s c" and "wrote s t (log_writes s @ [(lg_start s, c)])"
    and "\<And>m. m \<notin> logzone s \<Longrightarrow> view t m = view s m"
    and "\<And>i. i < nat (lg_n s) \<Longrightarrow> view t (log_slot s i) = view s (lg_block s i)"
    and "\<And>i. i < nat (lg_n s) \<Longrightarrow> cdisk t (log_slot s i) = view s (lg_block s i)"
proof -
  obtain s1 where 1: "write_log s = Ok () s1" "cache_ok {} s1" "bio_frame s s1" "same_pins s s1"
      "\<forall>i<nat (lg_n s). view s1 (log_slot s i) = view s (lg_block s i)"
      "\<forall>m. (\<forall>i<nat (lg_n s). m \<noteq> log_slot s i) \<longrightarrow> view s1 m = view s m"
      "wrote s s1 (log_writes s)"
    using write_log_ok[OF tx order_refl] unfolding okpost_iff write_log_def log_writes_def by auto
  note f = bio_frame_log[OF 1(3)] bio_frame_keeps(3)[OF 1(3)] same_pins_pinned[OF 1(4)]
  have d: "dirty s1 = dirty s" using 1(4) by (simp add: same_pins_def)
  obtain t c where 2: "write_head s1 = Ok () t" "cache_ok {} t" "bio_frame s1 t" "same_pins s1 t"
      "head_n c = lg_n s" "\<forall>i<nat (lg_n s). head_block c i = lg_block s i"
      "\<forall>m. view t m = (if m = lg_start s then c else view s1 m)" "wrote s1 t [(lg_start s, c)]"
    using write_head_ok[OF 1(2)] tx_head(2-5)[OF tx] tx_room[OF tx] tx_okD(3,6)[OF tx]
    unfolding okpost_iff f d by auto
  have slot: "log_slot s i \<noteq> lg_start s" for i by (simp add: log_slot_def)
  show thesis
  proof (rule that[of t c])
    show "bnd (write_log s) (\<lambda>_. write_head) = Ok () t" using 1(1) 2(1) by simp
    show "cache_ok {} t" "bio_frame s t" "same_pins s t" "head_for s c"
      using 2 bio_frame_trans[OF 1(3) 2(3)] same_pins_trans[OF 1(4) 2(4)] by (simp_all add: head_for_def)
    show "wrote s t (log_writes s @ [(lg_start s, c)])" by (rule wrote_trans[OF 1(7) 2(8)])
    fix m assume "m \<notin> logzone s"
    then show "view t m = view s m" using 2(7) 1(6) tx_head(1)[OF tx] tx_slots(1)[OF tx] by metis
  next
    fix i assume i: "i < nat (lg_n s)"
    show "view t (log_slot s i) = view s (lg_block s i)" using 2(7) 1(5) i slot by simp
    have "cdisk t (log_slot s i) = cdisk s1 (log_slot s i)" using 2(8) slot by (simp add: wrote_def)
    then show "cdisk t (log_slot s i) = view s (lg_block s i)" using log_writes_slot[OF 1(7) i] by simp
  qed
qed

lemma commit_ok:
  assumes tx: "tx_ok s" and pos: "0 < lg_n s"
  obtains t c c0 where "commit s = Ok () t" and "cache_ok {} t" and "dirty t = {}" and "lg_n t = 0"
    and "head_for s c" and "head_n c0 = 0" and "wrote s t (commit_writes c c0 s)"
    and "\<And>m. m \<notin> logzone s \<Longrightarrow> view t m = view s m"
    and "lg_start t = lg_start s" and "lg_size t = lg_size s" and "lg_dev t = lg_dev s" and "disksize t = disksize s"
proof -
  obtain s2 c where 2: "bnd (write_log s) (\<lambda>_ s. write_head s) = Ok () s2" "cache_ok {} s2" "bio_frame s s2"
      "same_pins s s2" "head_for s c" "wrote s s2 (log_writes s @ [(lg_start s, c)])"
      "\<And>m. m \<notin> logzone s \<Longrightarrow> view s2 m = view s m"
      "\<And>i. i < nat (lg_n s) \<Longrightarrow> view s2 (log_slot s i) = view s (lg_block s i)"
      "\<And>i. i < nat (lg_n s) \<Longrightarrow> cdisk s2 (log_slot s i) = view s (lg_block s i)"
    using commit_logged[OF tx] by blast
  note f = bio_frame_log[OF 2(3)] bio_frame_slot[OF 2(3)] bio_frame_keeps(3)[OF 2(3)] same_pins_pinned[OF 2(4)]
  have d: "dirty s2 = dirty s" using 2(4) by (simp add: same_pins_def)
  have bs: "lg_block s i \<noteq> log_slot s j" if "i < nat (lg_n s)" "j < nat (lg_n s)" for i j
    using tx_okD(7)[OF tx that(1)] tx_slots(1)[OF tx that(2)] by metis
  have "okpost (for_each install_one [0..<nat (lg_n s2)] s2) (\<lambda>_ t. cache_ok {} t \<and> bio_frame s2 t \<and> dirty t \<subseteq> dirty s2 \<and>
    (\<forall>m. pinned t m \<longleftrightarrow> pinned s2 m \<and> (\<forall>i<nat (lg_n s2). m \<noteq> lg_block s2 i)) \<and>
    (\<forall>i<nat (lg_n s2). view t (lg_block s2 i) = view s2 (log_slot s2 i)) \<and>
    (\<forall>m. (\<forall>i<nat (lg_n s2). m \<noteq> lg_block s2 i) \<longrightarrow> view t m = view s2 m) \<and>
    wrote s2 t (map (\<lambda>i. (lg_block s2 i, view s2 (log_slot s2 i))) [0..<nat (lg_n s2)]))"
    using 2(2) tx_head(4)[OF tx] tx_room[OF tx] tx_okD(5,8,10)[OF tx] tx_slots(2,3)[OF tx] 2(8,9) bs
    by (intro install_ok) (simp_all add: f d)
  then obtain s3 where 3: "install_trans s2 = Ok () s3" "cache_ok {} s3" "bio_frame s2 s3" "dirty s3 \<subseteq> dirty s"
      "\<forall>m. pinned s3 m \<longleftrightarrow> pinned s m \<and> (\<forall>i<nat (lg_n s). m \<noteq> lg_block s i)"
      "\<forall>i<nat (lg_n s). view s3 (lg_block s i) = view s2 (log_slot s i)"
      "\<forall>m. (\<forall>i<nat (lg_n s). m \<noteq> lg_block s i) \<longrightarrow> view s3 m = view s2 m"
      "wrote s2 s3 (map (\<lambda>i. (lg_block s i, view s2 (log_slot s i))) [0..<nat (lg_n s)])"
    unfolding okpost_iff install_trans_def f d by auto
  have np: "\<not> pinned s3 m" for m using 3(5) tx_okD(9)[OF tx] by blast
  have d3: "dirty s3 = {}"
  proof (rule equals0I)
    fix b assume "b \<in> dirty s3"
    then have "holds_block s3 b (b_blockno (bufs s3 b))"
      using cache_okD(13)[OF 3(2)] by (simp add: holds_block_def dirty_def)
    with np \<open>b \<in> dirty s3\<close> show False unfolding pinned_def by blast
  qed
  have hw: "map (\<lambda>i. (lg_block s i, view s2 (log_slot s i))) [0..<nat (lg_n s)] = home_writes s"
    unfolding home_writes_def using 2(8) by simp
  note g = bio_frame_log[OF 3(3), unfolded f] bio_frame_keeps(3)[OF 3(3), unfolded f]
  let ?s3 = "s3\<lparr>lg_n := 0\<rparr>"
  obtain t c0 where 4: "write_head ?s3 = Ok () t" "cache_ok {} t" "bio_frame ?s3 t" "same_pins ?s3 t"
      "head_n c0 = 0" "\<forall>m. view t m = (if m = lg_start s then c0 else view s3 m)" "wrote ?s3 t [(lg_start s, c0)]"
    using write_head_ok[of ?s3] 3(2) tx_head(2,4)[OF tx] d3 np unfolding okpost_iff
    by (auto simp: g NBUF_def)
  have w: "wrote s t (commit_writes c c0 s)"
    using wrote_trans[OF 2(6) wrote_trans[OF 3(8)[unfolded hw] 4(7)[unfolded wrote_set_n]]]
    by (simp add: commit_writes_def)
  have v: "view t m = view s m" if m: "m \<notin> logzone s" for m
  proof -
    have "m \<noteq> lg_start s" using m tx_head(1)[OF tx] by blast
    then have "view t m = view s3 m" using 4(6) by simp
    also have "\<dots> = view s m"
      using 3(6,7) 2(7,8) m by (cases "\<exists>i<nat (lg_n s). m = lg_block s i") auto
    finally show ?thesis .
  qed
  have "commit s = bnd (bnd (write_log s) (\<lambda>_ s. write_head s)) (\<lambda>_ s. bnd (install_trans s) (\<lambda>_ s. write_head (s\<lparr>lg_n := 0\<rparr>)))"
    using pos by (simp add: commit_def bnd_assoc)
  then have "commit s = Ok () t" using 2(1) 3(1) 4(1) by simp
  then show thesis
    using 2(5) 4(2,4,5) d3 w v bio_frame_log[OF 4(3)] bio_frame_keeps(3)[OF 4(3)] g
    by (intro that[of t c c0]) (simp_all add: same_pins_def)
qed

subsection \<open>Recovery\<close>

lemma read_head_ok:
  fixes r :: "'a log_state_scheme"
  assumes ok: "cache_ok {} r" and d: "dirty r = {}" and dev: "lg_dev r = DISKDEV" and L: "lg_start r < disksize r"
    and n: "head_n (cdisk r (lg_start r)) \<le> int LOGSIZE"
  obtains t where "read_head r = Ok () t" and "cache_ok {} t" and "dirty t = {}" and "cdisk t = cdisk r"
    and "lg_n t = head_n (cdisk r (lg_start r))"
    and "\<And>i. i < nat (lg_n t) \<Longrightarrow> lg_block t i = head_block (cdisk r (lg_start r)) i"
    and "lg_start t = lg_start r" and "lg_dev t = lg_dev r" and "disksize t = disksize r"
proof -
  obtain b s1 where 1: "bread DISKDEV (lg_start r) r = Ok b s1" "cache_ok {b} s1" "holds_block s1 b (lg_start r)"
      "content (b_data (bufs s1 b)) = view r (lg_start r)" "\<And>n. view s1 n = view r n" "dirty s1 = dirty r"
      "disk s1 = disk r" "bio_frame r s1"
    using bread_ok[OF ok L] d unfolding okpost_iff by (auto simp: NBUF_def)
  note f = bio_frame_log[OF 1(8)]
  let ?c = "cdisk r (lg_start r)" and ?d = "b_data (bufs s1 b)"
  have c: "content ?d = ?c" using 1(4) cache_clean[OF ok d] by simp
  have hn: "sint (get32 ?d 0) = head_n ?c"
    using BSIZE_log get32_content[of 0 ?d] by (simp add: head_n_def c[symmetric])
  have hb: "unat (get32 ?d (4 + 4 * i)) = head_block ?c i" if "int i < head_n ?c" for i
  proof -
    have "4 + 4 * i + 4 \<le> BSIZE" using that n BSIZE_log by linarith
    then show ?thesis using get32_content[of "4 + 4 * i" ?d] by (simp add: head_block_def c[symmetric])
  qed
  let ?s2 = "s1\<lparr>lg_n := sint (get32 ?d 0), lg_block := (\<lambda>i. if int i < sint (get32 ?d 0) then unat (get32 ?d (4 + 4 * i)) else lg_block s1 i)\<rparr>"
  have h2: "holds_block ?s2 b (lg_start r)" "cache_ok {b} ?s2" using 1(2,3) by simp_all
  have cl: "b \<in> dirty ?s2 \<or> view ?s2 (lg_start r) = content (disk ?s2 (lg_start r))"
    using 1(5,7) cache_clean[OF ok d] by (simp add: cdisk_def)
  obtain u t where 3: "brelse b ?s2 = Ok u t" "cache_ok ({b} - {b}) t" "dirty t = dirty ?s2" "disk t = disk ?s2"
      "bio_frame ?s2 t"
    using brelse_ok[OF h2(2) _ h2(1) cl] unfolding okpost_iff by blast
  note g = bio_frame_log[OF 3(5)] bio_frame_keeps(3)[OF 3(5)]
  show thesis
  proof (rule that[of t])
    show "read_head r = Ok () t" using 1(1) 3(1) hn n by (simp add: read_head_def dev Let_def)
    show "cache_ok {} t" "dirty t = {}" using 3(2,3) 1(6) d by simp_all
    show "cdisk t = cdisk r" using 3(4) 1(7) by (simp add: cdisk_def[abs_def])
    show "lg_n t = head_n ?c" using g hn by simp
    then show "\<And>i. i < nat (lg_n t) \<Longrightarrow> lg_block t i = head_block ?c i"
      using g hn hb by (simp add: zless_nat_eq_int_zless)
    show "lg_start t = lg_start r" "lg_dev t = lg_dev r" "disksize t = disksize r"
      using g f bio_frame_keeps(3)[OF 1(8)] by simp_all
  qed
qed

text \<open>
  \<open>rec_ok r\<close>: at boot nothing is dirty in the cache, and the header on the disk names at most \<open>LOGSIZE\<close>
  distinct blocks outside the log. \<open>rec_writes r\<close> is what recovery copies.
\<close>

definition rec_head :: "'a log_state_scheme \<Rightarrow> u8 list" where
  "rec_head r = cdisk r (lg_start r)"

definition rec_ok :: "'a log_state_scheme \<Rightarrow> bool" where
  "rec_ok r \<longleftrightarrow> cache_ok {} r \<and> dirty r = {} \<and> lg_dev r = DISKDEV \<and> lg_start r < disksize r \<and>
     0 \<le> head_n (rec_head r) \<and> head_n (rec_head r) \<le> int LOGSIZE \<and>
     distinct (map (head_block (rec_head r)) [0..<nat (head_n (rec_head r))]) \<and>
     (\<forall>i<nat (head_n (rec_head r)). log_slot r i < disksize r \<and> head_block (rec_head r) i < disksize r \<and>
        head_block (rec_head r) i \<noteq> lg_start r \<and>
        (\<forall>j<nat (head_n (rec_head r)). head_block (rec_head r) i \<noteq> log_slot r j))"

definition rec_writes :: "'a log_state_scheme \<Rightarrow> (nat \<times> u8 list) list" where
  "rec_writes r = map (\<lambda>i. (head_block (rec_head r) i, cdisk r (log_slot r i))) [0..<nat (head_n (rec_head r))]"

lemma recover_ok:
  assumes "rec_ok r"
  obtains u where "recover_from_log r = Ok () u" and "cache_ok {} u" and "dirty u = {}" and "lg_n u = 0"
    and "head_n (cdisk u (lg_start r)) = 0"
    and "\<And>m. m \<noteq> lg_start r \<Longrightarrow> cdisk u m = creplay (rec_writes r) (cdisk r) m"
proof -
  note R = assms[unfolded rec_ok_def]
  let ?n = "head_n (rec_head r)" and ?b = "head_block (rec_head r)"
  obtain s where 1: "read_head r = Ok () s" "cache_ok {} s" "dirty s = {}" "cdisk s = cdisk r"
      "lg_n s = ?n" "\<And>i. i < nat (lg_n s) \<Longrightarrow> lg_block s i = ?b i"
      "lg_start s = lg_start r" "lg_dev s = lg_dev r" "disksize s = disksize r"
    using read_head_ok[of r] R unfolding rec_head_def by blast
  have slot: "log_slot s = log_slot r" by (intro ext) (simp add: log_slot_def 1)
  have blk: "lg_block s i = ?b i" if "i < nat ?n" for i using 1(5,6) that by simp
  have np: "\<not> pinned s m" for m using 1(3) by (simp add: pinned_def)
  have dist: "distinct (map (lg_block s) [0..<nat (lg_n s)])"
    using R blk 1(5) by (metis (no_types, lifting) atLeastLessThan_iff map_cong set_upt)
  have "okpost (for_each install_one [0..<nat (lg_n s)] s) (\<lambda>_ t. cache_ok {} t \<and> bio_frame s t \<and> dirty t \<subseteq> dirty s \<and>
    (\<forall>m. pinned t m \<longleftrightarrow> pinned s m \<and> (\<forall>i<nat (lg_n s). m \<noteq> lg_block s i)) \<and>
    (\<forall>i<nat (lg_n s). view t (lg_block s i) = view s (log_slot s i)) \<and>
    (\<forall>m. (\<forall>i<nat (lg_n s). m \<noteq> lg_block s i) \<longrightarrow> view t m = view s m) \<and>
    wrote s t (map (\<lambda>i. (lg_block s i, view s (log_slot s i))) [0..<nat (lg_n s)]))"
    using 1 R np dist cache_clean[OF 1(2,3)] by (intro install_ok) (simp_all add: slot blk NBUF_def)
  then obtain t where 2: "install_trans s = Ok () t" "cache_ok {} t" "bio_frame s t" "dirty t = {}"
      "wrote s t (map (\<lambda>i. (lg_block s i, view s (log_slot s i))) [0..<nat (lg_n s)])"
    unfolding okpost_iff install_trans_def 1(3) by auto
  have rw: "map (\<lambda>i. (lg_block s i, view s (log_slot s i))) [0..<nat (lg_n s)] = rec_writes r"
    using blk cache_clean[OF 1(2,3)] by (simp add: rec_writes_def slot 1)
  note g = bio_frame_log[OF 2(3)] bio_frame_keeps(3)[OF 2(3)]
  let ?t = "t\<lparr>lg_n := 0\<rparr>"
  have npt: "\<not> pinned ?t m" for m using 2(4) by (simp add: pinned_def)
  obtain u c0 where 3: "write_head ?t = Ok () u" "cache_ok {} u" "bio_frame ?t u" "same_pins ?t u"
      "head_n c0 = 0" "wrote ?t u [(lg_start r, c0)]"
    using write_head_ok[of ?t] 2(2,4) R 1(7-9) npt g unfolding okpost_iff by (auto simp: NBUF_def)
  have w: "cdisk u = (creplay (rec_writes r) (cdisk r))(lg_start r := c0)"
    using 3(6) 2(5) unfolding rw wrote_set_n by (simp add: wrote_def 1(4))
  show thesis
  proof (rule that[of u])
    show "recover_from_log r = Ok () u" using 1(1) 2(1) 3(1) by (simp add: recover_from_log_def)
    show "cache_ok {} u" "dirty u = {}" "lg_n u = 0"
      using 3(2,4) 2(4) bio_frame_log[OF 3(3)] by (simp_all add: same_pins_def)
    show "head_n (cdisk u (lg_start r)) = 0" using w 3(5) by simp
    show "\<And>m. m \<noteq> lg_start r \<Longrightarrow> cdisk u m = creplay (rec_writes r) (cdisk r) m" using w by simp
  qed
qed

subsection \<open>A crash at any point\<close>

lemma log_writes_zone: "tx_ok s \<Longrightarrow> fst ` set (log_writes s) \<subseteq> logzone s - {lg_start s}"
  using tx_slots(1)[of s] by (auto simp: log_writes_def log_slot_def)

lemma home_writes_fst: "fst ` set (home_writes s) = lg_block s ` {0..<nat (lg_n s)}"
  by (force simp: home_writes_def)

lemma set_take_fst: "fst ` set (take j w) \<subseteq> fst ` set w"
  by (intro image_mono set_take_subset)

lemma home_writes_keep:
  assumes "tx_ok s" and "m \<in> logzone s"
  shows "m \<notin> fst ` set (take j (home_writes s))"
proof
  assume "m \<in> fst ` set (take j (home_writes s))"
  then have "m \<in> lg_block s ` {0..<nat (lg_n s)}" using set_take_fst[of j "home_writes s"] home_writes_fst[of s] by blast
  then show False using tx_okD(7)[OF assms(1)] assms(2) by auto
qed

lemma length_writes [simp]: "length (log_writes s) = nat (lg_n s)" "length (home_writes s) = nat (lg_n s)"
  by (simp_all add: log_writes_def home_writes_def)

text \<open>Writing all home blocks, from whatever a crash has left of them.\<close>

lemma creplay_home:
  assumes tx: "tx_ok s" and "\<And>m. m \<notin> lg_block s ` {0..<nat (lg_n s)} \<Longrightarrow> m \<notin> logzone s \<Longrightarrow> cd m = cdisk s m"
    and m: "m \<notin> logzone s"
  shows "creplay (home_writes s) cd m = view s m"
proof (cases "m \<in> lg_block s ` {0..<nat (lg_n s)}")
  case True
  then obtain i where i: "i < nat (lg_n s)" "m = lg_block s i" by auto
  have "map fst (home_writes s) = map (lg_block s) [0..<nat (lg_n s)]" by (simp add: home_writes_def)
  then have "distinct (map fst (home_writes s))" using tx_okD(10)[OF tx] by simp
  then show ?thesis using i by (intro creplay_distinct) (auto simp: home_writes_def)
next
  case False
  then have "creplay (home_writes s) cd m = cdisk s m"
    using assms(2) m by (simp add: creplay_other home_writes_fst)
  moreover have "\<not> pinned s m" using False tx_okD(9)[OF tx, of m] by force
  ultimately show ?thesis using view_unpinned[OF tx_okD(1)[OF tx]] by simp
qed

text \<open>
  \<open>reboots s k w r\<close>: the machine went down after the first \<open>k\<close> of the writes \<open>w\<close> that it made from state \<open>s\<close>,
  and came up again in state \<open>r\<close> on the disk it left.
\<close>

definition reboots :: "'a log_state_scheme \<Rightarrow> nat \<Rightarrow> (nat \<times> u8 list) list \<Rightarrow> 'b log_state_scheme \<Rightarrow> bool" where
  "reboots s k w r \<longleftrightarrow> cache_ok {} r \<and> dirty r = {} \<and> lg_dev r = DISKDEV \<and> lg_start r = lg_start s \<and>
     disksize r = disksize s \<and> cdisk r = creplay (take k w) (cdisk s)"

lemma crash_early:
  assumes tx: "tx_ok s" and h0: "head_n (cdisk s (lg_start s)) = 0" and k: "k \<le> nat (lg_n s)"
    and boot: "reboots s k (commit_writes c c0 s) r"
  shows "rec_ok r" and "rec_writes r = []" and "m \<notin> logzone s \<Longrightarrow> cdisk r m = cdisk s m"
proof -
  have take: "take k (commit_writes c c0 s) = take k (log_writes s)" using k by (simp add: commit_writes_def)
  have keep: "cdisk r m = cdisk s m" if "m \<notin> logzone s - {lg_start s}" for m
  proof -
    have "m \<notin> fst ` set (take k (log_writes s))"
      using that log_writes_zone[OF tx] set_take_fst[of k "log_writes s"] by blast
    then show ?thesis using boot unfolding reboots_def take by (simp add: creplay_other)
  qed
  have n0: "head_n (rec_head r) = 0"
    using keep[of "lg_start s"] h0 boot by (simp add: rec_head_def reboots_def)
  show "rec_ok r" using boot n0 tx_head(2)[OF tx] by (simp add: rec_ok_def reboots_def)
  show "rec_writes r = []" using n0 by (simp add: rec_writes_def)
  show "m \<notin> logzone s \<Longrightarrow> cdisk r m = cdisk s m" using keep by simp
qed

lemma logged_disk:
  assumes tx: "tx_ok s" and cd_def: "cd = creplay (log_writes s @ [(lg_start s, c)]) (cdisk s)"
  shows "cd (lg_start s) = c" and "i < nat (lg_n s) \<Longrightarrow> cd (log_slot s i) = view s (lg_block s i)"
    and "m \<notin> logzone s \<Longrightarrow> cd m = cdisk s m"
proof -
  show "cd (lg_start s) = c" by (simp add: cd_def creplay_append)
  have "distinct (map fst (log_writes s))" by (simp add: log_writes_def comp_def distinct_map inj_on_def)
  then have "i < nat (lg_n s) \<Longrightarrow> creplay (log_writes s) (cdisk s) (log_slot s i) = view s (lg_block s i)"
    by (intro creplay_distinct) (auto simp: log_writes_def)
  then show "i < nat (lg_n s) \<Longrightarrow> cd (log_slot s i) = view s (lg_block s i)"
    by (simp add: cd_def creplay_append log_slot_def)
  show "m \<notin> logzone s \<Longrightarrow> cd m = cdisk s m"
    unfolding cd_def using log_writes_zone[OF tx] tx_head(1)[OF tx] by (subst creplay_other) auto
qed

lemma crash_late:
  assumes tx: "tx_ok s" and h: "head_for s c" "head_n c0 = 0" and k: "nat (lg_n s) < k"
    and boot: "reboots s k (commit_writes c c0 s) r"
  shows "rec_ok r" and "m \<notin> logzone s \<Longrightarrow> creplay (rec_writes r) (cdisk r) m = view s m"
proof -
  define cd where "cd = creplay (log_writes s @ [(lg_start s, c)]) (cdisk s)"
  note cd = logged_disk[OF tx cd_def]
  let ?j = "k - nat (lg_n s) - 1" and ?n = "nat (lg_n s)"
  have r: "cdisk r = creplay (take ?j (home_writes s @ [(lg_start s, c0)])) cd" and Lr: "lg_start r = lg_start s"
    using boot k by (simp_all add: reboots_def commit_writes_def cd_def creplay_append take_Cons' Suc_diff_Suc)
  have outside: "cdisk r m = cd m" if "m \<notin> lg_block s ` {0..<?n}" "m \<noteq> lg_start s" for m
    using that set_take_fst[of ?j "home_writes s @ [(lg_start s, c0)]"] home_writes_fst[of s]
    unfolding r by (subst creplay_other) auto
  show "rec_ok r" and "m \<notin> logzone s \<Longrightarrow> creplay (rec_writes r) (cdisk r) m = view s m"
  proof (atomize (full), cases "?j \<le> ?n")
    case True
    then have r: "cdisk r = creplay (take ?j (home_writes s)) cd" using r by simp
    have head: "rec_head r = c"
      using cd(1) home_writes_keep[OF tx tx_head(1)[OF tx]] unfolding rec_head_def r Lr by (simp add: creplay_other)
    have slot: "log_slot r = log_slot s" by (intro ext) (simp add: log_slot_def Lr)
    have sl: "cdisk r (log_slot s i) = view s (lg_block s i)" if "i < ?n" for i
      using cd(2)[OF that] home_writes_keep[OF tx tx_slots(1)[OF tx that]] unfolding r by (simp add: creplay_other)
    have hn: "head_n c = lg_n s" and hb: "\<And>i. i < ?n \<Longrightarrow> head_block c i = lg_block s i"
      using h(1) by (simp_all add: head_for_def)
    have rw: "rec_writes r = home_writes s"
      unfolding rec_writes_def home_writes_def head hn slot by (simp add: sl hb)
    have dist: "distinct (map (head_block c) [0..<?n])"
      using tx_okD(10)[OF tx] hb by (metis (no_types, lifting) atLeastLessThan_iff map_cong set_upt)
    have ne: "lg_block s i \<noteq> lg_start s \<and> lg_block s i \<noteq> log_slot s j" if "i < ?n" "j < ?n" for i j
      using tx_okD(7)[OF tx that(1)] tx_head(1)[OF tx] tx_slots(1)[OF tx that(2)] by metis
    have "rec_ok r"
      using boot tx_okD(3,5)[OF tx] tx_head(2,5)[OF tx] tx_slots(2)[OF tx] dist ne
      unfolding rec_ok_def head hn slot reboots_def by (auto simp: hb)
    moreover have "creplay (rec_writes r) (cdisk r) m = view s m" if "m \<notin> logzone s"
      unfolding rw using outside cd(3) tx_head(1)[OF tx] by (intro creplay_home[OF tx _ that]) metis
    ultimately show "rec_ok r \<and> (m \<notin> logzone s \<longrightarrow> creplay (rec_writes r) (cdisk r) m = view s m)" by blast
  next
    case False
    then have r: "cdisk r = creplay (home_writes s @ [(lg_start s, c0)]) cd" using r by simp
    have n0: "head_n (rec_head r) = 0" unfolding rec_head_def r Lr using h(2) by (simp add: creplay_append)
    then have "rec_ok r" "rec_writes r = []"
      using boot tx_head(2)[OF tx] by (simp_all add: rec_ok_def rec_writes_def reboots_def)
    moreover have "cdisk r m = view s m" if m: "m \<notin> logzone s"
    proof -
      have "cdisk r m = creplay (home_writes s) cd m"
        unfolding r using m tx_head(1)[OF tx] by (auto simp: creplay_append)
      also have "\<dots> = view s m" using cd(3) by (intro creplay_home[OF tx _ m]) metis
      finally show ?thesis .
    qed
    ultimately show "rec_ok r \<and> (m \<notin> logzone s \<longrightarrow> creplay (rec_writes r) (cdisk r) m = view s m)" by simp
  qed
qed

lemma commit_crash:
  assumes "tx_ok s" and "0 < lg_n s" and "head_n (cdisk s (lg_start s)) = 0"
  shows "\<exists>t w. commit s = Ok () t \<and> wrote s t w \<and> lg_n t = 0 \<and> head_n (cdisk t (lg_start s)) = 0 \<and>
    (\<forall>m. m \<notin> logzone s \<longrightarrow> cdisk t m = view s m) \<and>
    (\<forall>k (r :: 'b log_state_scheme). reboots s k w r \<longrightarrow>
       (\<exists>u. recover_from_log r = Ok () u \<and> lg_n u = 0 \<and> head_n (cdisk u (lg_start s)) = 0 \<and>
          (\<forall>m. m \<notin> logzone s \<longrightarrow> cdisk u m = (if k \<le> nat (lg_n s) then cdisk s m else view s m))))"
proof -
  obtain t c c0 where t: "commit s = Ok () t" "cache_ok {} t" "dirty t = {}" "lg_n t = 0"
      "head_for s c" "head_n c0 = 0" "wrote s t (commit_writes c c0 s)"
      "\<And>m. m \<notin> logzone s \<Longrightarrow> view t m = view s m"
    using commit_ok[OF assms(1,2)] by metis
  have disk: "cdisk t m = view s m" if "m \<notin> logzone s" for m using cache_clean[OF t(2,3)] t(8) that by metis
  have hd: "head_n (cdisk t (lg_start s)) = 0"
    using t(6,7) by (simp add: wrote_def commit_writes_def creplay_append)
  have "\<exists>u. recover_from_log r = Ok () u \<and> lg_n u = 0 \<and> head_n (cdisk u (lg_start s)) = 0 \<and>
      (\<forall>m. m \<notin> logzone s \<longrightarrow> cdisk u m = (if k \<le> nat (lg_n s) then cdisk s m else view s m))"
    if boot: "reboots s k (commit_writes c c0 s) r" for k and r :: "'b log_state_scheme"
  proof -
    have L: "lg_start r = lg_start s" using boot by (simp add: reboots_def)
    have "rec_ok r" using crash_early(1)[OF assms(1,3) _ boot] crash_late(1)[OF assms(1) t(5,6) _ boot] by linarith
    then obtain u where u: "recover_from_log r = Ok () u" "lg_n u = 0" "head_n (cdisk u (lg_start s)) = 0"
        "\<And>m. m \<noteq> lg_start s \<Longrightarrow> cdisk u m = creplay (rec_writes r) (cdisk r) m"
      using recover_ok[of r] unfolding L by metis
    have "cdisk u m = (if k \<le> nat (lg_n s) then cdisk s m else view s m)" if m: "m \<notin> logzone s" for m
    proof -
      have "m \<noteq> lg_start s" using m tx_head(1)[OF assms(1)] by blast
      then have "cdisk u m = creplay (rec_writes r) (cdisk r) m" by (rule u(4))
      then show ?thesis
        using crash_early(2,3)[OF assms(1,3) _ boot] crash_late(2)[OF assms(1) t(5,6) _ boot m] m by simp
    qed
    then show ?thesis using u by blast
  qed
  then show ?thesis using t(1,4,7) disk hd by blast
qed

text \<open>
  C2. A transaction is atomic under crashes: \<^verbatim>\<open>commit\<close> returns and installs the contents of every logged
  block on the disk; and if the machine stops after any number \<open>k\<close> of its disk writes and boots again,
  \<^verbatim>\<open>recover_from_log\<close> returns with an empty log and a disk that, outside the log, holds the old contents of
  every block if the header had not been written, and the new contents of every block otherwise.
\<close>

theorem commit_crash_atomic:
  assumes "tx_ok s" and "0 < lg_n s" and "head_n (cdisk s (lg_start s)) = 0"
  shows "\<exists>t w. commit s = Ok () t \<and> wrote s t w \<and> lg_n t = 0 \<and> head_n (cdisk t (lg_start s)) = 0 \<and>
    (\<forall>m. m \<notin> logzone s \<longrightarrow> cdisk t m = view s m) \<and>
    (\<forall>k (r :: 'b log_state_scheme). reboots s k w r \<longrightarrow>
       (\<exists>u. recover_from_log r = Ok () u \<and> lg_n u = 0 \<and> head_n (cdisk u (lg_start s)) = 0 \<and>
          (\<forall>m. m \<notin> logzone s \<longrightarrow> cdisk u m = (if k \<le> nat (lg_n s) then cdisk s m else view s m))))"
  by (rule commit_crash[OF assms])

lemma ex_tx_ok: "tx_ok ex_state"
  unfolding tx_ok_def pinned_def ex_holds ex_dirty
  using ex_cache_ok
  by (auto simp: log_geo_def logzone_def DISKDEV_def LOGSIZE_def MAXOPBLOCKS_def)

text \<open>The machine after a reboot on a disk with the contents \<open>cd\<close>: the cache is empty.\<close>

definition ex_boot :: "(nat \<Rightarrow> u8 list) \<Rightarrow> cons_state" where
  "ex_boot cd = ex_state\<lparr>bufs := (\<lambda>b. (ex_buf b)\<lparr>b_valid := False, b_dirty := False, b_dev := 0\<rparr>),
     disk := (\<lambda>n i. cd n ! i)\<rparr>"

lemma ex_boot_cache: "cache_ok {} (ex_boot cd)" "dirty (ex_boot cd) = {}"
proof -
  have hb: "\<not> holds_block (ex_boot cd) i n" for i n
    by (auto simp: holds_block_def ex_boot_def DISKDEV_def)
  show d: "dirty (ex_boot cd) = {}" by (auto simp: dirty_def ex_boot_def)
  have "ring_ok (ex_boot cd)" using ex_ring by (simp add: ring_ok_def ex_boot_def)
  then show "cache_ok {} (ex_boot cd)"
    using hb d by (auto simp: cache_ok_def idle_locks_def ex_boot_def ex_buf_def)
qed

lemma creplay_length:
  "(\<And>n. length (cd n) = BSIZE) \<Longrightarrow> (\<And>n c. (n, c) \<in> set w \<Longrightarrow> length c = BSIZE) \<Longrightarrow>
   length (creplay w cd m) = BSIZE"
proof (induction w arbitrary: cd)
  case (Cons x w)
  obtain n c where x: "x = (n, c)" by (cases x)
  have "length (creplay w (cd(n := c)) m) = BSIZE"
    using Cons.prems x by (intro Cons.IH) auto
  then show ?case using x by simp
qed simp

lemma ex_reboots:
  assumes "wrote ex_state t w"
  shows "reboots ex_state k w (ex_boot (creplay (take k w) (cdisk ex_state)))"
proof -
  have "w = map (\<lambda>(n, d). (n, content d)) (dtrace t)" using assms by (simp add: wrote_def)
  then have "length c = BSIZE" if "(n, c) \<in> set (take k w)" for n c
    using that by (auto simp: content_def dest!: in_set_takeD)
  then have "length (creplay (take k w) (cdisk ex_state) m) = BSIZE" for m
    by (intro creplay_length) (auto simp: cdisk_def content_def)
  then have "cdisk (ex_boot (creplay (take k w) (cdisk ex_state))) = creplay (take k w) (cdisk ex_state)"
    by (intro ext) (simp add: cdisk_def content_def ex_boot_def list_eq_iff_nth_eq)
  then show ?thesis using ex_boot_cache by (simp add: reboots_def ex_boot_def DISKDEV_def)
qed

theorem commit_crash_atomic_witness:
  "tx_ok ex_state \<and> (\<exists>t w. commit ex_state = Ok () t \<and> wrote ex_state t w \<and> cdisk t 40 = replicate BSIZE 7 \<and>
     (\<forall>k. \<exists>(r :: cons_state) u. reboots ex_state k w r \<and> recover_from_log r = Ok () u \<and>
          cdisk u 40 = (if k \<le> 1 then replicate BSIZE 0 else replicate BSIZE 7)))"
proof -
  have h: "0 < lg_n ex_state" "head_n (cdisk ex_state (lg_start ex_state)) = 0" "nat (lg_n ex_state) = 1"
    by (simp_all add: head_n_def cdisk_def content_def get32_def BSIZE_def)
  have z: "40 \<notin> logzone ex_state" by (simp add: logzone_def)
  have "view ex_state 40 = content (b_data (bufs ex_state 0))"
    by (rule view_eq[OF ex_cache_ok]) (simp_all add: ex_holds ex_buf_def)
  then have v: "view ex_state 40 = replicate BSIZE 7" "cdisk ex_state 40 = replicate BSIZE 0"
    by (simp_all add: ex_buf_def content_def cdisk_def map_replicate_const)
  have "\<exists>t w. commit ex_state = Ok () t \<and> wrote ex_state t w \<and> lg_n t = 0 \<and> head_n (cdisk t (lg_start ex_state)) = 0 \<and>
    (\<forall>m. m \<notin> logzone ex_state \<longrightarrow> cdisk t m = view ex_state m) \<and>
    (\<forall>k (r :: cons_state). reboots ex_state k w r \<longrightarrow>
       (\<exists>u. recover_from_log r = Ok () u \<and> lg_n u = 0 \<and> head_n (cdisk u (lg_start ex_state)) = 0 \<and>
          (\<forall>m. m \<notin> logzone ex_state \<longrightarrow>
             cdisk u m = (if k \<le> nat (lg_n ex_state) then cdisk ex_state m else view ex_state m))))"
    by (rule commit_crash_atomic[OF ex_tx_ok h(1,2)])
  then show ?thesis using z v ex_tx_ok ex_reboots unfolding h(3) by metis
qed

end
