(* ===== verification/Xv6_Fs_Tx.thy ===== *)
theory Xv6_Fs_Tx
  imports Xv6_Log_Props Xv6_Fs
begin

section \<open>Blocks inside a transaction\<close>

text \<open>
  What \<^verbatim>\<open>fs.c\<close> sees of the buffer cache and the log during a transaction: a map from block numbers to contents
  (\<open>view\<close>), read through \<^verbatim>\<open>bread\<close> and changed by a change of the buffer's data followed by \<^verbatim>\<open>log_write\<close>. The lemmas
  here are the interface on which the file level is proved. They are total: an operation returns with its
  postcondition, or stops in one of the panics \<open>E\<close> that say that a resource is used up.
\<close>

subsection \<open>Outcomes up to exhausted resources\<close>

fun good :: "string set \<Rightarrow> ('s, 'a) res \<Rightarrow> ('a \<Rightarrow> 's \<Rightarrow> bool) \<Rightarrow> bool" where
  "good E (Ok x s) Q = Q x s"
| "good E (Fail e) Q = (\<exists>m\<in>E. e = Panic m)"
| "good E (Swtch s) Q = False"

lemma good_bnd: "good E r R \<Longrightarrow> (\<And>x s. R x s \<Longrightarrow> good E (f x s) Q) \<Longrightarrow> good E (bnd r f) Q"
  by (cases r) auto

lemma good_mono: "good E r R \<Longrightarrow> (\<And>x s. R x s \<Longrightarrow> Q x s) \<Longrightarrow> good E r Q"
  by (cases r) auto

lemma good_okpost: "okpost r Q \<Longrightarrow> good E r Q"
  by (cases r) auto

lemma good_empty: "good {} r Q \<longleftrightarrow> (\<exists>x s. r = Ok x s \<and> Q x s)"
  by (cases r) auto

lemma good_weaken: "good E r Q \<Longrightarrow> E \<subseteq> E' \<Longrightarrow> good E' r Q"
  by (cases r) auto

definition exhausted :: "string set" where
  "exhausted = {''balloc: out of blocks'', ''too big a transaction'', ''bget: no buffers''}"

subsection \<open>The state of a transaction\<close>

text \<open>
  \<open>clean_at s i\<close>: the locked buffer \<open>i\<close> has no change that was not logged. \<open>in_tx H s\<close> extends \<open>tx_ok\<close> to a state in
  which the running process has locked the buffers \<open>H\<close>.
\<close>

definition clean_at :: "'a bio_state_scheme \<Rightarrow> nat \<Rightarrow> bool" where
  "clean_at s i \<longleftrightarrow> (\<forall>n. holds_block s i n \<longrightarrow> i \<in> dirty s \<or> view s n = content (disk s n))"

definition log_lists :: "'a log_state_scheme \<Rightarrow> bool" where
  "log_lists s \<longleftrightarrow> log_geo s \<and> 0 \<le> lg_n s \<and> lg_n s < lg_size s \<and>
     distinct (map (lg_block s) [0..<nat (lg_n s)]) \<and>
     (\<forall>i<nat (lg_n s). lg_block s i < disksize s \<and> lg_block s i < 2 ^ 32 \<and> lg_block s i \<notin> logzone s) \<and>
     (\<forall>m. pinned s m \<longleftrightarrow> (\<exists>i<nat (lg_n s). m = lg_block s i))"

definition in_tx :: "nat set \<Rightarrow> 'a log_state_scheme \<Rightarrow> bool" where
  "in_tx H s \<longleftrightarrow> cache_ok H s \<and> log_lists s \<and> (\<forall>i\<in>H. clean_at s i)"

lemma in_tx_tx_ok: "in_tx {} s \<longleftrightarrow> tx_ok s"
  unfolding in_tx_def log_lists_def tx_ok_def by blast

lemma in_tx_cache: "in_tx H s \<Longrightarrow> cache_ok H s"
  by (simp add: in_tx_def)

lemma in_tx_log: "in_tx H s \<Longrightarrow> log_lists s"
  by (simp add: in_tx_def)

text \<open>
  \<open>ext H s t\<close>: what an operation leaves alone: everything but processes, locks, buffers and the list of logged
  blocks; the disk; the buffers in \<open>H\<close> and the dirty ones stay assigned to their blocks.
\<close>

definition fs_frame :: "'a log_state_scheme \<Rightarrow> 'a log_state_scheme \<Rightarrow> bool" where
  "fs_frame s t \<longleftrightarrow> t = s\<lparr>ptable := ptable t, mlfqstr := mlfqstr t, slocks := slocks t, bufs := bufs t,
     lg_n := lg_n t, lg_block := lg_block t\<rparr>"

definition ext :: "nat set \<Rightarrow> 'a log_state_scheme \<Rightarrow> 'a log_state_scheme \<Rightarrow> bool" where
  "ext H s t \<longleftrightarrow> fs_frame s t \<and> lg_n s \<le> lg_n t \<and> dirty s \<subseteq> dirty t \<and>
     (\<forall>i\<in>H \<union> dirty s. \<forall>m. holds_block t i m = holds_block s i m)"

lemma fs_frame_trans:
  assumes "fs_frame s t" and "fs_frame t u"
  shows "fs_frame s u"
proof -
  have u: "u = t\<lparr>ptable := ptable u, mlfqstr := mlfqstr u, slocks := slocks u, bufs := bufs u,
     lg_n := lg_n u, lg_block := lg_block u\<rparr>" using assms(2) by (simp add: fs_frame_def)
  have t: "t = s\<lparr>ptable := ptable t, mlfqstr := mlfqstr t, slocks := slocks t, bufs := bufs t,
     lg_n := lg_n t, lg_block := lg_block t\<rparr>" using assms(1) by (simp add: fs_frame_def)
  have "u = s\<lparr>ptable := ptable u, mlfqstr := mlfqstr u, slocks := slocks u, bufs := bufs u,
     lg_n := lg_n u, lg_block := lg_block u\<rparr>"
    by (rule trans[OF u]) (subst t, simp)
  then show ?thesis by (simp add: fs_frame_def)
qed

lemma fs_frame_log:
  assumes "fs_frame s t"
  shows "lg_start t = lg_start s" and "lg_size t = lg_size s" and "lg_dev t = lg_dev s"
    and "lg_outstanding t = lg_outstanding s" and "disksize t = disksize s" and "disk t = disk s"
    and "dtrace t = dtrace s" and "mem t = mem s" and "cr3 t = cr3 s" and "held t = held s" and "curproc t = curproc s"
proof -
  have *: "t = s\<lparr>ptable := ptable t, mlfqstr := mlfqstr t, slocks := slocks t, bufs := bufs t,
     lg_n := lg_n t, lg_block := lg_block t\<rparr>" using assms by (simp add: fs_frame_def)
  show "lg_start t = lg_start s" "lg_size t = lg_size s" "lg_dev t = lg_dev s" "lg_outstanding t = lg_outstanding s"
    "disksize t = disksize s" "disk t = disk s" "dtrace t = dtrace s" "mem t = mem s" "cr3 t = cr3 s"
    "held t = held s" "curproc t = curproc s"
    by (subst *, simp)+
qed

lemma fs_frame_fs:
  fixes s t :: "'a fs_state_scheme"
  assumes "fs_frame s t"
  shows "sb t = sb s" and "icache t = icache s"
proof -
  have *: "t = s\<lparr>ptable := ptable t, mlfqstr := mlfqstr t, slocks := slocks t, bufs := bufs t,
     lg_n := lg_n t, lg_block := lg_block t\<rparr>" using assms by (simp add: fs_frame_def)
  show "sb t = sb s" "icache t = icache s" by (subst *, simp)+
qed

lemma ext_refl [simp]: "ext H s s"
  by (simp add: ext_def fs_frame_def)

lemma ext_trans: "ext H s t \<Longrightarrow> ext H t u \<Longrightarrow> ext H s u"
  unfolding ext_def using fs_frame_trans order_trans by blast

lemma ext_mono: "ext H s t \<Longrightarrow> H' \<subseteq> H \<Longrightarrow> ext H' s t"
  unfolding ext_def by blast

lemmas ext_frame = ext_def [THEN iffD1, THEN conjunct1]
lemmas ext_log = fs_frame_log [OF ext_frame]
lemmas ext_fs = fs_frame_fs [OF ext_frame]

lemma bio_frame_fs_frame:
  assumes "bio_frame s t" and "disk t = disk s" and "dtrace t = dtrace s"
  shows "fs_frame s (t :: 'a log_state_scheme)"
proof -
  have *: "t = s\<lparr>ptable := ptable t, mlfqstr := mlfqstr t, slocks := slocks t,
     bufs := bufs t, disk := disk t, dtrace := dtrace t\<rparr>" using assms(1) by (simp add: bio_frame_def)
  have n: "lg_n t = lg_n s" "lg_block t = lg_block s" using bio_frame_log[OF assms(1)] by auto
  have "t = s\<lparr>ptable := ptable t, mlfqstr := mlfqstr t, slocks := slocks t, bufs := bufs t,
     lg_n := lg_n t, lg_block := lg_block t\<rparr>"
    unfolding n by (rule trans[OF *]) (simp add: assms(2,3))
  then show ?thesis by (simp add: fs_frame_def)
qed

subsection \<open>Reading\<close>

lemma log_lists_cong:
  assumes "log_lists s" and "bio_frame s t" and "pinned t = pinned s"
  shows "log_lists t"
  using assms(1) bio_frame_log[OF assms(2)] bio_frame_keeps(3)[OF assms(2)]
  unfolding log_lists_def log_geo_def logzone_def assms(3) by simp

lemma in_tx_dirty: "in_tx H s \<Longrightarrow> card (dirty s) \<le> nat (lg_n s)"
  unfolding in_tx_def log_lists_def by (intro dirty_card[of H s "nat (lg_n s)" "lg_block s"]) blast+

text \<open>
  \<open>room E k s\<close>: the log has room for \<open>k\<close> more blocks, unless running out is tolerated; \<^verbatim>\<open>log_write\<close> also asks for a
  transaction, reading does not.
\<close>

definition room :: "string set \<Rightarrow> nat \<Rightarrow> 'a log_state_scheme \<Rightarrow> bool" where
  "room E k s \<longleftrightarrow> (k = 0 \<or> 1 \<le> lg_outstanding s) \<and> (exhausted \<subseteq> E \<or> lg_n s + int k < lg_size s - 1)"

lemma room_mono: "room E k s \<Longrightarrow> j \<le> k \<Longrightarrow> room E j s"
  by (auto simp: room_def)

lemma room_ext: "ext H s t \<Longrightarrow> lg_n t = lg_n s \<Longrightarrow> room E k t = room E k s"
  by (simp add: room_def ext_log)

lemma bread_full:
  assumes ok: "cache_ok H s" and none: "\<And>i. \<not> holds_block s i n" and full: "\<not> card (H \<union> dirty s) < NBUF"
  shows "bread DISKDEV n s = Fail (Panic ''bget: no buffers'')"
proof -
  obtain xs where xs: "linked (\<lambda>i. b_next (bufs s i)) (\<lambda>i. b_prev (bufs s i)) (NBUF # xs @ [NBUF])"
      "distinct xs" "set xs = {0..<NBUF}"
    using cache_okD(2)[OF ok] by (auto simp: ring_ok_def)
  let ?P = "\<lambda>i. b_refcnt (bufs s i) = 0 \<and> \<not> b_dirty (bufs s i)"
  have f: "bget_unused (Suc NBUF) (bufs s) (b_prev (bufs s NBUF)) = Some (List.find ?P (rev xs))"
    using xs(3) ring_length[OF xs(2,3)] by (intro bget_unused_walk[OF xs(1) refl]) simp_all
  have sub: "H \<union> dirty s \<subseteq> {0..<NBUF}" using cache_okD(3)[OF ok] by (auto simp: dirty_def)
  have "card (H \<union> dirty s) = card {0..<NBUF}" using full card_mono[OF finite_atLeastLessThan sub] by simp
  then have "H \<union> dirty s = {0..<NBUF}" by (intro card_subset_eq[OF _ sub]) simp_all
  then have "\<not> ?P i" if "i < NBUF" for i using that cache_okD(5)[OF ok that] by (auto simp: dirty_def set_eq_iff)
  then have "List.find ?P (rev xs) = None" using xs(3) by (auto simp: find_None_iff)
  moreover have "List.find (\<lambda>i. holds_block s i n) [0..<NBUF] = None" using none by (simp add: find_None_iff)
  moreover have "held s = {}" using cache_okD(1)[OF ok] by (simp add: idle_locks_def)
  ultimately show ?thesis using f bget_cached_eq[OF ok, of n]
    by (simp add: bread_def bget_def lock_simps del: bget_cached.simps bget_unused.simps)
qed

lemma tx_bread:
  assumes tx: "in_tx H s" and n: "n < disksize s" and free: "\<And>i. holds_block s i n \<Longrightarrow> i \<notin> H"
    and H: "card H \<le> 1" and room: "room E 0 s"
  shows "good E (bread DISKDEV n s) (\<lambda>b t. in_tx (insert b H) t \<and> b \<notin> H \<and> holds_block t b n \<and>
    content (b_data (bufs t b)) = view s n \<and> view t = view s \<and> lg_n t = lg_n s \<and> ext H s t)"
proof (cases "(\<exists>i. holds_block s i n) \<or> card (H \<union> dirty s) < NBUF")
  case True
  note ok = in_tx_cache[OF tx]
  have clean: "(\<exists>i\<in>dirty s. holds_block s i n) \<or> view s n = content (disk s n)"
    using view_clean[OF ok _ free] view_uncached[of s n] by blast
  show ?thesis
  proof (rule good_mono[OF good_okpost[OF bread_ok[OF ok n free True]]])
    fix b t
    assume t: "cache_ok (insert b H) t \<and> b \<notin> H \<and> holds_block t b n \<and> content (b_data (bufs t b)) = view s n \<and>
      (\<forall>m. view t m = view s m) \<and> dirty t = dirty s \<and> disk t = disk s \<and> dtrace t = dtrace s \<and> bio_frame s t \<and>
      (\<forall>i m. i \<in> H \<union> dirty s \<longrightarrow> holds_block t i m = holds_block s i m)"
    then have v: "view t = view s" by auto
    have p: "pinned t = pinned s" using t by (intro HOL.ext) (auto simp: pinned_def)
    have "clean_at t i" if "i \<in> insert b H" for i
    proof (cases "i = b")
      case True
      have "b \<in> dirty t \<or> view s n = content (disk s n)"
      proof (rule disjCI)
        assume "view s n \<noteq> content (disk s n)"
        then obtain j where "j \<in> dirty s" "holds_block s j n" using clean by blast
        then have "holds_block t j n" "j \<in> dirty t" using t by auto
        then show "b \<in> dirty t" using t cache_okD(4)[of "insert b H" t j n b] by auto
      qed
      moreover have "m = n" if "holds_block t b m" for m using that t by (auto simp: holds_block_def)
      ultimately show ?thesis using True t v by (auto simp: clean_at_def)
    next
      case False
      then have "clean_at s i" "i \<in> H" using that tx by (auto simp: in_tx_def)
      then show ?thesis using t v by (auto simp: clean_at_def)
    qed
    moreover have "log_lists t" using tx t p by (intro log_lists_cong[of s t]) (auto simp: in_tx_def)
    moreover have "fs_frame s t" "lg_n t = lg_n s" using t bio_frame_fs_frame bio_frame_log(2) by blast+
    ultimately show "in_tx (insert b H) t \<and> b \<notin> H \<and> holds_block t b n \<and> content (b_data (bufs t b)) = view s n \<and>
        view t = view s \<and> lg_n t = lg_n s \<and> ext H s t"
      using t v by (auto simp: in_tx_def ext_def)
  qed
next
  case False
  have "card (H \<union> dirty s) \<le> 1 + nat (lg_n s)"
    using card_Un_le[of H "dirty s"] H in_tx_dirty[OF tx] by linarith
  moreover have "lg_size s \<le> int LOGSIZE" using tx by (simp add: in_tx_def log_lists_def log_geo_def)
  ultimately have "exhausted \<subseteq> E" using False room by (auto simp: room_def LOGSIZE_def MAXOPBLOCKS_def NBUF_def)
  then show ?thesis using bread_full[OF in_tx_cache[OF tx], of n] False by (auto simp: exhausted_def)
qed

subsection \<open>Releasing\<close>

lemma tx_brelse:
  assumes tx: "in_tx H s" and b: "b \<in> H" "holds_block s b n"
  shows "okpost (brelse b s) (\<lambda>_ t. in_tx (H - {b}) t \<and> holds_block t = holds_block s \<and> view t = view s \<and>
    lg_n t = lg_n s \<and> ext H s t)"
proof -
  have clean: "b \<in> dirty s \<or> view s n = content (disk s n)" using tx b by (auto simp: in_tx_def clean_at_def)
  show ?thesis
  proof (rule okpost_mono[OF brelse_ok[OF in_tx_cache[OF tx] b clean]])
    fix x t
    assume t: "cache_ok (H - {b}) t \<and> holds_block t = holds_block s \<and> (\<forall>m. view t m = view s m) \<and>
      dirty t = dirty s \<and> disk t = disk s \<and> dtrace t = dtrace s \<and> bio_frame s t"
    then have v: "view t = view s" by auto
    have p: "pinned t = pinned s" using t by (intro HOL.ext) (auto simp: pinned_def)
    have "clean_at t i" if "i \<in> H" for i using tx that t v by (auto simp: in_tx_def clean_at_def)
    moreover have "log_lists t" using tx t p by (intro log_lists_cong[of s t]) (auto simp: in_tx_def)
    moreover have "fs_frame s t" "lg_n t = lg_n s" using t bio_frame_fs_frame bio_frame_log(2) by blast+
    ultimately show "in_tx (H - {b}) t \<and> holds_block t = holds_block s \<and> view t = view s \<and> lg_n t = lg_n s \<and> ext H s t"
      using t v by (auto simp: in_tx_def ext_def)
  qed
qed

subsection \<open>Changing a block\<close>

text \<open>The state \<^verbatim>\<open>log_write\<close> leaves: the block of the buffer is listed, once, and the buffer is dirty.\<close>

definition logged :: "nat \<Rightarrow> 'a log_state_scheme \<Rightarrow> 'a log_state_scheme" where
  "logged b s =
     (let n = b_blockno (bufs s b);
          s = (if \<exists>i<nat (lg_n s). lg_block s i = n then s
               else s\<lparr>lg_block := (lg_block s)(nat (lg_n s) := n), lg_n := lg_n s + 1\<rparr>)
      in s\<lparr>bufs := (bufs s)(b := (bufs s b)\<lparr>b_dirty := True\<rparr>)\<rparr>)"

lemma log_write_eq:
  assumes "held s = {}" and "0 \<le> lg_n s" and "lg_n s < lg_size s - 1" and "lg_size s \<le> int LOGSIZE" and "1 \<le> lg_outstanding s"
  shows "log_write b s = Ok () (logged b s)"
proof (cases "List.find (\<lambda>i. lg_block s i = b_blockno (bufs s b)) [0..<nat (lg_n s)]")
  case None
  then have "(\<exists>i<nat (lg_n s). lg_block s i = b_blockno (bufs s b)) = False" by (auto simp: find_None_iff)
  then have "logged b s = s\<lparr>lg_block := (lg_block s)(nat (lg_n s) := b_blockno (bufs s b)), lg_n := lg_n s + 1,
      bufs := (bufs s)(b := (bufs s b)\<lparr>b_dirty := True\<rparr>)\<rparr>"
    by (simp only: logged_def Let_def if_False) simp
  then show ?thesis using assms None by (simp add: log_write_def lock_simps upd_buf_def Let_def held_idem)
next
  case (Some i)
  then have i: "i < nat (lg_n s)" "lg_block s i = b_blockno (bufs s b)" using find_upt_Some[OF Some] by auto
  then have "(\<exists>i<nat (lg_n s). lg_block s i = b_blockno (bufs s b)) = True" by blast
  then have "logged b s = s\<lparr>bufs := (bufs s)(b := (bufs s b)\<lparr>b_dirty := True\<rparr>)\<rparr>"
    by (simp only: logged_def Let_def if_True)
  moreover have "(lg_block s)(i := b_blockno (bufs s b)) = lg_block s" using i(2) by auto
  moreover have "int i \<noteq> lg_n s" using i(1) by auto
  ultimately show ?thesis using assms Some by (simp add: log_write_def lock_simps upd_buf_def Let_def held_idem)
qed

lemma logged_ok:
  assumes ok: "cache_ok H s" and ll: "log_lists s" and b: "b \<in> H" "holds_block s b n"
    and n: "n \<notin> logzone s" "n < 2 ^ 32" and room: "lg_n s < lg_size s - 1"
  shows "cache_ok H (logged b s)" and "log_lists (logged b s)" and "holds_block (logged b s) = holds_block s"
    and "dirty (logged b s) = insert b (dirty s)" and "view (logged b s) = view s" and "fs_frame s (logged b s)"
    and "lg_n (logged b s) \<le> lg_n s + 1" "lg_n s \<le> lg_n (logged b s)" "0 < lg_n (logged b s)" and "bufs (logged b s) i = (if i = b then (bufs s b)\<lparr>b_dirty := True\<rparr> else bufs s i)"
proof -
  let ?t = "logged b s"
  have bufs: "bufs ?t = (bufs s)(b := (bufs s b)\<lparr>b_dirty := True\<rparr>)"
    and env: "slocks ?t = slocks s" "mypid ?t = mypid s" "disksize ?t = disksize s" "idle_locks ?t = idle_locks s"
      "disk ?t = disk s"
    by (simp_all add: logged_def Let_def mypid_def idle_locks_def)
  show "bufs ?t i = (if i = b then (bufs s b)\<lparr>b_dirty := True\<rparr> else bufs s i)" by (simp add: bufs)
  have bN: "b < NBUF" "b_blockno (bufs s b) = n" using b(2) by (auto simp: holds_block_def)
  have keep: "b_dev (bufs ?t i) = b_dev (bufs s i)" "b_blockno (bufs ?t i) = b_blockno (bufs s i)"
    "b_refcnt (bufs ?t i) = b_refcnt (bufs s i)" "b_valid (bufs ?t i) = b_valid (bufs s i)"
    "b_next (bufs ?t i) = b_next (bufs s i)" "b_prev (bufs ?t i) = b_prev (bufs s i)"
    "b_data (bufs ?t i) = b_data (bufs s i)" for i
    by (simp_all add: bufs)
  show hb: "holds_block ?t = holds_block s" by (intro HOL.ext) (simp add: holds_block_def keep)
  show d: "dirty ?t = insert b (dirty s)" using bN by (auto simp: dirty_def bufs)
  show v: "view ?t = view s" by (intro HOL.ext) (simp add: view_def hb keep env cong: option.case_cong)
  show "cache_ok H ?t"
    unfolding cache_ok_def hb d
  proof (intro conjI)
    show "ring_ok ?t" using cache_okD(2)[OF ok] by (simp add: ring_ok_def keep)
    show "\<forall>i n. holds_block s i n \<longrightarrow> b_valid (bufs ?t i) \<longrightarrow> \<not> b_dirty (bufs ?t i) \<longrightarrow> i \<notin> H \<longrightarrow>
        content (b_data (bufs ?t i)) = content (disk ?t n)"
      using cache_okD(11)[OF ok] b(1) by (auto simp: bufs env)
    show "\<forall>i\<in>insert b (dirty s). b_valid (bufs ?t i) \<and> b_dev (bufs ?t i) = DISKDEV \<and> b_blockno (bufs ?t i) < disksize ?t"
      using cache_okD(12-14)[OF ok] cache_okD(8-10)[OF ok b(1)] by (auto simp: keep env)
    show "\<forall>i n j. holds_block s i n \<longrightarrow> holds_block s j n \<longrightarrow> i = j" using cache_okD(4)[OF ok] by blast
    show "\<forall>i\<in>H. owns_slock (BufSl i) ?t \<and> b_valid (bufs ?t i) \<and> b_dev (bufs ?t i) = DISKDEV \<and>
        b_blockno (bufs ?t i) < disksize ?t"
      using cache_okD(7-10)[OF ok] by (simp add: keep owns_slock_def env)
    show "idle_locks ?t" using cache_okD(1)[OF ok] env by simp
    show "\<forall>i<NBUF. b_refcnt (bufs ?t i) = (if i \<in> H then 1 else 0)" using cache_okD(5)[OF ok] by (simp add: keep)
    show "\<forall>i<NBUF. sl_locked (slocks ?t (BufSl i)) = (i \<in> H)" using cache_okD(6)[OF ok] env by simp
    show "H \<subseteq> {0..<NBUF}" using cache_okD(3)[OF ok] by auto
  qed
  have p: "pinned ?t m \<longleftrightarrow> pinned s m \<or> m = n" for m
    using b(2) unfolding pinned_def d hb by (auto simp: holds_block_def)
  note l = ll[unfolded log_lists_def]
  show "lg_n ?t \<le> lg_n s + 1" "lg_n s \<le> lg_n ?t" by (simp_all add: logged_def Let_def)
  show "0 < lg_n ?t" using l by (auto simp: logged_def Let_def)
  show "fs_frame s ?t" by (simp add: fs_frame_def logged_def Let_def)
  have lg: "lg_start ?t = lg_start s" "lg_size ?t = lg_size s" "lg_dev ?t = lg_dev s" "lg_outstanding ?t = lg_outstanding s"
    by (simp_all add: logged_def Let_def)
  have nd: "n < disksize s" using cache_okD(10)[OF ok b(1)] bN by simp
  show "log_lists ?t"
  proof (cases "\<exists>i<nat (lg_n s). lg_block s i = n")
    case True
    then have k: "lg_n ?t = lg_n s" "lg_block ?t = lg_block s" using bN by (simp_all add: logged_def Let_def)
    have "pinned ?t = pinned s" using True l p by (intro HOL.ext) auto
    then show ?thesis using l by (simp add: log_lists_def log_geo_def logzone_def lg k env)
  next
    case False
    then have k: "lg_n ?t = lg_n s + 1" "lg_block ?t = (lg_block s)(nat (lg_n s) := n)"
      using bN by (auto simp: logged_def Let_def)
    have N: "nat (lg_n s + 1) = Suc (nat (lg_n s))" using l by (simp add: nat_add_distrib)
    have m: "map ((lg_block s)(nat (lg_n s) := n)) [0..<nat (lg_n s)] = map (lg_block s) [0..<nat (lg_n s)]" by auto
    have "distinct (map (lg_block ?t) [0..<nat (lg_n ?t)])" using l False by (auto simp: k N m)
    moreover have "\<forall>m. pinned ?t m \<longleftrightarrow> (\<exists>i<nat (lg_n ?t). m = lg_block ?t i)"
    proof
      fix m
      have "(\<exists>i<Suc (nat (lg_n s)). m = ((lg_block s)(nat (lg_n s) := n)) i) \<longleftrightarrow>
          (\<exists>i<nat (lg_n s). m = lg_block s i) \<or> m = n"
        unfolding less_Suc_eq by (auto intro: exI[of _ "nat (lg_n s)"]) (metis less_irrefl)
      then show "pinned ?t m \<longleftrightarrow> (\<exists>i<nat (lg_n ?t). m = lg_block ?t i)" using l by (simp only: p k N)
    qed
    ultimately show ?thesis using l n nd room
      by (simp add: log_lists_def log_geo_def logzone_def lg k env less_Suc_eq N)
  qed
qed

lemma tx_modify:
  assumes tx: "in_tx H s" and b: "b \<in> H" "holds_block s b n" and n: "n \<notin> logzone s" "n < 2 ^ 32"
    and room: "room E (Suc k) s"
  shows "good E (log_write b (set_data b d s)) (\<lambda>_ t. in_tx H t \<and> holds_block t = holds_block s \<and>
    view t = (view s)(n := content d) \<and> content (b_data (bufs t b)) = content d \<and>
    0 < lg_n t \<and> room E k t \<and> ext H s t)"
proof -
  let ?u = "set_data b d s"
  have u: "?u = upd_buf b (\<lambda>x. x\<lparr>b_data := d\<rparr>) s" by (simp add: set_data_def)
  note st = set_buf_ok[OF in_tx_cache[OF tx] b u]
  have disk: "disk ?u = disk s" "dtrace ?u = dtrace s" "bufs ?u = (bufs s)(b := (bufs s b)\<lparr>b_data := d\<rparr>)" by (simp_all add: u)
  have v: "view ?u = (view s)(n := content d)" using st(4) by (intro HOL.ext) simp
  have p: "pinned ?u = pinned s" by (intro HOL.ext) (simp add: pinned_def st(2,3))
  have ll: "log_lists ?u" by (rule log_lists_cong[OF in_tx_log[OF tx] st(5) p])
  have lg: "lg_n ?u = lg_n s" "lg_size ?u = lg_size s" "logzone ?u = logzone s" "lg_outstanding ?u = lg_outstanding s"
    using bio_frame_log[OF st(5)] by (simp_all add: logzone_def)
  show ?thesis
  proof (cases "lg_n s < lg_size s - 1")
    case True
    then have r: "lg_n ?u < lg_size ?u - 1" by (simp add: lg)
    have hb: "holds_block ?u b n" using b(2) by (simp only: st(2))
    note t = logged_ok[OF st(1) ll b(1) hb _ n(2) r, unfolded lg, OF n(1)]
    have f: "fs_frame s (logged b ?u)"
      using fs_frame_trans[OF bio_frame_fs_frame[OF st(5) disk(1,2)] t(6)] .
    have "clean_at (logged b ?u) i" if "i \<in> H" for i
    proof -
      have "clean_at s i" using tx that by (simp add: in_tx_def)
      moreover have "m \<noteq> n" if "holds_block s i m" "i \<noteq> b" for m
        using cache_okD(4)[OF in_tx_cache[OF tx] b(2)] that by blast
      ultimately show ?thesis using t(3,4,5) st(2,3) v fs_frame_log(6)[OF f] by (auto simp: clean_at_def)
    qed
    moreover have "log_write b ?u = Ok () (logged b ?u)"
      using r ll cache_okD(1)[OF st(1)] room lg(4) by (intro log_write_eq) (auto simp: log_lists_def log_geo_def idle_locks_def room_def)
    moreover have "room E k (logged b ?u)" using room t(7) fs_frame_log(2,4)[OF f] by (auto simp: room_def)
    moreover have "ext H s (logged b ?u)" using f t(3,4,8) st(2,3) by (auto simp: ext_def lg)
    moreover have "holds_block (logged b ?u) = holds_block s" "view (logged b ?u) = (view s)(n := content d)"
      "content (b_data (bufs (logged b ?u) b)) = content d" using t(3,5,10) st(2) v disk by simp_all
    ultimately show ?thesis using t(1,2,9) by (simp add: in_tx_def)
  next
    case False
    then have "exhausted \<subseteq> E" "log_write b ?u = Fail (Panic ''too big a transaction'')"
      using room by (auto simp: room_def log_write_def lg)
    then show ?thesis by (auto simp: exhausted_def)
  qed
qed

subsection \<open>Read, change, log, release\<close>

text \<open>The sequence every change of a single block in \<^verbatim>\<open>fs.c\<close> consists of.\<close>

lemma tx_rmw:
  assumes tx: "in_tx H s" and n: "n < disksize s" "n \<notin> logzone s" "n < 2 ^ 32"
    and free: "\<And>i. holds_block s i n \<Longrightarrow> i \<notin> H" and H: "card H \<le> 1" and room: "room E (Suc k) s"
    and g: "\<And>b t. ext H s t \<Longrightarrow> content (b_data (bufs t b)) = view s n \<Longrightarrow>
      g b t = bnd (log_write b (set_data b (f b t) t)) (\<lambda>_ t. brelse b t) \<and> content (f b t) = c"
  shows "good E (bnd (bread DISKDEV n s) g)
    (\<lambda>_ t. in_tx H t \<and> view t = (view s)(n := c) \<and> 0 < lg_n t \<and> room E k t \<and> ext H s t)"
proof (rule good_bnd[OF tx_bread[OF tx n(1) free H room_mono[OF room]]], assumption, simp, (elim conjE)?)
  fix b t
  assume t: "in_tx (insert b H) t" "b \<notin> H" "holds_block t b n" "content (b_data (bufs t b)) = view s n"
    "view t = view s" "lg_n t = lg_n s" "ext H s t"
  have n': "n \<notin> logzone t" using n(2) ext_log[OF t(7)] by (simp add: logzone_def)
  have room': "room E (Suc k) t" using room room_ext[OF t(7,6)] by simp
  note cc = g[OF t(7,4), THEN conjunct2]
  show "good E (g b t) (\<lambda>_ t. in_tx H t \<and> view t = (view s)(n := c) \<and> 0 < lg_n t \<and> room E k t \<and> ext H s t)"
    unfolding g[OF t(7,4), THEN conjunct1]
  proof (rule good_bnd[OF tx_modify[OF t(1) insertI1 t(3) n' n(3) room']], elim conjE)
    fix x u
    assume u: "in_tx (insert b H) u" "holds_block u = holds_block t" "view u = (view t)(n := content (f b t))"
      "room E k u" "ext (insert b H) t u" "0 < lg_n u"
    have bu: "holds_block u b n" using u(2) t(3) by simp
    show "good E (brelse b u) (\<lambda>_ t. in_tx H t \<and> view t = (view s)(n := c) \<and> 0 < lg_n t \<and> room E k t \<and> ext H s t)"
    proof (rule good_mono[OF good_okpost[OF tx_brelse[OF u(1) insertI1 bu]]], elim conjE)
      fix y w
      assume w: "in_tx (insert b H - {b}) w" "view w = view u" "lg_n w = lg_n u" "ext (insert b H) u w"
      have "ext H s w" using ext_trans[OF t(7) ext_mono[OF ext_trans[OF u(5) w(4)] subset_insertI]] .
      moreover have "room E k w" using u(4) room_ext[OF w(4,3)] by simp
      ultimately show "in_tx H w \<and> view w = (view s)(n := c) \<and> 0 < lg_n w \<and> room E k w \<and> ext H s w"
        using w(1-3) u(3,6) t(2,5) cc by simp
    qed
  qed
qed

end
