(* ===== verification/Xv6_Fs_Blocks.thy ===== *)
theory Xv6_Fs_Blocks
  imports Xv6_Fs_Tx
begin

section \<open>The free block bitmap\<close>

text \<open>
  The bitmap as a set of used blocks: \<^verbatim>\<open>balloc\<close> returns the lowest free block, zeroed, and marks it used; \<^verbatim>\<open>bfree\<close>
  clears the mark of a used block. Neither changes a block outside the bitmap, apart from the zeroed one.
\<close>

subsection \<open>Bits\<close>

definition zeros :: "u8 list" where
  "zeros = replicate BSIZE 0"

definition nbitmap :: "superblock \<Rightarrow> nat" where
  "nbitmap b = (sb_size b + BPB - 1) div BPB"

definition dstart :: "superblock \<Rightarrow> nat" where
  "dstart b = sb_bmapstart b + nbitmap b"

definition used :: "superblock \<Rightarrow> (nat \<Rightarrow> u8 list) \<Rightarrow> nat \<Rightarrow> bool" where
  "used x v b \<longleftrightarrow> bit_used (\<lambda>i. v (BBLOCK b x) ! i) (b mod BPB)"

lemma BPB_pos [simp]: "0 < BPB"
  by (simp add: BPB_def BSIZE_def)

lemma nth_content [simp]: "i < BSIZE \<Longrightarrow> content d ! i = d i"
  by (simp add: content_def)

lemma length_view [simp]: "length (view s n) = BSIZE"
  by (simp add: view_def content_def split: option.splits)

lemma content_view [simp]: "content (\<lambda>i. view s n ! i) = view s n"
  by (simp add: content_def list_eq_iff_nth_eq)

lemma bit_byte: "bi < BPB \<Longrightarrow> bi div 8 < BSIZE"
  by (auto simp: BPB_def)

lemma bit_used_content: "bi < BPB \<Longrightarrow> bit_used (\<lambda>i. content d ! i) bi = bit_used d bi"
  by (simp add: bit_used_def bit_byte)

lemma bit_used_bit: "bit_used d bi = bit (d (bi div 8)) (bi mod 8)"
  by (simp add: bit_used_def and_exp_eq_0_iff_not_bit push_bit_of_1)

lemma bit_mask: "bit (2 ^ (bj mod 8) :: u8) (bi mod 8) \<longleftrightarrow> bi mod 8 = bj mod 8"
  by (auto simp: bit_exp_iff)

lemma bi_split: "bi div 8 = bj div 8 \<Longrightarrow> bi mod 8 = bj mod 8 \<Longrightarrow> bi = (bj :: nat)"
  by (metis div_mult_mod_eq)

lemma bit_used_mark_used: "bit_used (mark_used bj d) bi \<longleftrightarrow> bi = bj \<or> bit_used d bi"
  by (auto simp: bit_used_bit mark_used_def bit_or_iff bit_mask dest: bi_split)

lemma bit_used_mark_free: "bit_used (mark_free bj d) bi \<longleftrightarrow> bi \<noteq> bj \<and> bit_used d bi"
  by (auto simp: bit_used_bit mark_free_def bit_and_iff bit_not_iff bit_mask dest: bi_split)

lemma BBLOCK_inj: "BBLOCK a x = BBLOCK b x \<Longrightarrow> a mod BPB = b mod BPB \<Longrightarrow> a = b"
  unfolding BBLOCK_def by (metis add_right_cancel div_mult_mod_eq)

lemma BBLOCK_bitmap: "b < sb_size x \<Longrightarrow> BBLOCK b x \<in> {sb_bmapstart x..<dstart x}"
proof -
  assume b: "b < sb_size x"
  have "b div BPB < (sb_size x + BPB - 1) div BPB"
  proof -
    have "b div BPB * BPB < sb_size x" using b div_times_less_eq_dividend[of b BPB] by linarith
    then have "(b div BPB + 1) * BPB \<le> sb_size x + BPB - 1" by simp
    then show ?thesis using less_eq_div_iff_mult_less_eq[OF BPB_pos, of "b div BPB + 1"] by (simp add: less_eq_Suc_le)
  qed
  then show ?thesis by (simp add: BBLOCK_def dstart_def nbitmap_def)
qed

lemma used_update:
  assumes "content e = v (BBLOCK a x)" and "\<And>bi. bit_used d bi \<longleftrightarrow> (if bi = a mod BPB then r else bit_used e bi)"
  shows "used x (v(BBLOCK a x := content d)) b \<longleftrightarrow> (if b = a then r else used x v b)"
proof (cases "BBLOCK b x = BBLOCK a x")
  case True
  have "used x v b = bit_used e (b mod BPB)" using True assms(1)[symmetric] bit_used_content[of "b mod BPB" e] by (simp add: used_def)
  moreover have "used x (v(BBLOCK a x := content d)) b = bit_used d (b mod BPB)"
    using True bit_used_content[of "b mod BPB" d] by (simp add: used_def)
  ultimately show ?thesis using assms(2) BBLOCK_inj[OF True] by auto
qed (auto simp: used_def)

subsection \<open>The layout of the disk\<close>

text \<open>
  The layout \<^verbatim>\<open>mkfs\<close> writes: boot block, super block, log, inodes, bitmap, data; \<open>fs_ok\<close> adds that the blocks before the
  data are marked used.
\<close>

definition fs_layout :: "'a fs_state_scheme \<Rightarrow> bool" where
  "fs_layout s \<longleftrightarrow> logzone s \<subseteq> {2..<sb_inodestart (sb s)} \<and>
     sb_inodestart (sb s) + sb_ninodes (sb s) div IPB + 1 \<le> sb_bmapstart (sb s) \<and>
     dstart (sb s) \<le> sb_size (sb s) \<and> sb_size (sb s) \<le> disksize s \<and> sb_size (sb s) < 2 ^ 32"

definition meta_used :: "superblock \<Rightarrow> (nat \<Rightarrow> u8 list) \<Rightarrow> bool" where
  "meta_used x v \<longleftrightarrow> (\<forall>b<dstart x. used x v b)"

definition isdata :: "superblock \<Rightarrow> nat \<Rightarrow> bool" where
  "isdata x n \<longleftrightarrow> dstart x \<le> n \<and> n < sb_size x"

text \<open>\<open>locked_data H s\<close>: the locked buffers hold used data blocks.\<close>

definition locked_data :: "nat set \<Rightarrow> 'a fs_state_scheme \<Rightarrow> bool" where
  "locked_data H s \<longleftrightarrow> card H \<le> 1 \<and>
     (\<forall>i\<in>H. \<exists>m. holds_block s i m \<and> isdata (sb s) m \<and> used (sb s) (view s) m)"

lemma locked_data_empty [simp]: "locked_data {} s"
  by (simp add: locked_data_def)

lemma holds_block_fun: "holds_block s i m \<Longrightarrow> holds_block s i n \<Longrightarrow> m = n"
  by (simp add: holds_block_def)

lemma locked_data_free:
  "locked_data H s \<Longrightarrow> \<not> (isdata (sb s) n \<and> used (sb s) (view s) n) \<Longrightarrow> holds_block s i n \<Longrightarrow> i \<notin> H"
  unfolding locked_data_def using holds_block_fun by blast

lemma fs_layout_ext: "ext H s t \<Longrightarrow> fs_layout s \<Longrightarrow> fs_layout t"
  by (simp add: fs_layout_def ext_fs logzone_def ext_log)

lemma locked_data_ext:
  assumes "ext H s t" and "locked_data H s" and "\<And>m. isdata (sb s) m \<Longrightarrow> used (sb s) (view s) m \<Longrightarrow> used (sb s) (view t) m"
  shows "locked_data H t"
  unfolding locked_data_def ext_fs(1)[OF assms(1)]
proof (intro conjI ballI)
  show "card H \<le> 1" using assms(2) by (simp add: locked_data_def)
  fix i
  assume i: "i \<in> H"
  then obtain m where m: "holds_block s i m" "isdata (sb s) m" "used (sb s) (view s) m"
    using assms(2) by (auto simp: locked_data_def)
  moreover have "holds_block t i m" using m(1) i assms(1) by (auto simp: ext_def)
  ultimately show "\<exists>m. holds_block t i m \<and> isdata (sb s) m \<and> used (sb s) (view t) m" using assms(3) by blast
qed

lemma layout_block:
  assumes "fs_layout s" and "n < sb_size (sb s)" and "sb_inodestart (sb s) \<le> n"
  shows "n < disksize s" and "n \<notin> logzone s" and "n < 2 ^ 32"
  using assms by (auto simp: fs_layout_def)

subsection \<open>Allocating and freeing\<close>

lemma content_zeros: "content (memset d 0 0 BSIZE) = zeros"
  by (simp add: content_def memset_eq zeros_def list_eq_iff_nth_eq)

lemma bzero_tx:
  assumes "in_tx H s" and "n < disksize s" "n \<notin> logzone s" "n < 2 ^ 32"
    and "\<And>i. holds_block s i n \<Longrightarrow> i \<notin> H" and "card H \<le> 1" and "room E (Suc k) s"
  shows "good E (bzero DISKDEV n s) (\<lambda>_ t. in_tx H t \<and> view t = (view s)(n := zeros) \<and> room E k t \<and> ext H s t)"
  unfolding bzero_def Let_def 
  by (rule good_mono[OF tx_rmw[OF assms, where c = zeros and f = "\<lambda>b t. memset (b_data (bufs t b)) 0 0 BSIZE"]])
    (simp_all add: content_zeros)

text \<open>\<open>allocated H s a t\<close>: what \<^verbatim>\<open>balloc\<close> does when it returns \<open>a\<close>.\<close>

definition allocated :: "nat set \<Rightarrow> 'a fs_state_scheme \<Rightarrow> nat \<Rightarrow> 'a fs_state_scheme \<Rightarrow> bool" where
  "allocated H s a t \<longleftrightarrow> isdata (sb s) a \<and> \<not> used (sb s) (view s) a \<and> (\<forall>b<a. used (sb s) (view s) b) \<and>
     view t a = zeros \<and> (\<forall>b< sb_size (sb s). used (sb s) (view t) b \<longleftrightarrow> b = a \<or> used (sb s) (view s) b) \<and>
     (\<forall>n. n \<noteq> a \<longrightarrow> n \<notin> {sb_bmapstart (sb s)..<dstart (sb s)} \<longrightarrow> view t n = view s n) \<and> ext H s t"

definition avail :: "string set \<Rightarrow> nat \<Rightarrow> superblock \<Rightarrow> (nat \<Rightarrow> u8 list) \<Rightarrow> bool" where
  "avail E k x v \<longleftrightarrow> exhausted \<subseteq> E \<or> k \<le> card {b. b < sb_size x \<and> \<not> used x v b}"

lemma allocated_avail:
  assumes "allocated H s a t" and "avail E (Suc k) (sb s) (view s)"
  shows "avail E k (sb s) (view t)"
proof -
  let ?F = "\<lambda>v. {b. b < sb_size (sb s) \<and> \<not> used (sb s) v b}"
  have "\<forall>b < sb_size (sb s). used (sb s) (view t) b \<longleftrightarrow> b = a \<or> used (sb s) (view s) b"
    using assms(1) unfolding allocated_def by blast
  then have "?F (view t) = ?F (view s) - {a}" by auto
  moreover have "a \<in> ?F (view s)" using assms(1) unfolding allocated_def isdata_def by blast
  moreover have "finite (?F (view s))" by simp
  ultimately have "card (?F (view t)) = card (?F (view s)) - 1" by simp
  then show ?thesis using assms(2) unfolding avail_def by linarith
qed

lemma used_zeroed:
  assumes "b < sb_size x" and "dstart x \<le> a"
  shows "used x (v(a := c)) b = used x v b"
proof -
  have "BBLOCK b x \<noteq> a" using BBLOCK_bitmap[OF assms(1)] assms(2) by auto
  then show ?thesis by (simp add: used_def)
qed

lemma layout_bitmap:
  assumes "fs_layout s" and "b < sb_size (sb s)"
  shows "BBLOCK b (sb s) < disksize s" and "BBLOCK b (sb s) \<notin> logzone s" and "BBLOCK b (sb s) < 2 ^ 32"
    and "\<not> isdata (sb s) (BBLOCK b (sb s))" and "BBLOCK b (sb s) < sb_size (sb s)" and "sb_inodestart (sb s) \<le> BBLOCK b (sb s)"
proof -
  note b = BBLOCK_bitmap[OF assms(2)]
  show s: "BBLOCK b (sb s) < sb_size (sb s)" "sb_inodestart (sb s) \<le> BBLOCK b (sb s)" using b assms(1) by (auto simp: fs_layout_def)
  show "BBLOCK b (sb s) < disksize s" "BBLOCK b (sb s) \<notin> logzone s" "BBLOCK b (sb s) < 2 ^ 32"
    using layout_block[OF assms(1) s] .
  show "\<not> isdata (sb s) (BBLOCK b (sb s))" using b by (auto simp: isdata_def)
qed

text \<open>The path of \<^verbatim>\<open>balloc\<close> after a free bit was found in the bitmap block held in \<open>p\<close>.\<close>

lemma balloc_take:
  assumes tx: "in_tx (insert p H) t" and p: "p \<notin> H" "holds_block t p (BBLOCK a (sb s))"
    and d: "content (b_data (bufs t p)) = view s (BBLOCK a (sb s))" and v: "view t = view s" and e: "ext H s t"
    and lay: "fs_layout s" and lock: "locked_data H s" and meta: "meta_used (sb s) (view s)"
    and room: "room E (Suc (Suc k)) t"
    and a: "a < sb_size (sb s)" "\<not> used (sb s) (view s) a" "\<forall>b<a. used (sb s) (view s) b"
  shows "good E (bnd (log_write p (set_data p (mark_used (a mod BPB) (b_data (bufs t p))) t)) (\<lambda>_ s.
      bnd (brelse p s) (\<lambda>_ s. bnd (bzero DISKDEV a s) (\<lambda>_ s. Ok a s))))
    (\<lambda>b t. b = a \<and> in_tx H t \<and> room E k t \<and> allocated H s a t)"
proof -
  let ?x = "sb s" and ?d = "mark_used (a mod BPB) (b_data (bufs t p))"
  note x = ext_fs(1)[OF e]
  note lb = layout_bitmap[OF fs_layout_ext[OF e lay], unfolded x, OF a(1)]
  have ad: "dstart ?x \<le> a" using meta a(2) by (meson meta_used_def not_le)
  note la = layout_block[OF lay a(1)]
  have ia: "sb_inodestart ?x \<le> a" using ad lay by (auto simp: fs_layout_def dstart_def)
  let ?v = "(view s)(BBLOCK a ?x := content ?d)"
  have us: "used ?x ?v b \<longleftrightarrow> b = a \<or> used ?x (view s) b" for b
    using used_update[where v = "view s", OF d, where d = ?d and r = True] by (auto simp: bit_used_mark_used)
  show ?thesis
  proof (rule good_bnd[OF tx_modify[OF tx insertI1 p(2) lb(2,3) room]], elim conjE)
    fix y u
    assume u: "in_tx (insert p H) u" "holds_block u = holds_block t" "view u = (view t)(BBLOCK a ?x := content ?d)"
      "room E (Suc k) u" "ext (insert p H) t u"
    have pu: "holds_block u p (BBLOCK a ?x)" using u(2) p(2) by simp
    show "good E (bnd (brelse p u) (\<lambda>_ s. bnd (bzero DISKDEV a s) (\<lambda>_ s. Ok a s)))
        (\<lambda>b t. b = a \<and> in_tx H t \<and> room E k t \<and> allocated H s a t)"
    proof (rule good_bnd[OF good_okpost[OF tx_brelse[OF u(1) insertI1 pu]]], elim conjE)
      fix y w
      assume w: "in_tx (insert p H - {p}) w" "view w = view u" "lg_n w = lg_n u" "ext (insert p H) u w"
      have ew: "ext H s w" using ext_trans[OF e ext_mono[OF ext_trans[OF u(5) w(4)] subset_insertI]] .
      have Hw: "in_tx H w" using w(1) p(1) by simp
      have vw: "view w = ?v" using w(2) u(3) v by simp
      have rw: "room E (Suc k) w" using u(4) room_ext[OF w(4,3)] by simp
      have lw: "locked_data H w" using us by (intro locked_data_ext[OF ew lock]) (simp add: vw)
      have free: "i \<notin> H" if "holds_block w i a" for i
      proof
        assume i: "i \<in> H"
        then have "holds_block s i a" using that ew by (auto simp: ext_def)
        then show False using locked_data_free[OF lock, of a i] a(2) i by blast
      qed
      have na: "a < disksize w" "a \<notin> logzone w" using la(1,2) ia ext_log[OF ew] by (simp_all add: logzone_def)
      show "good E (bnd (bzero DISKDEV a w) (\<lambda>_ s. Ok a s)) (\<lambda>b t. b = a \<and> in_tx H t \<and> room E k t \<and> allocated H s a t)"
      proof (rule good_bnd[OF bzero_tx[OF Hw na la(3)[OF ia] free _ rw]])
        show "card H \<le> 1" using lock by (simp add: locked_data_def)
        fix y z
        assume z: "in_tx H z \<and> view z = (view w)(a := zeros) \<and> room E k z \<and> ext H w z"
        have "allocated H s a z"
          unfolding allocated_def
        proof (intro conjI allI impI)
          show "ext H s z" using ext_trans[OF ew] z by blast
          show "used ?x (view z) b \<longleftrightarrow> b = a \<or> used ?x (view s) b" if "b < sb_size ?x" for b
            using z us used_zeroed[OF that ad] by (simp add: vw)
          show "view z n = view s n" if "n \<noteq> a" "n \<notin> {sb_bmapstart ?x..<dstart ?x}" for n
            using that BBLOCK_bitmap[OF a(1)] z vw by auto
        qed (use a ad z in \<open>auto simp: isdata_def\<close>)
        then show "good E (Ok a z) (\<lambda>b t. b = a \<and> in_tx H t \<and> room E k t \<and> allocated H s a t)" using z by simp
      qed
    qed
  qed
qed

lemma balloc_scan_tx:
  assumes "in_tx H s" and "fs_layout s" and "locked_data H s" and "meta_used (sb s) (view s)"
    and "room E (Suc (Suc k)) s" and "avail E 1 (sb s) (view s)"
    and "\<forall>b < sb_size (sb s). b < j * BPB \<longrightarrow> used (sb s) (view s) b"
  shows "good E (balloc_scan DISKDEV (map (\<lambda>k. k * BPB) [j..<nbitmap (sb s)]) s)
    (\<lambda>a t. in_tx H t \<and> room E k t \<and> allocated H s a t)"
  using assms
proof (induction "nbitmap (sb s) - j" arbitrary: j s)
  case 0
  have "sb_size (sb s) \<le> j * BPB"
  proof (rule ccontr)
    assume "\<not> sb_size (sb s) \<le> j * BPB"
    then have "BBLOCK (j * BPB) (sb s) < dstart (sb s)" using BBLOCK_bitmap[of "j * BPB" "sb s"] by simp
    then show False using 0(1) by (simp add: BBLOCK_def dstart_def)
  qed
  then have "{b. b < sb_size (sb s) \<and> \<not> used (sb s) (view s) b} = {}" using 0(8) by auto
  then have "exhausted \<subseteq> E" using 0(7) unfolding avail_def by (metis card.empty not_one_le_zero)
  then show ?case using 0(1) by (auto simp: exhausted_def)
next
  case (Suc x)
  let ?b = "j * BPB"
  have j: "[j..<nbitmap (sb s)] = j # [Suc j..<nbitmap (sb s)]" using Suc(2) by (simp add: upt_conv_Cons)
  have bs: "?b < sb_size (sb s)"
  proof (rule ccontr)
    assume "\<not> ?thesis"
    then have "sb_size (sb s) + BPB - 1 < (j + 1) * BPB" using BPB_pos unfolding distrib_right by linarith
    then show False using Suc(2) by (simp add: nbitmap_def less_mult_imp_div_less leD flip: less_Suc_eq_le)
  qed
  note lb = layout_bitmap[OF Suc.prems(2) bs]
  have H: "card H \<le> 1" using Suc.prems(3) by (simp add: locked_data_def)
  have free: "i \<notin> H" if "holds_block s i (BBLOCK ?b (sb s))" for i
    using locked_data_free[OF Suc.prems(3) _ that] lb(4) by blast
  have r0: "room E 0 s" using room_mono[OF Suc.prems(5)] by simp
  show ?case
    unfolding j list.map balloc_scan.simps
  proof (rule good_bnd[OF tx_bread[OF Suc.prems(1) lb(1) free H r0]], assumption, elim conjE)
    fix p t
    assume t: "in_tx (insert p H) t" "p \<notin> H" "holds_block t p (BBLOCK ?b (sb s))"
      "content (b_data (bufs t p)) = view s (BBLOCK ?b (sb s))" "view t = view s" "lg_n t = lg_n s" "ext H s t"
    note x = ext_fs(1)[OF t(7)]
    let ?P = "\<lambda>bi. \<not> bit_used (b_data (bufs t p)) bi"
    have bu: "used (sb s) (view s) (?b + bi) = bit_used (b_data (bufs t p)) bi"
        "BBLOCK (?b + bi) (sb s) = BBLOCK ?b (sb s)" "(?b + bi) mod BPB = bi" if "bi < BPB" for bi
    proof -
      show BB: "BBLOCK (?b + bi) (sb s) = BBLOCK ?b (sb s)" "(?b + bi) mod BPB = bi"
        using that by (simp_all add: BBLOCK_def)
      show "used (sb s) (view s) (?b + bi) = bit_used (b_data (bufs t p)) bi"
        unfolding used_def BB using bit_used_content[OF that, of "b_data (bufs t p)"] t(4) by simp
    qed
    show "good E (case List.find ?P [0..<min BPB (sb_size (sb t) - ?b)] of
          Some bi \<Rightarrow> let u = set_data p (mark_used bi (b_data (bufs t p))) t
            in bnd (log_write p u) (\<lambda>_ u. bnd (brelse p u) (\<lambda>_ u. bnd (bzero DISKDEV (?b + bi) u) (\<lambda>_ u. Ok (?b + bi) u)))
        | None \<Rightarrow> bnd (brelse p t) (\<lambda>_ u. balloc_scan DISKDEV (map (\<lambda>k. k * BPB) [Suc j..<nbitmap (sb s)]) u))
        (\<lambda>a t. in_tx H t \<and> room E k t \<and> allocated H s a t)"
    proof (cases "List.find ?P [0..<min BPB (sb_size (sb t) - ?b)]")
      case (Some bi)
      have bi: "bi < BPB" "?b + bi < sb_size (sb s)" "?P bi" "\<forall>c<bi. \<not> ?P c"
        using find_upt_Some[OF Some] by (auto simp: x)
      have "used (sb s) (view s) c" if "c < ?b + bi" for c
      proof (cases "c < ?b")
        case True
        then show ?thesis using Suc.prems(7) bs by simp
      next
        case False
        then obtain e where "c = ?b + e" using le_Suc_ex[of ?b c] by auto
        then show ?thesis using bu(1)[of e] bi(1,4) that by auto
      qed
      then have "good E (bnd (log_write p (set_data p (mark_used ((?b + bi) mod BPB) (b_data (bufs t p))) t)) (\<lambda>_ s.
          bnd (brelse p s) (\<lambda>_ s. bnd (bzero DISKDEV (?b + bi) s) (\<lambda>_ s. Ok (?b + bi) s))))
          (\<lambda>b t. b = ?b + bi \<and> in_tx H t \<and> room E k t \<and> allocated H s (?b + bi) t)"
        using bi bu[OF bi(1)] t Suc.prems(5) room_ext[OF t(7,6)]
        by (intro balloc_take[OF t(1,2) _ _ t(5,7) Suc.prems(2,3,4)]) simp_all
      then show ?thesis using Some bu(3)[OF bi(1)] by (auto simp: Let_def elim!: good_mono)
    next
      case None
      have "used (sb s) (view s) c" if c: "c < sb_size (sb s)" "c < Suc j * BPB" for c
      proof (cases "c < ?b")
        case False
        then obtain e where "c = ?b + e" using le_Suc_ex[of ?b c] by auto
        then show ?thesis using bu(1)[of e] c None by (auto simp: find_None_iff x)
      qed (use Suc.prems(7) c in simp)
      moreover have "good E (brelse p t) (\<lambda>_ u. in_tx H u \<and> view u = view s \<and> lg_n u = lg_n s \<and> ext H s u)"
        using t ext_trans[OF t(7) ext_mono[OF _ subset_insertI]]
        by (intro good_mono[OF good_okpost[OF tx_brelse[OF t(1) insertI1 t(3)]]]) auto
      ultimately show ?thesis
        unfolding None option.case
      proof (elim good_bnd conjE)
        fix y u
        assume all: "\<And>c. c < sb_size (sb s) \<Longrightarrow> c < Suc j * BPB \<Longrightarrow> used (sb s) (view s) c"
          and u: "in_tx H u" "view u = view s" "lg_n u = lg_n s" "ext H s u"
        note x = ext_fs(1)[OF u(4)]
        have "good E (balloc_scan DISKDEV (map (\<lambda>k. k * BPB) [Suc j..<nbitmap (sb u)]) u)
            (\<lambda>a t. in_tx H t \<and> room E k t \<and> allocated H u a t)"
          using Suc.prems Suc(2) u all room_ext[OF u(4,3)]
          by (intro Suc.hyps(1)) (simp_all add: x fs_layout_ext[OF u(4)] locked_data_ext[OF u(4)])
        then show "good E (balloc_scan DISKDEV (map (\<lambda>k. k * BPB) [Suc j..<nbitmap (sb s)]) u)
            (\<lambda>a t. in_tx H t \<and> room E k t \<and> allocated H s a t)"
          unfolding x using ext_trans[OF u(4)]
          by (elim good_mono) (simp add: allocated_def x u(2))
      qed
    qed
  qed
qed

lemma balloc_tx:
  assumes "in_tx H s" and "fs_layout s" and "locked_data H s" and "meta_used (sb s) (view s)"
    and "room E (Suc (Suc k)) s" and "avail E 1 (sb s) (view s)"
  shows "good E (balloc DISKDEV s) (\<lambda>a t. in_tx H t \<and> room E k t \<and> allocated H s a t)"
  using balloc_scan_tx[OF assms, of 0] by (simp add: balloc_def nbitmap_def)

text \<open>\<^verbatim>\<open>bfree\<close> of a used data block clears its mark and changes nothing outside the bitmap; freeing a free block panics.\<close>

definition freed :: "nat set \<Rightarrow> 'a fs_state_scheme \<Rightarrow> nat \<Rightarrow> 'a fs_state_scheme \<Rightarrow> bool" where
  "freed H s a t \<longleftrightarrow>
     (\<forall>b < sb_size (sb s). used (sb s) (view t) b \<longleftrightarrow> b \<noteq> a \<and> used (sb s) (view s) b) \<and>
     (\<forall>n. n \<notin> {sb_bmapstart (sb s)..<dstart (sb s)} \<longrightarrow> view t n = view s n) \<and> ext H s t"

lemma bfree_tx:
  assumes tx: "in_tx H s" and lay: "fs_layout s" and lock: "locked_data H s" and room: "room E (Suc k) s"
    and a: "a < sb_size (sb s)"
  shows "good (if used (sb s) (view s) a then E else insert ''freeing free block'' E) (bfree DISKDEV a s)
    (\<lambda>_ t. used (sb s) (view s) a \<and> in_tx H t \<and> room E k t \<and> freed H s a t)"
proof -
  let ?n = "BBLOCK a (sb s)"
  note lb = layout_bitmap[OF lay a]
  have H: "card H \<le> 1" using lock by (simp add: locked_data_def)
  have free: "i \<notin> H" if "holds_block s i ?n" for i
    using locked_data_free[OF lock _ that] lb(4) by blast
  have bu: "bit_used d (a mod BPB) = used (sb s) (view s) a" if "content d = view s ?n" for d
    using bit_used_content[of "a mod BPB" d] that by (simp add: used_def)
  show ?thesis
  proof (cases "used (sb s) (view s) a")
    case False
    let ?E = "insert ''freeing free block'' E"
    have r0: "room ?E 0 s" using room by (auto simp: room_def)
    have "good ?E (bfree DISKDEV a s) (\<lambda>_ t. False)"
      unfolding bfree_def
      by (rule good_bnd[OF tx_bread[OF tx lb(1) free H r0]], assumption) (use False in \<open>auto simp: bu\<close>)
    then show ?thesis using False by simp
  next
    case True
    define c where "c = content (mark_free (a mod BPB) (\<lambda>i. view s ?n ! i))"
    have c: "content (mark_free (a mod BPB) d) = c" if "content d = view s ?n" for d
      using that bit_byte[of "a mod BPB"] by (auto simp: c_def content_def mark_free_def list_eq_iff_nth_eq)
    have "freed H s a t" if "view t = (view s)(?n := c)" "ext H s t" for t
    proof -
      have "used (sb s) ((view s)(?n := c)) b \<longleftrightarrow> (if b = a then False else used (sb s) (view s) b)" for b
        unfolding c_def by (rule used_update[where e = "\<lambda>i. view s ?n ! i"])
          (simp_all add: bit_used_mark_free)
      then show ?thesis using that BBLOCK_bitmap[OF a] by (auto simp: freed_def)
    qed
    then show ?thesis
      unfolding bfree_def using True
      by (simp, intro good_mono[OF tx_rmw[OF tx lb(1-3) free H room, where c = c and
            f = "\<lambda>p t. mark_free (a mod BPB) (b_data (bufs t p))"]]) (simp_all add: bu c)
  qed
qed

end
