(* ===== verification/Xv6_Fs_Map.thy ===== *)
theory Xv6_Fs_Map
  imports Xv6_Fs_Blocks
begin

section \<open>The blocks of a file\<close>

text \<open>
  The tree of blocks an inode maps: a node is named by the slot of the inode and the entries on the way down. A file
  is well formed when its nodes are different used data blocks. \<^verbatim>\<open>bmap\<close> adds the missing nodes on the way to a block
  of the file; the blocks already mapped, their contents and all other blocks stay.
\<close>

subsection \<open>Nodes\<close>

definition word_at :: "(nat \<Rightarrow> u8 list) \<Rightarrow> nat \<Rightarrow> nat \<Rightarrow> nat" where
  "word_at v b j = unat (get32 (\<lambda>i. v b ! i) (4 * j))"

primrec look :: "(nat \<Rightarrow> u8 list) \<Rightarrow> nat \<Rightarrow> nat list \<Rightarrow> nat" where
  "look v a [] = a"
| "look v a (j # js) = (if a = 0 then 0 else look v (word_at v a j) js)"

type_synonym fpath = "nat \<times> nat list"

fun node :: "(nat \<Rightarrow> u8 list) \<Rightarrow> (nat \<Rightarrow> nat) \<Rightarrow> fpath \<Rightarrow> nat" where
  "node v A (i, js) = look v (A i) js"

definition lev :: "nat \<Rightarrow> nat" where
  "lev i = i + 1 - NDIRECT"

fun vpath :: "fpath \<Rightarrow> bool" where
  "vpath (i, js) \<longleftrightarrow> i < NDIRECT + 3 \<and> length js \<le> lev i \<and> (\<forall>j\<in>set js. j < NINDIRECT)"

fun full :: "fpath \<Rightarrow> bool" where
  "full (i, js) \<longleftrightarrow> length js = lev i"

fun down :: "fpath \<Rightarrow> nat \<Rightarrow> fpath" where
  "down (i, js) j = (i, js @ [j])"

lemma look_zero [simp]: "look v 0 js = 0"
  by (cases js) auto

lemma look_append: "look v a (js @ ks) = look v (look v a js) ks"
  by (induction js arbitrary: a) auto

lemma node_down: "node v A (down p j) = (if node v A p = 0 then 0 else word_at v (node v A p) j)"
  by (cases p) (simp add: look_append)

lemma vpath_down: "vpath (down p j) \<longleftrightarrow> vpath p \<and> \<not> full p \<and> j < NINDIRECT"
  by (cases p) auto

lemma down_eq [simp]: "down p j = down q k \<longleftrightarrow> p = q \<and> j = k"
  by (cases p; cases q) auto

lemma fpath_induct [consumes 1, case_names slot down]:
  assumes "vpath p" and "\<And>i. i < NDIRECT + 3 \<Longrightarrow> P (i, [])" and "\<And>p j. vpath (down p j) \<Longrightarrow> P p \<Longrightarrow> P (down p j)"
  shows "P p"
proof (cases p)
  case (Pair i js)
  have "vpath (i, js) \<Longrightarrow> P (i, js)"
  proof (induction js rule: rev_induct)
    case (snoc j js)
    then have "P (i, js)" by simp
    then show ?case using assms(3)[of "(i, js)" j] snoc.prems by simp
  qed (use assms(2) in simp)
  then show ?thesis using assms(1) by (simp add: Pair)
qed

lemma down_slot [simp]: "down p j \<noteq> (i, [])" "(i, []) \<noteq> down p j"
  by (cases p; auto)+

lemma word_at_zeros [simp]: "v b = zeros \<Longrightarrow> j < NINDIRECT \<Longrightarrow> word_at v b j = 0"
  by (simp add: word_at_def zeros_def get32_def NINDIRECT_def BSIZE_def)

lemma get32_content_entry: "j < NINDIRECT \<Longrightarrow> get32 (\<lambda>i. content d ! i) (4 * j) = get32 d (4 * j)"
  by (rule get32_content) (simp add: NINDIRECT_def BSIZE_def)

lemma word_at_content: "v b = content d \<Longrightarrow> j < NINDIRECT \<Longrightarrow> word_at v b j = unat (get32 d (4 * j))"
  by (simp add: word_at_def get32_content_entry)

lemma word_at_put:
  assumes "v' b = content (put32 d (4 * j) (of_nat n))" and "v b = content d" and "j < NINDIRECT" "k < NINDIRECT" "n < 2 ^ 32"
  shows "word_at v' b k = (if k = j then n else word_at v b k)"
proof -
  have "4 * k + 4 \<le> 4 * j \<or> 4 * j + 4 \<le> 4 * k" if "k \<noteq> j" using that by arith
  then show ?thesis using assms(3-5)
    by (simp add: word_at_content[of v', OF assms(1)] word_at_content[of v, OF assms(2)] get32_put32_other
        unsigned_of_nat take_bit_nat_eq_self)
qed

subsection \<open>Well-formed files\<close>

definition file_ok :: "superblock \<Rightarrow> (nat \<Rightarrow> u8 list) \<Rightarrow> (nat \<Rightarrow> nat) \<Rightarrow> bool" where
  "file_ok x v A \<longleftrightarrow>
     (\<forall>p. vpath p \<longrightarrow> node v A p \<noteq> 0 \<longrightarrow> isdata x (node v A p) \<and> used x v (node v A p)) \<and>
     (\<forall>p q. vpath p \<longrightarrow> vpath q \<longrightarrow> node v A p \<noteq> 0 \<longrightarrow> node v A p = node v A q \<longrightarrow> p = q)"

lemma file_okD:
  assumes "file_ok x v A"
  shows "vpath p \<Longrightarrow> node v A p \<noteq> 0 \<Longrightarrow> isdata x (node v A p)"
    and "vpath p \<Longrightarrow> node v A p \<noteq> 0 \<Longrightarrow> used x v (node v A p)"
    and "vpath p \<Longrightarrow> vpath q \<Longrightarrow> node v A p \<noteq> 0 \<Longrightarrow> node v A p = node v A q \<Longrightarrow> p = q"
  using assms unfolding file_ok_def by blast+

text \<open>
  Hanging a zeroed block \<open>a\<close>, unused so far, at the free place \<open>p\<close>: only the node \<open>p\<close> changes. The premise on \<open>v'\<close>
  allows the parent of \<open>p\<close> to change.
\<close>

lemma node_grow_slot:
  assumes ok: "file_ok x v A" and i: "i < NDIRECT + 3" "A i = 0" and a: "a \<noteq> 0" "\<not> used x v a" "v' a = zeros"
    and same: "\<And>b. isdata x b \<Longrightarrow> used x v b \<Longrightarrow> v' b = v b" and q: "vpath q"
  shows "node v' (A(i := a)) q = (if q = (i, []) then a else node v A q)"
  using q
proof (induction q rule: fpath_induct)
  case (slot k)
  then show ?case using i by simp
next
  case (down p j)
  from down.hyps have p: "vpath p" "j < NINDIRECT" by (simp_all add: vpath_down)
  show ?case
  proof (cases "p = (i, [])")
    case True
    then have "node v A p = 0" using i by simp
    then show ?thesis using down.IH True a p(2) by (simp add: node_down del: node.simps down.simps)
  next
    case False
    then have "v' (node v A p) = v (node v A p)" if "node v A p \<noteq> 0"
      using same file_okD(1,2)[OF ok p(1) that] by blast
    then show ?thesis using down.IH False by (simp add: node_down word_at_def del: node.simps)
  qed
qed

lemma node_grow_entry:
  assumes ok: "file_ok x v A" and p: "vpath (down p j)" "node v A p \<noteq> 0" "node v A (down p j) = 0"
    and a: "a \<noteq> 0" "\<not> used x v a" "v' a = zeros"
    and w: "\<And>k. k < NINDIRECT \<Longrightarrow> word_at v' (node v A p) k = (if k = j then a else word_at v (node v A p) k)"
    and same: "\<And>b. isdata x b \<Longrightarrow> used x v b \<Longrightarrow> b \<noteq> node v A p \<Longrightarrow> v' b = v b" and q: "vpath q"
  shows "node v' A q = (if q = down p j then a else node v A q)"
  using q
proof (induction q rule: fpath_induct)
  case (slot k)
  then show ?case by simp
next
  case (down r k)
  from down.hyps have r: "vpath r" "k < NINDIRECT" and vp: "vpath p" using p(1) by (simp_all add: vpath_down)
  consider "r = down p j" | "r = p" | "r \<noteq> down p j" "r \<noteq> p" by blast
  then show ?case
  proof cases
    case 1
    then have "r \<noteq> p" using p(2,3) by auto
    then show ?thesis using 1 down.IH p(3) a r(2) by (simp add: node_down[of _ _ "down p j"] del: node.simps)
  next
    case 2
    then have "p \<noteq> down p j" using p(2,3) by metis
    then show ?thesis using 2 down.IH w[OF r(2)] p(2) by (simp add: node_down del: node.simps)
  next
    case 3
    have "node v A r \<noteq> node v A p" if "node v A r \<noteq> 0" using file_okD(3)[OF ok r(1) vp that] 3 by blast
    then have "v' (node v A r) = v (node v A r)" if "node v A r \<noteq> 0"
      using that same[OF file_okD(1,2)[OF ok r(1) that]] by blast
    then show ?thesis using 3 down.IH by (simp add: node_down word_at_def del: node.simps)
  qed
qed

subsection \<open>Growth of a file\<close>

text \<open>
  \<open>grown x v A v' A'\<close>: the file got more nodes, all of them blocks that were free, the new data blocks zeroed; its old
  data blocks, every other used data block and the blocks before the bitmap keep their contents.
\<close>

definition file_block :: "(nat \<Rightarrow> u8 list) \<Rightarrow> (nat \<Rightarrow> nat) \<Rightarrow> nat \<Rightarrow> bool" where
  "file_block v A b \<longleftrightarrow> b \<noteq> 0 \<and> (\<exists>q. vpath q \<and> node v A q = b)"

definition foreign :: "superblock \<Rightarrow> (nat \<Rightarrow> u8 list) \<Rightarrow> (nat \<Rightarrow> nat) \<Rightarrow> nat \<Rightarrow> bool" where
  "foreign x v A b \<longleftrightarrow> isdata x b \<and> used x v b \<and> \<not> file_block v A b"

definition grown :: "superblock \<Rightarrow> (nat \<Rightarrow> u8 list) \<Rightarrow> (nat \<Rightarrow> nat) \<Rightarrow> (nat \<Rightarrow> u8 list) \<Rightarrow> (nat \<Rightarrow> nat) \<Rightarrow> bool" where
  "grown x v A v' A' \<longleftrightarrow> file_ok x v' A' \<and>
     (\<forall>q. vpath q \<longrightarrow> node v A q \<noteq> 0 \<longrightarrow> node v' A' q = node v A q) \<and>
     (\<forall>q. vpath q \<longrightarrow> full q \<longrightarrow> node v' A' q \<noteq> 0 \<longrightarrow>
        v' (node v' A' q) = (if node v A q = 0 then zeros else v (node v A q))) \<and>
     (\<forall>b. foreign x v A b \<longrightarrow> foreign x v' A' b \<and> v' b = v b) \<and>
     (\<forall>n < sb_bmapstart x. v' n = v n) \<and>
     (\<forall>b < sb_size x. used x v b \<longrightarrow> used x v' b) \<and>
     (\<forall>b < sb_size x. used x v' b \<longrightarrow> used x v b \<or> file_block v' A' b)"

lemma grownD:
  assumes "grown x v A v' A'"
  shows "file_ok x v' A'" and "vpath q \<Longrightarrow> node v A q \<noteq> 0 \<Longrightarrow> node v' A' q = node v A q"
    and "vpath q \<Longrightarrow> full q \<Longrightarrow> node v' A' q \<noteq> 0 \<Longrightarrow>
      v' (node v' A' q) = (if node v A q = 0 then zeros else v (node v A q))"
    and "foreign x v A b \<Longrightarrow> foreign x v' A' b" and "foreign x v A b \<Longrightarrow> v' b = v b"
    and "n < sb_bmapstart x \<Longrightarrow> v' n = v n" and "b < sb_size x \<Longrightarrow> used x v b \<Longrightarrow> used x v' b"
    and "b < sb_size x \<Longrightarrow> used x v' b \<Longrightarrow> used x v b \<or> file_block v' A' b"
  using assms unfolding grown_def by blast+

lemma grown_refl: "file_ok x v A \<Longrightarrow> grown x v A v A"
  by (simp add: grown_def)

lemma grown_trans:
  assumes g: "grown x v A v' A'" and h: "grown x v' A' v'' A''"
  shows "grown x v A v'' A''"
  unfolding grown_def
proof (intro conjI allI impI)
  show "file_ok x v'' A''" using grownD(1)[OF h] .
  show n: "node v'' A'' q = node v A q" if "vpath q" "node v A q \<noteq> 0" for q
    using grownD(2)[OF g that] grownD(2)[OF h that(1)] that(2) by simp
  show "v'' (node v'' A'' q) = (if node v A q = 0 then zeros else v (node v A q))"
    if q: "vpath q" "full q" "node v'' A'' q \<noteq> 0" for q
    using grownD(3)[OF h q] grownD(3)[OF g q(1,2)] grownD(2)[OF g q(1)] grownD(2)[OF h q(1)] by force
  show "foreign x v'' A'' b" "v'' b = v b" if "foreign x v A b" for b
    using grownD(4,5)[OF h] grownD(4,5)[OF g that] by auto
  show "v'' n = v n" if "n < sb_bmapstart x" for n using grownD(6)[OF g that] grownD(6)[OF h that] by simp
  show "used x v'' b" if "b < sb_size x" "used x v b" for b using grownD(7)[OF h that(1)] grownD(7)[OF g that] by blast
  show "used x v b \<or> file_block v'' A'' b" if b: "b < sb_size x" "used x v'' b" for b
  proof -
    have "file_block v'' A'' b" if "file_block v' A' b" using that grownD(2)[OF h] unfolding file_block_def by metis
    then show ?thesis using grownD(8)[OF h b] grownD(8)[OF g b(1)] by blast
  qed
qed

lemma grown_step:
  assumes ok: "file_ok x v A" and P: "vpath P" "node v A P = 0"
    and node': "\<And>q. vpath q \<Longrightarrow> node v' A' q = (if q = P then a else node v A q)"
    and a: "isdata x a" "\<not> used x v a" "v' a = zeros" "0 < dstart x"
    and us: "\<And>b. b < sb_size x \<Longrightarrow> used x v' b \<longleftrightarrow> b = a \<or> used x v b"
    and same: "\<And>b. isdata x b \<Longrightarrow> used x v b \<Longrightarrow> (\<And>q. vpath q \<Longrightarrow> \<not> full q \<Longrightarrow> node v A q \<noteq> b) \<Longrightarrow> v' b = v b"
    and meta: "\<And>n. n < sb_bmapstart x \<Longrightarrow> v' n = v n"
  shows "grown x v A v' A'"
proof -
  note okD = file_okD[OF ok]
  have pos: "b \<noteq> 0" if "isdata x b" for b using that a(4) by (auto simp: isdata_def)
  have fresh: "node v A q \<noteq> a" if "vpath q" for q using okD(2)[OF that] a(2) pos[OF a(1)] by auto
  have d: "b < sb_size x" if "isdata x b" for b using that by (simp add: isdata_def)
  have inj: "p = q" if "vpath p" "vpath q" "node v' A' p \<noteq> 0" "node v' A' p = node v' A' q" for p q
    using that okD(3)[OF that(1,2)] fresh[OF that(1)] fresh[OF that(2)] unfolding node'[OF that(1)] node'[OF that(2)]
    by (auto split: if_splits simp del: node.simps)
  have dat: "isdata x (node v' A' p)" "used x v' (node v' A' p)" if "vpath p" "node v' A' p \<noteq> 0" for p
    using that okD(1,2)[OF that(1)] a us[OF d] unfolding node'[OF that(1)] by (auto split: if_splits simp del: node.simps)
  show ?thesis
    unfolding grown_def
  proof (intro conjI allI impI)
    show "file_ok x v' A'" unfolding file_ok_def using inj dat by blast
    show "node v' A' q = node v A q" if "vpath q" "node v A q \<noteq> 0" for q using node'[OF that(1)] P that(2) by auto
    show "v' (node v' A' q) = (if node v A q = 0 then zeros else v (node v A q))"
      if q: "vpath q" "full q" "node v' A' q \<noteq> 0" for q
    proof (cases "q = P")
      case True
      then show ?thesis using node'[OF q(1)] P a by simp
    next
      case False
      then have n: "node v' A' q = node v A q" "node v A q \<noteq> 0" using node'[OF q(1)] q(3) by auto
      have "node v A r \<noteq> node v A q" if "vpath r" "\<not> full r" for r
        using okD(3)[OF q(1) that(1) n(2)] q(2) that(2) by metis
      then show ?thesis using n same okD(1,2)[OF q(1) n(2)] by simp
    qed
    show "foreign x v' A' b" "v' b = v b" if b: "foreign x v A b" for b
    proof -
      have b': "isdata x b" "used x v b" "\<not> file_block v A b" using b by (simp_all add: foreign_def)
      have "b \<noteq> a" using b' a by blast
      then have "\<not> file_block v' A' b" using b'(3) node' unfolding file_block_def by metis
      then show "foreign x v' A' b" using b' us[OF d] by (simp add: foreign_def)
      show "v' b = v b"
        using b'(3) pos[OF b'(1)] by (intro same[OF b'(1,2)]) (unfold file_block_def, blast)
    qed
    show "v' n = v n" if "n < sb_bmapstart x" for n using meta[OF that] .
    show "used x v' b" if "b < sb_size x" "used x v b" for b using us that by blast
    show "used x v b \<or> file_block v' A' b" if "b < sb_size x" "used x v' b" for b
      using us that pos[OF a(1)] node'[OF P(1)] P(1) unfolding file_block_def by metis
  qed
qed

subsection \<open>The steps of bmap\<close>

text \<open>
  The state between operations on the file of the cached inode \<open>ip\<close>, with room in the log for \<open>k\<close> more blocks and
  \<open>m\<close> free blocks on the disk.
\<close>

definition file_tx :: "string set \<Rightarrow> nat \<Rightarrow> nat \<Rightarrow> nat \<Rightarrow> 'a fs_state_scheme \<Rightarrow> bool" where
  "file_tx E k m ip s \<longleftrightarrow> in_tx {} s \<and> fs_layout s \<and> meta_used (sb s) (view s) \<and> i_dev (icache s ip) = DISKDEV \<and>
     room E k s \<and> avail E m (sb s) (view s) \<and> file_ok (sb s) (view s) (i_addrs (icache s ip))"

text \<open>
  \<open>istep ip s t\<close>: of the inodes only the block addresses of \<open>ip\<close> changed. \<open>bstep ip s t\<close>: moreover the file grew.
\<close>

definition istep :: "nat \<Rightarrow> 'a fs_state_scheme \<Rightarrow> 'a fs_state_scheme \<Rightarrow> bool" where
  "istep ip s t \<longleftrightarrow> (\<exists>A. ext {} (upd_inode ip (\<lambda>x. x\<lparr>i_addrs := A\<rparr>) s) t)"

definition bstep :: "nat \<Rightarrow> 'a fs_state_scheme \<Rightarrow> 'a fs_state_scheme \<Rightarrow> bool" where
  "bstep ip s t \<longleftrightarrow> grown (sb s) (view s) (i_addrs (icache s ip)) (view t) (i_addrs (icache t ip)) \<and> istep ip s t"

lemma in_tx_upd_inode [simp]: "in_tx H (upd_inode ip f s) = in_tx H s"
  by (simp add: upd_inode_def in_tx_def clean_at_def log_lists_def log_geo_def logzone_def cache_ok_def ring_ok_def holds_block_def
      dirty_def view_def pinned_def idle_locks_def owns_slock_def mypid_def cong: option.case_cong)

lemma upd_inode_simps [simp]:
  "view (upd_inode ip f s) = view s" "sb (upd_inode ip f s) = sb s" "holds_block (upd_inode ip f s) = holds_block s"
  "dirty (upd_inode ip f s) = dirty s" "logzone (upd_inode ip f s) = logzone s" "disksize (upd_inode ip f s) = disksize s"
  "lg_n (upd_inode ip f s) = lg_n s" "lg_size (upd_inode ip f s) = lg_size s" "room E k (upd_inode ip f s) = room E k s"
  "icache (upd_inode ip f s) = (icache s)(ip := f (icache s ip))" "fs_layout (upd_inode ip f s) = fs_layout s"
  by (intro HOL.ext | simp add: upd_inode_def view_def holds_block_def dirty_def logzone_def room_def fs_layout_def
      cong: option.case_cong)+

lemma ext_upd_inode:
  assumes "ext H s t"
  shows "ext H (upd_inode ip f s) (upd_inode ip f t)"
proof -
  have *: "t = s\<lparr>ptable := ptable t, mlfqstr := mlfqstr t, slocks := slocks t, bufs := bufs t,
     lg_n := lg_n t, lg_block := lg_block t\<rparr>" using assms by (simp add: ext_def fs_frame_def)
  have "fs_frame (upd_inode ip f s) (upd_inode ip f t)"
    unfolding fs_frame_def upd_inode_def ext_fs(2)[OF assms] by (subst (1) *) simp
  then show ?thesis using assms by (simp add: ext_def)
qed

lemma istepD:
  assumes "istep ip s t"
  shows "sb t = sb s" and "\<And>j. j \<noteq> ip \<Longrightarrow> icache t j = icache s j"
    and "i_dev (icache t ip) = i_dev (icache s ip)" and "i_inum (icache t ip) = i_inum (icache s ip)"
    and "i_size (icache t ip) = i_size (icache s ip)" and "i_type (icache t ip) = i_type (icache s ip)"
    and "fs_layout t = fs_layout s" and "mem t = mem s" and "cr3 t = cr3 s"
    and "disk t = disk s" and "disksize t = disksize s" and "logzone t = logzone s"
    and "icache t ip = (icache s ip)\<lparr>i_addrs := i_addrs (icache t ip)\<rparr>"
    and "lg_outstanding t = lg_outstanding s" and "lg_size t = lg_size s" and "lg_n s \<le> lg_n t" and "lg_start t = lg_start s"
proof -
  obtain A where e: "ext {} (upd_inode ip (\<lambda>x. x\<lparr>i_addrs := A\<rparr>) s) t" using assms by (auto simp: istep_def)
  note f = ext_fs[OF e] ext_log[OF e]
  show "sb t = sb s" "\<And>j. j \<noteq> ip \<Longrightarrow> icache t j = icache s j" "i_dev (icache t ip) = i_dev (icache s ip)"
    "i_inum (icache t ip) = i_inum (icache s ip)" "i_size (icache t ip) = i_size (icache s ip)"
    "i_type (icache t ip) = i_type (icache s ip)" "mem t = mem s" "cr3 t = cr3 s"
    "disk t = disk s" "disksize t = disksize s" "logzone t = logzone s" "fs_layout t = fs_layout s"
    "icache t ip = (icache s ip)\<lparr>i_addrs := i_addrs (icache t ip)\<rparr>"
    "lg_outstanding t = lg_outstanding s" "lg_size t = lg_size s" "lg_n s \<le> lg_n t" "lg_start t = lg_start s"
    using f e[unfolded ext_def] by (simp_all add: upd_inode_def logzone_def fs_layout_def)
qed

lemma istep_ext: "ext {} s t \<Longrightarrow> istep ip s t"
  unfolding istep_def by (intro exI[of _ "i_addrs (icache s ip)"]) (simp add: upd_inode_def)

lemma bstep_refl: "file_ok (sb s) (view s) (i_addrs (icache s ip)) \<Longrightarrow> bstep ip s s"
  unfolding bstep_def by (simp add: grown_refl istep_ext)

lemma upd_inode_comp: "upd_inode ip f (upd_inode ip g s) = upd_inode ip (\<lambda>x. f (g x)) s"
  by (simp add: upd_inode_def)

lemma istep_trans:
  assumes "istep ip s t" and "istep ip t u"
  shows "istep ip s u"
proof -
  obtain A B where "ext {} (upd_inode ip (\<lambda>x. x\<lparr>i_addrs := A\<rparr>) s) t"
    and B: "ext {} (upd_inode ip (\<lambda>x. x\<lparr>i_addrs := B\<rparr>) t) u" using assms by (auto simp: istep_def)
  from ext_upd_inode[OF this(1), of ip "\<lambda>x. x\<lparr>i_addrs := B\<rparr>"]
  have "ext {} (upd_inode ip (\<lambda>x. x\<lparr>i_addrs := B\<rparr>) s) (upd_inode ip (\<lambda>x. x\<lparr>i_addrs := B\<rparr>) t)"
    by (simp add: upd_inode_comp)
  from ext_trans[OF this B] show ?thesis unfolding istep_def by blast
qed

lemma bstep_trans: "bstep ip s t \<Longrightarrow> bstep ip t u \<Longrightarrow> bstep ip s u"
  unfolding bstep_def using grown_trans istep_trans istepD(1) by metis

lemma file_tx_mono: "file_tx E k m ip s \<Longrightarrow> k' \<le> k \<Longrightarrow> m' \<le> m \<Longrightarrow> file_tx E k' m' ip s"
  by (auto simp: file_tx_def room_def avail_def)

lemma avail_mono: "avail E m x v \<Longrightarrow> m' \<le> m \<Longrightarrow> avail E m' x v"
  by (auto simp: avail_def)

lemma meta_used_grown:
  "meta_used x v \<Longrightarrow> dstart x \<le> sb_size x \<Longrightarrow> (\<And>b. b < sb_size x \<Longrightarrow> used x v b \<Longrightarrow> used x v' b) \<Longrightarrow> meta_used x v'"
  by (simp add: meta_used_def)

lemma dstart_pos: "fs_layout s \<Longrightarrow> 0 < dstart (sb s)"
  by (auto simp: fs_layout_def dstart_def)

lemma dstart_size: "fs_layout s \<Longrightarrow> dstart (sb s) \<le> sb_size (sb s)"
  by (auto simp: fs_layout_def)

lemma bmap_slot_tx:
  assumes f: "file_tx E (Suc (Suc k)) (Suc m) ip s" and i: "i < NDIRECT + 3"
  shows "good E (bmap_slot ip i s) (\<lambda>a t. file_tx E k m ip t \<and> bstep ip s t \<and>
    a = node (view t) (i_addrs (icache t ip)) (i, []) \<and> a \<noteq> 0)"
proof (cases "i_addrs (icache s ip) i = 0")
  case False
  have "file_tx E k m ip s" using file_tx_mono[OF f] by simp
  moreover have "bstep ip s s" using f by (intro bstep_refl) (simp add: file_tx_def)
  ultimately show ?thesis using False by (simp add: bmap_slot_def)
next
  case True
  let ?x = "sb s" and ?A = "i_addrs (icache s ip)"
  have s: "in_tx {} s" "fs_layout s" "meta_used ?x (view s)" "i_dev (icache s ip) = DISKDEV"
    "room E (Suc (Suc k)) s" "avail E (Suc m) ?x (view s)" "file_ok ?x (view s) ?A"
    using f by (simp_all add: file_tx_def)
  have "good E (balloc DISKDEV s) (\<lambda>a t. in_tx {} t \<and> room E k t \<and> allocated {} s a t)"
    using avail_mono[OF s(6)] by (intro balloc_tx[OF s(1,2) _ s(3,5)]) simp_all
  then show ?thesis
    unfolding bmap_slot_def using True s(4)
  proof (simp del: node.simps, elim good_bnd conjE)
    fix a t
    assume t: "in_tx {} t" "room E k t" "allocated {} s a t"
    note al = t(3)[unfolded allocated_def]
    have a: "isdata ?x a" "\<not> used ?x (view s) a" "view t a = zeros" "ext {} s t"
      and us: "\<And>b. b < sb_size ?x \<Longrightarrow> used ?x (view t) b \<longleftrightarrow> b = a \<or> used ?x (view s) b"
      and same: "\<And>n. n \<noteq> a \<Longrightarrow> n \<notin> {sb_bmapstart ?x..<dstart ?x} \<Longrightarrow> view t n = view s n"
      using al by blast+
    note pos = dstart_pos[OF s(2)] and ic = ext_fs[OF a(4)]
    have a0: "a \<noteq> 0" using a(1) pos by (auto simp: isdata_def)
    have sd: "view t b = view s b" if "isdata ?x b" "used ?x (view s) b" for b
      using that a(2) by (intro same) (auto simp: isdata_def)
    note nd = node_grow_slot[OF s(7) i True a0 a(2,3) sd]
    let ?t = "upd_inode ip (\<lambda>x. x\<lparr>i_addrs := (i_addrs x)(i := a)\<rparr>) t"
    have sm: "view t n = view s n" if "n < sb_bmapstart ?x" for n
      using that a(1) by (intro same) (auto simp: isdata_def dstart_def)
    have g: "grown ?x (view s) ?A (view t) (?A(i := a))"
      using i True nd us sd sm a pos s(7) by (intro grown_step[of _ _ _ "(i, [])" _ _ a]) (simp_all del: node.simps, simp_all)
    have "ext {} (upd_inode ip (\<lambda>x. x\<lparr>i_addrs := ?A(i := a)\<rparr>) s) ?t"
      using ext_upd_inode[OF a(4), of ip "\<lambda>x. x\<lparr>i_addrs := ?A(i := a)\<rparr>"] by (simp add: upd_inode_def ic)
    then have "bstep ip s ?t" using g by (auto simp: bstep_def istep_def ic)
    moreover have "file_tx E k m ip ?t"
      unfolding file_tx_def using t(1,2) s(4) fs_layout_ext[OF a(4) s(2)] allocated_avail[OF t(3) s(6)] grownD(1)[OF g]
        meta_used_grown[OF s(3) dstart_size[OF s(2)]] us by (simp add: ic)
    ultimately show "good E (Ok a ?t) (\<lambda>a t. file_tx E k m ip t \<and> bstep ip s t \<and>
        a = node (view t) (i_addrs (icache t ip)) (i, []) \<and> 0 < a)" using a0 by simp
  qed
qed

text \<open>
  A missing entry \<open>j\<close> of the block \<open>a\<close>, held in the locked buffer \<open>p\<close>: the code allocates a block, stores its number and
  logs the change. \<open>linked_in\<close> collects the effect on the blocks.
\<close>

definition linked_in :: "superblock \<Rightarrow> nat \<Rightarrow> nat \<Rightarrow> (nat \<Rightarrow> u8 list) \<Rightarrow> nat \<Rightarrow> (nat \<Rightarrow> u8 list) \<Rightarrow> bool" where
  "linked_in x a j v b v' \<longleftrightarrow> isdata x b \<and> \<not> used x v b \<and> v' b = zeros \<and>
     (\<forall>c < sb_size x. used x v' c \<longleftrightarrow> c = b \<or> used x v c) \<and>
     (\<forall>n. n \<noteq> a \<longrightarrow> n \<noteq> b \<longrightarrow> n \<notin> {sb_bmapstart x..<dstart x} \<longrightarrow> v' n = v n) \<and>
     (\<forall>k < NINDIRECT. word_at v' a k = (if k = j then b else word_at v a k))"

lemma bmap_fill:
  assumes tx: "in_tx {p} t" "holds_block t p a" and lay: "fs_layout t" and meta: "meta_used (sb t) (view t)"
    and room: "room E (Suc (Suc (Suc k))) t" and av: "avail E (Suc m) (sb t) (view t)"
    and a: "isdata (sb t) a" "used (sb t) (view t) a" and j: "j < NINDIRECT"
  shows "good E (bnd (balloc DISKDEV t) (\<lambda>b s.
      let s = set_data p (put32 (b_data (bufs s p)) (4 * j) (of_nat b)) s in bnd (log_write p s) (\<lambda>_ s. Ok b s)))
    (\<lambda>b u. in_tx {p} u \<and> holds_block u p a \<and> room E k u \<and> avail E m (sb t) (view u) \<and> ext {p} t u \<and>
      linked_in (sb t) a j (view t) b (view u))"
proof -
  let ?x = "sb t"
  have lock: "locked_data {p} t" using tx(2) a by (auto simp: locked_data_def)
  have av1: "avail E 1 ?x (view t)" using avail_mono[OF av] by simp
  show ?thesis
  proof (rule good_bnd[OF balloc_tx[OF tx(1) lay lock meta room av1]], elim conjE)
    fix b u
    assume u: "in_tx {p} u" "room E (Suc k) u" "allocated {p} t b u"
    have b: "isdata ?x b" "\<not> used ?x (view t) b" "view u b = zeros" "ext {p} t u"
      and us: "\<And>c. c < sb_size ?x \<Longrightarrow> used ?x (view u) c \<longleftrightarrow> c = b \<or> used ?x (view t) c"
      and same: "\<And>n. n \<noteq> b \<Longrightarrow> n \<notin> {sb_bmapstart ?x..<dstart ?x} \<Longrightarrow> view u n = view t n"
      using u(3) unfolding allocated_def by blast+
    have ab: "a \<noteq> b" using a(2) b(2) by auto
    have hu: "holds_block u p a" using tx(2) b(4) by (simp add: ext_def)
    have ina: "sb_inodestart ?x \<le> a" using a(1) lay by (auto simp: isdata_def fs_layout_def dstart_def)
    have as: "a < sb_size ?x" using a(1) by (simp add: isdata_def)
    note la = layout_block[OF lay as ina]
    have la2: "a \<notin> logzone u" using la(2) ext_log[OF b(4)] by (simp add: logzone_def)
    let ?d = "put32 (b_data (bufs u p)) (4 * j) (of_nat b)"
    have cu: "view u a = content (b_data (bufs u p))"
      using view_eq[OF in_tx_cache[OF u(1)] hu] cache_okD(8)[OF in_tx_cache[OF u(1)], of p] by simp
    have ut: "view u a = view t a" using a(1) ab by (intro same) (auto simp: isdata_def)
    have b32: "b < 2 ^ 32" using b(1) lay by (auto simp: isdata_def fs_layout_def)
    let ?w = "(view u)(a := content ?d)"
    have uw: "used ?x ?w c = used ?x (view u) c" if "c < sb_size ?x" for c
      using that a(1) by (intro used_zeroed) (simp_all add: isdata_def)
    then have "{c. c < sb_size ?x \<and> \<not> used ?x ?w c} = {c. c < sb_size ?x \<and> \<not> used ?x (view u) c}" by blast
    then have z: "avail E m ?x ?w" using allocated_avail[OF u(3) av] by (simp add: avail_def)
    have "word_at ?w a k = (if k = j then b else word_at (view t) a k)" if "k < NINDIRECT" for k
      using cu ut j that b32 by (intro word_at_put[where d = "b_data (bufs u p)"]) simp_all
    then have l: "linked_in ?x a j (view t) b ?w" using b ab us uw same unfolding linked_in_def by simp
    show "good E (let s = set_data p (put32 (b_data (bufs u p)) (4 * j) (of_nat b)) u in bnd (log_write p s) (\<lambda>_ s. Ok b s))
        (\<lambda>b u. in_tx {p} u \<and> holds_block u p a \<and> room E k u \<and> avail E m ?x (view u) \<and> ext {p} t u \<and>
          linked_in ?x a j (view t) b (view u))"
      unfolding Let_def
      by (rule good_bnd[OF tx_modify[OF u(1) insertI1 hu la2 la(3) u(2)]]) (use hu z l ext_trans[OF b(4)] in auto)
  qed
qed

lemma linked_in_grown:
  assumes ok: "file_ok x v A" and q: "vpath (down q j)" and a: "node v A q \<noteq> 0" "node v A (down q j) = 0"
    and l: "linked_in x (node v A q) j v b v'" and pos: "0 < dstart x"
  shows "grown x v A v' A" and "node v' A (down q j) = b" and "b \<noteq> 0"
proof -
  have b: "isdata x b" "\<not> used x v b" "v' b = zeros"
    and us: "\<And>c. c < sb_size x \<Longrightarrow> used x v' c \<longleftrightarrow> c = b \<or> used x v c"
    and same: "\<And>n. n \<noteq> node v A q \<Longrightarrow> n \<noteq> b \<Longrightarrow> n \<notin> {sb_bmapstart x..<dstart x} \<Longrightarrow> v' n = v n"
    and w: "\<And>k. k < NINDIRECT \<Longrightarrow> word_at v' (node v A q) k = (if k = j then b else word_at v (node v A q) k)"
    using l unfolding linked_in_def by blast+
  have q': "vpath q" "\<not> full q" using q by (simp_all add: vpath_down)
  show b0: "b \<noteq> 0" using b(1) pos by (auto simp: isdata_def)
  have sd: "v' c = v c" if "isdata x c" "used x v c" "c \<noteq> node v A q" for c
    using that b(2) by (intro same) (auto simp: isdata_def)
  have nd: "node v' A p = (if p = down q j then b else node v A p)" if "vpath p" for p
    by (rule node_grow_entry[OF ok q a b0 b(2,3) w sd that])
  show "node v' A (down q j) = b" using nd[OF q] by (simp del: node.simps)
  have ad: "isdata x (node v A q)" using file_okD(1)[OF ok q'(1) a(1)] .
  show "grown x v A v' A"
  proof (rule grown_step[OF ok q a(2)])
    show "node v' A p = (if p = down q j then b else node v A p)" if "vpath p" for p using nd[OF that] .
    show "v' c = v c" if "isdata x c" "used x v c" "\<And>r. vpath r \<Longrightarrow> \<not> full r \<Longrightarrow> node v A r \<noteq> c" for c
      using sd[OF that(1,2)] that(3)[OF q'] by auto
    show "v' n = v n" if "n < sb_bmapstart x" for n
      using that b(1) ad by (intro same) (auto simp: isdata_def dstart_def)
  qed (use b us pos in auto)
qed

lemma bmap_entry_tx:
  assumes f: "file_tx E (Suc (Suc (Suc k))) (Suc m) ip s"
    and q: "vpath (down q j)" and a: "a = node (view s) (i_addrs (icache s ip)) q" "a \<noteq> 0"
  shows "good E (bmap_entry DISKDEV a j s) (\<lambda>b t. file_tx E k m ip t \<and> bstep ip s t \<and>
    b = node (view t) (i_addrs (icache t ip)) (down q j) \<and> b \<noteq> 0)"
proof -
  let ?x = "sb s" and ?A = "i_addrs (icache s ip)"
  have s: "in_tx {} s" "fs_layout s" "meta_used ?x (view s)" "i_dev (icache s ip) = DISKDEV"
    "room E (Suc (Suc (Suc k))) s" "avail E (Suc m) ?x (view s)" "file_ok ?x (view s) ?A"
    using f by (simp_all add: file_tx_def)
  have q': "vpath q" "j < NINDIRECT" "\<not> full q" using q by (simp_all add: vpath_down)
  have ad: "isdata ?x a" "used ?x (view s) a" using file_okD(1,2)[OF s(7) q'(1)] a by simp_all
  have ina: "sb_inodestart ?x \<le> a" "a < sb_size ?x" using ad(1) s(2) by (auto simp: isdata_def fs_layout_def dstart_def)
  note la = layout_block[OF s(2) ina(2,1)]
  have r0: "room E 0 s" using room_mono[OF s(5)] by simp
  show ?thesis
    unfolding bmap_entry_def
  proof (rule good_bnd[OF tx_bread[OF s(1) la(1) _ _ r0]], simp, simp, elim conjE)
    fix p t
    assume t: "in_tx {p} t" "holds_block t p a" "content (b_data (bufs t p)) = view s a" "view t = view s"
      "lg_n t = lg_n s" "ext {} s t"
    note ic = ext_fs[OF t(6)]
    have w: "word_at (view s) a j = unat (get32 (b_data (bufs t p)) (4 * j))"
      using t(3) q'(2) by (intro word_at_content) simp_all
    have nd: "node (view s) ?A (down q j) = unat (get32 (b_data (bufs t p)) (4 * j))"
      using a w by (simp add: node_down del: node.simps)
    let ?Q = "\<lambda>b u. in_tx {p} u \<and> holds_block u p a \<and> room E k u \<and> avail E m ?x (view u) \<and> ext {} s u \<and> b \<noteq> 0 \<and>
      grown ?x (view s) ?A (view u) ?A \<and> b = node (view u) ?A (down q j)"
    have fin: "good E (bnd (brelse p u) (\<lambda>_ u. Ok b u)) (\<lambda>b t. file_tx E k m ip t \<and> bstep ip s t \<and>
        b = node (view t) (i_addrs (icache t ip)) (down q j) \<and> b \<noteq> 0)" if "?Q b u" for b u
    proof (rule good_bnd[OF good_okpost[OF tx_brelse[of "{p}" u p a]]], use that in simp, simp, use that in simp, elim conjE)
      fix y z
      assume z: "in_tx ({p} - {p}) z" "view z = view u" "lg_n z = lg_n u" "ext {p} u z"
      have e: "ext {} s z" using that ext_trans[OF _ ext_mono[OF z(4)], of "{}"] by auto
      note iz = ext_fs[OF e]
      have "file_tx E k m ip z"
        unfolding file_tx_def using that z s(2,3,4) fs_layout_ext[OF e] grownD(1,7)[of ?x "view s" ?A "view u" ?A]
          meta_used_grown[OF s(3) dstart_size[OF s(2)]] room_ext[OF z(4,3)] by (auto simp: iz)
      moreover have "bstep ip s z"
        unfolding bstep_def using that z(2) istep_ext[OF e] by (simp add: iz)
      ultimately show "good E (Ok b z) (\<lambda>b t. file_tx E k m ip t \<and> bstep ip s t \<and>
          b = node (view t) (i_addrs (icache t ip)) (down q j) \<and> b \<noteq> 0)"
        using that z(2) by (simp add: iz del: node.simps)
    qed
    show "good E (bnd (if get32 (b_data (bufs t p)) (4 * j) = 0
          then bnd (balloc DISKDEV t) (\<lambda>na s. let s = set_data p (put32 (b_data (bufs s p)) (4 * j) (of_nat na)) s
            in bnd (log_write p s) (\<lambda>_ s. Ok na s))
          else Ok (unat (get32 (b_data (bufs t p)) (4 * j))) t) (\<lambda>na s. bnd (brelse p s) (\<lambda>_ s. Ok na s)))
        (\<lambda>b t. file_tx E k m ip t \<and> bstep ip s t \<and> b = node (view t) (i_addrs (icache t ip)) (down q j) \<and> b \<noteq> 0)"
    proof (rule good_bnd[OF _ fin], cases "get32 (b_data (bufs t p)) (4 * j) = 0")
      case False
      then have "unat (get32 (b_data (bufs t p)) (4 * j)) \<noteq> 0" by (simp add: unsigned_eq_0_iff)
      moreover have "room E k t" using room_mono[OF s(5)] room_ext[OF t(6,5)] by simp
      ultimately show "good E (if get32 (b_data (bufs t p)) (4 * j) = 0
          then bnd (balloc DISKDEV t) (\<lambda>na s. let s = set_data p (put32 (b_data (bufs s p)) (4 * j) (of_nat na)) s
            in bnd (log_write p s) (\<lambda>_ s. Ok na s))
          else Ok (unat (get32 (b_data (bufs t p)) (4 * j))) t) ?Q"
        using False nd t grown_refl[OF s(7)] avail_mono[OF s(6), of m] by (simp del: node.simps)
    next
      case True
      have "good E (bnd (balloc DISKDEV t) (\<lambda>na s. let s = set_data p (put32 (b_data (bufs s p)) (4 * j) (of_nat na)) s
            in bnd (log_write p s) (\<lambda>_ s. Ok na s))) ?Q"
      proof (rule good_mono[OF bmap_fill[OF t(1,2) fs_layout_ext[OF t(6) s(2)] _ _ _ _ _ q'(2)]], unfold ic t(4))
        fix b u
        assume u: "in_tx {p} u \<and> holds_block u p a \<and> room E k u \<and> avail E m ?x (view u) \<and> ext {p} t u \<and>
          linked_in ?x a j (view s) b (view u)"
        have d0: "node (view s) ?A (down q j) = 0" using nd True by simp
        have "linked_in ?x (node (view s) ?A q) j (view s) b (view u)" using u a(1) by simp
        note g = linked_in_grown[OF s(7) q _ d0 this dstart_pos[OF s(2)]]
        have "ext {} s u" using ext_trans[OF t(6) ext_mono, of "{p}" u] u by simp
        then show "?Q b u" using u g a by simp
      qed (use s ad t room_ext[OF t(6,5)] in simp_all)
      then show "good E (if get32 (b_data (bufs t p)) (4 * j) = 0
          then bnd (balloc DISKDEV t) (\<lambda>na s. let s = set_data p (put32 (b_data (bufs s p)) (4 * j) (of_nat na)) s
            in bnd (log_write p s) (\<lambda>_ s. Ok na s))
          else Ok (unat (get32 (b_data (bufs t p)) (4 * j))) t) ?Q" using True by simp
    qed
  qed
qed

subsection \<open>bmap\<close>

definition fpath_of :: "nat \<Rightarrow> fpath" where
  "fpath_of bn =
     (if bn < NDIRECT then (bn, [])
      else let bn = bn - NDIRECT in if bn < NINDIRECT then (NDIRECT, [bn])
      else let bn = bn - NINDIRECT in if bn < NDINDIRECT then (NDIRECT + 1, [bn div 128, bn mod 128])
      else let bn = bn - NDINDIRECT in (NDIRECT + 2, [bn div (128 * 128), bn mod (128 * 128) div 128, bn mod (128 * 128) mod 128]))"

lemmas fs_sizes = NDIRECT_def NINDIRECT_def NDINDIRECT_def NTINDIRECT_def MAXFILE_def BSIZE_def

lemma fpath_of_valid: "bn < MAXFILE \<Longrightarrow> vpath (fpath_of bn) \<and> full (fpath_of bn)"
  by (auto simp: fpath_of_def Let_def fs_sizes lev_def)

lemma split3: "(a :: nat) div 16384 = b div 16384 \<Longrightarrow> a mod 16384 div 128 = b mod 16384 div 128 \<Longrightarrow>
    a mod 16384 mod 128 = b mod 16384 mod 128 \<Longrightarrow> a = b"
  by (metis div_mult_mod_eq)

lemma split2: "(a :: nat) div 128 = b div 128 \<Longrightarrow> a mod 128 = b mod 128 \<Longrightarrow> a = b"
  by (metis div_mult_mod_eq)

lemma fpath_of_inj: "a < MAXFILE \<Longrightarrow> b < MAXFILE \<Longrightarrow> fpath_of a = fpath_of b \<Longrightarrow> a = b"
  by (auto simp: fpath_of_def Let_def fs_sizes split: if_splits dest!: split3 split2)

definition mapped_at ::
  "string set \<Rightarrow> nat \<Rightarrow> nat \<Rightarrow> nat \<Rightarrow> 'a fs_state_scheme \<Rightarrow> fpath \<Rightarrow> nat \<Rightarrow> 'a fs_state_scheme \<Rightarrow> bool" where
  "mapped_at E k m ip s q a t \<longleftrightarrow> file_tx E k m ip t \<and> bstep ip s t \<and>
     a = node (view t) (i_addrs (icache t ip)) q \<and> a \<noteq> 0"

lemma mapped_at_entry:
  assumes "mapped_at E (Suc (Suc (Suc k))) (Suc m) ip s q a t" and "vpath (down q j)"
  shows "good E (bmap_entry DISKDEV a j t) (mapped_at E k m ip s (down q j))"
  using assms bstep_trans unfolding mapped_at_def
  by (intro good_mono[OF bmap_entry_tx]) blast+

text \<open>\<^verbatim>\<open>bmap\<close> is one step from the inode and then one step for each level of indirection.\<close>

primrec walk :: "nat list \<Rightarrow> nat \<Rightarrow> 'a fs_state_scheme \<Rightarrow> ('a fs_state_scheme, nat) res" where
  "walk [] a s = Ok a s"
| "walk (j # js) a s = bnd (bmap_entry DISKDEV a j s) (\<lambda>a s. walk js a s)"

lemma bnd_Ok_right: "bnd r Ok = r"
  by (cases r) auto

lemma walk_fun: "walk [] = Ok" "walk (j # js) = (\<lambda>a s. bnd (bmap_entry DISKDEV a j s) (walk js))"
  by (intro HOL.ext, simp)+

lemma bmap_walk:
  assumes "bn < MAXFILE" and "i_dev (icache s ip) = DISKDEV"
  shows "bmap ip bn s = bnd (bmap_slot ip (fst (fpath_of bn)) s) (\<lambda>a s. walk (snd (fpath_of bn)) a s)"
proof -
  have "bn - NDIRECT - NINDIRECT - NDINDIRECT < NTINDIRECT"
    if "\<not> bn < NDIRECT" "\<not> bn - NDIRECT < NINDIRECT" "\<not> bn - NDIRECT - NINDIRECT < NDINDIRECT"
    using assms(1) that by (simp add: fs_sizes)
  then show ?thesis using assms(2) unfolding bmap_def fpath_of_def Let_def
    by (simp add: bnd_Ok_right walk_fun del: walk.simps diff_diff_left)
qed

lemma walk_tx:
  assumes "mapped_at E (k + 3 * length js) (m + length js) ip s (i, ks) a t" and "vpath (i, ks @ js)"
  shows "good E (walk js a t) (mapped_at E k m ip s (i, ks @ js))"
  using assms
proof (induction js arbitrary: ks a t)
  case (Cons j js)
  have "mapped_at E (Suc (Suc (Suc (k + 3 * length js)))) (Suc (m + length js)) ip s (i, ks) a t" "vpath (down (i, ks) j)"
    using Cons.prems by (simp_all add: numeral_3_eq_3)
  from mapped_at_entry[OF this]
  have "good E (bmap_entry DISKDEV a j t) (mapped_at E (k + 3 * length js) (m + length js) ip s (i, ks @ [j]))" by simp
  then show ?case
    unfolding walk.simps
  proof (rule good_bnd)
    fix b u
    assume "mapped_at E (k + 3 * length js) (m + length js) ip s (i, ks @ [j]) b u"
    from Cons.IH[OF this] show "good E (walk js b u) (mapped_at E k m ip s (i, ks @ j # js))" using Cons.prems(2) by simp
  qed
qed simp

text \<open>Mapping a block takes at most four new blocks and eleven entries of the log.\<close>

lemma bmap_tx:
  assumes f: "file_tx E (k + 11) (m + 4) ip s" and bn: "bn < MAXFILE"
  shows "good E (bmap ip bn s) (mapped_at E k m ip s (fpath_of bn))"
proof -
  obtain i js where p: "fpath_of bn = (i, js)" by (cases "fpath_of bn")
  have v: "vpath (i, js)" "i < NDIRECT + 3" "length js \<le> 3" using fpath_of_valid[OF bn] by (auto simp: p lev_def NDIRECT_def)
  have dev: "i_dev (icache s ip) = DISKDEV" using f by (simp add: file_tx_def)
  let ?k = "k + 3 * length js" and ?m = "m + length js"
  have "file_tx E (Suc (Suc ?k)) (Suc ?m) ip s" using v(3) by (intro file_tx_mono[OF f]) simp_all
  from bmap_slot_tx[OF this v(2)] show ?thesis
    unfolding bmap_walk[OF bn dev] p fst_conv snd_conv
  proof (rule good_bnd)
    fix a t
    assume "file_tx E ?k ?m ip t \<and> bstep ip s t \<and> a = node (view t) (i_addrs (icache t ip)) (i, []) \<and> a \<noteq> 0"
    then have "mapped_at E ?k ?m ip s (i, []) a t" by (simp add: mapped_at_def)
    from walk_tx[OF this] show "good E (walk js a t) (mapped_at E k m ip s (i, js))" using v(1) by simp
  qed
qed

subsection \<open>Blocks that are already mapped\<close>

text \<open>\<open>same_view s t\<close>: no block changed and nothing was logged, as after reading.\<close>

definition same_view :: "'a fs_state_scheme \<Rightarrow> 'a fs_state_scheme \<Rightarrow> bool" where
  "same_view s t \<longleftrightarrow> in_tx {} t \<and> view t = view s \<and> lg_n t = lg_n s \<and> ext {} s t"

lemma same_view_refl: "in_tx {} s \<Longrightarrow> same_view s s"
  by (simp add: same_view_def)

lemma same_view_trans: "same_view s t \<Longrightarrow> same_view t u \<Longrightarrow> same_view s u"
  unfolding same_view_def using ext_trans by metis

lemma same_view_fs:
  assumes "same_view s t"
  shows "sb t = sb s" and "icache t = icache s" and "fs_layout t = fs_layout s" and "room E k t = room E k s"
    and "mem t = mem s" and "cr3 t = cr3 s" and "view t = view s" and "in_tx {} t"
  using assms ext_fs[of "{}" s t] ext_log[of "{}" s t] room_ext[of "{}" s t]
  by (simp_all add: same_view_def fs_layout_def logzone_def)

lemma file_tx_same: "file_tx E k m ip s \<Longrightarrow> same_view s t \<Longrightarrow> file_tx E k m ip t"
  by (simp add: file_tx_def same_view_fs)

lemma bstep_same: "file_tx E k m ip s \<Longrightarrow> same_view s t \<Longrightarrow> bstep ip s t"
  unfolding bstep_def using ext_fs(2)[of "{}" s t] by (simp add: same_view_def grown_refl file_tx_def istep_ext)

lemma data_block:
  assumes "fs_layout s" and "isdata (sb s) a"
  shows "a < disksize s" and "a \<notin> logzone s" and "a < 2 ^ 32"
proof -
  have "a < sb_size (sb s)" "sb_inodestart (sb s) \<le> a" using assms by (auto simp: isdata_def fs_layout_def dstart_def)
  from layout_block[OF assms(1) this] show "a < disksize s" "a \<notin> logzone s" "a < 2 ^ 32" .
qed

lemma tx_brelse_last:
  assumes "in_tx {p} t" and "holds_block t p a" and "view t = view s" and "lg_n t = lg_n s" and "ext {} s t"
  shows "good E (brelse p t) (\<lambda>_ u. same_view s u)"
  using ext_trans[OF assms(5) ext_mono[of "{p}"]] assms(3,4)
  by (intro good_mono[OF good_okpost[OF tx_brelse[OF assms(1) insertI1 assms(2)]]]) (auto simp: same_view_def)

lemma bmap_entry_mapped:
  assumes tx: "in_tx {} s" and lay: "fs_layout s" and a: "isdata (sb s) a" and j: "j < NINDIRECT"
    and b: "word_at (view s) a j \<noteq> 0" and room: "room E 0 s"
  shows "good E (bmap_entry DISKDEV a j s) (\<lambda>b t. b = word_at (view s) a j \<and> same_view s t)"
  unfolding bmap_entry_def
proof (rule good_bnd[OF tx_bread[OF tx data_block(1)[OF lay a] _ _ room]], simp, simp, elim conjE)
  fix p t
  assume t: "in_tx {p} t" "holds_block t p a" "content (b_data (bufs t p)) = view s a" "view t = view s"
    "lg_n t = lg_n s" "ext {} s t"
  have w: "word_at (view s) a j = unat (get32 (b_data (bufs t p)) (4 * j))"
    using t(3) j by (intro word_at_content) simp_all
  then have nz: "get32 (b_data (bufs t p)) (4 * j) \<noteq> 0" using b by auto
  have "good E (bnd (brelse p t) (\<lambda>_ u. Ok (word_at (view s) a j) u)) (\<lambda>b u. b = word_at (view s) a j \<and> same_view s u)"
    by (rule good_bnd[OF tx_brelse_last[OF t(1,2,4-6)]]) simp
  then show "good E (bnd (if get32 (b_data (bufs t p)) (4 * j) = 0
        then bnd (balloc DISKDEV t) (\<lambda>na s. let s = set_data p (put32 (b_data (bufs s p)) (4 * j) (of_nat na)) s
          in bnd (log_write p s) (\<lambda>_ s. Ok na s))
        else Ok (unat (get32 (b_data (bufs t p)) (4 * j))) t) (\<lambda>na s. bnd (brelse p s) (\<lambda>_ s. Ok na s)))
      (\<lambda>b t. b = word_at (view s) a j \<and> same_view s t)"
    using nz w by simp
qed

lemma walk_mapped:
  assumes f: "file_tx E 0 0 ip s" and nz: "node (view s) (i_addrs (icache s ip)) (i, ks @ js) \<noteq> 0" and v: "vpath (i, ks @ js)"
  shows "good E (walk js (node (view s) (i_addrs (icache s ip)) (i, ks)) s)
    (\<lambda>b t. b = node (view s) (i_addrs (icache s ip)) (i, ks @ js) \<and> same_view s t)"
  using assms
proof (induction js arbitrary: ks s)
  case Nil
  then show ?case by (simp add: same_view_refl file_tx_def)
next
  case (Cons j js)
  let ?n = "node (view s) (i_addrs (icache s ip))"
  have s: "in_tx {} s" "fs_layout s" "room E 0 s" "file_ok (sb s) (view s) (i_addrs (icache s ip))"
    using Cons.prems(1) by (simp_all add: file_tx_def)
  have n0: "?n (i, ks) \<noteq> 0" using Cons.prems(2) by (intro notI) (simp add: look_append)
  have w: "?n (i, ks @ [j]) = word_at (view s) (?n (i, ks)) j" using n0 by (simp add: look_append)
  have w0: "word_at (view s) (?n (i, ks)) j \<noteq> 0" using Cons.prems(2) n0 by (intro notI) (simp add: look_append)
  have "vpath (i, ks)" "j < NINDIRECT" using Cons.prems(3) by auto
  note e = bmap_entry_mapped[OF s(1,2) file_okD(1)[OF s(4) this(1) n0] this(2) w0 s(3)]
  show ?case
    unfolding walk.simps
  proof (rule good_bnd[OF e], elim conjE)
    fix b t
    assume t: "b = word_at (view s) (?n (i, ks)) j" "same_view s t"
    note f = file_tx_same[OF Cons.prems(1) t(2)] and v = same_view_fs[OF t(2)]
    show "good E (walk js b t) (\<lambda>b t. b = ?n (i, ks @ j # js) \<and> same_view s t)"
      using Cons.IH[OF f, of "ks @ [j]"] Cons.prems(2,3) t w same_view_trans[OF t(2)]
      by (auto simp: v simp del: node.simps elim!: good_mono)
  qed
qed

lemma bmap_mapped:
  assumes f: "file_tx E k m ip s" and bn: "bn < MAXFILE"
    and nz: "node (view s) (i_addrs (icache s ip)) (fpath_of bn) \<noteq> 0"
  shows "good E (bmap ip bn s) (\<lambda>b t. b = node (view s) (i_addrs (icache s ip)) (fpath_of bn) \<and> same_view s t)"
proof -
  obtain i js where p: "fpath_of bn = (i, js)" by (cases "fpath_of bn")
  have v: "vpath (i, [] @ js)" using fpath_of_valid[OF bn] by (simp add: p)
  have f0: "file_tx E 0 0 ip s" using file_tx_mono[OF f] by simp
  have dev: "i_dev (icache s ip) = DISKDEV" using f by (simp add: file_tx_def)
  have "i_addrs (icache s ip) i \<noteq> 0" using nz by (intro notI) (simp add: p)
  then show ?thesis using walk_mapped[OF f0 _ v] nz unfolding bmap_walk[OF bn dev]
    by (simp add: p bmap_slot_def)
qed

end
