(* ===== verification/Xv6_Fs_Codec.thy ===== *)
theory Xv6_Fs_Codec
  imports Xv6_Dir Xv6_Example
begin

unbundle bit_operations_syntax

section \<open>On-disk formats and path names\<close>

text \<open>
  Inodes and directory entries written to a block are read back as they were, and do not disturb their
  neighbours; the elements \<^verbatim>\<open>skipelem\<close> takes off a path one after the other are the parts between slashes.
\<close>

subsection \<open>Path elements\<close>

function path_elems :: "string \<Rightarrow> string list" where
  "path_elems path = (case skipelem path of None \<Rightarrow> [] | Some (rest, nm) \<Rightarrow> nm # path_elems rest)"
  by pat_completeness auto
termination
  by (relation "measure length") (auto dest: skipelem_shorter)

declare path_elems.simps [simp del]

text \<open>The parts of a path between slashes, empty ones included.\<close>

fun split_path :: "string \<Rightarrow> string list" where
  "split_path [] = [[]]"
| "split_path (c # cs) =
     (if slash c then [] # split_path cs
      else case split_path cs of [] \<Rightarrow> [[c]] | p # ps \<Rightarrow> (c # p) # ps)"

definition parts :: "string \<Rightarrow> string list" where
  "parts path = filter (\<lambda>p. p \<noteq> []) (split_path path)"

lemma split_path_ne: "split_path path \<noteq> []"
  by (cases path) (auto split: list.split)

lemma split_path_word:
  "\<forall>c\<in>set w. \<not> slash c \<Longrightarrow> split_path (w @ rest) = (case split_path rest of [] \<Rightarrow> [w] | p # ps \<Rightarrow> (w @ p) # ps)"
proof (induction w)
  case Nil
  then show ?case using split_path_ne[of rest] by (simp split: list.split)
next
  case (Cons c w)
  then show ?case using split_path_ne[of rest] by (simp split: list.split)
qed

lemma parts_slash: "parts (dropWhile slash path) = parts path"
  by (induction path) (auto simp: parts_def)

lemma parts_word:
  assumes "w \<noteq> []" and "\<forall>c\<in>set w. \<not> slash c" and "rest = [] \<or> slash (hd rest)"
  shows "parts (w @ rest) = w # parts rest"
proof (cases rest)
  case Nil
  then show ?thesis using assms split_path_word[OF assms(2), of "[]"] by (simp add: parts_def)
next
  case (Cons c cs)
  then show ?thesis using assms split_path_word[OF assms(2), of rest] by (simp add: parts_def)
qed

text \<open>
  C31. The elements that repeated calls of \<^verbatim>\<open>skipelem\<close> take off a path are the nonempty parts between its
  slashes, in order, each cut to \<^verbatim>\<open>DIRSIZ\<close> characters; leading, trailing and repeated slashes do not
  matter.
\<close>

theorem skipelem_elements: "path_elems path = map (take DIRSIZ) (parts path)"
proof (induction path rule: path_elems.induct)
  case (1 path)
  let ?p = "dropWhile slash path"
  let ?w = "takeWhile (\<lambda>c. \<not> slash c) ?p"
  let ?r = "dropWhile (\<lambda>c. \<not> slash c) ?p"
  show ?case
  proof (cases "?p = []")
    case True
    have "parts path = parts ?p" by (simp add: parts_slash)
    also have "\<dots> = []" unfolding True by (simp add: parts_def)
    finally show ?thesis using True by (simp add: path_elems.simps skipelem_def)
  next
    case False
    then have hd: "\<not> slash (hd ?p)" by (rule hd_dropWhile)
    have w: "?w \<noteq> []" using False hd by (cases ?p) auto
    have r: "?r = [] \<or> slash (hd ?r)" using hd_dropWhile[of "\<lambda>c. \<not> slash c" ?p] by auto
    have nm: "(if length ?w \<ge> DIRSIZ then take DIRSIZ ?w else ?w) = take DIRSIZ ?w" by simp
    have sk: "skipelem path = Some (dropWhile slash ?r, take DIRSIZ ?w)"
      using False nm by (simp add: skipelem_def Let_def)
    have "parts path = parts (?w @ ?r)" using parts_slash[of path] by simp
    also have "\<dots> = ?w # parts ?r" using w r by (intro parts_word) (auto dest: set_takeWhileD)
    finally have "map (take DIRSIZ) (parts path) = take DIRSIZ ?w # map (take DIRSIZ) (parts (dropWhile slash ?r))"
      by (simp add: parts_slash)
    then show ?thesis using 1[OF sk refl] sk by (simp add: path_elems.simps[of path])
  qed
qed

subsection \<open>Directory entries\<close>

lemma of_char_0_iff: "of_char c = (0 :: int) \<longleftrightarrow> c = CHR 0x00"
proof -
  have z: "of_char (CHR 0x00) = (0 :: int)" by simp
  show ?thesis unfolding z[symmetric] of_char_eq_iff ..
qed

lemma of_char_inj: "of_char c - of_char d = (0 :: int) \<longleftrightarrow> c = d"
  using of_char_eq_iff[of c d, where ?'a = int] by linarith

lemma strncmp_str_0:
  assumes "CHR 0x00 \<notin> set a" and "CHR 0x00 \<notin> set b"
  shows "strncmp_str n a b = 0 \<longleftrightarrow> take n a = take n b"
  using assms
  by (induction n a b rule: strncmp_str.induct) (auto simp: of_char_0_iff of_char_inj)

lemma unat_of_char: "unat (of_char c :: u8) = of_char c"
proof -
  have "(of_char c :: u8) = of_nat (of_char c)" by (rule of_nat_of_char[symmetric])
  then have "unat (of_char c :: u8) = of_char c mod 256" by (simp only: unat_of_nat) simp
  then show ?thesis by simp
qed

lemma of_char_u8_0: "(of_char c :: u8) = 0 \<longleftrightarrow> c = CHR 0x00"
proof -
  have "(of_char c :: u8) = 0 \<longleftrightarrow> (of_char c :: nat) = 0"
    unfolding unat_of_char[symmetric] by (rule unat_eq_0[symmetric])
  also have "\<dots> \<longleftrightarrow> of_char c = (of_char (CHR 0x00) :: nat)" by simp
  finally show ?thesis unfolding of_char_eq_iff .
qed

lemma name_at_put:
  assumes "CHR 0x00 \<notin> set nm"
  shows "k + m \<le> DIRSIZ \<Longrightarrow> name_at (dirent inum nm) (2 + k) m = take m (drop k nm)"
proof (induction m arbitrary: k)
  case (Suc m)
  have d: "dirent inum nm (2 + k) = put_name nm k"
    by (simp add: dirent_def put16_def)
  show ?case
  proof (cases "k < length nm")
    case True
    then have nz: "nm ! k \<noteq> CHR 0x00" using assms by (metis nth_mem)
    have "put_name nm k = of_char (nm ! k)" using True Suc.prems by (simp add: put_name_def)
    moreover note unat_of_char[of "nm ! k"]
    ultimately show ?thesis
      using Suc True nz d by (simp add: of_char_u8_0 Cons_nth_drop_Suc[symmetric])
  next
    case False
    then show ?thesis using d by (simp add: put_name_def)
  qed
qed simp

text \<open>
  C32. A directory entry built from an inode number and a name (NUL-free, as names cut off a path are) is
  found again by a lookup: the stored inode number and the first \<^verbatim>\<open>DIRSIZ\<close> characters of the name come
  back, and \<^verbatim>\<open>namecmp\<close> matches the stored name against exactly the names with the same first
  \<^verbatim>\<open>DIRSIZ\<close> characters.
\<close>

theorem dirent_roundtrip:
  assumes "CHR 0x00 \<notin> set nm" and "CHR 0x00 \<notin> set x" and "inum < 2 ^ 16"
  shows "unat (get16 (dirent inum nm) 0) = inum
    \<and> name_at (dirent inum nm) 2 DIRSIZ = take DIRSIZ nm
    \<and> (namecmp x (name_at (dirent inum nm) 2 DIRSIZ) = 0 \<longleftrightarrow> take DIRSIZ x = take DIRSIZ nm)"
proof (intro conjI)
  show "unat (get16 (dirent inum nm) 0) = inum"
    using assms(3) by (simp add: dirent_def unat_of_nat)
  show nm: "name_at (dirent inum nm) 2 DIRSIZ = take DIRSIZ nm"
    using name_at_put[OF assms(1), of 0 DIRSIZ inum] by simp
  have "CHR 0x00 \<notin> set (take DIRSIZ nm)" using assms(1) by (meson in_set_takeD)
  then show "namecmp x (name_at (dirent inum nm) 2 DIRSIZ) = 0 \<longleftrightarrow> take DIRSIZ x = take DIRSIZ nm"
    unfolding nm namecmp_def strncmp_str_0[OF assms(2) \<open>CHR 0x00 \<notin> set (take DIRSIZ nm)\<close>] by simp
qed

theorem dirent_roundtrip_witness:
  "unat (get16 (dirent 513 ''README'') 0) = 513 \<and> name_at (dirent 513 ''README'') 2 DIRSIZ = ''README''
   \<and> namecmp ''README'' (name_at (dirent 513 ''README'') 2 DIRSIZ) = 0"
proof -
  note r = dirent_roundtrip[of "''README''" "''README''" 513]
  have "namecmp ''README'' (name_at (dirent 513 ''README'') 2 DIRSIZ) = 0"
    using r[THEN conjunct2, THEN conjunct2] by simp
  moreover have "take DIRSIZ ''README'' = ''README''" by (simp add: DIRSIZ_def)
  ultimately show ?thesis using r by simp
qed

subsection \<open>Inodes\<close>

lemma put_addrs_frame:
  "a < q + 12 \<or> q + 12 + 4 * (NDIRECT + 3) \<le> a \<Longrightarrow> put_addrs q addrs d a = d a"
proof -
  assume a: "a < q + 12 \<or> q + 12 + 4 * (NDIRECT + 3) \<le> a"
  have "\<forall>i\<in>set is. i < NDIRECT + 3 \<Longrightarrow>
      fold (\<lambda>i d. put32 d (q + 12 + 4 * i) (of_nat (addrs i))) is d a = d a" for "is"
  proof (induction "is" arbitrary: d)
    case (Cons i "is")
    then have "put32 d (q + 12 + 4 * i) (of_nat (addrs i)) a = d a" using a by (auto simp: put32_def)
    with Cons show ?case by simp
  qed simp
  then show ?thesis by (simp add: put_addrs_def)
qed

lemma put_addrs_get:
  assumes "i < NDIRECT + 3"
  shows "get32 (put_addrs q addrs d) (q + 12 + 4 * i) = of_nat (addrs i)"
proof -
  have "i < k \<Longrightarrow> get32 (fold (\<lambda>i d. put32 d (q + 12 + 4 * i) (of_nat (addrs i))) [0..<k] d) (q + 12 + 4 * i)
      = of_nat (addrs i)" for k
  proof (induction k)
    case (Suc k)
    then show ?case by (cases "i = k") (auto simp: get32_put32_other)
  qed simp
  with assms show ?thesis by (simp add: put_addrs_def)
qed

lemma put_dinode_frame:
  "a < q \<or> q + DINODESZ \<le> a \<Longrightarrow> put_dinode q ip d a = d a"
  by (auto simp: put_dinode_def put_addrs_frame put16_def put32_def DINODESZ_def NDIRECT_def)

lemma get_dinode_cong:
  "(\<And>a. q \<le> a \<Longrightarrow> a < q + DINODESZ \<Longrightarrow> d a = e a) \<Longrightarrow> get_dinode q d x = get_dinode q e x"
  unfolding get_dinode_def get16_def get32_def
  by (auto simp: DINODESZ_def NDIRECT_def intro!: inode.equality ext)

lemma sint_short: "- (2 ^ 15) \<le> x \<Longrightarrow> x < 2 ^ 15 \<Longrightarrow> sint (word_of_int x :: u16) = x"
  by (simp add: signed_take_bit_int_eq_self sint_sbintrunc')

text \<open>The fields fit in their on-disk types.\<close>

definition dinode_fits :: "inode \<Rightarrow> bool" where
  "dinode_fits ip \<longleftrightarrow>
     (\<forall>x \<in> {i_type ip, i_major ip, i_minor ip, i_nlink ip}. - (2 ^ 15) \<le> x \<and> x < 2 ^ 15)
     \<and> i_size ip < 2 ^ 32 \<and> (\<forall>i \<in> {..<NDIRECT + 3}. i_addrs ip i < 2 ^ 32)"

lemma get_put_dinode:
  assumes "dinode_fits ip"
  shows "get_dinode q (put_dinode q ip d) x =
    x\<lparr>i_type := i_type ip, i_major := i_major ip, i_minor := i_minor ip, i_nlink := i_nlink ip,
      i_size := i_size ip, i_addrs := (\<lambda>i. if i < NDIRECT + 3 then i_addrs ip i else i_addrs x i)\<rparr>"
proof -
  let ?d = "put_dinode q ip d"
  have g: "get16 (put_addrs q ad e) b = get16 e b" if "b + 2 \<le> q + 12" for b ad e
    using that by (simp add: get16_def put_addrs_frame)
  have g': "get32 (put_addrs q ad e) (q + 8) = get32 e (q + 8)" for ad e
    by (simp add: get32_def put_addrs_frame)
  have "get16 ?d q = word_of_int (i_type ip)" "get16 ?d (q + 2) = word_of_int (i_major ip)"
    "get16 ?d (q + 4) = word_of_int (i_minor ip)" "get16 ?d (q + 6) = word_of_int (i_nlink ip)"
    by (simp_all add: put_dinode_def g get16_put32_other get16_put16_other)
  moreover have "get32 ?d (q + 8) = of_nat (i_size ip)"
    by (simp add: put_dinode_def g')
  moreover have "get32 ?d (q + 12 + 4 * i) = of_nat (i_addrs ip i)" if "i < NDIRECT + 3" for i
    using that by (simp add: put_dinode_def put_addrs_get)
  ultimately show ?thesis
    using assms unfolding get_dinode_def dinode_fits_def
    by (intro inode.equality) (auto simp: sint_short unat_of_nat intro!: ext)
qed

text \<open>
  C33. An inode written into its slot of an inode block is read back with every field it had, and the
  inodes in the other slots of the block are read as before.
\<close>

theorem dinode_roundtrip:
  assumes "dinode_fits ip" and "k mod IPB \<noteq> n mod IPB"
  shows "get_dinode (dinode_off n) (put_dinode (dinode_off n) ip d) x =
      x\<lparr>i_type := i_type ip, i_major := i_major ip, i_minor := i_minor ip, i_nlink := i_nlink ip,
        i_size := i_size ip, i_addrs := (\<lambda>i. if i < NDIRECT + 3 then i_addrs ip i else i_addrs x i)\<rparr>
    \<and> get_dinode (dinode_off k) (put_dinode (dinode_off n) ip d) x = get_dinode (dinode_off k) d x"
proof (intro conjI)
  show "get_dinode (dinode_off n) (put_dinode (dinode_off n) ip d) x =
      x\<lparr>i_type := i_type ip, i_major := i_major ip, i_minor := i_minor ip, i_nlink := i_nlink ip,
        i_size := i_size ip, i_addrs := (\<lambda>i. if i < NDIRECT + 3 then i_addrs ip i else i_addrs x i)\<rparr>"
    by (rule get_put_dinode[OF assms(1)])
  have "k mod IPB < n mod IPB \<or> n mod IPB < k mod IPB" using assms(2) by linarith
  then have "dinode_off k + DINODESZ \<le> dinode_off n \<or> dinode_off n + DINODESZ \<le> dinode_off k"
    by (auto simp: dinode_off_def DINODESZ_def NDIRECT_def)
  then show "get_dinode (dinode_off k) (put_dinode (dinode_off n) ip d) x = get_dinode (dinode_off k) d x"
    by (intro get_dinode_cong put_dinode_frame) auto
qed

definition ex_inode :: inode where
  "ex_inode = \<lparr>i_dev = 1, i_inum = 9, i_ref = 1, i_valid = True, i_type = 2, i_major = 0, i_minor = - 1,
              i_nlink = 1, i_size = 70000, i_addrs = (\<lambda>i. if i < 11 then 500 + i else 0)\<rparr>"

lemma ex_inode_fits: "dinode_fits ex_inode"
  by (auto simp: dinode_fits_def ex_inode_def)

theorem dinode_roundtrip_witness:
  "get_dinode (dinode_off 9) (put_dinode (dinode_off 9) ex_inode (\<lambda>_. 0)) ex_inode = ex_inode
   \<and> i_type (get_dinode (dinode_off 10) (put_dinode (dinode_off 9) ex_inode (\<lambda>_. 0)) ex_inode) = 0"
proof -
  have m: "(10::nat) mod IPB \<noteq> 9 mod IPB" by (simp add: IPB_def BSIZE_def DINODESZ_def NDIRECT_def)
  show ?thesis
    using dinode_roundtrip[OF ex_inode_fits m, of "\<lambda>_. 0" ex_inode]
    by (simp add: get_dinode_def)
qed

end
