(* ===== verification/Xv6_Fs_RW.thy ===== *)
theory Xv6_Fs_RW
  imports Xv6_Fs_Map Xv6_Fs_Codec
begin

section \<open>Reading and writing files\<close>

text \<open>
  A file as an array of bytes: \<open>fbyte v A o\<close> is the byte at offset \<open>o\<close> of the file with the block addresses \<open>A\<close>, zero
  where no block is mapped. \<^verbatim>\<open>readi\<close> returns these bytes and changes nothing; \<^verbatim>\<open>writei\<close> replaces the bytes of the
  range it writes, keeps the other bytes of the file, the blocks of all other files, and the inodes on disk other
  than its own.
\<close>

subsection \<open>The bytes of a file\<close>

definition fnode :: "(nat \<Rightarrow> u8 list) \<Rightarrow> (nat \<Rightarrow> nat) \<Rightarrow> nat \<Rightarrow> nat" where
  "fnode v A bn = node v A (fpath_of bn)"

definition fbyte :: "(nat \<Rightarrow> u8 list) \<Rightarrow> (nat \<Rightarrow> nat) \<Rightarrow> nat \<Rightarrow> u8" where
  "fbyte v A pos = (let b = fnode v A (pos div BSIZE) in if b = 0 then 0 else v b ! (pos mod BSIZE))"

definition MAXBYTES :: nat where
  "MAXBYTES = MAXFILE * BSIZE"

lemma BSIZE_pos [simp]: "0 < BSIZE"
  by (simp add: BSIZE_def)

lemma pos_block: "pos < MAXBYTES \<Longrightarrow> pos div BSIZE < MAXFILE"
  by (simp add: MAXBYTES_def less_mult_imp_div_less)

lemma zeros_nth: "i < BSIZE \<Longrightarrow> zeros ! i = 0"
  by (simp add: zeros_def)

lemma grown_fbyte:
  assumes g: "grown x v A v' A'" and o: "pos < MAXBYTES"
  shows "fbyte v' A' pos = fbyte v A pos"
proof -
  have p: "vpath (fpath_of (pos div BSIZE))" "full (fpath_of (pos div BSIZE))" using fpath_of_valid[OF pos_block[OF o]] by auto
  show ?thesis
    using grownD(2)[OF g p(1)] grownD(3)[OF g p] by (auto simp: fbyte_def fnode_def Let_def zeros_nth)
qed

text \<open>
  \<open>fwrote x v A v' A' off n w\<close>: the bytes \<open>off\<close> up to \<open>off + n\<close> of the file became those of \<open>w\<close>, the other bytes stayed,
  the blocks of the range are mapped, and nothing outside the file changed but the bitmap.
\<close>

definition in_range :: "nat \<Rightarrow> nat \<Rightarrow> nat \<Rightarrow> bool" where
  "in_range off n pos \<longleftrightarrow> off \<le> pos \<and> pos < off + n"

definition fwrote :: "superblock \<Rightarrow> (nat \<Rightarrow> u8 list) \<Rightarrow> (nat \<Rightarrow> nat) \<Rightarrow> (nat \<Rightarrow> u8 list) \<Rightarrow> (nat \<Rightarrow> nat) \<Rightarrow>
    nat \<Rightarrow> nat \<Rightarrow> (nat \<Rightarrow> u8) \<Rightarrow> bool" where
  "fwrote x v A v' A' off n w \<longleftrightarrow> file_ok x v' A' \<and>
     (\<forall>pos<MAXBYTES. fbyte v' A' pos = (if in_range off n pos then w pos else fbyte v A pos)) \<and>
     (\<forall>pos<MAXBYTES. in_range off n pos \<longrightarrow> fnode v' A' (pos div BSIZE) \<noteq> 0) \<and>
     (\<forall>q. vpath q \<longrightarrow> node v A q \<noteq> 0 \<longrightarrow> node v' A' q = node v A q) \<and>
     ((\<forall>pos. in_range off n pos \<longrightarrow> fnode v A (pos div BSIZE) \<noteq> 0) \<longrightarrow> A' = A) \<and>
     (\<forall>b. foreign x v A b \<longrightarrow> foreign x v' A' b \<and> v' b = v b) \<and>
     (\<forall>b < sb_bmapstart x. v' b = v b) \<and>
     (\<forall>b < sb_size x. used x v' b \<longleftrightarrow> used x v b \<or> file_block v' A' b)"

lemma fwroteD:
  assumes "fwrote x v A v' A' off n w"
  shows "file_ok x v' A'"
    and "pos < MAXBYTES \<Longrightarrow> fbyte v' A' pos = (if in_range off n pos then w pos else fbyte v A pos)"
    and "pos < MAXBYTES \<Longrightarrow> in_range off n pos \<Longrightarrow> fnode v' A' (pos div BSIZE) \<noteq> 0"
    and "vpath q \<Longrightarrow> node v A q \<noteq> 0 \<Longrightarrow> node v' A' q = node v A q"
    and "(\<And>pos. in_range off n pos \<Longrightarrow> fnode v A (pos div BSIZE) \<noteq> 0) \<Longrightarrow> A' = A"
    and "foreign x v A b \<Longrightarrow> foreign x v' A' b" and "foreign x v A b \<Longrightarrow> v' b = v b"
    and "b < sb_bmapstart x \<Longrightarrow> v' b = v b"
    and "b < sb_size x \<Longrightarrow> used x v' b \<longleftrightarrow> used x v b \<or> file_block v' A' b"
  using assms unfolding fwrote_def by blast+

lemma fwrote_fnode:
  "fwrote x v A v' A' off n w \<Longrightarrow> bn < MAXFILE \<Longrightarrow> fnode v A bn \<noteq> 0 \<Longrightarrow> fnode v' A' bn = fnode v A bn"
  unfolding fnode_def using fwroteD(4) fpath_of_valid by blast

lemma fwrote_none:
  assumes "file_ok x v A"
  shows "fwrote x v A v A off 0 w"
proof -
  have "used x v b" if "file_block v A b" for b using that file_okD(2)[OF assms] unfolding file_block_def by metis
  then show ?thesis using assms by (auto simp: fwrote_def in_range_def)
qed

lemma fwrote_trans:
  assumes g: "fwrote x v A v' A' off m w" and h: "fwrote x v' A' v'' A'' (off + m) n w" and e: "off + m + n \<le> MAXBYTES"
  shows "fwrote x v A v'' A'' off (m + n) w"
  unfolding fwrote_def
proof (intro conjI allI impI)
  have rng: "in_range off (m + n) pos \<longleftrightarrow> in_range off m pos \<or> in_range (off + m) n pos" for pos
    by (auto simp: in_range_def)
  show "file_ok x v'' A''" using fwroteD(1)[OF h] .
  show "fbyte v'' A'' pos = (if in_range off (m + n) pos then w pos else fbyte v A pos)" if "pos < MAXBYTES" for pos
    using fwroteD(2)[OF g that] fwroteD(2)[OF h that] by (auto simp: rng)
  show "fnode v'' A'' (pos div BSIZE) \<noteq> 0" if o: "pos < MAXBYTES" "in_range off (m + n) pos" for pos
    using fwroteD(3)[OF g o(1)] fwroteD(3)[OF h o(1)] fwrote_fnode[OF h pos_block[OF o(1)]] o(2) by (auto simp: rng)
  show n: "node v'' A'' q = node v A q" if "vpath q" "node v A q \<noteq> 0" for q
    using fwroteD(4)[OF g that] fwroteD(4)[OF h that(1)] that(2) by simp
  show "A'' = A" if all: "\<forall>pos. in_range off (m + n) pos \<longrightarrow> fnode v A (pos div BSIZE) \<noteq> 0"
  proof -
    have A: "A' = A" using all by (intro fwroteD(5)[OF g]) (simp add: rng)
    moreover have "A'' = A'"
    proof (rule fwroteD(5)[OF h])
      fix pos
      assume p: "in_range (off + m) n pos"
      then have "pos div BSIZE < MAXFILE" "fnode v A (pos div BSIZE) \<noteq> 0" using all e pos_block[of pos] by (auto simp: rng in_range_def)
      then show "fnode v' A' (pos div BSIZE) \<noteq> 0" using fwrote_fnode[OF g] by simp
    qed
    ultimately show ?thesis by simp
  qed
  show "foreign x v'' A'' b" "v'' b = v b" if "foreign x v A b" for b
    using fwroteD(6,7)[OF h] fwroteD(6,7)[OF g that] by auto
  show "v'' b = v b" if "b < sb_bmapstart x" for b using fwroteD(8)[OF g that] fwroteD(8)[OF h that] by simp
  show "used x v'' b \<longleftrightarrow> used x v b \<or> file_block v'' A'' b" if b: "b < sb_size x" for b
  proof -
    have "file_block v'' A'' b" if "file_block v' A' b" using that fwroteD(4)[OF h] unfolding file_block_def by metis
    then show ?thesis using fwroteD(9)[OF g b] fwroteD(9)[OF h b] by blast
  qed
qed

text \<open>Growth followed by a change of one data block.\<close>

lemma node_data_write:
  assumes ok: "file_ok x v A" and p: "vpath p" "full p" "node v A p \<noteq> 0" and q: "vpath q"
  shows "node (v(node v A p := c)) A q = node v A q"
  using q
proof (induction q rule: fpath_induct)
  case (down r k)
  then have r: "vpath r" "\<not> full r" by (simp_all add: vpath_down)
  have "node v A r \<noteq> node v A p" using file_okD(3)[OF ok p(1) r(1) p(3)] p(2) r(2) by metis
  then show ?case using down.IH by (simp add: node_down word_at_def del: node.simps)
qed simp

lemma fwrote_block:
  assumes g: "grown x v A v1 A'" and bn: "bn < MAXFILE" and a: "a = fnode v1 A' bn" "a \<noteq> 0"
    and rng: "in_range off n off" "off div BSIZE = bn" "(off + n - 1) div BSIZE = bn"
    and c: "\<And>i. i < BSIZE \<Longrightarrow> c ! i = (if in_range off n (bn * BSIZE + i) then w (bn * BSIZE + i) else v1 a ! i)"
    and same: "fnode v A bn \<noteq> 0 \<Longrightarrow> A' = A"
  shows "fwrote x v A (v1(a := c)) A' off n w"
proof -
  let ?v = "v1(a := c)"
  note g1 = grownD(1)[OF g] and p = fpath_of_valid[OF bn, THEN conjunct1] fpath_of_valid[OF bn, THEN conjunct2]
  have a': "a = node v1 A' (fpath_of bn)" "node v1 A' (fpath_of bn) \<noteq> 0" using a by (simp_all add: fnode_def)
  have nd: "node ?v A' q = node v1 A' q" if "vpath q" for q
    unfolding a'(1) by (rule node_data_write[OF g1 p a'(2) that])
  have fn: "fnode ?v A' k = fnode v1 A' k" if "k < MAXFILE" for k
    using nd fpath_of_valid[OF that] by (simp add: fnode_def)
  have da: "isdata x a" "used x v1 a" using file_okD(1,2)[OF g1 p(1) a'(2)] a'(1) by simp_all
  have us: "used x ?v b = used x v1 b" if "b < sb_size x" for b
    using that da(1) by (intro used_zeroed) (simp_all add: isdata_def)
  have d: "b < sb_size x" if "isdata x b" for b using that by (simp add: isdata_def)
  have ow: "file_block ?v A' b = file_block v1 A' b" for b unfolding file_block_def using nd by metis
  have in_bn: "in_range off n pos \<Longrightarrow> pos div BSIZE = bn" for pos
    using rng(2,3) div_le_mono[of off pos BSIZE] div_le_mono[of pos "off + n - 1" BSIZE] by (auto simp: in_range_def)
  show ?thesis
    unfolding fwrote_def
  proof (intro conjI allI impI)
    show "file_ok x ?v A'" using g1 nd us[OF d] unfolding file_ok_def by metis
    show "node ?v A' q = node v A q" if "vpath q" "node v A q \<noteq> 0" for q using nd[OF that(1)] grownD(2)[OF g that] by simp
    show "fbyte ?v A' pos = (if in_range off n pos then w pos else fbyte v A pos)" if o: "pos < MAXBYTES" for pos
    proof (cases "pos div BSIZE = bn")
      case True
      have "pos = bn * BSIZE + pos mod BSIZE" using True div_mult_mod_eq[of pos BSIZE] by simp
      then have "fbyte ?v A' pos = (if in_range off n pos then w pos else fbyte v1 A' pos)"
        using c[of "pos mod BSIZE"] a fn[OF bn] True by (simp add: fbyte_def)
      then show ?thesis using grown_fbyte[OF g o] by simp
    next
      case False
      have k: "pos div BSIZE < MAXFILE" using pos_block[OF o] .
      have "node v1 A' (fpath_of bn) \<noteq> node v1 A' (fpath_of (pos div BSIZE))"
        using file_okD(3)[OF g1 p(1) fpath_of_valid[OF k, THEN conjunct1] a'(2)] fpath_of_inj[OF bn k] False by blast
      then have "fnode v1 A' (pos div BSIZE) \<noteq> a" unfolding a'(1) fnode_def by metis
      then have "fbyte ?v A' pos = fbyte v1 A' pos" by (simp add: fbyte_def fn[OF k] Let_def)
      moreover have "\<not> in_range off n pos" using in_bn False by blast
      ultimately show ?thesis using grown_fbyte[OF g o] by simp
    qed
    show "fnode ?v A' (pos div BSIZE) \<noteq> 0" if "pos < MAXBYTES" "in_range off n pos" for pos
      using in_bn[OF that(2)] fn[OF bn] a by simp
    show "A' = A" if "\<forall>pos. in_range off n pos \<longrightarrow> fnode v A (pos div BSIZE) \<noteq> 0"
      using that rng(1,2) same by auto
    show "foreign x ?v A' b" "?v b = v b" if f: "foreign x v A b" for b
    proof -
      have f1: "foreign x v1 A' b" using grownD(4)[OF g f] .
      then show "foreign x ?v A' b" using us[OF d] by (simp add: foreign_def ow)
      have "file_block v1 A' a" unfolding file_block_def using a' p(1) by metis
      then have "b \<noteq> a" using f1 by (auto simp: foreign_def)
      then show "?v b = v b" using grownD(5)[OF g f] by simp
    qed
    show "?v b = v b" if "b < sb_bmapstart x" for b
      using grownD(6)[OF g that] da(1) that by (auto simp: isdata_def dstart_def)
    show "used x ?v b \<longleftrightarrow> used x v b \<or> file_block ?v A' b" if b: "b < sb_size x" for b
    proof -
      have "used x v1 b" if "file_block v1 A' b" using that file_okD(2)[OF g1] unfolding file_block_def by metis
      then show ?thesis using us[OF b] grownD(7,8)[OF g b] ow[of b] by blast
    qed
  qed
qed

subsection \<open>Reading\<close>

definition nblk :: "nat \<Rightarrow> nat \<Rightarrow> nat" where
  "nblk off n = (if n = 0 then 0 else (off + n - 1) div BSIZE - off div BSIZE + 1)"

lemma chunk:
  fixes off n :: nat
  assumes "0 < n" and m: "m = min n (BSIZE - off mod BSIZE)"
  shows "0 < m" and "m \<le> n" and "off mod BSIZE + m \<le> BSIZE" and "(off + m - 1) div BSIZE = off div BSIZE"
    and "nblk off n = Suc (nblk (off + m) (n - m))"
proof -
  have l: "off mod BSIZE < BSIZE" by simp
  show 1: "0 < m" "m \<le> n" using assms l by auto
  show 3: "off mod BSIZE + m \<le> BSIZE" using l unfolding m by linarith
  have o: "off = off div BSIZE * BSIZE + off mod BSIZE" by simp
  have d: "(off div BSIZE * BSIZE + r) div BSIZE = off div BSIZE" if "r < BSIZE" for r using that by simp
  have "off + m - 1 = off div BSIZE * BSIZE + (off mod BSIZE + m - 1)" using o 1 by simp
  then show 4: "(off + m - 1) div BSIZE = off div BSIZE" using d[of "off mod BSIZE + m - 1"] 3 1 by simp
  show "nblk off n = Suc (nblk (off + m) (n - m))"
  proof (cases "m = n")
    case True
    then show ?thesis using 4 assms(1) by (simp add: nblk_def)
  next
    case False
    then have m': "m = BSIZE - off mod BSIZE" "m < n" using m by auto
    have "off + m = off div BSIZE * BSIZE + BSIZE" using o m' l by linarith
    then have q: "(off + m) div BSIZE = Suc (off div BSIZE)" by simp
    have "(off + m) div BSIZE \<le> (off + n - 1) div BSIZE" using m'(2) by (intro div_le_mono) simp
    moreover have "off + m + (n - m) - 1 = off + n - 1" using m'(2) by simp
    ultimately show ?thesis using q m'(2) by (simp add: nblk_def)
  qed
qed

lemma fbyte_block:
  "fnode v A (off div BSIZE) = a \<Longrightarrow> a \<noteq> 0 \<Longrightarrow> off mod BSIZE + i < BSIZE \<Longrightarrow> fbyte v A (off + i) = v a ! (off mod BSIZE + i)"
proof -
  assume a: "fnode v A (off div BSIZE) = a" "a \<noteq> 0" "off mod BSIZE + i < BSIZE"
  have "off + i = off div BSIZE * BSIZE + (off mod BSIZE + i)" by simp
  then have "(off + i) div BSIZE = off div BSIZE" "(off + i) mod BSIZE = off mod BSIZE + i" using a(3)
    by (metis div_mult_self3 mult.commute BSIZE_pos div_less add.right_neutral less_numeral_extra(3),
        metis mod_mult_self3 mod_less)
  then show ?thesis using a by (simp add: fbyte_def)
qed

lemma readi_loop_tx:
  assumes "file_tx E 0 0 ip s" and "off + (n - tot) \<le> MAXBYTES"
    and "\<And>pos. in_range off (n - tot) pos \<Longrightarrow> fnode (view s) (i_addrs (icache s ip)) (pos div BSIZE) \<noteq> 0"
  shows "good E (readi_loop ip ToVar off tot n acc s) (\<lambda>d t. same_view s t \<and>
    (\<forall>i. d i = (if tot \<le> i \<and> i < n then fbyte (view s) (i_addrs (icache s ip)) (off + (i - tot)) else acc i)))"
  using assms
proof (induction "n - tot" arbitrary: off tot acc s rule: less_induct)
  case less
  let ?v = "view s" and ?A = "i_addrs (icache s ip)"
  have s: "in_tx {} s" "fs_layout s" "room E 0 s" "file_ok (sb s) ?v ?A" "i_dev (icache s ip) = DISKDEV"
    using less.prems(1) by (simp_all add: file_tx_def)
  show ?case
  proof (cases "tot < n")
    case False
    then show ?thesis using same_view_refl[OF s(1)] by (auto simp: readi_loop.simps[of ip ToVar off tot n acc s])
  next
    case True
    define m where "m = min (n - tot) (BSIZE - off mod BSIZE)"
    have n: "0 < n - tot" using True by simp
    note c = chunk[OF n m_def]
    have bn: "off div BSIZE < MAXFILE" using less.prems(2) n by (intro pos_block) simp
    have nz: "fnode ?v ?A (off div BSIZE) \<noteq> 0" using less.prems(3) n by (simp add: in_range_def)
    let ?a = "fnode ?v ?A (off div BSIZE)"
    have a: "isdata (sb s) ?a"
      using file_okD(1)[OF s(4)] fpath_of_valid[OF bn] nz unfolding fnode_def by blast
    show ?thesis
      unfolding readi_loop.simps[of ip ToVar off tot n acc s] if_P[OF True] Let_def m_def[symmetric] s(5)
    proof (rule good_bnd[OF bmap_mapped[OF less.prems(1) bn nz[unfolded fnode_def]]], elim conjE, fold fnode_def)
      fix b t
      assume b: "b = ?a" and t: "same_view s t"
      note v = same_view_fs[OF t]
      have at: "?a < disksize t" using data_block(1)[of t ?a] v s(2) a by simp
      have rt: "room E 0 t" using v(4) s(3) by simp
      show "good E (bnd (bread DISKDEV b t) (\<lambda>bp s. bnd (to_dest ToVar tot (b_data (bufs s bp)) (off mod BSIZE) m s)
            (\<lambda>_ sa. bnd (brelse bp sa) (\<lambda>_. readi_loop ip ToVar (off + m) (tot + m) n
               (copy acc tot (b_data (bufs s bp)) (off mod BSIZE) m)))))
          (\<lambda>d t. same_view s t \<and> (\<forall>i. d i = (if tot \<le> i \<and> i < n then fbyte ?v ?A (off + (i - tot)) else acc i)))"
        unfolding b to_dest_def dest.case bnd.simps
      proof (rule good_bnd[OF tx_bread[OF v(8) at _ _ rt]], simp, simp, elim conjE)
        fix p u
        assume u: "in_tx {p} u" "holds_block u p ?a" "content (b_data (bufs u p)) = view t ?a" "view u = view t"
          "lg_n u = lg_n t" "ext {} t u"
        let ?acc = "copy acc tot (b_data (bufs u p)) (off mod BSIZE) m"
        show "good E (bnd (brelse p u) (\<lambda>_. readi_loop ip ToVar (off + m) (tot + m) n ?acc))
          (\<lambda>d t. same_view s t \<and> (\<forall>i. d i = (if tot \<le> i \<and> i < n then fbyte ?v ?A (off + (i - tot)) else acc i)))"
        proof (rule good_bnd[OF tx_brelse_last[OF u(1,2,4-6)]])
          fix y w
          assume "same_view t w"
          then have w: "same_view s w" using same_view_trans[OF t] by blast
          note vw = same_view_fs[OF w]
          have byte: "b_data (bufs u p) (off mod BSIZE + i) = fbyte ?v ?A (off + i)" if "i < m" for i
            using fbyte_block[OF refl nz, of i] that c(3) u(3) v(7) nth_content[of "off mod BSIZE + i" "b_data (bufs u p)"] by simp
          have acc: "?acc i = (if tot \<le> i \<and> i < tot + m then fbyte ?v ?A (off + (i - tot)) else acc i)" for i
            using byte[of "i - tot"] by (auto simp: copy_def)
          have "good E (readi_loop ip ToVar (off + m) (tot + m) n ?acc w) (\<lambda>d t. same_view w t \<and>
              (\<forall>i. d i = (if tot + m \<le> i \<and> i < n then fbyte ?v ?A (off + m + (i - (tot + m))) else ?acc i)))"
            using less.prems(2,3) c(1,2)
            by (intro less.hyps[of "tot + m" w "off + m" ?acc, OF _ file_tx_same[OF less.prems(1) w], unfolded vw(2,7)])
              (simp_all add: in_range_def)
          then show "good E (readi_loop ip ToVar (off + m) (tot + m) n ?acc w)
            (\<lambda>d t. same_view s t \<and> (\<forall>i. d i = (if tot \<le> i \<and> i < n then fbyte ?v ?A (off + (i - tot)) else acc i)))"
            using same_view_trans[OF w] acc c(1,2) by (elim good_mono) auto
        qed
      qed
    qed
  qed
qed

subsection \<open>Writing\<close>

text \<open>
  \<open>src_has s src n w\<close>: the first \<open>n\<close> bytes of the source are those of \<open>w\<close>; an address is mapped for all of them and
  does not wrap around.
\<close>

fun src_has :: "'a fs_state_scheme \<Rightarrow> src \<Rightarrow> nat \<Rightarrow> (nat \<Rightarrow> u8) \<Rightarrow> bool" where
  "src_has s (FromVar d) n w \<longleftrightarrow> (\<forall>i<n. d i = w i)"
| "src_has s (FromAddr a) n w \<longleftrightarrow> a + n \<le> 2 ^ 32 \<and> (\<forall>i<n. \<exists>x. vtrans s (a + i) = Some x \<and> mem s x = w i)"

lemma src_has_load:
  assumes "src_has s src n w" and "tot + m \<le> n" and "0 < m"
  shows "\<exists>d. from_src src tot m s = Ok d s \<and> (\<forall>i<m. d i = w (tot + i))"
proof (cases src)
  case (FromVar d)
  then show ?thesis using assms by (auto simp: from_src_def)
next
  case (FromAddr a)
  then have a: "a + n \<le> 2 ^ 32" "\<And>i. i < n \<Longrightarrow> \<exists>x. vtrans s (a + i) = Some x \<and> mem s x = w i" using assms(1) by auto
  have "\<exists>x. vtrans s (a + tot + i) = Some x \<and> mem s x = w (tot + i)" if "i < m" for i
    using a(2)[of "tot + i"] that assms(2) by (simp add: add.assoc)
  then have "vload s (a + tot) m = Some (map (\<lambda>i. w (tot + i)) [0..<m])"
    using vload_mapped[of m s "a + tot" "\<lambda>i. w (tot + i)"] by blast
  moreover have "(a + tot) mod 2 ^ 32 = a + tot" using a(1) assms(2,3) by simp
  ultimately show ?thesis using FromAddr by (simp add: from_src_def of_list_def)
qed

lemma src_has_cong: "mem t = mem s \<Longrightarrow> cr3 t = cr3 s \<Longrightarrow> src_has t src n w = src_has s src n w"
  by (cases src) (simp_all add: vtrans_def)

lemma bmap_any:
  assumes f: "file_tx E (k + 11) (m + 4) ip s" and bn: "bn < MAXFILE"
  shows "good E (bmap ip bn s) (\<lambda>a t. mapped_at E k m ip s (fpath_of bn) a t \<and>
    (fnode (view s) (i_addrs (icache s ip)) bn \<noteq> 0 \<longrightarrow> i_addrs (icache t ip) = i_addrs (icache s ip)))"
proof (cases "fnode (view s) (i_addrs (icache s ip)) bn = 0")
  case True
  then show ?thesis using bmap_tx[OF f bn] by (simp add: good_mono)
next
  case False
  then have nz: "node (view s) (i_addrs (icache s ip)) (fpath_of bn) \<noteq> 0" by (simp add: fnode_def)
  show ?thesis
  proof (rule good_mono[OF bmap_mapped[OF f bn nz]], elim conjE)
    fix b t
    assume t: "b = node (view s) (i_addrs (icache s ip)) (fpath_of bn)" "same_view s t"
    have "file_tx E k m ip t" using file_tx_mono[OF file_tx_same[OF f t(2)]] by simp
    then show "mapped_at E k m ip s (fpath_of bn) b t \<and> (fnode (view s) (i_addrs (icache s ip)) bn \<noteq> 0 \<longrightarrow>
        i_addrs (icache t ip) = i_addrs (icache s ip))"
      using bstep_same[OF f t(2)] same_view_fs[OF t(2)] t(1) nz by (simp add: mapped_at_def)
  qed
qed

text \<open>The part of the loop of \<^verbatim>\<open>writei\<close> that writes into one block.\<close>

definition write_block :: "nat \<Rightarrow> src \<Rightarrow> nat \<Rightarrow> nat \<Rightarrow> nat \<Rightarrow> 'a fs_state_scheme \<Rightarrow> ('a fs_state_scheme, unit) res" where
  "write_block a src off tot m s = bnd (bread DISKDEV a s) (\<lambda>bp s.
     bnd (from_src src tot m s) (\<lambda>d s.
     let s = set_data bp (copy (b_data (bufs s bp)) (off mod BSIZE) d 0 m) s
     in bnd (log_write bp s) (\<lambda>_ s. brelse bp s)))"

lemma write_block_tx:
  assumes at: "mapped_at E (Suc k) mm ip s (fpath_of bn) a t"
    and same: "fnode (view s) (i_addrs (icache s ip)) bn \<noteq> 0 \<Longrightarrow> i_addrs (icache t ip) = i_addrs (icache s ip)"
    and bn: "bn < MAXFILE" "bn = off div BSIZE" and m: "0 < m" "off mod BSIZE + m \<le> BSIZE"
    and src: "src_has t src n w" "tot + m \<le> n" and W: "\<And>i. i < m \<Longrightarrow> W (off + i) = w (tot + i)"
  shows "good E (write_block a src off tot m t) (\<lambda>_ u. file_tx E k mm ip u \<and> istep ip s u \<and> 0 < lg_n u \<and>
    fwrote (sb s) (view s) (i_addrs (icache s ip)) (view u) (i_addrs (icache u ip)) off m W)"
proof -
  let ?x = "sb s" and ?A = "i_addrs (icache t ip)"
  have t: "file_tx E (Suc k) mm ip t" "bstep ip s t" "a = fnode (view t) ?A bn" "a \<noteq> 0"
    using at by (simp_all add: mapped_at_def fnode_def)
  have g: "grown ?x (view s) (i_addrs (icache s ip)) (view t) ?A" and st: "istep ip s t" using t(2) by (simp_all add: bstep_def)
  note x = istepD(1)[OF st]
  have f: "in_tx {} t" "fs_layout t" "room E (Suc k) t" "file_ok ?x (view t) ?A" using t(1) by (simp_all add: file_tx_def x)
  have a: "isdata ?x a" using file_okD(1)[OF f(4)] fpath_of_valid[OF bn(1)] t(3,4) by (simp add: fnode_def)
  note da = data_block[OF f(2), of a, unfolded x, OF a]
  obtain d where d: "from_src src tot m t = Ok d t" "\<And>i. i < m \<Longrightarrow> d i = w (tot + i)"
    using src_has_load[OF src m(1)] by blast
  define c where "c = content (copy (\<lambda>i. view t a ! i) (off mod BSIZE) d 0 m)"
  have W': "W (off + i) = d i" if "i < m" for i using W[OF that] d(2)[OF that] by simp
  have cc: "content (copy e (off mod BSIZE) d 0 m) = c" if "content e = view t a" for e
  proof -
    have "e i = view t a ! i" if "i < BSIZE" for i using nth_content[OF that, of e] \<open>content e = view t a\<close> by simp
    then show ?thesis by (auto simp: c_def content_def copy_def)
  qed
  have ci: "c ! i = (if in_range off m (bn * BSIZE + i) then W (bn * BSIZE + i) else view t a ! i)" if i: "i < BSIZE" for i
  proof -
    have o: "off = bn * BSIZE + off mod BSIZE" using bn(2) by simp
    have "W (bn * BSIZE + i) = d (i - off mod BSIZE)" if "off mod BSIZE \<le> i" "i < off mod BSIZE + m"
    proof -
      have "off + (i - off mod BSIZE) = bn * BSIZE + i" using o that(1) by linarith
      then show ?thesis using W'[of "i - off mod BSIZE"] that by (metis less_diff_conv2 add.commute)
    qed
    moreover have "in_range off m (bn * BSIZE + i) \<longleftrightarrow> off mod BSIZE \<le> i \<and> i < off mod BSIZE + m"
      using o unfolding in_range_def by linarith
    ultimately show ?thesis using i by (simp add: c_def copy_def)
  qed
  have wr: "fwrote ?x (view s) (i_addrs (icache s ip)) ((view t)(a := c)) ?A off m W"
    using m bn(2) chunk(4)[of m m off] by (intro fwrote_block[OF g bn(1) t(3,4) _ _ _ ci same]) (simp_all add: in_range_def)
  have "good E (write_block a src off tot m t) (\<lambda>_ u. in_tx {} u \<and> view u = (view t)(a := c) \<and> 0 < lg_n u \<and> room E k u \<and> ext {} t u)"
    unfolding write_block_def
  proof (rule tx_rmw[OF f(1) da _ _ f(3), where f = "\<lambda>bp u. copy (b_data (bufs u bp)) (off mod BSIZE) d 0 m"])
    fix bp u
    assume u: "ext {} t u" "content (b_data (bufs u bp)) = view t a"
    have "src_has u src n w" using src(1) ext_log[OF u(1)] by (simp add: src_has_cong[of u t])
    from src_has_load[OF this src(2) m(1)] obtain d' where d': "from_src src tot m u = Ok d' u" "\<And>i. i < m \<Longrightarrow> d' i = w (tot + i)"
      by blast
    have "copy (b_data (bufs u bp)) (off mod BSIZE) d' 0 m = copy (b_data (bufs u bp)) (off mod BSIZE) d 0 m"
      using d'(2) d(2) by (intro HOL.ext) (auto simp: copy_def)
    then show "bnd (from_src src tot m u) (\<lambda>d s. let s = set_data bp (copy (b_data (bufs s bp)) (off mod BSIZE) d 0 m) s
          in bnd (log_write bp s) (\<lambda>_ s. brelse bp s)) =
        bnd (log_write bp (set_data bp (copy (b_data (bufs u bp)) (off mod BSIZE) d 0 m) u)) (\<lambda>_ t. brelse bp t) \<and>
        content (copy (b_data (bufs u bp)) (off mod BSIZE) d 0 m) = c"
      using d'(1) cc[OF u(2)] by simp
  qed simp_all
  then show ?thesis
  proof (rule good_mono, elim conjE)
    fix y u
    assume u: "in_tx {} u" "view u = (view t)(a := c)" "room E k u" "ext {} t u" "0 < lg_n u"
    note ic = ext_fs[OF u(4)]
    have us: "used ?x (view u) b = used ?x (view t) b" if "b < sb_size ?x" for b
      unfolding u(2) using that a by (intro used_zeroed) (simp_all add: isdata_def)
    then have "{b. b < sb_size ?x \<and> \<not> used ?x (view u) b} = {b. b < sb_size ?x \<and> \<not> used ?x (view t) b}" by blast
    then have "file_tx E k mm ip u"
      using t(1) u(1,3) fs_layout_ext[OF u(4) f(2)] fwroteD(1)[OF wr] us dstart_size[OF f(2)]
      by (simp add: file_tx_def ic x avail_def u(2) meta_used_def)
    then show "file_tx E k mm ip u \<and> istep ip s u \<and> 0 < lg_n u \<and>
        fwrote ?x (view s) (i_addrs (icache s ip)) (view u) (i_addrs (icache u ip)) off m W"
      using wr istep_trans[OF st istep_ext[OF u(4)]] u(5) by (simp add: u(2) ic)
  qed
qed

lemma writei_loop_unfold:
  assumes "tot < n" and "i_dev (icache s ip) = DISKDEV" and "m = min (n - tot) (BSIZE - off mod BSIZE)"
  shows "writei_loop ip src off tot n s = bnd (bmap ip (off div BSIZE) s) (\<lambda>a s.
    bnd (write_block a src off tot m s) (\<lambda>_ s. writei_loop ip src (off + m) (tot + m) n s))"
  unfolding writei_loop.simps[of ip src off tot n s] write_block_def
  using assms by (simp add: bnd_assoc Let_def)

lemma writei_loop_tx:
  assumes "file_tx E (k + 12 * nblk off (n - tot)) (m + 4 * nblk off (n - tot)) ip s" and "off + (n - tot) \<le> MAXBYTES"
    and "tot \<le> n" and "src_has s src n w" and "off = start + tot"
  shows "good E (writei_loop ip src off tot n s) (\<lambda>r t. r = start + n \<and> file_tx E k m ip t \<and> istep ip s t \<and> (tot < n \<longrightarrow> 0 < lg_n t) \<and>
    fwrote (sb s) (view s) (i_addrs (icache s ip)) (view t) (i_addrs (icache t ip)) off (n - tot) (\<lambda>pos. w (pos - start)))"
  using assms
proof (induction "n - tot" arbitrary: off tot s rule: less_induct)
  case less
  let ?W = "\<lambda>pos. w (pos - start)"
  show ?case
  proof (cases "tot < n")
    case False
    moreover have "file_ok (sb s) (view s) (i_addrs (icache s ip))" using less.prems(1) by (simp add: file_tx_def)
    ultimately show ?thesis unfolding writei_loop.simps[of ip src off tot n s]
      using less.prems fwrote_none istep_ext[OF ext_refl] by (simp add: nblk_def)
  next
    case True
    define c where "c = min (n - tot) (BSIZE - off mod BSIZE)"
    have n: "0 < n - tot" using True by simp
    note ch = chunk[OF n c_def]
    let ?r = "nblk (off + c) (n - tot - c)"
    have bn: "off div BSIZE < MAXFILE" using less.prems(2) n by (intro pos_block) simp
    have f: "file_tx E (Suc (k + 12 * ?r) + 11) (m + 4 * ?r + 4) ip s" using less.prems(1) ch(5) by (simp add: ac_simps)
    have dev: "i_dev (icache s ip) = DISKDEV" using f by (simp add: file_tx_def)
    show ?thesis
      unfolding writei_loop_unfold[OF True dev c_def]
    proof (rule good_bnd[OF bmap_any[OF f bn]], elim conjE)
      fix a t
      assume at: "mapped_at E (Suc (k + 12 * ?r)) (m + 4 * ?r) ip s (fpath_of (off div BSIZE)) a t"
        and same: "fnode (view s) (i_addrs (icache s ip)) (off div BSIZE) \<noteq> 0 \<longrightarrow>
          i_addrs (icache t ip) = i_addrs (icache s ip)"
      have st: "istep ip s t" using at by (simp add: mapped_at_def bstep_def)
      have srct: "src_has t src n w" using less.prems(4) src_has_cong istepD(8,9)[OF st] by blast
      have "good E (write_block a src off tot c t) (\<lambda>_ u. file_tx E (k + 12 * ?r) (m + 4 * ?r) ip u \<and> istep ip s u \<and> 0 < lg_n u \<and>
          fwrote (sb s) (view s) (i_addrs (icache s ip)) (view u) (i_addrs (icache u ip)) off c ?W)"
        using same less.prems(5) ch(2) True
        by (intro write_block_tx[OF at _ bn refl ch(1,3) srct]) simp_all
      then show "good E (bnd (write_block a src off tot c t) (\<lambda>_ s. writei_loop ip src (off + c) (tot + c) n s))
          (\<lambda>r t. r = start + n \<and> file_tx E k m ip t \<and> istep ip s t \<and> (tot < n \<longrightarrow> 0 < lg_n t) \<and>
            fwrote (sb s) (view s) (i_addrs (icache s ip)) (view t) (i_addrs (icache t ip)) off (n - tot) ?W)"
      proof (rule good_bnd, elim conjE)
        fix y u
        assume u: "file_tx E (k + 12 * ?r) (m + 4 * ?r) ip u" "istep ip s u" "0 < lg_n u"
          "fwrote (sb s) (view s) (i_addrs (icache s ip)) (view u) (i_addrs (icache u ip)) off c ?W"
        have srcu: "src_has u src n w" using less.prems(4) src_has_cong istepD(8,9)[OF u(2)] by blast
        have "good E (writei_loop ip src (off + c) (tot + c) n u) (\<lambda>r t. r = start + n \<and> file_tx E k m ip t \<and> istep ip u t \<and> (tot + c < n \<longrightarrow> 0 < lg_n t) \<and>
            fwrote (sb s) (view u) (i_addrs (icache u ip)) (view t) (i_addrs (icache t ip)) (off + c) (n - (tot + c)) ?W)"
          using less.prems(2,5) ch(1,2) True u(1)
          by (intro less.hyps[of "tot + c" "off + c" u, OF _ _ _ _ srcu, unfolded istepD(1)[OF u(2)]]) (simp_all add: diff_diff_left)
        then show "good E (writei_loop ip src (off + c) (tot + c) n u)
            (\<lambda>r t. r = start + n \<and> file_tx E k m ip t \<and> istep ip s t \<and> (tot < n \<longrightarrow> 0 < lg_n t) \<and>
              fwrote (sb s) (view s) (i_addrs (icache s ip)) (view t) (i_addrs (icache t ip)) off (n - tot) ?W)"
        proof (rule good_mono, elim conjE)
          fix r z
          assume z: "r = start + n" "file_tx E k m ip z" "istep ip u z"
            "fwrote (sb s) (view u) (i_addrs (icache u ip)) (view z) (i_addrs (icache z ip)) (off + c) (n - (tot + c)) ?W"
          have "off + c + (n - (tot + c)) \<le> MAXBYTES" "c + (n - (tot + c)) = n - tot" using less.prems(2) ch(2) True by simp_all
          with fwrote_trans[OF u(4) z(4)] istep_trans[OF u(2) z(3)] z(1,2) istepD(16)[OF z(3)] u(3)
          show "r = start + n \<and> file_tx E k m ip z \<and> istep ip s z \<and> (tot < n \<longrightarrow> 0 < lg_n z) \<and>
              fwrote (sb s) (view s) (i_addrs (icache s ip)) (view z) (i_addrs (icache z ip)) off (n - tot) ?W" by simp
        qed
      qed
    qed
  qed
qed

subsection \<open>The inode of the file\<close>

definition dino :: "superblock \<Rightarrow> (nat \<Rightarrow> u8 list) \<Rightarrow> nat \<Rightarrow> inode \<Rightarrow> inode" where
  "dino x v inum ip = get_dinode (dinode_off inum) (\<lambda>i. v (IBLOCK inum x) ! i) ip"

lemma MAXBYTES_32: "MAXBYTES < 2 ^ 32"
  by (simp add: MAXBYTES_def fs_sizes)

lemma dinode_off_fits: "dinode_off inum + DINODESZ \<le> BSIZE"
proof -
  have "inum mod IPB < 8" using mod_less_divisor[of IPB inum] by (simp add: IPB_def BSIZE_def DINODESZ_def NDIRECT_def)
  then show ?thesis by (simp add: dinode_off_def BSIZE_def DINODESZ_def NDIRECT_def)
qed

lemma dino_content: "v (IBLOCK inum x) = content d \<Longrightarrow> dino x v inum ip = get_dinode (dinode_off inum) d ip"
  unfolding dino_def using dinode_off_fits[of inum] by (intro get_dinode_cong) simp

lemma IBLOCK_layout:
  assumes "fs_layout s" and "inum < sb_ninodes (sb s)"
  shows "IBLOCK inum (sb s) < sb_bmapstart (sb s)" and "IBLOCK inum (sb s) < sb_size (sb s)"
    and "sb_inodestart (sb s) \<le> IBLOCK inum (sb s)"
proof -
  have "inum div IPB \<le> sb_ninodes (sb s) div IPB" using assms(2) by (intro div_le_mono) simp
  then show *: "IBLOCK inum (sb s) < sb_bmapstart (sb s)" "sb_inodestart (sb s) \<le> IBLOCK inum (sb s)"
    using assms(1) by (auto simp: IBLOCK_def fs_layout_def)
  then show "IBLOCK inum (sb s) < sb_size (sb s)" using assms(1) by (auto simp: fs_layout_def dstart_def)
qed

text \<open>A change of a block before the bitmap leaves the files and the bitmap as they are.\<close>

lemma meta_write:
  assumes ok: "file_ok x v A" and b: "b < sb_bmapstart x"
  shows "c < sb_size x \<Longrightarrow> used x (v(b := e)) c = used x v c" and "vpath q \<Longrightarrow> node (v(b := e)) A q = node v A q"
    and "file_ok x (v(b := e)) A" and "pos < MAXBYTES \<Longrightarrow> fbyte (v(b := e)) A pos = fbyte v A pos"
    and "file_block (v(b := e)) A = file_block v A" and "foreign x (v(b := e)) A = foreign x v A"
    and "bn < MAXFILE \<Longrightarrow> fnode (v(b := e)) A bn = fnode v A bn"
proof -
  show us: "used x (v(b := e)) c = used x v c" if "c < sb_size x" for c
    using BBLOCK_bitmap[OF that] b by (simp add: used_def)
  have d: "isdata x c \<Longrightarrow> c \<noteq> b \<and> c < sb_size x" for c using b by (auto simp: isdata_def dstart_def)
  show nd: "node (v(b := e)) A q = node v A q" if "vpath q" for q
    using that
  proof (induction q rule: fpath_induct)
    case (down p j)
    then have "node v A p \<noteq> b" if "node v A p \<noteq> 0" using file_okD(1)[OF ok _ that] d by (simp add: vpath_down)
    then show ?case using down.IH by (simp add: node_down word_at_def del: node.simps)
  qed simp
  have uid: "isdata x c \<Longrightarrow> used x (v(b := e)) c = used x v c" for c using us d by blast
  show "file_ok x (v(b := e)) A" using ok nd uid unfolding file_ok_def by metis
  show "file_block (v(b := e)) A = file_block v A" by (intro HOL.ext) (use nd in \<open>unfold file_block_def, metis\<close>)
  then show "foreign x (v(b := e)) A = foreign x v A" using uid by (intro HOL.ext) (auto simp: foreign_def)
  show fn: "fnode (v(b := e)) A bn = fnode v A bn" if "bn < MAXFILE" for bn
    using nd fpath_of_valid[OF that] by (simp add: fnode_def)
  show "fbyte (v(b := e)) A pos = fbyte v A pos" if pos: "pos < MAXBYTES"
  proof -
    note k = pos_block[OF pos]
    have "fnode v A (pos div BSIZE) \<noteq> b" if "fnode v A (pos div BSIZE) \<noteq> 0"
      using that file_okD(1)[OF ok fpath_of_valid[OF k, THEN conjunct1]] d unfolding fnode_def by blast
    then show ?thesis using fn[OF k] by (auto simp: fbyte_def Let_def)
  qed
qed

lemma put_cong:
  "d i = e i \<Longrightarrow> put16 d a v i = put16 e a v i" "d i = e i \<Longrightarrow> put32 d a w i = put32 e a w i"
  by (simp_all add: put16_def put32_def)

lemma put_dinode_cong:
  assumes "d i = e i"
  shows "put_dinode q ip d i = put_dinode q ip e i"
proof -
  have fold: "f i = g i \<Longrightarrow> fold (\<lambda>j d. put32 d (q + 12 + 4 * j) (of_nat (addrs j))) js f i =
      fold (\<lambda>j d. put32 d (q + 12 + 4 * j) (of_nat (addrs j))) js g i" for f g addrs and js :: "nat list"
  proof (induction js arbitrary: f g)
    case (Cons j js)
    let ?p = "\<lambda>d. put32 d (q + 12 + 4 * j) (of_nat (addrs j))"
    have "?p f i = ?p g i" using Cons.prems by (rule put_cong(2)[of f i g])
    then show ?case unfolding fold_simps by (rule Cons.IH[of "?p f" "?p g"])
  qed simp
  show ?thesis
    unfolding put_dinode_def put_addrs_def Let_def
    by (rule fold, rule put_cong(2), (rule put_cong(1))+, rule assms)
qed

lemma iupdate_tx:
  assumes f: "file_tx E (Suc k) m ip s" and inum: "i_inum (icache s ip) < sb_ninodes (sb s)"
  shows "good E (iupdate ip s) (\<lambda>_ t. file_tx E k m ip t \<and> ext {} s t \<and>
    (\<exists>d. content d = view s (IBLOCK (i_inum (icache s ip)) (sb s)) \<and>
      view t = (view s)(IBLOCK (i_inum (icache s ip)) (sb s) :=
        content (put_dinode (dinode_off (i_inum (icache s ip))) (icache s ip) d))))"
proof -
  let ?x = "sb s" and ?n = "i_inum (icache s ip)"
  let ?b = "IBLOCK ?n ?x" and ?q = "dinode_off ?n"
  have s: "in_tx {} s" "fs_layout s" "room E (Suc k) s" "i_dev (icache s ip) = DISKDEV"
    "file_ok ?x (view s) (i_addrs (icache s ip))" using f by (simp_all add: file_tx_def)
  note ib = IBLOCK_layout[OF s(2) inum]
  note lb = layout_block[OF s(2) ib(2,3)]
  let ?d = "\<lambda>i. view s ?b ! i"
  define c where "c = content (put_dinode ?q (icache s ip) ?d)"
  have "good E (iupdate ip s) (\<lambda>_ t. in_tx {} t \<and> view t = (view s)(?b := c) \<and> 0 < lg_n t \<and> room E k t \<and> ext {} s t)"
    unfolding iupdate_def s(4)
  proof (rule tx_rmw[OF s(1) lb _ _ s(3), where f = "\<lambda>bp u. put_dinode ?q (icache s ip) (b_data (bufs u bp))"])
    fix bp u
    assume u: "ext {} s u" "content (b_data (bufs u bp)) = view s ?b"
    have e: "b_data (bufs u bp) i = ?d i" if "i < BSIZE" for i using nth_content[OF that, of "b_data (bufs u bp)"] u(2) by simp
    have "put_dinode ?q (icache s ip) (b_data (bufs u bp)) i = put_dinode ?q (icache s ip) ?d i" if "i < BSIZE" for i
      using e[OF that] by (rule put_dinode_cong[of "b_data (bufs u bp)" i ?d])
    then show "(let s = set_data bp (put_dinode (dinode_off (i_inum (icache u ip))) (icache u ip) (b_data (bufs u bp))) u
          in bnd (log_write bp s) (\<lambda>_ s. brelse bp s)) =
        bnd (log_write bp (set_data bp (put_dinode ?q (icache s ip) (b_data (bufs u bp))) u)) (\<lambda>_ t. brelse bp t) \<and>
        content (put_dinode ?q (icache s ip) (b_data (bufs u bp))) = c"
      using ext_fs(2)[OF u(1)] by (auto simp: c_def content_def)
  qed simp_all
  then show ?thesis
  proof (rule good_mono, elim conjE)
    fix y t
    assume t: "in_tx {} t" "view t = (view s)(?b := c)" "room E k t" "ext {} s t"
    note ic = ext_fs[OF t(4)] and mw = meta_write[OF s(5) ib(1), where e = c, folded t(2)]
    have "{b. b < sb_size ?x \<and> \<not> used ?x (view t) b} = {b. b < sb_size ?x \<and> \<not> used ?x (view s) b}" using mw(1) by blast
    then have "file_tx E k m ip t"
      using f t(1,3) fs_layout_ext[OF t(4) s(2)] mw(1,3) dstart_size[OF s(2)]
      by (simp add: file_tx_def ic avail_def meta_used_def)
    moreover have "content ?d = view s ?b" by simp
    ultimately show "file_tx E k m ip t \<and> ext {} s t \<and> (\<exists>d. content d = view s ?b \<and>
        view t = (view s)(?b := content (put_dinode ?q (icache s ip) d)))"
      using t(2,4) unfolding c_def by blast
  qed
qed

subsection \<open>Files between calls\<close>

text \<open>
  \<open>inode_ok E k m ip s\<close>: the cached inode \<open>ip\<close> is that of a file on the disk without holes, equal to the inode on the
  disk, in a transaction with room for \<open>k\<close> blocks and \<open>m\<close> free blocks. \<open>file_written\<close> is the effect of a write: the
  abstract file is an array of bytes with a size.
\<close>

abbreviation fdata :: "nat \<Rightarrow> 'a fs_state_scheme \<Rightarrow> nat \<Rightarrow> u8" where
  "fdata ip s \<equiv> fbyte (view s) (i_addrs (icache s ip))"

definition dense :: "(nat \<Rightarrow> u8 list) \<Rightarrow> (nat \<Rightarrow> nat) \<Rightarrow> nat \<Rightarrow> bool" where
  "dense v A sz \<longleftrightarrow> (\<forall>pos < sz. fnode v A (pos div BSIZE) \<noteq> 0)"

definition inode_ok :: "string set \<Rightarrow> nat \<Rightarrow> nat \<Rightarrow> nat \<Rightarrow> 'a fs_state_scheme \<Rightarrow> bool" where
  "inode_ok E k m ip s \<longleftrightarrow> file_tx E k m ip s \<and> i_size (icache s ip) \<le> MAXBYTES \<and>
     dense (view s) (i_addrs (icache s ip)) (i_size (icache s ip)) \<and> i_type (icache s ip) \<noteq> T_DEV \<and>
     i_inum (icache s ip) < sb_ninodes (sb s) \<and> dinode_fits (icache s ip) \<and>
     dino (sb s) (view s) (i_inum (icache s ip)) (icache s ip) = icache s ip"

definition file_written :: "nat \<Rightarrow> nat \<Rightarrow> nat \<Rightarrow> (nat \<Rightarrow> u8) \<Rightarrow> 'a fs_state_scheme \<Rightarrow> 'a fs_state_scheme \<Rightarrow> bool" where
  "file_written ip off n w s t \<longleftrightarrow>
     (\<forall>pos<MAXBYTES. fdata ip t pos = (if in_range off n pos then w (pos - off) else fdata ip s pos)) \<and>
     icache t = (icache s)(ip := (icache s ip)\<lparr>i_size := max (i_size (icache s ip)) (off + n),
       i_addrs := i_addrs (icache t ip)\<rparr>) \<and>
     sb t = sb s \<and> disk t = disk s \<and> lg_start t = lg_start s \<and> logzone t = logzone s \<and>
     (\<forall>b. foreign (sb s) (view s) (i_addrs (icache s ip)) b \<longrightarrow>
        foreign (sb s) (view t) (i_addrs (icache t ip)) b \<and> view t b = view s b) \<and>
     (\<forall>b < sb_size (sb s). used (sb s) (view t) b \<longleftrightarrow> used (sb s) (view s) b \<or> file_block (view t) (i_addrs (icache t ip)) b) \<and>
     (\<forall>j x. j < sb_ninodes (sb s) \<longrightarrow> j \<noteq> i_inum (icache s ip) \<longrightarrow> dino (sb s) (view t) j x = dino (sb s) (view s) j x)"

lemma file_written_size: "file_written ip off n w s t \<Longrightarrow> i_size (icache t ip) = max (i_size (icache s ip)) (off + n)"
proof -
  assume "file_written ip off n w s t"
  then have "icache t ip = (icache s ip)\<lparr>i_size := max (i_size (icache s ip)) (off + n), i_addrs := i_addrs (icache t ip)\<rparr>"
    unfolding file_written_def by (metis fun_upd_same)
  from arg_cong[OF this, of i_size] show ?thesis by simp
qed

lemma dino_other:
  assumes "j \<noteq> n" and "v' = v(IBLOCK n x := content (put_dinode (dinode_off n) ip d))" and "content d = v (IBLOCK n x)"
  shows "dino x v' j y = dino x v j y"
proof (cases "IBLOCK j x = IBLOCK n x")
  case True
  then have "j mod IPB \<noteq> n mod IPB" using assms(1) unfolding IBLOCK_def by (metis add_right_cancel div_mult_mod_eq)
  then have "j mod IPB < n mod IPB \<or> n mod IPB < j mod IPB" by linarith
  then have "dinode_off j + DINODESZ \<le> dinode_off n \<or> dinode_off n + DINODESZ \<le> dinode_off j"
    by (auto simp: dinode_off_def DINODESZ_def NDIRECT_def)
  then have "get_dinode (dinode_off j) (put_dinode (dinode_off n) ip d) y = get_dinode (dinode_off j) d y"
    by (intro get_dinode_cong put_dinode_frame) auto
  moreover have "v' (IBLOCK j x) = content (put_dinode (dinode_off n) ip d)" "v (IBLOCK j x) = content d"
    using assms(2,3) True by simp_all
  ultimately show ?thesis using dino_content by metis
next
  case False
  then show ?thesis using assms(2) by (simp add: dino_def)
qed

lemma dino_self:
  assumes "v (IBLOCK (i_inum ip) x) = content (put_dinode (dinode_off (i_inum ip)) ip d)" and "dinode_fits ip"
  shows "dino x v (i_inum ip) ip = ip"
  using get_put_dinode[OF assms(2)] by (simp add: dino_content[of v, OF assms(1)] if_distrib cong: if_cong)

lemma file_ok_fits:
  assumes "file_ok x v A" and "sb_size x < 2 ^ 32" and "i < NDIRECT + 3"
  shows "A i < 2 ^ 32"
proof (cases "A i = 0")
  case False
  then have "isdata x (A i)" using file_okD(1)[OF assms(1), of "(i, [])"] assms(3) by simp
  then show ?thesis using assms(2) by (simp add: isdata_def)
qed simp

text \<open>The state after the loop of \<^verbatim>\<open>writei\<close>, before the size is updated.\<close>

lemma dense_grows:
  assumes "dense v A sz" and "fwrote x v A v' A' off n w" and "off \<le> sz" and "max sz (off + n) \<le> MAXBYTES"
  shows "dense v' A' (max sz (off + n))"
  unfolding dense_def
proof (intro allI impI)
  fix pos
  assume p: "pos < max sz (off + n)"
  then have k: "pos < MAXBYTES" using assms(4) by linarith
  show "fnode v' A' (pos div BSIZE) \<noteq> 0"
  proof (cases "in_range off n pos")
    case True
    then show ?thesis using fwroteD(3)[OF assms(2) k] by blast
  next
    case False
    then have "pos < sz" using p assms(3) by (auto simp: in_range_def)
    then show ?thesis using assms(1) fwrote_fnode[OF assms(2) pos_block[OF k]] by (simp add: dense_def)
  qed
qed

lemma written_in_place:
  assumes i: "inode_ok E k0 m0 ip s" and t: "file_tx E k m ip t" "istep ip s t"
    and w: "fwrote (sb s) (view s) (i_addrs (icache s ip)) (view t) (i_addrs (icache t ip)) off n (\<lambda>pos. w (pos - off))"
    and le: "off + n \<le> i_size (icache s ip)"
  shows "inode_ok E k m ip t \<and> file_written ip off n w s t"
proof -
  have s: "i_size (icache s ip) \<le> MAXBYTES" "dense (view s) (i_addrs (icache s ip)) (i_size (icache s ip))"
    "i_type (icache s ip) \<noteq> T_DEV" "i_inum (icache s ip) < sb_ninodes (sb s)" "dinode_fits (icache s ip)"
    "dino (sb s) (view s) (i_inum (icache s ip)) (icache s ip) = icache s ip" "fs_layout s"
    using i by (auto simp: inode_ok_def file_tx_def)
  have A: "i_addrs (icache t ip) = i_addrs (icache s ip)"
    using s(2) le by (intro fwroteD(5)[OF w]) (simp add: dense_def in_range_def)
  have ip: "icache t ip = icache s ip" using istepD(13)[OF t(2)] A by simp
  have ic: "icache t = icache s" using ip istepD(2)[OF t(2)] by (intro HOL.ext) metis
  have x: "sb t = sb s" "disk t = disk s" "lg_start t = lg_start s" "logzone t = logzone s"
    using istepD(1,10,17,12)[OF t(2)] .
  have mx: "max (i_size (icache s ip)) (off + n) = i_size (icache s ip)" using le by simp
  have dn: "dino (sb s) (view t) j y = dino (sb s) (view s) j y" if "j < sb_ninodes (sb s)" for j y
    using fwroteD(8)[OF w IBLOCK_layout(1)[OF s(7) that]] by (simp add: dino_def)
  have "dense (view t) (i_addrs (icache t ip)) (i_size (icache s ip))"
    using dense_grows[OF s(2) w] le s(1) by (simp add: mx)
  then have "inode_ok E k m ip t" using t(1) s dn by (simp add: inode_ok_def ic x)
  moreover have "file_written ip off n w s t"
    using fwroteD(2,6,7,9)[OF w] dn by (simp add: file_written_def ic x mx)
  ultimately show ?thesis by blast
qed

lemma file_tx_upd_size: "file_tx E k m ip (upd_inode ip (\<lambda>x. x\<lparr>i_size := z\<rparr>) s) = file_tx E k m ip s"
  by (simp add: file_tx_def)

lemma written_grown:
  assumes i: "inode_ok E k0 m0 ip s" and t: "file_tx E (Suc k) m ip t" "istep ip s t"
    and w: "fwrote (sb s) (view s) (i_addrs (icache s ip)) (view t) (i_addrs (icache t ip)) off n (\<lambda>pos. w (pos - off))"
    and le: "i_size (icache s ip) < off + n" "off \<le> i_size (icache s ip)" "off + n \<le> MAXBYTES"
  shows "good E (iupdate ip (upd_inode ip (\<lambda>x. x\<lparr>i_size := off + n\<rparr>) t))
    (\<lambda>_ u. inode_ok E k m ip u \<and> file_written ip off n w s u \<and> lg_n t \<le> lg_n u)"
proof -
  let ?x = "sb s" and ?A = "i_addrs (icache t ip)"
  let ?t = "upd_inode ip (\<lambda>x. x\<lparr>i_size := off + n\<rparr>) t"
  let ?n = "i_inum (icache s ip)"
  have s: "dense (view s) (i_addrs (icache s ip)) (i_size (icache s ip))" "i_type (icache s ip) \<noteq> T_DEV"
    "?n < sb_ninodes ?x" "dinode_fits (icache s ip)" "fs_layout s"
    using i by (auto simp: inode_ok_def file_tx_def)
  note st = istepD[OF t(2)]
  have in1: "i_inum (icache ?t ip) = ?n" "sb ?t = ?x" using st by simp_all
  have ft: "file_tx E (Suc k) m ip ?t" using t(1) by (simp add: file_tx_upd_size)
  have inum: "i_inum (icache ?t ip) < sb_ninodes (sb ?t)" using s(3) in1 by simp
  have okt: "file_ok ?x (view t) ?A" using t(1) st(1) by (simp add: file_tx_def)
  note ib = IBLOCK_layout(1)[OF s(5) s(3)]
  show ?thesis
  proof (rule good_mono[OF iupdate_tx[OF ft inum, unfolded in1]], elim conjE exE)
    fix y u d
    assume u: "file_tx E k m ip u" "ext {} ?t u" "content d = view ?t (IBLOCK ?n ?x)"
      "view u = (view ?t)(IBLOCK ?n ?x := content (put_dinode (dinode_off ?n) (icache ?t ip) d))"
    note ic = ext_fs[OF u(2)]
    have vu: "view u = (view t)(IBLOCK ?n ?x := content (put_dinode (dinode_off ?n) (icache ?t ip) d))" using u(4) by simp
    note mw = meta_write[OF okt ib, where e = "content (put_dinode (dinode_off ?n) (icache ?t ip) d)", folded vu]
    have iu: "icache u ip = icache ?t ip" "i_addrs (icache u ip) = ?A" "sb u = ?x" using ic st(1) by simp_all
    have sz: "icache u ip = (icache s ip)\<lparr>i_size := off + n, i_addrs := ?A\<rparr>"
      using iu(1) st(13) by simp (metis inode.surjective inode.update_convs)
    have "sb_size ?x < 2 ^ 32" using s(5) by (simp add: fs_layout_def)
    then have fits: "dinode_fits (icache u ip)"
      using s(4) file_ok_fits[OF okt] le(3) MAXBYTES_32 unfolding sz dinode_fits_def by simp
    have self: "dino ?x (view u) ?n (icache u ip) = icache u ip"
      using dino_self[of "view u" "icache u ip" ?x d] vu fits iu(1) in1(1) by simp
    have mx: "max (i_size (icache s ip)) (off + n) = off + n" using le(1) by simp
    have "dense (view t) ?A (off + n)" using dense_grows[OF s(1) w le(2)] le(3) by (simp add: mx)
    then have "dense (view u) ?A (off + n)" using mw(7) pos_block le(3) by (auto simp: dense_def)
    then have "inode_ok E k m ip u" using u(1) s(2,3) fits self le(3) iu st(4,6) by (simp add: inode_ok_def)
    moreover have "dino ?x (view u) j y = dino ?x (view s) j y" if j: "j < sb_ninodes ?x" "j \<noteq> ?n" for j y
    proof -
      have "dino ?x (view u) j y = dino ?x (view t) j y" using dino_other[OF j(2) vu] u(3) by simp
      then show ?thesis using fwroteD(8)[OF w IBLOCK_layout(1)[OF s(5) j(1)]] by (simp add: dino_def)
    qed
    moreover have "icache u = (icache s)(ip := (icache s ip)\<lparr>i_size := off + n, i_addrs := ?A\<rparr>)"
      using sz ic(2) st(2) by (intro HOL.ext) simp
    moreover have "disk u = disk s" "lg_start u = lg_start s" "logzone u = logzone s"
      using ext_log[OF u(2)] st(10,12,15,17) by (simp_all add: upd_inode_def logzone_def)
    moreover have "view u b = view s b" if f: "foreign ?x (view s) (i_addrs (icache s ip)) b" for b
    proof -
      have "b \<noteq> IBLOCK ?n ?x" using f ib by (auto simp: foreign_def isdata_def dstart_def)
      then show ?thesis using fwroteD(7)[OF w f] vu by simp
    qed
    moreover have "fdata ip u pos = (if in_range off n pos then w (pos - off) else fdata ip s pos)" if "pos < MAXBYTES" for pos
      using mw(4)[OF that] fwroteD(2)[OF w that] by (simp add: iu)
    moreover have "lg_n t \<le> lg_n u" using u(2) by (simp add: ext_def)
    ultimately show "inode_ok E k m ip u \<and> file_written ip off n w s u \<and> lg_n t \<le> lg_n u"
      using mw(1,5,6) fwroteD(6,9)[OF w] unfolding file_written_def mx iu by simp
  qed
qed

lemma writei_tx:
  assumes i: "inode_ok E (k + 12 * nblk off n + 1) (m + 4 * nblk off n) ip s"
    and off: "off \<le> i_size (icache s ip)" "off + n \<le> MAXBYTES" and src: "src_has s src n w"
  shows "good E (writei dsw ip src off n s) (\<lambda>r t. r = int n \<and> inode_ok E k m ip t \<and> file_written ip off n w s t \<and> (0 < n \<longrightarrow> 0 < lg_n t))"
proof -
  have f: "file_tx E (Suc k + 12 * nblk off (n - 0)) (m + 4 * nblk off (n - 0)) ip s"
    using i by (simp add: inode_ok_def)
  have ty: "i_type (icache s ip) \<noteq> T_DEV" using i by (simp add: inode_ok_def)
  have "(off + n) mod 2 ^ 32 = off + n" using off(2) MAXBYTES_32 by simp
  then have c: "\<not> (off > i_size (icache s ip) \<or> (off + n) mod 2 ^ 32 < off)" "\<not> off + n > MAXFILE * BSIZE"
    using off by (simp_all add: MAXBYTES_def)
  have loop: "good E (writei_loop ip src off 0 n s) (\<lambda>r t. r = off + n \<and> file_tx E (Suc k) m ip t \<and> istep ip s t \<and> (0 < n \<longrightarrow> 0 < lg_n t) \<and>
      fwrote (sb s) (view s) (i_addrs (icache s ip)) (view t) (i_addrs (icache t ip)) off n (\<lambda>pos. w (pos - off)))"
    using writei_loop_tx[OF f _ _ src, of off] off(2) by simp
  show ?thesis
    unfolding writei_def Let_def if_not_P[OF ty] if_not_P[OF c(1)] if_not_P[OF c(2)]
  proof (rule good_bnd[OF loop], elim conjE)
    fix r t
    assume t: "r = off + n" "file_tx E (Suc k) m ip t" "istep ip s t" "0 < n \<longrightarrow> 0 < lg_n t"
      "fwrote (sb s) (view s) (i_addrs (icache s ip)) (view t) (i_addrs (icache t ip)) off n (\<lambda>pos. w (pos - off))"
    have sz: "i_size (icache t ip) = i_size (icache s ip)" using istepD(5)[OF t(3)] .
    have "good E (if n > 0 \<and> r > i_size (icache t ip)
        then iupdate ip (upd_inode ip (\<lambda>x. x\<lparr>i_size := r\<rparr>) t) else Ok () t)
        (\<lambda>_ u. inode_ok E k m ip u \<and> file_written ip off n w s u \<and> (0 < n \<longrightarrow> 0 < lg_n u))"
    proof (cases "off + n > i_size (icache s ip)")
      case True
      then have "0 < n" using off(1) by simp
      then show ?thesis using t(4) True
        by (simp add: t(1) sz) (intro good_mono[OF written_grown[OF i t(2,3,5) True off]], auto)
    next
      case False
      then show ?thesis using written_in_place[OF i file_tx_mono[OF t(2), of k m] t(3,5)] t(4) by (simp add: t(1) sz)
    qed
    then show "good E (bnd (if n > 0 \<and> r > i_size (icache t ip)
        then iupdate ip (upd_inode ip (\<lambda>x. x\<lparr>i_size := r\<rparr>) t) else Ok () t) (\<lambda>_ s. Ok (int n) s))
        (\<lambda>r u. r = int n \<and> inode_ok E k m ip u \<and> file_written ip off n w s u \<and> (0 < n \<longrightarrow> 0 < lg_n u))"
      by (rule good_bnd) simp
  qed
qed

lemma readi_tx:
  assumes i: "inode_ok E k m ip s" and off: "off \<le> i_size (icache s ip)" "off + n < 2 ^ 32"
    and N: "N = min n (i_size (icache s ip) - off)"
  shows "good E (readi dsw ip ToVar off n s) (\<lambda>r t. fst r = int N \<and> (\<forall>i<N. snd r i = fdata ip s (off + i)) \<and> same_view s t)"
proof -
  have ty: "i_type (icache s ip) \<noteq> T_DEV" using i by (simp add: inode_ok_def)
  have c: "\<not> (off > i_size (icache s ip) \<or> (off + n) mod 2 ^ 32 < off)" using off by simp
  have e: "(if off + n > i_size (icache s ip) then i_size (icache s ip) - off else n) = N" using N off(1) by auto
  have f: "file_tx E 0 0 ip s" using i file_tx_mono[of E k m ip s 0 0] by (simp add: inode_ok_def)
  have b: "off + (N - 0) \<le> MAXBYTES" using i N off(1) by (auto simp: inode_ok_def)
  have nz: "fnode (view s) (i_addrs (icache s ip)) (pos div BSIZE) \<noteq> 0" if "in_range off (N - 0) pos" for pos
    using that i N off(1) by (auto simp: inode_ok_def dense_def in_range_def)
  show ?thesis
    unfolding readi_def Let_def if_not_P[OF ty] if_not_P[OF c] e
    by (rule good_bnd[OF readi_loop_tx[OF f b nz]]) auto
qed

end
