(* ===== verification/Xv6_Fs_Claims.thy ===== *)
theory Xv6_Fs_Claims
  imports Xv6_Fs_RW
begin

section \<open>What the file system promises\<close>

text \<open>
  The properties of the block allocator, of the mapping of file blocks and of reading and writing, together with a
  disk on which they are applied: the layout of \<^verbatim>\<open>Xv6_Example\<close>, an empty file with inode 1, and all data blocks free.
\<close>

subsection \<open>An example disk\<close>

definition fs_inode :: inode where
  "fs_inode = \<lparr>i_dev = 1, i_inum = 1, i_ref = 1, i_valid = True, i_type = 2, i_major = 0, i_minor = 0, i_nlink = 1,
     i_size = 0, i_addrs = (\<lambda>_. 0)\<rparr>"

definition fs_disk :: "nat \<Rightarrow> bytes" where
  "fs_disk n = (if n = 58 then (\<lambda>i. if i < 7 then 255 else if i = 7 then 7 else 0)
     else if n = 32 then put_dinode 64 fs_inode (\<lambda>_. 0) else (\<lambda>_. 0))"

definition fs_ex :: cons_state where
  "fs_ex = (ex_boot (\<lambda>n. content (fs_disk n)))\<lparr>icache := (\<lambda>_. fs_inode), lg_n := 0\<rparr>"

lemma fs_ex_simps [simp]:
  "icache fs_ex = (\<lambda>_. fs_inode)" "lg_n fs_ex = 0" "sb fs_ex = ex_sb" "lg_size fs_ex = 30" "lg_start fs_ex = 2"
  "lg_outstanding fs_ex = 1" "lg_dev fs_ex = 1" "disksize fs_ex = 1000" "disk fs_ex = (\<lambda>n i. content (fs_disk n) ! i)"
  "i_addrs fs_inode = (\<lambda>_. 0)" "i_size fs_inode = 0" "i_dev fs_inode = 1" "i_inum fs_inode = 1" "i_type fs_inode = 2"
  by (simp_all add: fs_ex_def ex_boot_def fs_inode_def)

lemma fs_ex_cache: "cache_ok {} fs_ex" "dirty fs_ex = {}" "\<not> holds_block fs_ex i n"
proof -
  let ?b = "ex_boot (\<lambda>n. content (fs_disk n))"
  have same: "holds_block fs_ex = holds_block ?b" "dirty fs_ex = dirty ?b"
    by (intro HOL.ext | simp add: fs_ex_def holds_block_def dirty_def)+
  then show "dirty fs_ex = {}" using ex_boot_cache by simp
  have "cache_ok {} fs_ex = cache_ok {} ?b"
    unfolding cache_ok_def same by (simp add: fs_ex_def ring_ok_def idle_locks_def)
  then show "cache_ok {} fs_ex" using ex_boot_cache by simp
  show "\<not> holds_block fs_ex i n" unfolding same by (auto simp: holds_block_def ex_boot_def DISKDEV_def)
qed

lemma fs_ex_view: "view fs_ex n = content (fs_disk n)"
  using view_uncached[of fs_ex n] fs_ex_cache(3) by (simp add: content_def list_eq_iff_nth_eq)

lemma fs_ex_tx: "in_tx {} fs_ex"
  unfolding in_tx_tx_ok tx_ok_def pinned_def fs_ex_cache(2)
  using fs_ex_cache(1) by (simp add: log_geo_def DISKDEV_def LOGSIZE_def MAXOPBLOCKS_def)

lemma fs_ex_layout: "fs_layout fs_ex"
  by (auto simp: fs_layout_def logzone_def ex_sb_def dstart_def nbitmap_def IPB_def BPB_def BSIZE_def DINODESZ_def NDIRECT_def)

lemma fs_ex_used:
  assumes "b < 1000"
  shows "used ex_sb (view fs_ex) b \<longleftrightarrow> b < 59"
proof -
  have m: "b mod BPB = b" "BBLOCK b ex_sb = 58" "b div 8 < BSIZE"
    using assms by (simp_all add: BPB_def BSIZE_def BBLOCK_def ex_sb_def)
  have "b mod 8 < 8" by simp
  then have "b mod 8 \<in> {0, 1, 2, 3, 4, 5, 6, 7}" by auto
  then have bits: "bit (255 :: u8) (b mod 8)" "bit (7 :: u8) (b mod 8) \<longleftrightarrow> b mod 8 < 3" by auto
  have "b div 8 < 7 \<or> b div 8 = 7 \<and> b mod 8 < 3 \<longleftrightarrow> b < 59" by presburger
  then show ?thesis using bits m
    by (auto simp: used_def fs_ex_view bit_used_bit fs_disk_def)
qed

lemma fs_ex_meta: "meta_used ex_sb (view fs_ex)"
  using fs_ex_used by (simp add: meta_used_def dstart_def nbitmap_def ex_sb_def BPB_def BSIZE_def)

lemma fs_ex_avail: "m \<le> 900 \<Longrightarrow> avail {} m ex_sb (view fs_ex)"
proof -
  assume m: "m \<le> 900"
  have "{59..<1000} = {b. b < sb_size ex_sb \<and> \<not> used ex_sb (view fs_ex) b}"
    using fs_ex_used by (auto simp: ex_sb_def)
  from arg_cong[OF this, of card] show ?thesis using m by (simp add: avail_def)
qed

lemma fs_ex_file: "file_tx {} k m ip fs_ex" if "k \<le> 28" and "m \<le> 900"
proof -
  have "node v (\<lambda>_. 0) p = 0" for v p by (cases p) simp
  then have "file_ok ex_sb (view fs_ex) (\<lambda>_. 0)" by (simp add: file_ok_def)
  then show ?thesis using that fs_ex_tx fs_ex_layout fs_ex_meta fs_ex_avail
    by (simp add: file_tx_def room_def DISKDEV_def)
qed

lemma fs_ex_inode: "inode_ok {} k m ip fs_ex" if "k \<le> 28" and "m \<le> 900"
proof -
  have fits: "dinode_fits fs_inode" by (simp add: dinode_fits_def fs_inode_def)
  have o: "IBLOCK 1 ex_sb = 32" "dinode_off 1 = 64"
    by (simp_all add: IBLOCK_def dinode_off_def IPB_def BSIZE_def DINODESZ_def NDIRECT_def ex_sb_def)
  have "dino ex_sb (view fs_ex) 1 fs_inode = fs_inode"
    using dino_self[of "view fs_ex" fs_inode ex_sb "\<lambda>_. 0"] fits o by (simp add: fs_ex_view fs_disk_def)
  then show ?thesis using fs_ex_file[OF that] fits by (simp add: inode_ok_def dense_def T_DEV_def ex_sb_def)
qed

subsection \<open>Blocks\<close>

text \<open>
  C17. \<^verbatim>\<open>balloc\<close> returns the lowest free block of the disk, which is a data block, zeroed, and marks this block and no
  other as used; no other block outside the bitmap changes. \<^verbatim>\<open>bfree\<close> of the block restores the bitmap. With a free
  block on the disk and room in the log for three blocks both return; otherwise they may panic for want of a block,
  a buffer or room in the log, and in no other way.
\<close>

theorem balloc_bfree:
  assumes "in_tx {} s" and "fs_layout s" and "meta_used (sb s) (view s)" and "room E 3 s" and "avail E 1 (sb s) (view s)"
  shows "good E (balloc DISKDEV s) (\<lambda>a t. allocated {} s a t \<and>
    good E (bfree DISKDEV a t) (\<lambda>_ u. in_tx {} u \<and> view u a = zeros \<and>
      (\<forall>b \<in> {..<sb_size (sb s)}. used (sb s) (view u) b = used (sb s) (view s) b) \<and>
      (\<forall>n. n \<noteq> a \<longrightarrow> n \<notin> {sb_bmapstart (sb s)..<dstart (sb s)} \<longrightarrow> view u n = view s n)))"
proof -
  have "room E (Suc (Suc 1)) s" using assms(4) by (simp add: numeral_3_eq_3)
  note b = balloc_tx[OF assms(1,2) _ assms(3) this assms(5)]
  show ?thesis
  proof (rule good_mono[OF b], simp, elim conjE, intro conjI, assumption)
    fix a t
    assume t: "in_tx {} t" "room E 1 t" "allocated {} s a t"
    have a: "isdata (sb s) a" "\<not> used (sb s) (view s) a" "view t a = zeros" "ext {} s t"
      and us: "\<And>b. b < sb_size (sb s) \<Longrightarrow> used (sb s) (view t) b \<longleftrightarrow> b = a \<or> used (sb s) (view s) b"
      and same: "\<And>n. n \<noteq> a \<Longrightarrow> n \<notin> {sb_bmapstart (sb s)..<dstart (sb s)} \<Longrightarrow> view t n = view s n"
      using t(3) unfolding allocated_def by blast+
    note x = ext_fs(1)[OF a(4)]
    have as: "a < sb_size (sb s)" "a \<notin> {sb_bmapstart (sb s)..<dstart (sb s)}" "used (sb s) (view t) a"
      using a(1) us by (auto simp: isdata_def)
    have "good E (bfree DISKDEV a t) (\<lambda>_ u. in_tx {} u \<and> freed {} t a u)"
      using bfree_tx[OF t(1) fs_layout_ext[OF a(4) assms(2)] locked_data_empty, of E 0 a] t(2) as
      by (auto simp: x elim!: good_mono)
    then show "good E (bfree DISKDEV a t) (\<lambda>_ u. in_tx {} u \<and> view u a = zeros \<and>
      (\<forall>b \<in> {..<sb_size (sb s)}. used (sb s) (view u) b = used (sb s) (view s) b) \<and>
      (\<forall>n. n \<noteq> a \<longrightarrow> n \<notin> {sb_bmapstart (sb s)..<dstart (sb s)} \<longrightarrow> view u n = view s n))"
    proof (rule good_mono)
      fix y u
      assume u: "in_tx {} u \<and> freed {} t a u"
      have "\<And>b. b < sb_size (sb s) \<Longrightarrow> used (sb s) (view u) b \<longleftrightarrow> b \<noteq> a \<and> used (sb s) (view t) b"
        and "\<And>n. n \<notin> {sb_bmapstart (sb s)..<dstart (sb s)} \<Longrightarrow> view u n = view t n"
        using u unfolding freed_def x by blast+
      then show "in_tx {} u \<and> view u a = zeros \<and>
          (\<forall>b \<in> {..<sb_size (sb s)}. used (sb s) (view u) b = used (sb s) (view s) b) \<and>
          (\<forall>n. n \<noteq> a \<longrightarrow> n \<notin> {sb_bmapstart (sb s)..<dstart (sb s)} \<longrightarrow> view u n = view s n)"
        using u us same a(2,3) as(2) by auto
    qed
  qed
qed

theorem balloc_bfree_witness: "\<exists>t. balloc DISKDEV fs_ex = Ok 59 t \<and> view t 59 = zeros \<and> (\<exists>u. bfree DISKDEV 59 t = Ok () u)"
proof -
  have r: "room {} 3 fs_ex" by (simp add: room_def)
  obtain a t where t: "balloc DISKDEV fs_ex = Ok a t" "allocated {} fs_ex a t" "\<exists>u. bfree DISKDEV a t = Ok () u"
    using balloc_bfree[OF fs_ex_tx fs_ex_layout _ r, unfolded fs_ex_simps, OF fs_ex_meta fs_ex_avail]
    by (auto simp: good_empty)
  have a: "\<not> used ex_sb (view fs_ex) a" "isdata ex_sb a" "\<forall>b<a. used ex_sb (view fs_ex) b" "view t a = zeros"
    using t(2) unfolding allocated_def fs_ex_simps by blast+
  have "a < 1000" using a(2) by (simp add: isdata_def ex_sb_def)
  then have "59 \<le> a" using a(1) fs_ex_used[of a] by simp
  moreover have "\<not> 59 < a" using a(3) fs_ex_used[of 59] by auto
  ultimately have "a = 59" by simp
  then show ?thesis using t a by blast
qed

subsection \<open>Mapping the blocks of a file\<close>

text \<open>
  C8. \<^verbatim>\<open>bmap\<close> returns the disk block of block \<open>bn\<close> of the file, allocating it and the indirection blocks on the way where
  they are missing. The tree of the file stays well formed: its nodes are different used data blocks. All bytes of
  the file stay, a block added being full of zeros, and so do the blocks of all other files and the inodes. A block
  number past the largest file is an error.
\<close>

theorem bmap_maps:
  assumes "file_tx E (k + 11) (m + 4) ip s"
  shows "if bn < MAXFILE
    then good E (bmap ip bn s) (\<lambda>a t. file_tx E k m ip t \<and> a = fnode (view t) (i_addrs (icache t ip)) bn \<and> a \<noteq> 0 \<and>
      grown (sb s) (view s) (i_addrs (icache s ip)) (view t) (i_addrs (icache t ip)) \<and>
      (\<forall>pos \<in> {..<MAXBYTES}. fdata ip t pos = fdata ip s pos))
    else bmap ip bn s = Fail (Panic ''bmap: out of range'')"
proof (cases "bn < MAXFILE")
  case True
  have "good E (bmap ip bn s) (\<lambda>a t. file_tx E k m ip t \<and> a = fnode (view t) (i_addrs (icache t ip)) bn \<and> a \<noteq> 0 \<and>
      grown (sb s) (view s) (i_addrs (icache s ip)) (view t) (i_addrs (icache t ip)) \<and>
      (\<forall>pos \<in> {..<MAXBYTES}. fdata ip t pos = fdata ip s pos))"
    by (rule good_mono[OF bmap_tx[OF assms True]]) (auto simp: mapped_at_def fnode_def bstep_def dest: grown_fbyte)
  then show ?thesis using True by simp
next
  case False
  then have "\<not> bn - NDIRECT - NINDIRECT - NDINDIRECT < NTINDIRECT" "\<not> bn - NDIRECT - NINDIRECT < NDINDIRECT"
    "\<not> bn - NDIRECT < NINDIRECT" "\<not> bn < NDIRECT" by (auto simp: MAXFILE_def fs_sizes)
  then show ?thesis using False by (simp add: bmap_def Let_def)
qed

theorem bmap_maps_witness:
  "(\<exists>a t. bmap 0 70000 fs_ex = Ok a t \<and> a \<noteq> 0 \<and> fdata 0 t (70000 * 512) = 0) \<and>
   bmap 0 MAXFILE fs_ex = Fail (Panic ''bmap: out of range'')"
proof -
  have f: "file_tx {} (11 + 11) (0 + 4) 0 fs_ex" by (rule fs_ex_file) simp_all
  have m: "(70000 :: nat) < MAXFILE" "70000 * 512 < MAXBYTES" by (simp_all add: MAXBYTES_def fs_sizes)
  have "fdata 0 fs_ex pos = 0" for pos by (cases "fpath_of (pos div BSIZE)") (simp add: fbyte_def fnode_def)
  then have "\<exists>a t. bmap 0 70000 fs_ex = Ok a t \<and> a \<noteq> 0 \<and> fdata 0 t (70000 * 512) = 0"
    using bmap_maps[OF f, of 70000] m by (auto simp: good_empty)
  then show ?thesis using bmap_maps[OF f, of MAXFILE] by simp
qed

subsection \<open>Writing and reading\<close>

text \<open>
  C7. \<^verbatim>\<open>writei\<close> of \<open>n\<close> bytes at an offset inside the file or at its end replaces these bytes of the file and no others,
  extends the size where the write passes the end, and leaves the cached inode equal to the one on the disk and the file
  without holes. The data blocks of all other files, the other inodes and the marks of the blocks they use stay.
  With room in the log and free blocks for every block of the range it returns; otherwise it may panic only for
  want of a block, a buffer or room in the log.
\<close>

theorem writei_writes:
  assumes "inode_ok E (k + 12 * nblk off n + 1) (m + 4 * nblk off n) ip s"
    and "off \<le> i_size (icache s ip)" and "off + n \<le> MAXBYTES" and "src_has s src n w"
  shows "good E (writei dsw ip src off n s) (\<lambda>r t. r = int n \<and> inode_ok E k m ip t \<and> file_written ip off n w s t)"
  by (rule good_mono[OF writei_tx[OF assms]]) blast

theorem writei_writes_witness:
  "\<exists>t. writei (\<lambda>_. \<lparr>dev_read = None, dev_write = None\<rparr>) 0 (FromVar (\<lambda>i. of_nat i)) 0 300 fs_ex = Ok 300 t \<and>
     i_size (icache t 0) = 300 \<and> fdata 0 t 299 = 43"
proof -
  have n: "nblk 0 300 = 1" "(300 :: nat) \<le> MAXBYTES" "(299 :: nat) < MAXBYTES"
    by (simp_all add: nblk_def MAXBYTES_def fs_sizes)
  have i: "inode_ok {} (0 + 12 * nblk 0 300 + 1) (0 + 4 * nblk 0 300) 0 fs_ex"
    unfolding n by (rule fs_ex_inode) simp_all
  have "\<exists>t. writei (\<lambda>_. \<lparr>dev_read = None, dev_write = None\<rparr>) 0 (FromVar (\<lambda>i. of_nat i)) 0 300 fs_ex = Ok 300 t \<and>
      file_written 0 0 300 (\<lambda>i. of_nat i) fs_ex t"
    using writei_writes[OF i, of "FromVar (\<lambda>i. of_nat i)" "\<lambda>i. of_nat i"] n by (auto simp: good_empty)
  then obtain t where t: "writei (\<lambda>_. \<lparr>dev_read = None, dev_write = None\<rparr>) 0 (FromVar (\<lambda>i. of_nat i)) 0 300 fs_ex = Ok 300 t"
    "file_written 0 0 300 (\<lambda>i. of_nat i) fs_ex t" by blast
  have "fdata 0 t 299 = of_nat 299" using t(2) n(3) by (simp add: file_written_def in_range_def)
  then show ?thesis using t(1) file_written_size[OF t(2)] by simp
qed

text \<open>
  C16. What \<^verbatim>\<open>writei\<close> has written, \<^verbatim>\<open>readi\<close> returns: reading back the range gives the bytes of the source, and reading
  changes no block.
\<close>

theorem writei_readi:
  assumes "inode_ok E (12 * nblk off n + 1) (4 * nblk off n) ip s"
    and "off \<le> i_size (icache s ip)" and "off + n \<le> MAXBYTES" and "src_has s src n w"
  shows "good E (writei dsw ip src off n s) (\<lambda>_ t. good E (readi dsw ip ToVar off n t)
    (\<lambda>r u. fst r = int n \<and> (\<forall>i \<in> {..<n}. snd r i = w i) \<and> view u = view t))"
proof -
  have i: "inode_ok E (0 + 12 * nblk off n + 1) (0 + 4 * nblk off n) ip s" using assms(1) by simp
  show ?thesis
  proof (rule good_mono[OF writei_tx[OF i assms(2-4)]], elim conjE)
    fix r t
    assume t: "inode_ok E 0 0 ip t" "file_written ip off n w s t"
    have sz: "i_size (icache t ip) = max (i_size (icache s ip)) (off + n)" by (rule file_written_size[OF t(2)])
    have N: "n = min n (i_size (icache t ip) - off)" "off \<le> i_size (icache t ip)" "off + n < 2 ^ 32"
      using sz assms(3) MAXBYTES_32 by auto
    have b: "fdata ip t (off + i) = w i" if "i < n" for i
      using t(2) that assms(3) by (simp add: file_written_def in_range_def)
    show "good E (readi dsw ip ToVar off n t) (\<lambda>r u. fst r = int n \<and> (\<forall>i \<in> {..<n}. snd r i = w i) \<and> view u = view t)"
      by (rule good_mono[OF readi_tx[OF t(1) N(2,3,1)]]) (auto simp: b same_view_def)
  qed
qed

theorem writei_readi_witness:
  "\<exists>t u r. writei (\<lambda>_. \<lparr>dev_read = None, dev_write = None\<rparr>) 0 (FromVar (\<lambda>i. of_nat i)) 0 300 fs_ex = Ok 300 t \<and>
     readi (\<lambda>_. \<lparr>dev_read = None, dev_write = None\<rparr>) 0 ToVar 0 300 t = Ok (300, r) u \<and> r 299 = 43"
proof -
  have n: "nblk 0 300 = 1" "(300 :: nat) \<le> MAXBYTES" by (simp_all add: nblk_def MAXBYTES_def fs_sizes)
  have i: "inode_ok {} (12 * nblk 0 300 + 1) (4 * nblk 0 300) 0 fs_ex"
    unfolding n by (rule fs_ex_inode) simp_all
  have "good {} (writei (\<lambda>_. \<lparr>dev_read = None, dev_write = None\<rparr>) 0 (FromVar (\<lambda>i. of_nat i)) 0 300 fs_ex) (\<lambda>r t. r = 300)"
    using i n by (intro good_mono[OF writei_tx[of "{}" 0 0 300 0 0 fs_ex "FromVar (\<lambda>i. of_nat i)" "\<lambda>i. of_nat i"]]) simp_all
  moreover have "good {} (writei (\<lambda>_. \<lparr>dev_read = None, dev_write = None\<rparr>) 0 (FromVar (\<lambda>i. of_nat i)) 0 300 fs_ex) (\<lambda>_ t.
      good {} (readi (\<lambda>_. \<lparr>dev_read = None, dev_write = None\<rparr>) 0 ToVar 0 300 t)
        (\<lambda>r u. fst r = int 300 \<and> (\<forall>i \<in> {..<300}. snd r i = of_nat i) \<and> view u = view t))"
    using i n by (intro writei_readi) simp_all
  ultimately show ?thesis by (fastforce simp: good_empty)
qed

subsection \<open>A write and a crash\<close>

text \<open>
  The file as a disk holds it: \<open>disk_byte x cd inum pos\<close> is the byte at \<open>pos\<close> of the file with the inode \<open>inum\<close> of a disk
  with the contents \<open>cd\<close>, found through the inode on the disk.
\<close>

definition disk_inode :: "superblock \<Rightarrow> (nat \<Rightarrow> u8 list) \<Rightarrow> nat \<Rightarrow> inode" where
  "disk_inode x cd inum = dino x cd inum fs_inode"

definition disk_byte :: "superblock \<Rightarrow> (nat \<Rightarrow> u8 list) \<Rightarrow> nat \<Rightarrow> nat \<Rightarrow> u8" where
  "disk_byte x cd inum pos = fbyte cd (i_addrs (disk_inode x cd inum)) pos"

lemma node_agree:
  assumes "file_ok x v A" and "\<And>b. isdata x b \<Longrightarrow> v' b = v b" and "\<And>i. i < NDIRECT + 3 \<Longrightarrow> A' i = A i" and "vpath q"
  shows "node v' A' q = node v A q"
  using assms(4)
proof (induction q rule: fpath_induct)
  case (down p j)
  then have "v' (node v A p) = v (node v A p)" if "node v A p \<noteq> 0"
    using file_okD(1)[OF assms(1) _ that] assms(2) by (simp add: vpath_down)
  then show ?case using down.IH by (simp add: node_down word_at_def del: node.simps)
qed (use assms(3) in simp)

lemma fbyte_agree:
  assumes "file_ok x v A" and "\<And>b. isdata x b \<Longrightarrow> v' b = v b" and "\<And>i. i < NDIRECT + 3 \<Longrightarrow> A' i = A i" and "pos < MAXBYTES"
  shows "fbyte v' A' pos = fbyte v A pos"
proof -
  note p = fpath_of_valid[OF pos_block[OF assms(4)], THEN conjunct1]
  have "fnode v' A' (pos div BSIZE) = fnode v A (pos div BSIZE)"
    unfolding fnode_def by (rule node_agree[OF assms(1-3) p])
  moreover have "v' (fnode v A (pos div BSIZE)) = v (fnode v A (pos div BSIZE))" if "fnode v A (pos div BSIZE) \<noteq> 0"
    using assms(2) file_okD(1)[OF assms(1) p] that by (simp add: fnode_def)
  ultimately show ?thesis by (auto simp: fbyte_def Let_def)
qed

text \<open>A disk that agrees outside the log with what the cache shows holds the file the cached inode describes.\<close>

lemma disk_file:
  assumes i: "inode_ok E k m ip s" and cd: "\<And>b. b \<notin> logzone s \<Longrightarrow> cd b = view s b"
  shows "pos < MAXBYTES \<Longrightarrow> disk_byte (sb s) cd (i_inum (icache s ip)) pos = fdata ip s pos"
    and "i_size (disk_inode (sb s) cd (i_inum (icache s ip))) = i_size (icache s ip)"
proof -
  let ?n = "i_inum (icache s ip)"
  have s: "fs_layout s" "file_ok (sb s) (view s) (i_addrs (icache s ip))" "?n < sb_ninodes (sb s)"
    "dino (sb s) (view s) ?n (icache s ip) = icache s ip" using i by (simp_all add: inode_ok_def file_tx_def)
  note ib = IBLOCK_layout(2,3)[OF s(1,3)]
  have "dino (sb s) cd ?n x = dino (sb s) (view s) ?n x" for x
    using cd[OF layout_block(2)[OF s(1) ib]] by (simp add: dino_def)
  moreover have "i_addrs (dino (sb s) (view s) ?n x) j = i_addrs (dino (sb s) (view s) ?n y) j" if "j < NDIRECT + 3" for j x y
    using that by (simp add: dino_def get_dinode_def)
  moreover have "i_size (dino (sb s) (view s) ?n x) = i_size (dino (sb s) (view s) ?n y)" for x y
    by (simp add: dino_def get_dinode_def)
  ultimately have a: "\<forall>j<NDIRECT + 3. i_addrs (disk_inode (sb s) cd ?n) j = i_addrs (icache s ip) j"
    and sz: "i_size (disk_inode (sb s) cd ?n) = i_size (icache s ip)"
    using s(4) unfolding disk_inode_def by metis+
  show "i_size (disk_inode (sb s) cd ?n) = i_size (icache s ip)" by (rule sz)
  show "disk_byte (sb s) cd ?n pos = fdata ip s pos" if "pos < MAXBYTES"
    unfolding disk_byte_def using cd data_block(2)[OF s(1)] a by (intro fbyte_agree[OF s(2) _ _ that]) simp_all
qed

lemma disk_meta:
  assumes s: "fs_layout s" and cd: "\<And>b. b \<notin> logzone s \<Longrightarrow> cd b = v b"
  shows "j < sb_ninodes (sb s) \<Longrightarrow> disk_inode (sb s) cd j = disk_inode (sb s) v j"
    and "b < sb_size (sb s) \<Longrightarrow> used (sb s) cd b = used (sb s) v b"
proof -
  show "disk_inode (sb s) cd j = disk_inode (sb s) v j" if "j < sb_ninodes (sb s)"
    using cd[OF layout_block(2)[OF s IBLOCK_layout(2,3)[OF s that]]] by (simp add: disk_inode_def dino_def)
  show "used (sb s) cd b = used (sb s) v b" if "b < sb_size (sb s)"
    using cd[OF layout_bitmap(2)[OF s that]] by (simp add: used_def)
qed

text \<open>
  \<open>disk_has\<close>: the disk \<open>cd\<close> holds the file of \<open>ip\<close> with the size \<open>sz\<close> and the bytes \<open>f\<close>; the other inodes, the blocks of the
  other files and the marks of all blocks in use are those of the state \<open>s\<close>.
\<close>

definition disk_has :: "nat \<Rightarrow> 'a fs_state_scheme \<Rightarrow> (nat \<Rightarrow> u8 list) \<Rightarrow> nat \<Rightarrow> (nat \<Rightarrow> u8) \<Rightarrow> bool" where
  "disk_has ip s cd sz f \<longleftrightarrow> i_size (disk_inode (sb s) cd (i_inum (icache s ip))) = sz \<and>
     (\<forall>pos \<in> {..<MAXBYTES}. disk_byte (sb s) cd (i_inum (icache s ip)) pos = f pos) \<and>
     (\<forall>b. foreign (sb s) (view s) (i_addrs (icache s ip)) b \<longrightarrow> cd b = view s b) \<and>
     (\<forall>j < sb_ninodes (sb s). j \<noteq> i_inum (icache s ip) \<longrightarrow> disk_inode (sb s) cd j = disk_inode (sb s) (view s) j) \<and>
     (\<forall>b < sb_size (sb s). used (sb s) (view s) b \<longrightarrow> used (sb s) cd b)"

definition written_bytes :: "nat \<Rightarrow> nat \<Rightarrow> (nat \<Rightarrow> u8) \<Rightarrow> (nat \<Rightarrow> u8) \<Rightarrow> nat \<Rightarrow> u8" where
  "written_bytes off n w f pos = (if in_range off n pos then w (pos - off) else f pos)"

lemma tx_idle_disk:
  assumes "in_tx {} s" and "lg_n s = 0"
  shows "cdisk s b = view s b"
proof -
  have c: "cache_ok {} s" using in_tx_cache[OF assms(1)] .
  have "dirty s \<subseteq> {0..<NBUF}" by (auto simp: dirty_def)
  then have "finite (dirty s)" by (rule finite_subset) simp
  then have "dirty s = {}" using in_tx_dirty[OF assms(1)] assms(2) by simp
  then show ?thesis using cache_clean[OF c] by simp
qed

text \<open>
  C3. A write of a file that is one transaction is atomic under crashes: after \<^verbatim>\<open>writei\<close> and \<^verbatim>\<open>commit\<close> the disk holds the
  file with the new bytes and the new size, found through the inode on the disk. If the machine stops after any
  number \<open>j\<close> of the disk writes of \<^verbatim>\<open>commit\<close> and boots again, then after \<^verbatim>\<open>recover_from_log\<close> the disk holds either the old
  file with its old size or the new file with its new size. In each case every other inode on the disk and the
  data blocks of all other files are as before, and every block that was marked as used still is.
\<close>

theorem write_crash_atomic:
  assumes "inode_ok E (12 * nblk off n + 1) (4 * nblk off n) ip s" and "lg_n s = 0"
    and "head_n (cdisk s (lg_start s)) = 0" and "0 < n"
    and "off \<le> i_size (icache s ip)" and "off + n \<le> MAXBYTES" and "src_has s src n w"
  shows "good E (writei dsw ip src off n s) (\<lambda>_ t. \<exists>u wr. commit t = Ok () u \<and> wrote t u wr \<and>
    disk_has ip s (cdisk u) (max (i_size (icache s ip)) (off + n)) (written_bytes off n w (fdata ip s)) \<and>
    (\<forall>j (r :: 'b log_state_scheme). reboots t j wr r \<longrightarrow> (\<exists>v. recover_from_log r = Ok () v \<and>
      (disk_has ip s (cdisk v) (i_size (icache s ip)) (fdata ip s) \<or>
       disk_has ip s (cdisk v) (max (i_size (icache s ip)) (off + n)) (written_bytes off n w (fdata ip s))))))"
proof -
  have i: "inode_ok E (0 + 12 * nblk off n + 1) (0 + 4 * nblk off n) ip s" using assms(1) by simp
  have s: "fs_layout s" "in_tx {} s" using assms(1) by (simp_all add: inode_ok_def file_tx_def)
  have fz: "b \<notin> logzone s" if "foreign (sb s) v A b" for b v A
    using that data_block(2)[OF s(1)] by (simp add: foreign_def)
  have old: "disk_has ip s cd (i_size (icache s ip)) (fdata ip s)" if "\<And>b. b \<notin> logzone s \<Longrightarrow> cd b = cdisk s b" for cd
    using disk_file[OF i, of cd] disk_meta[OF s(1), of cd "view s"] that tx_idle_disk[OF s(2) assms(2)] fz by (simp add: disk_has_def)
  show ?thesis
  proof (rule good_mono[OF writei_tx[OF i assms(5-7)]], elim conjE)
    fix r t
    assume t: "inode_ok E 0 0 ip t" "file_written ip off n w s t" "0 < n \<longrightarrow> 0 < lg_n t"
    have tx: "tx_ok t" using t(1) by (simp add: inode_ok_def file_tx_def in_tx_tx_ok)
    have f: "sb t = sb s" "disk t = disk s" "lg_start t = lg_start s" "logzone t = logzone s"
      "icache t = (icache s)(ip := (icache s ip)\<lparr>i_size := max (i_size (icache s ip)) (off + n), i_addrs := i_addrs (icache t ip)\<rparr>)"
      using t(2) unfolding file_written_def by blast+
    have bytes: "fdata ip t pos = written_bytes off n w (fdata ip s) pos" if "pos < MAXBYTES" for pos
      using t(2) that unfolding file_written_def written_bytes_def by blast
    have fb: "view t b = view s b" if "foreign (sb s) (view s) (i_addrs (icache s ip)) b" for b
      using t(2) that unfolding file_written_def by blast
    have oth: "j < sb_ninodes (sb s) \<Longrightarrow> j \<noteq> i_inum (icache s ip) \<Longrightarrow> dino (sb s) (view t) j x = dino (sb s) (view s) j x"
      "b < sb_size (sb s) \<Longrightarrow> used (sb s) (view s) b \<Longrightarrow> used (sb s) (view t) b" for j x b
      using t(2) unfolding file_written_def by blast+
    have inum: "i_inum (icache t ip) = i_inum (icache s ip)" by (subst f(5)) simp
    have new: "disk_has ip s cd (max (i_size (icache s ip)) (off + n)) (written_bytes off n w (fdata ip s))"
      if "\<And>b. b \<notin> logzone s \<Longrightarrow> cd b = view t b" for cd
      using disk_file[OF t(1), of cd] disk_meta[OF s(1) that] that fz fb bytes file_written_size[OF t(2)] oth
      by (simp add: disk_has_def f(1,4) inum disk_inode_def)
    have cd: "cdisk t = cdisk s" by (intro HOL.ext) (simp add: cdisk_def f(2))
    have "0 < lg_n t" "head_n (cdisk t (lg_start t)) = 0" using t(3) assms(3,4) cd f(3) by simp_all
    from commit_crash[OF tx this, where 'b = 'b] obtain u wr where u: "commit t = Ok () u" "wrote t u wr"
      "\<forall>m. m \<notin> logzone s \<longrightarrow> cdisk u m = view t m"
      "\<And>k (r :: 'b log_state_scheme). reboots t k wr r \<Longrightarrow> \<exists>u. recover_from_log r = Ok () u \<and>
        (\<forall>m. m \<notin> logzone s \<longrightarrow> cdisk u m = (if k \<le> nat (lg_n t) then cdisk s m else view t m))"
      unfolding f(4) cd by blast
    have "\<exists>v. recover_from_log r = Ok () v \<and> (disk_has ip s (cdisk v) (i_size (icache s ip)) (fdata ip s) \<or>
         disk_has ip s (cdisk v) (max (i_size (icache s ip)) (off + n)) (written_bytes off n w (fdata ip s)))"
      if boot: "reboots t j wr r" for j and r :: "'b log_state_scheme"
    proof -
      obtain v where v: "recover_from_log r = Ok () v"
        "\<And>m. m \<notin> logzone s \<Longrightarrow> cdisk v m = (if j \<le> nat (lg_n t) then cdisk s m else view t m)" using u(4)[OF boot] by blast
      show ?thesis using v old[of "cdisk v"] new[of "cdisk v"] by (cases "j \<le> nat (lg_n t)") simp_all
    qed
    then show "\<exists>u wr. commit t = Ok () u \<and> wrote t u wr \<and>
      disk_has ip s (cdisk u) (max (i_size (icache s ip)) (off + n)) (written_bytes off n w (fdata ip s)) \<and>
      (\<forall>j (r :: 'b log_state_scheme). reboots t j wr r \<longrightarrow> (\<exists>v. recover_from_log r = Ok () v \<and>
        (disk_has ip s (cdisk v) (i_size (icache s ip)) (fdata ip s) \<or>
         disk_has ip s (cdisk v) (max (i_size (icache s ip)) (off + n)) (written_bytes off n w (fdata ip s)))))"
      using u(1-3) new[of "cdisk u"] by blast
  qed
qed

theorem write_crash_atomic_witness:
  "\<exists>t u wr. writei (\<lambda>_. \<lparr>dev_read = None, dev_write = None\<rparr>) 0 (FromVar (\<lambda>i. of_nat i)) 0 300 fs_ex = Ok 300 t \<and>
     commit t = Ok () u \<and> wrote t u wr \<and> disk_byte ex_sb (cdisk u) 1 299 = 43"
proof -
  let ?dsw = "\<lambda>_. \<lparr>dev_read = None, dev_write = None\<rparr>" and ?src = "FromVar (\<lambda>i. of_nat i)"
  have n: "nblk 0 300 = 1" "(300 :: nat) \<le> MAXBYTES" "(299 :: nat) < MAXBYTES" by (simp_all add: nblk_def MAXBYTES_def fs_sizes)
  have i: "inode_ok {} (12 * nblk 0 300 + 1) (4 * nblk 0 300) 0 fs_ex"
    unfolding n by (rule fs_ex_inode) simp_all
  have h: "head_n (cdisk fs_ex (lg_start fs_ex)) = 0"
    by (simp add: head_n_def cdisk_def content_def get32_def BSIZE_def fs_disk_def)
  obtain r t u wr where t: "writei ?dsw 0 ?src 0 300 fs_ex = Ok r t" "commit t = Ok () u" "wrote t u wr"
    "disk_has 0 fs_ex (cdisk u) (max (i_size (icache fs_ex 0)) (0 + 300)) (written_bytes 0 300 (\<lambda>i. of_nat i) (fdata 0 fs_ex))"
    using write_crash_atomic[OF i _ h, where 'b = log_state and dsw = ?dsw and src = ?src and w = "\<lambda>i. of_nat i"] n
    by (auto simp: good_empty)
  moreover have "r = 300"
    using i n t(1) writei_tx[of "{}" 0 0 300 0 0 fs_ex ?src "\<lambda>i. of_nat i" ?dsw] by (simp add: good_empty)
  ultimately show ?thesis using n(3) by (auto simp: disk_has_def written_bytes_def in_range_def)
qed

end
