(* ===== verification/Xv6_Mkfs.thy ===== *)
theory Xv6_Mkfs
  imports Xv6_Dir
begin

section \<open>The image builder\<close>

text \<open>
  \<^verbatim>\<open>mkfs.c\<close>, the program of the host that writes the first file system image. The image file is a map from sector
  numbers to the sectors written so far. What the host provides is a parameter: \<open>h n\<close> says that the seek and the
  transfer of sector \<open>n\<close> succeed, \<open>open\<close> gives for a file name the blocks its successive reads return. A failed
  \<^verbatim>\<open>assert\<close> and \<^verbatim>\<open>exit(1)\<close> end the program; the access behind the end of the local array \<^verbatim>\<open>indirect\<close> is undefined.
\<close>

definition NINODES :: nat where "NINODES = 200"

definition mk_nbitmap :: nat where "mk_nbitmap = FSSIZE div (BSIZE * 8) + 1"
definition mk_ninodeblocks :: nat where "mk_ninodeblocks = NINODES div IPB + 1"
definition mk_nlog :: nat where "mk_nlog = LOGSIZE"
definition mk_nmeta :: nat where "mk_nmeta = 2 + mk_nlog + mk_ninodeblocks + mk_nbitmap"

record dinode =
  d_type :: u16
  d_major :: u16
  d_minor :: u16
  d_nlink :: u16
  d_size :: u32
  d_addrs :: "nat \<Rightarrow> u32"

record mkfs =
  img :: "nat \<Rightarrow> bytes option"
  freeinode :: nat
  freeblock :: nat

definition xshort :: "u16 \<Rightarrow> u16" where
  "xshort x = get16 ((\<lambda>_. 0)(0 := ucast x, 1 := ucast (drop_bit 8 x))) 0"

definition xint :: "u32 \<Rightarrow> u32" where
  "xint x = get32 ((\<lambda>_. 0)(0 := ucast x, 1 := ucast (drop_bit 8 x), 2 := ucast (drop_bit 16 x),
     3 := ucast (drop_bit 24 x))) 0"

definition mk_sb :: superblock where
  "mk_sb = \<lparr>sb_size = unat (xint (of_nat FSSIZE)), sb_nblocks = unat (xint (of_nat (FSSIZE - mk_nmeta))),
     sb_ninodes = unat (xint (of_nat NINODES)), sb_nlog = unat (xint (of_nat mk_nlog)),
     sb_logstart = unat (xint 2), sb_inodestart = unat (xint (of_nat (2 + mk_nlog))),
     sb_bmapstart = unat (xint (of_nat (2 + mk_nlog + mk_ninodeblocks)))\<rparr>"

subsection \<open>Sectors and inodes\<close>

definition wsect :: "(nat \<Rightarrow> bool) \<Rightarrow> nat \<Rightarrow> bytes \<Rightarrow> mkfs \<Rightarrow> (mkfs, unit) res" where
  "wsect h sec buf s = (if h sec then Ok () (s\<lparr>img := (img s)(sec := Some buf)\<rparr>) else Fail (Panic ''exit''))"

definition rsect :: "(nat \<Rightarrow> bool) \<Rightarrow> nat \<Rightarrow> mkfs \<Rightarrow> (mkfs, bytes) res" where
  "rsect h sec s = (case img s sec of Some d \<Rightarrow> if h sec then Ok d s else Fail (Panic ''exit'') | None \<Rightarrow> Fail (Panic ''exit''))"

definition put_din :: "nat \<Rightarrow> dinode \<Rightarrow> bytes \<Rightarrow> bytes" where
  "put_din q din d =
     (let d = put16 d q (d_type din); d = put16 d (q + 2) (d_major din); d = put16 d (q + 4) (d_minor din);
          d = put16 d (q + 6) (d_nlink din); d = put32 d (q + 8) (d_size din)
      in fold (\<lambda>i d. put32 d (q + 12 + 4 * i) (d_addrs din i)) [0..<NDIRECT + 3] d)"

definition get_din :: "nat \<Rightarrow> bytes \<Rightarrow> dinode" where
  "get_din q d = \<lparr>d_type = get16 d q, d_major = get16 d (q + 2), d_minor = get16 d (q + 4), d_nlink = get16 d (q + 6),
     d_size = get32 d (q + 8), d_addrs = (\<lambda>i. if i < NDIRECT + 3 then get32 d (q + 12 + 4 * i) else 0)\<rparr>"

definition winode :: "(nat \<Rightarrow> bool) \<Rightarrow> nat \<Rightarrow> dinode \<Rightarrow> mkfs \<Rightarrow> (mkfs, unit) res" where
  "winode h inum din s =
     bnd (rsect h (IBLOCK inum mk_sb) s) (\<lambda>buf s.
     wsect h (IBLOCK inum mk_sb) (put_din (dinode_off inum) din buf) s)"

definition rinode :: "(nat \<Rightarrow> bool) \<Rightarrow> nat \<Rightarrow> mkfs \<Rightarrow> (mkfs, dinode) res" where
  "rinode h inum s =
     bnd (rsect h (IBLOCK inum mk_sb) s) (\<lambda>buf s.
     Ok (get_din (dinode_off inum) buf) s)"

definition mk_ialloc :: "(nat \<Rightarrow> bool) \<Rightarrow> u16 \<Rightarrow> mkfs \<Rightarrow> (mkfs, nat) res" where
  "mk_ialloc h type s =
     (let inum = freeinode s;
          s = s\<lparr>freeinode := freeinode s + 1\<rparr>;
          din = \<lparr>d_type = xshort type, d_major = 0, d_minor = 0, d_nlink = xshort 1, d_size = xint 0, d_addrs = (\<lambda>_. 0)\<rparr>
      in bnd (winode h inum din s) (\<lambda>_ s. Ok inum s))"

definition mk_balloc :: "(nat \<Rightarrow> bool) \<Rightarrow> nat \<Rightarrow> mkfs \<Rightarrow> (mkfs, unit) res" where
  "mk_balloc h n s =
     (if \<not> n < BSIZE * 8 then Fail (Panic ''assert'')
      else wsect h (sb_bmapstart mk_sb) (fold mark_used [0..<n] (\<lambda>_. 0)) s)"

subsection \<open>Appending to a file\<close>

text \<open>The address in slot \<open>i\<close> of the inode, filled with the next free block when it is zero.\<close>

definition mk_slot :: "nat \<Rightarrow> dinode \<Rightarrow> mkfs \<Rightarrow> dinode \<times> mkfs" where
  "mk_slot i din s =
     (if xint (d_addrs din i) = 0
      then (din\<lparr>d_addrs := (d_addrs din)(i := xint (of_nat (freeblock s)))\<rparr>, s\<lparr>freeblock := freeblock s + 1\<rparr>)
      else (din, s))"

definition iappend_block :: "(nat \<Rightarrow> bool) \<Rightarrow> nat \<Rightarrow> dinode \<Rightarrow> mkfs \<Rightarrow> (mkfs, nat \<times> dinode) res" where
  "iappend_block h fbn din s =
     (if fbn < NDIRECT then
        let (din, s) = mk_slot fbn din s in Ok (unat (xint (d_addrs din fbn)), din) s
      else
        let (din, s) = mk_slot NDIRECT din s; a = unat (xint (d_addrs din NDIRECT)); j = fbn - NDIRECT
        in bnd (rsect h a s) (\<lambda>ind s.
           if \<not> j < NINDIRECT then Fail (UB ''indirect'')
           else if get32 ind (4 * j) = 0 then
             let ind = put32 ind (4 * j) (xint (of_nat (freeblock s)));
                 s = s\<lparr>freeblock := freeblock s + 1\<rparr>
             in bnd (wsect h a ind s) (\<lambda>_ s. Ok (unat (xint (get32 ind (4 * j))), din) s)
           else Ok (unat (xint (get32 ind (4 * j))), din) s))"

function iappend_loop :: "(nat \<Rightarrow> bool) \<Rightarrow> u8 list \<Rightarrow> nat \<Rightarrow> dinode \<Rightarrow> mkfs \<Rightarrow> (mkfs, nat \<times> dinode) res" where
  "iappend_loop h p off din s =
     (if 0 < length p then
        let fbn = off div BSIZE
        in if \<not> fbn < MAXFILE then Fail (Panic ''assert'')
           else
             bnd (iappend_block h fbn din s) (\<lambda>(x, din) s.
             let n1 = min (length p) ((fbn + 1) * BSIZE - off)
             in bnd (rsect h x s) (\<lambda>buf s.
                bnd (wsect h x (copy buf (off - fbn * BSIZE) (of_list p) 0 n1) s) (\<lambda>_ s.
                iappend_loop h (drop n1 p) (off + n1) din s)))
      else Ok (off, din) s)"
  by pat_completeness auto
termination
proof (relation "measure (\<lambda>(h, p, off, din, s). length p)", simp, goal_cases)
  case (1 h p off din s fbn y t x din' n1 buf t' u t'')
  have "off < (off div BSIZE + 1) * BSIZE" by (simp add: BSIZE_def)
  then show ?case using 1 by simp
qed

declare iappend_loop.simps [simp del]

definition iappend :: "(nat \<Rightarrow> bool) \<Rightarrow> nat \<Rightarrow> u8 list \<Rightarrow> mkfs \<Rightarrow> (mkfs, unit) res" where
  "iappend h inum p s =
     bnd (rinode h inum s) (\<lambda>din s.
     bnd (iappend_loop h p (unat (xint (d_size din))) din s) (\<lambda>(off, din) s.
     winode h inum (din\<lparr>d_size := xint (of_nat off)\<rparr>) s))"

subsection \<open>The program\<close>

definition put_sb :: "superblock \<Rightarrow> bytes" where
  "put_sb x = put32 (put32 (put32 (put32 (put32 (put32 (put32 (\<lambda>_. 0) 0 (of_nat (sb_size x))) 4 (of_nat (sb_nblocks x)))
     8 (of_nat (sb_ninodes x))) 12 (of_nat (sb_nlog x))) 16 (of_nat (sb_logstart x))) 20 (of_nat (sb_inodestart x)))
     24 (of_nat (sb_bmapstart x))"

definition dirent_bytes :: "nat \<Rightarrow> string \<Rightarrow> u8 list" where
  "dirent_bytes inum nm = map (dirent inum nm) [0..<DIRENTSZ]"

definition mk_name :: "string \<Rightarrow> string" where
  "mk_name nm = (case nm of c # cs \<Rightarrow> if c = CHR ''_'' then cs else nm | [] \<Rightarrow> [])"

definition mk_file :: "(nat \<Rightarrow> bool) \<Rightarrow> (string \<Rightarrow> u8 list list option) \<Rightarrow> string \<Rightarrow> mkfs \<Rightarrow> (mkfs, unit) res" where
  "mk_file h open nm s =
     (if CHR ''/'' \<in> set nm then Fail (Panic ''assert'')
      else case open nm of
        None \<Rightarrow> Fail (Panic ''exit'')
      | Some chunks \<Rightarrow>
          bnd (mk_ialloc h (word_of_int T_FILE) s) (\<lambda>inum s.
          bnd (iappend h ROOTINO (dirent_bytes inum (mk_name nm)) s) (\<lambda>_ s.
          for_each (iappend h inum) chunks s)))"

definition mkfs_main ::
  "(nat \<Rightarrow> bool) \<Rightarrow> bool \<Rightarrow> (string \<Rightarrow> u8 list list option) \<Rightarrow> string list \<Rightarrow> (mkfs, unit) res" where
  "mkfs_main h creat open argv =
     (let s = \<lparr>img = (\<lambda>_. None), freeinode = 1, freeblock = 0\<rparr>
      in if length argv < 2 then Fail (Panic ''exit'')
         else if BSIZE mod DINODESZ \<noteq> 0 \<or> BSIZE mod DIRENTSZ \<noteq> 0 then Fail (Panic ''assert'')
         else if \<not> creat then Fail (Panic ''exit'')
         else
           let s = s\<lparr>freeblock := mk_nmeta\<rparr>
           in bnd (for_each (\<lambda>i. wsect h i (\<lambda>_. 0)) [0..<FSSIZE] s) (\<lambda>_ s.
              bnd (wsect h 1 (put_sb mk_sb) s) (\<lambda>_ s.
              bnd (mk_ialloc h (word_of_int T_DIR) s) (\<lambda>rootino s.
              if rootino \<noteq> ROOTINO then Fail (Panic ''assert'')
              else
                bnd (iappend h rootino (dirent_bytes rootino ''.'') s) (\<lambda>_ s.
                bnd (iappend h rootino (dirent_bytes rootino ''..'') s) (\<lambda>_ s.
                bnd (for_each (mk_file h open) (drop 2 argv) s) (\<lambda>_ s.
                bnd (rinode h rootino s) (\<lambda>din s.
                let off = unat (xint (d_size din));
                    off = (off div BSIZE + 1) * BSIZE
                in bnd (winode h rootino (din\<lparr>d_size := xint (of_nat off)\<rparr>) s) (\<lambda>_ s.
                   mk_balloc h (freeblock s) s)))))))))"

end
