(* ===== verification/Xv6_Mkfs_Props.thy ===== *)
theory Xv6_Mkfs_Props
  imports Xv6_Mkfs Xv6_Fs_RW
begin

section \<open>The image mkfs writes\<close>

text \<open>
  The image builder and the kernel agree on the format of the disk: the image is a well formed file system in the
  sense of \<^verbatim>\<open>Xv6_Fs_Blocks\<close> and \<^verbatim>\<open>Xv6_Fs_Map\<close>, with the files of the command line. While it runs, \<^verbatim>\<open>mkfs\<close> keeps no bitmap; the
  proofs follow the image with the bitmap that \<^verbatim>\<open>balloc\<close> will write at the end.
\<close>

subsection \<open>Byte order and constants\<close>

lemma xint_id [simp]: "xint x = x"
  using get32_put32[of "\<lambda>_. 0" 0 x] by (simp add: xint_def put32_def numeral_2_eq_2)

lemma xshort_id [simp]: "xshort x = x"
  using get16_put16[of "\<lambda>_. 0" 0 x] by (simp add: xshort_def put16_def)




subsection \<open>The image with its bitmap\<close>

definition vw :: "mkfs \<Rightarrow> nat \<Rightarrow> u8 list" where
  "vw s n = (case img s n of None \<Rightarrow> zeros | Some d \<Rightarrow> content d)"







subsection \<open>Sectors\<close>


definition put_img :: "nat \<Rightarrow> bytes \<Rightarrow> mkfs \<Rightarrow> mkfs" where
  "put_img n d s = s\<lparr>img := (img s)(n := Some d)\<rparr>"




lemma put_img_simps [simp]:
  "freeblock (put_img n d s) = freeblock s" "freeinode (put_img n d s) = freeinode s" "vw (put_img n d s) = (vw s)(n := content d)"
  by (auto simp: put_img_def vw_def)




subsection \<open>Giving out a block\<close>

definition next_block :: "mkfs \<Rightarrow> mkfs" where
  "next_block s = s\<lparr>freeblock := freeblock s + 1\<rparr>"

lemma vw_next [simp]: "vw (s\<lparr>freeblock := k\<rparr>) = vw s" "vw (s\<lparr>freeinode := k\<rparr>) = vw s"
  by (simp_all add: vw_def fun_eq_iff)

lemma next_block_simps [simp]:
  "freeblock (next_block s) = Suc (freeblock s)" "freeinode (next_block s) = freeinode s" "img (next_block s) = img s"
  "vw (next_block s) = vw s"
  by (simp_all add: next_block_def)



subsection \<open>Finding the block to write\<close>







subsection \<open>Appending\<close>









subsection \<open>Inodes of the image\<close>












subsection \<open>A file among others\<close>







subsection \<open>The files of the image\<close>



















subsection \<open>The empty image\<close>





subsection \<open>The finished image\<close>
















end
