(* ===== verification/Xv6_Ring.thy ===== *)
theory Xv6_Ring
  imports Xv6_Prelude
begin

section \<open>Ring buffers\<close>

text \<open>
  Pipes and the console's input line keep their bytes in an array of \<open>n\<close> entries that is indexed by 32-bit counters
  modulo \<open>n\<close>. The counters only grow and wrap at \<open>2 ^ 32\<close>; since \<open>n\<close> divides \<open>2 ^ 32\<close> the index stays right across the
  wrap, and the difference of two counters is the number of bytes between them.
\<close>

definition ring_list :: "nat \<Rightarrow> (nat \<Rightarrow> u8) \<Rightarrow> u32 \<Rightarrow> u32 \<Rightarrow> u8 list" where
  "ring_list n d r w = map (\<lambda>i. d ((unat r + i) mod n)) [0..<unat (w - r)]"

lemma length_ring_list [simp]: "length (ring_list n d r w) = unat (w - r)"
  by (simp add: ring_list_def)

lemma ring_list_empty [simp]: "ring_list n d r w = [] \<longleftrightarrow> r = w"
  by (auto simp: ring_list_def unat_eq_0)

lemma unat_Suc: "x + 1 \<noteq> 0 \<Longrightarrow> unat (x + 1 :: u32) = Suc (unat x)"
  by (simp add: unatSuc add.commute)

lemma unat_pred: "x \<noteq> 0 \<Longrightarrow> Suc (unat (x - 1 :: u32)) = unat x"
  using unat_Suc[of "x - 1"] by simp

lemma small_word_Suc: "unat (x :: u32) < n \<Longrightarrow> n < 2 ^ 32 \<Longrightarrow> x + 1 \<noteq> 0"
proof
  assume n: "unat x < n" "n < 2 ^ 32" and "x + 1 = 0"
  then have "x = - 1" by (simp add: eq_neg_iff_add_eq_0)
  then show False using n by (simp add: unsigned_minus_1_eq_mask mask_eq_exp_minus_1)
qed

locale ring =
  fixes n :: nat
  assumes ring_pos: "0 < n" and ring_dvd: "n dvd 2 ^ 32" and ring_small: "n < 2 ^ 32"
begin

lemma index_add: "unat (r + of_nat i :: u32) mod n = (unat r + i) mod n"
proof -
  have "unat (r + of_nat i) = (unat r + i) mod 2 ^ 32"
    by (simp add: unat_word_ariths unat_of_nat mod_simps)
  then show ?thesis using ring_dvd by (simp add: mod_mod_cancel)
qed

lemma index_Suc: "unat (r + 1 :: u32) mod n = (unat r + 1) mod n"
  using index_add[of r 1] by simp

lemma index_end: "unat w mod n = (unat r + unat (w - r)) mod n" for r w :: u32
  using index_add[of r "unat (w - r)"] by simp

lemma index_neq: "i < k \<Longrightarrow> k < n \<Longrightarrow> (a + i) mod n \<noteq> (a + k) mod n"
proof
  assume i: "i < k" "k < n" and "(a + i) mod n = (a + k) mod n"
  then have "n dvd k - i" using mod_eq_dvd_iff_nat[of "a + i" "a + k" n] by auto
  then have "n \<le> k - i" using i by (intro dvd_imp_le) simp_all
  then show False using i by linarith
qed

lemma ring_put:
  assumes "unat (w - r) < n"
  shows "ring_list n (d(unat w mod n := c)) r (w + 1) = ring_list n d r w @ [c]"
proof -
  let ?k = "unat (w - r)"
  have k: "unat (w + 1 - r) = Suc ?k"
    using unat_Suc[OF small_word_Suc[OF assms ring_small]] by (simp add: algebra_simps)
  have "(d(unat w mod n := c)) ((unat r + i) mod n) = d ((unat r + i) mod n)" if "i < ?k" for i
    using index_neq[OF that assms] by (simp add: index_end[of w r])
  then show ?thesis unfolding ring_list_def k by (simp add: index_end[of w r])
qed

lemma ring_get:
  assumes "r \<noteq> w"
  shows "ring_list n d r w = d (unat r mod n) # ring_list n d (r + 1) w"
proof -
  have k: "unat (w - r) = Suc (unat (w - (r + 1)))"
    using unat_pred[of "w - r"] assms by (simp add: diff_diff_add)
  have *: "(unat (r + 1) + i) mod n = (unat r + Suc i) mod n" for i
    using index_Suc[of r] mod_add_left_eq[of "unat (r + 1)" n i] mod_add_left_eq[of "unat r + 1" n i] by simp
  show ?thesis unfolding ring_list_def k upt_conv_Cons[OF zero_less_Suc]
    by (simp add: * map_Suc_upt[symmetric] comp_def del: upt_Suc)
qed

lemma ring_unput:
  assumes "r \<noteq> w"
  shows "ring_list n d r (w - 1) = butlast (ring_list n d r w)" and "d (unat (w - 1) mod n) = last (ring_list n d r w)"
proof -
  have k: "unat (w - r) = Suc (unat (w - 1 - r))"
    using unat_pred[of "w - r"] assms by (simp add: diff_right_commute)
  show "ring_list n d r (w - 1) = butlast (ring_list n d r w)" "d (unat (w - 1) mod n) = last (ring_list n d r w)"
    unfolding ring_list_def k by (simp_all add: index_end[of "w - 1" r])
qed

lemma ring_append:
  assumes "unat (e - r) = unat (w - r) + unat (e - w)"
  shows "ring_list n d r e = ring_list n d r w @ ring_list n d w e"
proof -
  have "(unat w + i) mod n = (unat r + (unat (w - r) + i)) mod n" for i
    using index_end[of w r] mod_add_left_eq[of "unat w" n i] mod_add_left_eq[of "unat r + unat (w - r)" n i]
    by (simp add: add.assoc)
  then have "map (\<lambda>i. d ((unat w + i) mod n)) [0..<unat (e - w)] =
      map (\<lambda>i. d ((unat r + i) mod n)) (map (\<lambda>i. i + unat (w - r)) [0..<unat (e - w)])"
    by (simp add: add.commute add.left_commute)
  then show ?thesis unfolding ring_list_def assms
    by (simp only: map_add_upt upt_add_eq_append[OF le0] map_append add_0) (simp add: add.commute)
qed

end

end
