(* ===== verification/Xv6_Sched_Inv.thy ===== *)
theory Xv6_Sched_Inv
  imports Xv6_Sched_Props
begin

section \<open>The scheduling operations keep the scheduler's invariant\<close>

text \<open>
  For each operation of \<^verbatim>\<open>proc.c\<close> that schedules: its outcome under \<open>sched_inv\<close>, and that the
  outcome's state satisfies \<open>sched_inv\<close> again.
\<close>

subsection \<open>kill and sleep\<close>

lemma kill_eq:
  assumes "MlfqLock \<notin> held s" and "PtableLock \<notin> held s"
    and "List.find (\<lambda>p. p_pid (ptable s p) = i) [0..<NPROC] = Some p"
  shows "kill i s = Ok 0 (s\<lparr>
    ptable := (ptable s)(p := (ptable s p)\<lparr>p_killed := True,
      p_state := (if p_state (ptable s p) = SLEEPING then RUNNABLE else p_state (ptable s p))\<rparr>),
    mlfqstr := (if p_state (ptable s p) = SLEEPING \<and> p_level (ptable s p) \<noteq> NOLEVEL
      then mlfq_in (p_level (ptable s p)) (mlfqstr s) else mlfqstr s)\<rparr>)"
  using assms by (simp add: kill_def lock_simps state_defs mlfqadd_in)

lemma kill_absent:
  assumes "MlfqLock \<notin> held s" and "PtableLock \<notin> held s"
    and "\<forall>p<NPROC. p_pid (ptable s p) \<noteq> i"
  shows "kill i s = Ok (-1) s"
proof -
  have "List.find (\<lambda>p. p_pid (ptable s p) = i) [0..<NPROC] = None"
    using assms(3) by (auto simp: find_None_iff)
  then show ?thesis using assms(1,2) by (simp add: kill_def lock_simps)
qed

lemma proc_ok_killed: "proc_ok p q \<Longrightarrow> proc_ok p (q\<lparr>p_killed := k\<rparr>)"
  by (simp add: proc_ok_def alive_def)

lemma kill_inv:
  assumes inv: "sched_inv s" and free: "MlfqLock \<notin> held s" "PtableLock \<notin> held s"
  shows "okpost (kill i s) (\<lambda>_. sched_inv)"
proof (cases "List.find (\<lambda>p. p_pid (ptable s p) = i) [0..<NPROC]")
  case None
  then have "\<forall>p<NPROC. p_pid (ptable s p) \<noteq> i" by (auto simp: find_None_iff)
  then show ?thesis using kill_absent[OF free] inv by simp
next
  case (Some p)
  then have p: "p < NPROC" by (auto simp: find_Some_iff)
  let ?q = "(ptable s p)\<lparr>p_killed := True,
      p_state := (if p_state (ptable s p) = SLEEPING then RUNNABLE else p_state (ptable s p))\<rparr>"
  show ?thesis
  proof (cases "alive (ptable s p)")
    case True
    then have "alive ?q" by (auto simp: alive_def)
    with True p inv show ?thesis
      unfolding kill_eq[OF free Some] okpost.simps
      by (intro sched_inv_state[where st = "p_state ?q" and ch = "p_chan ?q" and k = True])
        (auto simp: active_def)
  next
    case False
    then have ns: "p_state (ptable s p) \<noteq> SLEEPING" by (auto simp: alive_def)
    have "proc_ok p ?q" using sched_invD(1)[OF inv] p ns by (simp add: table_ok_def proc_ok_killed)
    then have "table_ok ((ptable s)(p := ?q)) (nextpid s)"
      using sched_invD(1)[OF inv] ns by (intro table_ok_upd) (auto simp: alive_def)
    moreover have "mlfq_ok ((ptable s)(p := ?q)) (mlfqstr s)"
      using ns by (intro mlfq_ok_same[OF sched_invD(2)[OF inv] p]) (auto simp: in_mlfq_def active_def)
    moreover have "stride_ok ((ptable s)(p := ?q)) (mlfqstr s)"
      using ns by (intro stride_ok_cong[OF sched_invD(3)[OF inv]]) (auto simp: stride_proc_def)
    ultimately show ?thesis
      unfolding kill_eq[OF free Some] using ns by (simp add: sched_inv_def)
  qed
qed

lemma sleep_eq:
  assumes "curproc s = Some p" and "held s = {lk}" and "lk \<noteq> PtableLock" and "lk \<noteq> MlfqLock"
  shows "sleep ch lk s = Swtch (s\<lparr>held := {PtableLock},
    ptable := (ptable s)(p := (ptable s p)\<lparr>p_chan := Some ch, p_state := SLEEPING\<rparr>),
    mlfqstr := (if p_level (ptable s p) = NOLEVEL then mlfqstr s
      else mlfq_out (p_level (ptable s p)) (mlfqstr s))\<rparr>)"
proof -
  have "insert PtableLock {lk} - {lk} = {PtableLock}" using assms by auto
  then show ?thesis using assms
    by (auto simp: sleep_def myproc_def lock_simps state_defs mlfqrm_out sched_def with_myproc_def)
qed

lemma sleep_eq_ptable:
  assumes "curproc s = Some p" and "held s = {PtableLock}"
  shows "sleep ch PtableLock s = Swtch (s\<lparr>
    ptable := (ptable s)(p := (ptable s p)\<lparr>p_chan := Some ch, p_state := SLEEPING\<rparr>),
    mlfqstr := (if p_level (ptable s p) = NOLEVEL then mlfqstr s
      else mlfq_out (p_level (ptable s p)) (mlfqstr s))\<rparr>)"
  using assms
  by (auto simp: sleep_def myproc_def lock_simps state_defs mlfqrm_out sched_def with_myproc_def)

lemma sched_inv_sleep:
  assumes inv: "sched_inv s" and p: "p < NPROC" "active (ptable s p)"
  shows "sched_inv (s\<lparr>
    ptable := (ptable s)(p := (ptable s p)\<lparr>p_chan := Some ch, p_state := SLEEPING\<rparr>),
    mlfqstr := (if p_level (ptable s p) = NOLEVEL then mlfqstr s
      else mlfq_out (p_level (ptable s p)) (mlfqstr s))\<rparr>)"
  using p
  by (intro sched_inv_state[OF inv p(1) active_alive[OF p(2)],
        where st = SLEEPING and ch = "Some ch" and k = "p_killed (ptable s p)"])
    (auto simp: active_def alive_def)

lemma sleep_inv:
  assumes "sched_inv s" and "cur_ok s" and "curproc s = Some p"
    and "held s = {lk}" and "lk \<noteq> MlfqLock"
  shows "\<exists>s'. sleep ch lk s = Swtch s' \<and> sched_inv s' \<and> held s' = {PtableLock} \<and>
    p_state (ptable s' p) = SLEEPING \<and> p_chan (ptable s' p) = Some ch"
proof -
  have p: "p < NPROC" "active (ptable s p)" using assms by (auto simp: cur_ok_def)
  note inv = sched_inv_sleep[OF assms(1) p, of ch]
  show ?thesis
  proof (cases "lk = PtableLock")
    case True
    with assms inv show ?thesis by (auto simp: sleep_eq_ptable)
  next
    case False
    from inv have "sched_inv (s\<lparr>held := {PtableLock},
        ptable := (ptable s)(p := (ptable s p)\<lparr>p_chan := Some ch, p_state := SLEEPING\<rparr>),
        mlfqstr := (if p_level (ptable s p) = NOLEVEL then mlfqstr s
          else mlfq_out (p_level (ptable s p)) (mlfqstr s))\<rparr>)"
      by (rule sched_inv_frame) simp_all
    with assms False show ?thesis by (auto simp: sleep_eq)
  qed
qed

subsection \<open>Changing levels\<close>

text \<open>A process of the feedback queue moves from its level to \<open>lv\<close>.\<close>

definition move_level :: "u32 \<Rightarrow> u32 \<Rightarrow> mlfq \<Rightarrow> mlfq" where
  "move_level old lv m = m\<lparr>qlevels := (\<lambda>l. qlevels m l + level_hit l lv - level_hit l old)\<rparr>"

lemma move_level_simps [simp]:
  "stride_head (move_level old lv m) = stride_head m"
  "stride_share (move_level old lv m) = stride_share m"
  "mlfq_proc_cnt (move_level old lv m) = mlfq_proc_cnt m"
  "mlfq_stride (move_level old lv m) = mlfq_stride m"
  "mlfq_pass (move_level old lv m) = mlfq_pass m"
  "priboosttime (move_level old lv m) = priboosttime m"
  "next_t (move_level old lv m) = next_t m"
  by (simp_all add: move_level_def)

lemma sched_inv_level:
  assumes inv: "sched_inv s" and p: "p < NPROC" "in_mlfq (ptable s p)"
    and lv: "lv \<le> 2" and tq: "tq \<noteq> 0"
  shows "sched_inv (s\<lparr>ptable := (ptable s)(p := (ptable s p)\<lparr>p_level := lv, p_timequant := tq,
      p_timeallot := ta, p_tickcount := tc\<rparr>),
    mlfqstr := move_level (p_level (ptable s p)) lv (mlfqstr s)\<rparr>)"
proof -
  let ?q = "(ptable s p)\<lparr>p_level := lv, p_timequant := tq, p_timeallot := ta, p_tickcount := tc\<rparr>"
  have lvn: "lv \<noteq> NOLEVEL" using lv by auto
  have "proc_ok p ?q"
    using table_ok_proc[OF sched_invD(1)[OF inv] p(1)] p(2) lv tq
    by (auto simp: proc_ok_def alive_def in_mlfq_def active_def)
  then have "table_ok ((ptable s)(p := ?q)) (nextpid s)"
    using sched_invD(1)[OF inv] by (auto intro: table_ok_upd simp: alive_def)
  moreover have "stride_ok ((ptable s)(p := ?q)) (move_level (p_level (ptable s p)) lv (mlfqstr s))"
    using p lvn by (intro stride_ok_cong[OF sched_invD(3)[OF inv]]) (auto simp: stride_proc_def in_mlfq_def)
  moreover have "mlfq_ok ((ptable s)(p := ?q)) (move_level (p_level (ptable s p)) lv (mlfqstr s))"
    using p lvn
    by (intro mlfq_ok_upd[OF sched_invD(2)[OF inv] p(1)])
      (auto simp: in_mlfq_def active_def move_level_def level_hit_def)
  ultimately show ?thesis by (simp add: sched_inv_def)
qed

lemma fun_upd_move:
  fixes f :: "nat \<Rightarrow> int"
  assumes "old \<le> 2" and "lv \<le> 2"
  shows "(f(unat old := f (unat old) - 1))(unat lv := (f(unat old := f (unat old) - 1)) (unat lv) + 1)
    = (\<lambda>l. f l + level_hit l lv - level_hit l old)"
  using assms by (auto simp: level_hit_def at_lv_def fun_eq_iff)

lemma proc_upd_commute:
  "q\<lparr>p_level := lv, p_tickcount := tc, p_timequant := tq\<rparr> = q\<lparr>p_level := lv, p_timequant := tq, p_tickcount := tc\<rparr>"
  "q\<lparr>p_level := lv, p_timequant := tq, p_tickcount := tc, p_timeallot := ta\<rparr> =
   q\<lparr>p_level := lv, p_timequant := tq, p_timeallot := ta, p_tickcount := tc\<rparr>"
  "q\<lparr>p_level := lv, p_timequant := tq, p_timeallot := p_timeallot q, p_tickcount := tc\<rparr> =
   q\<lparr>p_level := lv, p_timequant := tq, p_tickcount := tc\<rparr>"
  by (cases q; simp)+

lemma lowerlevel_eq:
  assumes "p_level (ptable s p) = 1 \<or> p_level (ptable s p) = 2"
  shows "lowerlevel p s = s\<lparr>ptable := (ptable s)(p := (ptable s p)\<lparr>
      p_level := p_level (ptable s p) - 1,
      p_timequant := (if p_level (ptable s p) = 2 then 10 else 20),
      p_timeallot := (if p_level (ptable s p) = 2 then 40 else p_timeallot (ptable s p)),
      p_tickcount := 0\<rparr>),
    mlfqstr := move_level (p_level (ptable s p)) (p_level (ptable s p) - 1) (mlfqstr s)\<rparr>"
proof -
  have "p_level (ptable s p) \<le> 2" "p_level (ptable s p) - 1 \<le> 2"
    using assms by (auto simp: level_le_2)
  note mv = fun_upd_move[OF this, of "qlevels (mlfqstr s)"]
  from assms show ?thesis
  proof
    assume lv: "p_level (ptable s p) = 1"
    show ?thesis using mv lv
      by (simp add: lowerlevel_def state_defs Let_def move_level_def proc_upd_commute)
  next
    assume lv: "p_level (ptable s p) = 2"
    show ?thesis using mv lv
      by (simp add: lowerlevel_def state_defs Let_def move_level_def proc_upd_commute)
  qed
qed

lemma lowerlevel_id: "\<not> (p_level (ptable s p) = 1 \<or> p_level (ptable s p) = 2) \<Longrightarrow> lowerlevel p s = s"
  using level_le_2[of "p_level (ptable s p)"]
  by (auto simp: lowerlevel_def Let_def not_le[symmetric] word_less_nat_alt)

lemma lowerlevel_inv:
  assumes inv: "sched_inv s" and p: "p < NPROC" "active (ptable s p)"
  shows "sched_inv (lowerlevel p s)"
proof (cases "p_level (ptable s p) = 1 \<or> p_level (ptable s p) = 2")
  case True
  then have "in_mlfq (ptable s p)" using p by (auto simp: in_mlfq_def)
  moreover have "p_level (ptable s p) - 1 \<le> 2" using True by (auto simp: level_le_2)
  ultimately show ?thesis
    unfolding lowerlevel_eq[OF True] using inv p by (intro sched_inv_level) auto
qed (simp add: lowerlevel_id inv)

lemma priboost_one_eq:
  "priboost_one p s =
    (if p_state (ptable s p) = RUNNABLE \<and> p_level (ptable s p) \<le> 2 \<and> p_pid (ptable s p) \<noteq> -1
     then s\<lparr>ptable := (ptable s)(p := (ptable s p)\<lparr>p_level := 2, p_timequant := 5, p_timeallot := 20,
              p_tickcount := 0\<rparr>),
            mlfqstr := move_level (p_level (ptable s p)) 2 (mlfqstr s)\<rparr> else s)"
  if "p_level (ptable s p) \<le> 2 \<or> p_level (ptable s p) = NOLEVEL"
proof (cases "p_level (ptable s p) \<le> 2")
  case True
  then have ne: "p_level (ptable s p) \<noteq> NOLEVEL" by auto
  show ?thesis
    using fun_upd_move[OF True, of 2 "qlevels (mlfqstr s)"] True ne
    by (simp add: priboost_one_def state_defs Let_def move_level_def)
next
  case False
  then show ?thesis using that by (simp add: priboost_one_def)
qed

lemma priboost_one_inv:
  assumes "sched_inv s" and "p < NPROC"
  shows "sched_inv (priboost_one p s)"
proof -
  have "p_level (ptable s p) \<le> 2 \<or> p_level (ptable s p) = NOLEVEL"
    using table_ok_proc[OF sched_invD(1)[OF assms(1)] assms(2)] by (simp add: proc_ok_def)
  from priboost_one_eq[OF this] show ?thesis
    using assms by (auto simp: in_mlfq_def active_def intro!: sched_inv_level)
qed

lemma priboost_inv: "sched_inv s \<Longrightarrow> sched_inv (priboost s)"
proof -
  have "sched_inv s \<Longrightarrow> n \<le> NPROC \<Longrightarrow> sched_inv (fold priboost_one [0..<n] s)" for n
    by (induction n) (auto intro: priboost_one_inv)
  then show "sched_inv s \<Longrightarrow> sched_inv (priboost s)" by (simp add: priboost_def)
qed

text \<open>What a priority boost does to the table: every ready process of the queue is back at level 2.\<close>

definition boost_proc :: "proc \<Rightarrow> proc" where
  "boost_proc q = (if p_state q = RUNNABLE \<and> p_level q \<noteq> NOLEVEL \<and> p_pid q \<noteq> -1
     then q\<lparr>p_level := 2, p_timequant := 5, p_timeallot := 20, p_tickcount := 0\<rparr> else q)"

lemma priboost_one_ptable: "ptable (priboost_one p s) = (ptable s)(p := boost_proc (ptable s p))"
  by (auto simp: priboost_one_def boost_proc_def state_defs Let_def)

lemma priboost_one_frame:
  "priboost_one p s = s\<lparr>ptable := ptable (priboost_one p s),
     mlfqstr := (mlfqstr s)\<lparr>qlevels := qlevels (mlfqstr (priboost_one p s))\<rparr>\<rparr>"
  by (simp add: priboost_one_def state_defs Let_def)

lemma priboost_ptable: "ptable (priboost s) p = (if p < NPROC then boost_proc (ptable s p) else ptable s p)"
proof -
  have "ptable (fold priboost_one [0..<n] s) p = (if p < n then boost_proc (ptable s p) else ptable s p)" for n
    by (induction n) (auto simp: priboost_one_ptable)
  then show ?thesis by (simp add: priboost_def)
qed

lemma priboost_frame:
  "priboost s = s\<lparr>ptable := ptable (priboost s),
     mlfqstr := (mlfqstr s)\<lparr>qlevels := qlevels (mlfqstr (priboost s))\<rparr>\<rparr>"
proof -
  have "fold priboost_one [0..<n] s = s\<lparr>ptable := ptable (fold priboost_one [0..<n] s),
    mlfqstr := (mlfqstr s)\<lparr>qlevels := qlevels (mlfqstr (fold priboost_one [0..<n] s))\<rparr>\<rparr>" for n
  proof (induction n)
    case (Suc n)
    let ?t = "fold priboost_one [0..<n] s"
    have "priboost_one n ?t = ?t\<lparr>ptable := ptable (priboost_one n ?t),
        mlfqstr := (mlfqstr ?t)\<lparr>qlevels := qlevels (mlfqstr (priboost_one n ?t))\<rparr>\<rparr>"
      by (rule priboost_one_frame)
    also have "\<dots> = s\<lparr>ptable := ptable (priboost_one n ?t),
        mlfqstr := (mlfqstr s)\<lparr>qlevels := qlevels (mlfqstr (priboost_one n ?t))\<rparr>\<rparr>"
      by (subst (1 3) Suc) simp
    finally show ?case by simp
  qed simp
  then show ?thesis by (simp add: priboost_def)
qed

subsection \<open>yield\<close>

text \<open>
  Fields of a process that neither the queues nor the invariant look at: the tick count and the pass.
\<close>

lemma sched_inv_ticks:
  assumes inv: "sched_inv s" and p: "p < NPROC"
  shows "sched_inv (s\<lparr>ptable := (ptable s)(p := (ptable s p)\<lparr>p_tickcount := tc\<rparr>)\<rparr>)"
    and "sched_inv (s\<lparr>ptable := (ptable s)(p := (ptable s p)\<lparr>p_pass := ps\<rparr>)\<rparr>)"
proof -
  have ok: "proc_ok p (ptable s p)" using inv p by (simp add: sched_inv_def table_ok_def)
  show "sched_inv (s\<lparr>ptable := (ptable s)(p := (ptable s p)\<lparr>p_tickcount := tc\<rparr>)\<rparr>)"
    using ok unfolding sched_inv_def
    by (simp, intro conjI table_ok_upd[OF sched_invD(1)[OF inv]] mlfq_ok_same[OF sched_invD(2)[OF inv] p]
        stride_ok_cong[OF sched_invD(3)[OF inv]])
      (auto simp: proc_ok_def alive_def in_mlfq_def active_def stride_proc_def)
  show "sched_inv (s\<lparr>ptable := (ptable s)(p := (ptable s p)\<lparr>p_pass := ps\<rparr>)\<rparr>)"
    using ok unfolding sched_inv_def
    by (simp, intro conjI table_ok_upd[OF sched_invD(1)[OF inv]] mlfq_ok_same[OF sched_invD(2)[OF inv] p]
        stride_ok_cong[OF sched_invD(3)[OF inv]])
      (auto simp: proc_ok_def alive_def in_mlfq_def active_def stride_proc_def)
qed

lemma sched_inv_mlfq:
  assumes "sched_inv s" and "mlfq_proc_cnt m = mlfq_proc_cnt (mlfqstr s)"
    and "qlevels m = qlevels (mlfqstr s)" and "stride_head m = stride_head (mlfqstr s)"
    and "stride_share m = stride_share (mlfqstr s)"
  shows "sched_inv (s\<lparr>mlfqstr := m\<rparr>)"
  using assms by (simp add: sched_inv_def mlfq_ok_def stride_ok_def stride_list_def)

text \<open>The four parts of the accounting in \<^verbatim>\<open>yield\<close>, without the locks.\<close>

definition yield_tick :: "nat \<Rightarrow> 'a proc_state_scheme \<Rightarrow> 'a proc_state_scheme" where
  "yield_tick p s = s\<lparr>ptable := (ptable s)(p := (ptable s p)\<lparr>
     p_tickcount := p_tickcount (ptable s p) + 1, p_state := RUNNABLE\<rparr>)\<rparr>"

definition yield_lowers :: "proc \<Rightarrow> bool" where
  "yield_lowers q \<longleftrightarrow> p_level q > 0 \<and> p_tickcount q \<ge> p_timeallot q"

definition yield_boost :: "'a proc_state_scheme \<Rightarrow> 'a proc_state_scheme" where
  "yield_boost s = (if ticks s - priboosttime (mlfqstr s) \<ge> 200
     then priboost (s\<lparr>mlfqstr := (mlfqstr s)\<lparr>priboosttime := ticks s\<rparr>\<rparr>) else s)"

definition yield_pass :: "nat \<Rightarrow> u32 \<Rightarrow> 'a proc_state_scheme \<Rightarrow> 'a proc_state_scheme" where
  "yield_pass p lv s =
     (if stride_head (mlfqstr s) = None then s
      else if lv = NOLEVEL then s\<lparr>ptable := (ptable s)(p := (ptable s p)\<lparr>
        p_pass := p_pass (ptable s p) + p_stride (ptable s p)\<rparr>)\<rparr>
      else s\<lparr>mlfqstr := (mlfqstr s)\<lparr>mlfq_pass := mlfq_pass (mlfqstr s) + mlfq_stride (mlfqstr s)\<rparr>\<rparr>)"

definition yield_done :: "nat \<Rightarrow> 'a proc_state_scheme \<Rightarrow> 'a proc_state_scheme" where
  "yield_done p s = yield_pass p (p_level (ptable s p)) (yield_boost
     (if yield_lowers (ptable s p) then lowerlevel p (yield_tick p s) else yield_tick p s))"

lemma lowerlevel_frame: "held (lowerlevel p s) = held s" "ticks (lowerlevel p s) = ticks s"
  "curproc (lowerlevel p s) = curproc s" "nextpid (lowerlevel p s) = nextpid s"
  by (simp_all add: lowerlevel_def Let_def state_defs)

lemma priboost_one_held: "priboost_one p (s\<lparr>held := h\<rparr>) = (priboost_one p s)\<lparr>held := h\<rparr>"
  by (simp add: priboost_one_def Let_def state_defs)

lemma priboost_held [frame_simps]: "priboost (s\<lparr>held := h\<rparr>) = (priboost s)\<lparr>held := h\<rparr>"
proof -
  have "fold priboost_one ps (s\<lparr>held := h\<rparr>) = (fold priboost_one ps s)\<lparr>held := h\<rparr>" for ps
    by (induction ps arbitrary: s) (simp_all add: priboost_one_held)
  then show ?thesis by (simp add: priboost_def)
qed

lemma priboost_keeps [frame_simps]:
  "held (priboost s) = held s" "ticks (priboost s) = ticks s" "curproc (priboost s) = curproc s"
  "nextpid (priboost s) = nextpid s" "stride_head (mlfqstr (priboost s)) = stride_head (mlfqstr s)"
  by (subst priboost_frame, simp)+

lemma yield_boost_held [frame_simps]: "yield_boost (s\<lparr>held := h\<rparr>) = (yield_boost s)\<lparr>held := h\<rparr>"
proof -
  have c: "s\<lparr>held := h, mlfqstr := m\<rparr> = s\<lparr>mlfqstr := m, held := h\<rparr>" for m by simp
  show ?thesis unfolding yield_boost_def by (simp add: c priboost_held)
qed

lemma yield_boost_keeps [frame_simps]:
  "held (yield_boost s) = held s" "ticks (yield_boost s) = ticks s" "curproc (yield_boost s) = curproc s"
  "nextpid (yield_boost s) = nextpid s" "stride_head (mlfqstr (yield_boost s)) = stride_head (mlfqstr s)"
  by (simp_all add: yield_boost_def frame_simps)

lemma yield_pass_held [frame_simps]: "yield_pass p lv (s\<lparr>held := h\<rparr>) = (yield_pass p lv s)\<lparr>held := h\<rparr>"
  by (simp add: yield_pass_def)

lemma yield_pass_keeps [frame_simps]:
  "held (yield_pass p lv s) = held s" "ticks (yield_pass p lv s) = ticks s"
  "curproc (yield_pass p lv s) = curproc s" "nextpid (yield_pass p lv s) = nextpid s"
  by (simp_all add: yield_pass_def)

lemma yield_boost_form:
  "(if ticks s - priboosttime (mlfqstr s) \<ge> 200
    then priboost (upd_mlfq (\<lambda>m. m\<lparr>priboosttime := ticks s\<rparr>) s) else s) = yield_boost s"
  by (simp add: yield_boost_def upd_mlfq_def)

lemma yield_pass_form:
  "(if stride_head (mlfqstr s) \<noteq> None then
      if lv = NOLEVEL then upd_proc p (\<lambda>q. q\<lparr>p_pass := p_pass q + p_stride q\<rparr>) s
      else upd_mlfq (\<lambda>m. m\<lparr>mlfq_pass := mlfq_pass m + mlfq_stride m\<rparr>) s
    else s) = yield_pass p lv s"
  by (simp add: yield_pass_def state_defs)

lemma yield_account_eq:
  assumes "TicksLock \<notin> held s" and "MlfqLock \<notin> held s"
  shows "yield_account p p s =
    Ok (p_tickcount (ptable s p), yield_lowers (ptable s p)) (yield_done p s)"
proof -
  let ?s1 = "if yield_lowers (ptable s p) then lowerlevel p (yield_tick p s) else yield_tick p s"
  have tick: "upd_proc p (\<lambda>q. q\<lparr>p_state := RUNNABLE\<rparr>)
      (upd_proc p (\<lambda>q. q\<lparr>p_tickcount := p_tickcount (ptable s p) + 1\<rparr>) s) = yield_tick p s"
    by (simp add: state_defs yield_tick_def)
  have held: "held ?s1 = held s" by (simp add: lowerlevel_frame yield_tick_def)
  have "yield_account p p s =
    bnd (acquire TicksLock ?s1) (\<lambda>_ s'. bnd (acquire MlfqLock s') (\<lambda>_ s'.
    bnd (release TicksLock (yield_boost s')) (\<lambda>_ s'.
    bnd (release MlfqLock (yield_pass p (p_level (ptable s p)) s')) (\<lambda>_ s'.
    Ok (p_tickcount (ptable s p), yield_lowers (ptable s p)) s'))))"
    unfolding yield_account_def Let_def yield_boost_form yield_pass_form tick
    by (simp add: yield_lowers_def upd_proc_def)
  also have "\<dots> = Ok (p_tickcount (ptable s p), yield_lowers (ptable s p)) (yield_done p s)"
    using assms held by (auto simp: lock_simps frame_simps yield_done_def insert_Diff_if)
  finally show ?thesis .
qed

lemma yield_tick_inv:
  assumes inv: "sched_inv s" and p: "p < NPROC" "active (ptable s p)"
  shows "sched_inv (yield_tick p s)"
proof -
  let ?t = "s\<lparr>ptable := (ptable s)(p := (ptable s p)\<lparr>p_tickcount := p_tickcount (ptable s p) + 1\<rparr>)\<rparr>"
  have "sched_inv (?t\<lparr>ptable := (ptable ?t)(p := (ptable ?t p)\<lparr>p_state := RUNNABLE,
      p_chan := p_chan (ptable ?t p), p_killed := p_killed (ptable ?t p)\<rparr>), mlfqstr := mlfqstr ?t\<rparr>)"
    using p by (intro sched_inv_state[OF sched_inv_ticks(1)[OF inv p(1)] p(1), where st = RUNNABLE
          and ch = "p_chan (ptable ?t p)" and k = "p_killed (ptable ?t p)"])
      (auto simp: active_def alive_def)
  then show ?thesis by (simp add: yield_tick_def)
qed

lemma yield_tick_proc:
  "p_state (ptable (yield_tick p s) p) = RUNNABLE" "held (yield_tick p s) = held s"
  "p_thread_count (ptable (yield_tick p s) q) = p_thread_count (ptable s q)"
  "curproc (yield_tick p s) = curproc s" "nextpid (yield_tick p s) = nextpid s"
  by (simp_all add: yield_tick_def)

lemma yield_boost_inv: "sched_inv s \<Longrightarrow> sched_inv (yield_boost s)"
  by (auto simp: yield_boost_def intro!: priboost_inv sched_inv_mlfq)

lemma yield_pass_inv: "sched_inv s \<Longrightarrow> p < NPROC \<Longrightarrow> sched_inv (yield_pass p lv s)"
  by (auto simp: yield_pass_def intro!: sched_inv_ticks sched_inv_mlfq)

lemma yield_done_inv:
  assumes "sched_inv s" and "p < NPROC" and "active (ptable s p)"
  shows "sched_inv (yield_done p s)"
  unfolding yield_done_def
  using assms
  by (auto intro!: yield_pass_inv yield_boost_inv lowerlevel_inv yield_tick_inv
      simp: active_def yield_tick_proc)

lemma lowerlevel_proc:
  "p_state (ptable (lowerlevel p s) r) = p_state (ptable s r)"
  "p_thread_count (ptable (lowerlevel p s) r) = p_thread_count (ptable s r)"
  by (simp_all add: lowerlevel_def Let_def state_defs)

lemma boost_proc_keeps [simp]:
  "p_state (boost_proc q) = p_state q" "p_thread_count (boost_proc q) = p_thread_count q"
  by (simp_all add: boost_proc_def)

lemma yield_boost_proc:
  "p_state (ptable (yield_boost s) r) = p_state (ptable s r)"
  "p_thread_count (ptable (yield_boost s) r) = p_thread_count (ptable s r)"
  by (simp_all add: yield_boost_def priboost_ptable)

lemma yield_pass_proc:
  "p_state (ptable (yield_pass p lv s) r) = p_state (ptable s r)"
  "p_thread_count (ptable (yield_pass p lv s) r) = p_thread_count (ptable s r)"
  by (simp_all add: yield_pass_def)

lemma yield_done_proc:
  "p_state (ptable (yield_done p s) p) = RUNNABLE"
  "p_thread_count (ptable (yield_done p s) r) = p_thread_count (ptable s r)"
  "held (yield_done p s) = held s" "curproc (yield_done p s) = curproc s"
  "nextpid (yield_done p s) = nextpid s"
  by (simp_all add: yield_done_def frame_simps lowerlevel_frame yield_tick_proc lowerlevel_proc
      yield_boost_proc yield_pass_proc)

lemma yield_done_held:
  "yield_done p (s\<lparr>held := h\<rparr>) = (yield_done p s)\<lparr>held := h\<rparr>"
proof -
  have "lowerlevel p (t\<lparr>held := h\<rparr>) = (lowerlevel p t)\<lparr>held := h\<rparr>" for t :: "'a proc_state_scheme"
    by (simp add: lowerlevel_def Let_def state_defs)
  moreover have "yield_tick p (s\<lparr>held := h\<rparr>) = (yield_tick p s)\<lparr>held := h\<rparr>"
    by (simp add: yield_tick_def)
  ultimately show ?thesis by (simp add: yield_done_def frame_simps)
qed

lemma yield_eq:
  assumes inv: "sched_inv s" and cur: "cur_ok s" "curproc s = Some p" and free: "held s = {}"
  shows "yield s =
    (if yield_lowers (ptable s p) \<or>
        p_tickcount (ptable s p) mod p_timequant (ptable (yield_done p s) p) = 0
     then Swtch ((yield_done p s)\<lparr>held := {PtableLock}\<rparr>) else Ok 0 (yield_done p s))"
proof -
  have p: "p < NPROC" "active (ptable s p)" using cur by (auto simp: cur_ok_def)
  note ok = table_ok_proc[OF sched_invD(1)[OF inv] p(1)]
  then have g: "p_lwpgroup (ptable s p) = Some p" and tc: "p_thread_count (ptable s p) = 1"
    using active_alive[OF p(2)] by (auto simp: proc_ok_def)
  have "proc_ok p (ptable (yield_done p s) p)"
    using table_ok_proc[OF sched_invD(1)[OF yield_done_inv[OF inv p]] p(1)] .
  then have tq: "p_timequant (ptable (yield_done p s) p) \<noteq> 0"
    by (simp add: proc_ok_def alive_def yield_done_proc)
  show ?thesis
    using cur free g tc tq
    by (auto simp: yield_def with_myproc_def myproc_def lock_simps yield_account_eq yield_done_proc
        yield_done_held sched_def)
qed

lemma yield_inv:
  assumes "sched_inv s" and "cur_ok s" and "curproc s = Some p" and "held s = {}"
  shows "(\<exists>s'. yield s = Swtch s' \<and> sched_inv s' \<and> cur_ok s' \<and> held s' = {PtableLock}) \<or>
    (\<exists>s'. yield s = Ok 0 s' \<and> sched_inv s' \<and> cur_ok s' \<and> held s' = {})"
proof -
  have p: "p < NPROC" "active (ptable s p)" using assms by (auto simp: cur_ok_def)
  have inv: "sched_inv (yield_done p s)" by (rule yield_done_inv[OF assms(1) p])
  then have "sched_inv ((yield_done p s)\<lparr>held := {PtableLock}\<rparr>)" by (rule sched_inv_frame) simp_all
  with inv p assms show ?thesis
    unfolding yield_eq[OF assms] by (auto simp: cur_ok_def active_def yield_done_proc)
qed

end
