(* ===== verification/Xv6_Pipe_Props.thy ===== *)
theory Xv6_Pipe_Props
  imports Xv6_Ring Xv6_File Xv6_Sched_Inv Xv6_Example
begin

section \<open>Pipes deliver what was written\<close>

text \<open>
  A pipe refines a bounded queue of bytes (\<open>pipe_list\<close>). A call of \<^verbatim>\<open>pipewrite\<close> or \<^verbatim>\<open>piperead\<close> runs in pieces: from
  the entry or from the return of \<^verbatim>\<open>sleep\<close> to the next \<^verbatim>\<open>sleep\<close> or to the end. \<open>pipe_step\<close> takes one piece of any
  process as a step; along every sequence of steps the bytes received followed by those still in the pipe are the bytes
  sent, in their order.
\<close>

interpretation pipe_ring: ring PIPESIZE
  by unfold_locales (simp_all add: PIPESIZE_def)

definition pipe_ok :: "pipe \<Rightarrow> bool" where
  "pipe_ok q \<longleftrightarrow> unat (pi_nwrite q - pi_nread q) \<le> PIPESIZE"

definition pipe_list :: "pipe \<Rightarrow> u8 list" where
  "pipe_list q = ring_list PIPESIZE (pi_data q) (pi_nread q) (pi_nwrite q)"

subsection \<open>Queue operations\<close>

lemma pipe_full_iff: "pipe_full q \<longleftrightarrow> length (pipe_list q) = PIPESIZE"
proof -
  have "pipe_full q \<longleftrightarrow> pi_nwrite q - pi_nread q = of_nat PIPESIZE" by (auto simp: pipe_full_def algebra_simps)
  also have "\<dots> \<longleftrightarrow> unat (pi_nwrite q - pi_nread q) = PIPESIZE"
    by (auto simp: PIPESIZE_def intro: unsigned_word_eqI)
  finally show ?thesis by (simp add: pipe_list_def)
qed

lemma pipe_put_list:
  assumes "pipe_ok q" and "\<not> pipe_full q"
  shows "pipe_list (pipe_put c q) = pipe_list q @ [c]" and "pipe_ok (pipe_put c q)"
proof -
  have u: "unat (pi_nwrite q - pi_nread q) < PIPESIZE" using assms by (simp add: pipe_full_iff pipe_ok_def pipe_list_def)
  show l: "pipe_list (pipe_put c q) = pipe_list q @ [c]"
    using pipe_ring.ring_put[OF u] by (simp add: pipe_list_def pipe_put_def)
  show "pipe_ok (pipe_put c q)" using arg_cong[OF l, of length] u by (simp add: pipe_ok_def pipe_list_def)
qed

lemma pipe_drop_list:
  assumes "pipe_ok q" and "pi_nread q \<noteq> pi_nwrite q"
  shows "pipe_list q = pipe_peek q # pipe_list (pipe_drop q)" and "pipe_ok (pipe_drop q)"
proof -
  show l: "pipe_list q = pipe_peek q # pipe_list (pipe_drop q)"
    using pipe_ring.ring_get[OF assms(2)] by (simp add: pipe_list_def pipe_peek_def pipe_drop_def)
  show "pipe_ok (pipe_drop q)" using arg_cong[OF l, of length] assms(1) by (simp add: pipe_ok_def pipe_list_def)
qed

subsection \<open>Pieces of pipewrite\<close>

lemma vtrans_pipes [simp]: "vtrans (upd_pipe pp f s) a = vtrans s a"
  by (simp add: vtrans_def upd_pipe_def)

lemma vload_pipes [simp]: "vload (upd_pipe pp f s) a m = vload s a m"
  by (induction m arbitrary: a) (simp_all add: upd_pipe_def[of pp f s, THEN arg_cong, of mem] split: option.splits)

definition set_pipe :: "nat \<Rightarrow> pipe \<Rightarrow> 'a file_state_scheme \<Rightarrow> 'a file_state_scheme" where
  "set_pipe pp q s = upd_pipe pp (\<lambda>_. q) s"

lemma set_pipe_simps [simp]:
  "pipes (set_pipe pp q s) = (pipes s)(pp := q)" "held (set_pipe pp q s) = held s" "curproc (set_pipe pp q s) = curproc s"
  "ptable (set_pipe pp q s) = ptable s" "mem (set_pipe pp q s) = mem s" "mlfqstr (set_pipe pp q s) = mlfqstr s"
  "set_pipe pp q' (set_pipe pp q s) = set_pipe pp q' s" "set_pipe pp (pipes s pp) s = s"
  by (simp_all add: set_pipe_def upd_pipe_def)

lemma vtrans_set_pipe [simp]: "vtrans (set_pipe pp q s) a = vtrans s a"
  by (simp add: set_pipe_def)

lemma set_pipe_mem: "(set_pipe pp q s)\<lparr>mem := f\<rparr> = set_pipe pp q (s\<lparr>mem := f\<rparr>)"
  by (simp add: set_pipe_def upd_pipe_def)

lemma upd_set_pipe: "upd_pipe pp f s = set_pipe pp (f (pipes s pp)) s"
  by (simp add: set_pipe_def upd_pipe_def)

text \<open>The loop puts bytes into the pipe until it is full or nothing is left.\<close>

lemma pipewrite_fill:
  assumes "pipe_ok (pipes s pp)" and "vload s (addr + i) k = Some bs"
  shows "\<exists>m q. m \<le> k \<and> pipewrite_loop pp addr i k s = pipewrite_loop pp addr (i + m) (k - m) (set_pipe pp q s) \<and>
    pipe_ok q \<and> pipe_list q = pipe_list (pipes s pp) @ take m bs \<and> pi_nwrite q = pi_nwrite (pipes s pp) + of_nat m \<and>
    pi_readopen q = pi_readopen (pipes s pp) \<and> (m < k \<longrightarrow> pipe_full q)"
  using assms
proof (induction k arbitrary: s i bs)
  case 0
  then show ?case by (intro exI[of _ 0] exI[of _ "pipes s pp"]) simp
next
  case (Suc k)
  let ?q = "pipes s pp"
  show ?case
  proof (cases "pipe_full ?q")
    case True
    then show ?thesis using Suc.prems(1) by (intro exI[of _ 0] exI[of _ ?q]) simp
  next
    case False
    obtain x cs where x: "vtrans s (addr + i) = Some x" "vload s (addr + i + 1) k = Some cs" "bs = mem s x # cs"
      using Suc.prems(2) by (auto split: option.splits)
    let ?t = "upd_pipe pp (pipe_put (mem s x)) s"
    have t: "pipes ?t pp = pipe_put (mem s x) ?q" by (simp add: upd_pipe_def)
    have "vload ?t (addr + (i + 1)) k = Some cs" using x(2) by simp
    then obtain m q where m: "m \<le> k" "pipewrite_loop pp addr (i + 1) k ?t = pipewrite_loop pp addr (i + 1 + m) (k - m) (set_pipe pp q ?t)"
        "pipe_ok q" "pipe_list q = pipe_list (pipes ?t pp) @ take m cs" "pi_nwrite q = pi_nwrite (pipes ?t pp) + of_nat m"
        "pi_readopen q = pi_readopen (pipes ?t pp)" "m < k \<longrightarrow> pipe_full q"
      using Suc.IH[of ?t "i + 1" cs] pipe_put_list(2)[OF Suc.prems(1) False] t by auto
    have "pipewrite_loop pp addr i (Suc k) s = pipewrite_loop pp addr (i + Suc m) (Suc k - Suc m) (set_pipe pp q s)"
      using False x(1) m(2) by (simp add: upd_set_pipe)
    moreover have "pipe_list q = pipe_list ?q @ take (Suc m) bs"
      using m(4) x(3) pipe_put_list(1)[OF Suc.prems(1) False] unfolding t by simp
    moreover have "pi_nwrite q = pi_nwrite ?q + of_nat (Suc m)" "pi_readopen q = pi_readopen ?q"
      using m(5,6) unfolding t by (simp_all add: pipe_put_def)
    ultimately show ?thesis using m(1,3,7) by (intro exI[of _ "Suc m"] exI[of _ q]) auto
  qed
qed

lemma pipewrite_piece:
  assumes "pipe_ok (pipes s pp)" and "vload s (addr + i) k = Some bs" and h: "held s = {PipeLock pp}" and c: "curproc s = Some p"
  shows "\<exists>m t. m \<le> k \<and> pipe_ok (pipes t pp) \<and> pipe_list (pipes t pp) = pipe_list (pipes s pp) @ take m bs \<and>
    pi_nwrite (pipes t pp) = pi_nwrite (pipes s pp) + of_nat m \<and>
    (m = k \<and> pipewrite_loop pp addr i k s = Ok (int (i + k)) t \<or>
     pipe_full (pipes t pp) \<and> (pipewrite_loop pp addr i k s = Ok (-1) t \<or> pipewrite_loop pp addr i k s = Swtch t))"
proof -
  obtain m q where m: "m \<le> k" "pipewrite_loop pp addr i k s = pipewrite_loop pp addr (i + m) (k - m) (set_pipe pp q s)"
      "pipe_ok q" "pipe_list q = pipe_list (pipes s pp) @ take m bs" "pi_nwrite q = pi_nwrite (pipes s pp) + of_nat m"
      "m < k \<longrightarrow> pipe_full q"
    using pipewrite_fill[OF assms(1,2)] by blast
  let ?s = "set_pipe pp q s"
  show ?thesis
  proof (cases "m = k")
    case True
    then show ?thesis using m h
      by (intro exI[of _ m] exI[of _ "?s\<lparr>held := {}, ptable := wake_upto NPROC (ChanPipeR pp) (ptable s),
          mlfqstr := wake_mlfq NPROC (ChanPipeR pp) (ptable s) (mlfqstr s)\<rparr>"])
        (simp add: lock_simps)
  next
    case False
    then obtain j where j: "k - m = Suc j" using m(1) by (cases "k - m") auto
    have f: "pipe_full q" using False m(1,6) by simp
    show ?thesis
    proof (cases "\<not> pi_readopen q \<or> p_killed (ptable s p)")
      case True
      then have "pipewrite_loop pp addr i k s = Ok (-1) (?s\<lparr>held := {}\<rparr>)"
        unfolding m(2) j using f h c by (simp add: with_myproc_def myproc_def lock_simps)
      then show ?thesis using m f by (intro exI[of _ m] exI[of _ "?s\<lparr>held := {}\<rparr>"]) simp
    next
      case nk: False
      let ?w = "?s\<lparr>ptable := wake_upto NPROC (ChanPipeR pp) (ptable s),
          mlfqstr := wake_mlfq NPROC (ChanPipeR pp) (ptable s) (mlfqstr s)\<rparr>"
      have "pipewrite_loop pp addr i k s = sleep (ChanPipeW pp) (PipeLock pp) ?w"
        unfolding m(2) j using f h c nk by (simp add: with_myproc_def myproc_def lock_simps)
      moreover have "\<exists>u. sleep (ChanPipeW pp) (PipeLock pp) ?w = (Swtch u :: (_, int) res) \<and> pipes u = pipes ?w"
        by (intro exI conjI, rule sleep_eq[of _ p]) (use h c in simp_all)
      ultimately show ?thesis using m f by auto
    qed
  qed
qed

subsection \<open>Pieces of piperead\<close>

lemma vstore_pipes: "vstore a d k m (set_pipe pp q s) = bnd (vstore a d k m s) (\<lambda>_ t. Ok () (set_pipe pp q t))"
proof (induction m arbitrary: a k s)
  case (Suc m)
  then show ?case by (simp add: set_pipe_mem split: option.splits)
qed simp

definition advance :: "nat \<Rightarrow> pipe \<Rightarrow> pipe" where
  "advance m q = q\<lparr>pi_nread := pi_nread q + of_nat m\<rparr>"

lemma advance_list:
  "pipe_ok q \<Longrightarrow> m \<le> length (pipe_list q) \<Longrightarrow> pipe_list (advance m q) = drop m (pipe_list q) \<and> pipe_ok (advance m q)"
proof (induction m arbitrary: q)
  case (Suc m)
  then have "pi_nread q \<noteq> pi_nwrite q" by (auto simp: pipe_list_def)
  note d = pipe_drop_list[OF Suc.prems(1) this]
  have "advance (Suc m) q = advance m (pipe_drop q)" by (simp add: advance_def pipe_drop_def algebra_simps)
  then show ?case using Suc.IH[OF d(2)] Suc.prems(2) arg_cong[OF d(1), of length] by (simp add: d(1))
qed (simp add: advance_def)

lemma piperead_copy_eq:
  fixes s :: "'a file_state_scheme"
  assumes "pipe_ok (pipes s pp)" and "xs = pipe_list (pipes s pp)" and "n = length (take k xs)"
  shows "piperead_copy pp addr i k s =
    bnd (vstore (addr + i) (of_list xs) 0 n s) (\<lambda>_ t. Ok (i + n) (upd_pipe pp (advance n) t))"
  using assms
proof (induction k arbitrary: s i xs n)
  case 0
  then show ?case by (simp add: advance_def upd_pipe_def)
next
  case (Suc k)
  let ?q = "pipes s pp"
  show ?case
  proof (cases "pi_nread ?q = pi_nwrite ?q")
    case True
    then have "pipe_list ?q = []" by (simp add: pipe_list_def)
    then show ?thesis using True Suc.prems by (simp add: advance_def upd_pipe_def)
  next
    case False
    let ?s = "upd_pipe pp pipe_drop s"
    obtain ys where x: "xs = pipe_peek ?q # ys" "ys = pipe_list (pipe_drop ?q)" "pipe_ok (pipe_drop ?q)"
      using pipe_drop_list[OF Suc.prems(1) False] Suc.prems(2) by simp
    define m where "m = length (take k ys)"
    have n: "n = Suc m" using Suc.prems(3) by (simp add: x(1) m_def)
    have IH: "piperead_copy pp addr (i + 1) k t =
        bnd (vstore (addr + (i + 1)) (of_list ys) 0 m t) (\<lambda>_ t. Ok (i + 1 + m) (upd_pipe pp (advance m) t))"
      if "pipes t pp = pipe_drop ?q" for t :: "'a file_state_scheme"
      using Suc.IH[of t ys m "i + 1"] x(2,3) m_def unfolding that by blast
    have vs: "vstore (addr + (i + 1)) (of_list ys) 0 m t = vstore (addr + i + 1) (of_list xs) 1 m t" for t :: "'a file_state_scheme"
      unfolding add.assoc[symmetric] by (rule vstore_cong) (simp add: x(1) of_list_def)
    have ad: "upd_pipe pp (advance m) (set_pipe pp (pipe_drop ?q) t) = upd_pipe pp (advance (Suc m)) t"
      if "pipes t pp = ?q" for t :: "'a file_state_scheme"
      using that by (simp add: upd_pipe_def set_pipe_def advance_def pipe_drop_def algebra_simps)
    show ?thesis
    proof (cases "vtrans s (addr + i)")
      case (Some a)
      let ?t = "s\<lparr>mem := (mem s)(a := pipe_peek ?q)\<rparr>"
      have "piperead_copy pp addr i (Suc k) s = piperead_copy pp addr (i + 1) k (set_pipe pp (pipe_drop ?q) ?t)"
        using False Some by (simp add: Let_def upd_set_pipe set_pipe_mem)
      also have "\<dots> = bnd (vstore (addr + i + 1) (of_list xs) 1 m ?t) (\<lambda>_ t.
          Ok (i + 1 + m) (upd_pipe pp (advance m) (set_pipe pp (pipe_drop ?q) t)))"
        using IH[of "set_pipe pp (pipe_drop ?q) ?t"] unfolding vs vstore_pipes by (simp add: bnd_assoc)
      also have "\<dots> = bnd (vstore (addr + i + 1) (of_list xs) 1 m ?t) (\<lambda>_ t. Ok (i + n) (upd_pipe pp (advance n) t))"
      proof (cases "vstore (addr + i + 1) (of_list xs) 1 m ?t")
        case (Ok u t)
        then have "pipes t pp = ?q" using vstore_frame[of "addr + i + 1" "of_list xs" 1 m ?t t] by auto
        then show ?thesis unfolding Ok using ad[of t] n by simp
      qed simp_all
      finally have "piperead_copy pp addr i (Suc k) s =
        bnd (vstore (addr + i + 1) (of_list xs) 1 m ?t) (\<lambda>_ t. Ok (i + n) (upd_pipe pp (advance n) t))" .
      moreover have "of_list xs 0 = pipe_peek ?q" by (simp add: x(1) of_list_def)
      ultimately show ?thesis using Some by (simp add: n del: piperead_copy.simps)
    qed (use False in \<open>simp add: n\<close>)
  qed
qed

lemma piperead_piece:
  assumes ok: "pipe_ok (pipes s pp)" and b: "buf_ok s addr (nat n)" and h: "held s = {PipeLock pp}" and c: "curproc s = Some p"
  shows "\<exists>r cs t. pipe_ok (pipes t pp) \<and> pipe_list (pipes s pp) = cs @ pipe_list (pipes t pp) \<and>
    cs = take (nat n) (pipe_list (pipes s pp)) \<and>
    pi_nwrite (pipes t pp) = pi_nwrite (pipes s pp) \<and>
    (piperead_loop pp addr n s = Ok r t \<and> vload t addr (nat r) = Some cs \<or>
     piperead_loop pp addr n s = Swtch t \<and> pipe_list (pipes s pp) = [] \<and> pi_writeopen (pipes s pp))"
proof -
  let ?q = "pipes s pp"
  let ?xs = "pipe_list ?q"
  show ?thesis
  proof (cases "pi_nread ?q = pi_nwrite ?q \<and> pi_writeopen ?q")
    case True
    then have e: "?xs = []" by (simp add: pipe_list_def)
    show ?thesis
    proof (cases "p_killed (ptable s p)")
      case True': True
      then have "piperead_loop pp addr n s = Ok (-1) (s\<lparr>held := {}\<rparr>)"
        using True h c by (simp add: piperead_loop_def with_myproc_def myproc_def lock_simps)
      then show ?thesis using ok e by (intro exI[of _ "-1"] exI[of _ "[]"] exI[of _ "s\<lparr>held := {}\<rparr>"]) simp
    next
      case False
      then have "piperead_loop pp addr n s = sleep (ChanPipeR pp) (PipeLock pp) s"
        using True h c by (simp add: piperead_loop_def with_myproc_def myproc_def)
      moreover have "\<exists>u. sleep (ChanPipeR pp) (PipeLock pp) s = (Swtch u :: (_, int) res) \<and> pipes u = pipes s"
        by (intro exI conjI, rule sleep_eq[of _ p]) (use h c in simp_all)
      ultimately show ?thesis using ok True e by auto
    qed
  next
    case False
    define m where "m = length (take (nat n) ?xs)"
    have m: "m \<le> nat n" "m = length (take m ?xs)" "m \<le> length ?xs" by (simp_all add: m_def)
    obtain f where f: "vstore addr (of_list (take m ?xs)) 0 m s = Ok () (s\<lparr>mem := f\<rparr>)"
        "vload (s\<lparr>mem := f\<rparr>) addr m = Some (take m ?xs)"
      using vstore_vload[OF b m(1,2)] by blast
    have "vstore addr (of_list ?xs) 0 m s = Ok () (s\<lparr>mem := f\<rparr>)"
      unfolding f(1)[symmetric] by (rule vstore_cong) (simp add: of_list_def m_def)
    then have cp: "piperead_copy pp addr 0 (nat n) s = Ok m (upd_pipe pp (advance m) (s\<lparr>mem := f\<rparr>))"
      using piperead_copy_eq[OF ok refl m_def, of addr 0] by simp
    let ?t = "(upd_pipe pp (advance m) (s\<lparr>mem := f\<rparr>))\<lparr>ptable := wake_upto NPROC (ChanPipeW pp) (ptable s),
      mlfqstr := wake_mlfq NPROC (ChanPipeW pp) (ptable s) (mlfqstr s), held := {}\<rparr>"
    have "piperead_loop pp addr n s = Ok (int m) ?t"
      using False h unfolding piperead_loop_def cp by (auto simp: lock_simps upd_pipe_def)
    moreover have "vload ?t addr m = Some (take m ?xs)"
      unfolding f(2)[symmetric] by (rule vload_cong) (simp_all add: upd_pipe_def)
    moreover have "pipes ?t pp = advance m ?q" by (simp add: upd_pipe_def)
    ultimately show ?thesis using advance_list[OF ok m(3)]
      by (intro exI[of _ "int m"] exI[of _ "take m ?xs"] exI[of _ ?t]) (simp add: advance_def m_def min_def)
  qed
qed

subsection \<open>Sequences of pieces\<close>

fun left :: "('s, 'a) res \<Rightarrow> 's option" where
  "left (Ok x s) = Some s"
| "left (Swtch s) = Some s"
| "left (Fail f) = None"

text \<open>
  \<open>pipe_step pp s sent rcvd t\<close>: a piece of a \<^verbatim>\<open>pipewrite\<close> takes the bytes \<open>sent\<close> from the writer's memory, a piece of a
  \<^verbatim>\<open>piperead\<close> leaves the bytes \<open>rcvd\<close> in the reader's memory; anything else does not touch the pipe.
\<close>

inductive pipe_step :: "nat \<Rightarrow> 'a file_state_scheme \<Rightarrow> u8 list \<Rightarrow> u8 list \<Rightarrow> 'a file_state_scheme \<Rightarrow> bool" for pp where
  ps_write: "held s = {PipeLock pp} \<Longrightarrow> curproc s = Some p \<Longrightarrow> vload s (addr + i) k = Some bs \<Longrightarrow> k < 2 ^ 32 \<Longrightarrow>
    left (pipewrite_loop pp addr i k s) = Some t \<Longrightarrow>
    pipe_step pp s (take (unat (pi_nwrite (pipes t pp) - pi_nwrite (pipes s pp))) bs) [] t"
| ps_read: "held s = {PipeLock pp} \<Longrightarrow> curproc s = Some p \<Longrightarrow> buf_ok s addr (nat n) \<Longrightarrow>
    piperead_loop pp addr n s = Ok r t \<Longrightarrow> vload t addr (nat r) = Some cs \<Longrightarrow> pipe_step pp s [] cs t"
| ps_wait: "held s = {PipeLock pp} \<Longrightarrow> curproc s = Some p \<Longrightarrow> buf_ok s addr (nat n) \<Longrightarrow>
    piperead_loop pp addr n s = Swtch t \<Longrightarrow> pipe_step pp s [] [] t"
| ps_other: "pipes t pp = pipes s pp \<Longrightarrow> pipe_step pp s [] [] t"

inductive pipe_run :: "nat \<Rightarrow> 'a file_state_scheme \<Rightarrow> u8 list \<Rightarrow> u8 list \<Rightarrow> 'a file_state_scheme \<Rightarrow> bool" for pp where
  pr_start: "pipe_run pp s [] [] s"
| pr_step: "pipe_run pp s sent rcvd t \<Longrightarrow> pipe_step pp t bs cs u \<Longrightarrow> pipe_run pp s (sent @ bs) (rcvd @ cs) u"

lemma pipe_step_fifo:
  assumes "pipe_step pp s sent rcvd t" and "pipe_ok (pipes s pp)"
  shows "pipe_list (pipes s pp) @ sent = rcvd @ pipe_list (pipes t pp) \<and> pipe_ok (pipes t pp)"
  using assms
proof cases
  case (ps_write p addr i k bs)
  obtain m u where u: "m \<le> k" "pipe_ok (pipes u pp)" "pipe_list (pipes u pp) = pipe_list (pipes s pp) @ take m bs"
      "pi_nwrite (pipes u pp) = pi_nwrite (pipes s pp) + of_nat m" "left (pipewrite_loop pp addr i k s) = Some u"
    using pipewrite_piece[OF assms(2) ps_write(5,3,4)] by fastforce
  moreover have "u = t" using u(5) ps_write(7) by simp
  moreover have "unat (of_nat m :: u32) = m" using \<open>m \<le> k\<close> ps_write(6) by (simp add: unat_of_nat take_bit_nat_eq_self)
  ultimately show ?thesis using ps_write(1,2) by simp
next
  case (ps_read p addr n r)
  obtain r' cs u where "pipe_ok (pipes u pp)" "pipe_list (pipes s pp) = cs @ pipe_list (pipes u pp)"
      "piperead_loop pp addr n s = Ok r' u \<and> vload u addr (nat r') = Some cs \<or> piperead_loop pp addr n s = Swtch u"
    using piperead_piece[OF assms(2) ps_read(4,2,3)] by blast
  then show ?thesis using ps_read(1,5,6) by auto
next
  case (ps_wait p addr n)
  obtain r' cs u where "pipe_ok (pipes u pp)" "pipe_list (pipes s pp) = cs @ pipe_list (pipes u pp)"
      "piperead_loop pp addr n s = Ok r' u \<or> piperead_loop pp addr n s = Swtch u \<and> pipe_list (pipes s pp) = []"
    using piperead_piece[OF assms(2) ps_wait(5,3,4)] by blast
  then show ?thesis using ps_wait(1,2,6) by auto
qed (use assms(2) in simp)

lemma pipe_run_fifo:
  assumes "pipe_run pp s sent rcvd t" and "pipe_ok (pipes s pp)"
  shows "pipe_list (pipes s pp) @ sent = rcvd @ pipe_list (pipes t pp) \<and> pipe_ok (pipes t pp)"
  using assms
proof induction
  case (pr_step s sent rcvd t bs cs u)
  then show ?case using pipe_step_fifo[OF pr_step(2)] by (metis append.assoc)
qed simp

text \<open>
  C12. Pipes are first-in first-out: whatever the order in which processes run pieces of pipewrite and piperead, sleeping
  and waking in between, and however often the 32-bit counters wrap, the bytes the pipe held at the start followed by the
  bytes sent are the bytes received followed by those in the pipe, of which there are at most 512. No piece fails: a
  writer that returns its count has sent all its bytes, and it sleeps or returns -1 only when the pipe is full; a reader
  gets the first bytes of the pipe, as many as it asked for or as there are, and sleeps only when the pipe is empty and
  still open for writing.\<close>

theorem pipe_fifo:
  assumes "pipe_run pp s sent rcvd t" and "pipe_ok (pipes s pp)"
  shows "pipe_list (pipes s pp) @ sent = rcvd @ pipe_list (pipes t pp) \<and> length (pipe_list (pipes t pp)) \<le> PIPESIZE \<and>
    (\<forall>p addr i k bs. held t = {PipeLock pp} \<longrightarrow> curproc t = Some p \<longrightarrow> vload t (addr + i) k = Some bs \<longrightarrow>
      (\<exists>u. pipewrite_loop pp addr i k t = Ok (int (i + k)) u \<and> pipe_list (pipes u pp) = pipe_list (pipes t pp) @ bs \<or>
        (pipewrite_loop pp addr i k t = Ok (-1) u \<or> pipewrite_loop pp addr i k t = Swtch u) \<and>
        length (pipe_list (pipes u pp)) = PIPESIZE)) \<and>
    (\<forall>p addr n. held t = {PipeLock pp} \<longrightarrow> curproc t = Some p \<longrightarrow> buf_ok t addr (nat n) \<longrightarrow>
      (\<exists>r u. piperead_loop pp addr n t = Ok r u \<and> vload u addr (nat r) = Some (take (nat n) (pipe_list (pipes t pp))) \<or>
        piperead_loop pp addr n t = Swtch u \<and> pipe_list (pipes t pp) = [] \<and> pi_writeopen (pipes t pp)))"
proof -
  have r: "pipe_list (pipes s pp) @ sent = rcvd @ pipe_list (pipes t pp)" "pipe_ok (pipes t pp)"
    using pipe_run_fifo[OF assms] by blast+
  have "\<exists>u. pipewrite_loop pp addr i k t = Ok (int (i + k)) u \<and> pipe_list (pipes u pp) = pipe_list (pipes t pp) @ bs \<or>
      (pipewrite_loop pp addr i k t = Ok (-1) u \<or> pipewrite_loop pp addr i k t = Swtch u) \<and>
      length (pipe_list (pipes u pp)) = PIPESIZE"
    if "held t = {PipeLock pp}" "curproc t = Some p" "vload t (addr + i) k = Some bs" for p addr i k bs
    using pipewrite_piece[OF r(2) that(3,1,2)] vload_length[OF that(3)] unfolding pipe_full_iff by (metis take_all order_refl)
  then show ?thesis using r piperead_piece[OF r(2)] by (simp add: pipe_ok_def pipe_list_def) blast
qed

definition pipe_ex :: cons_state where
  "pipe_ex = ex_state\<lparr>held := {PipeLock 0}, curproc := Some 0, mem := (mem ex_state)(KERNBASE := 7, KERNBASE + 1 := 9),
     pipes := (\<lambda>_. \<lparr>pi_data = (\<lambda>_. 0), pi_nread = - 1, pi_nwrite = - 1, pi_readopen = True, pi_writeopen = True\<rparr>)\<rparr>"

theorem pipe_fifo_witness:
  "\<exists>t. pipe_run 0 pipe_ex [7, 9] [7] t \<and> [7, 9] = [7] @ pipe_list (pipes t 0)"
proof -
  have ex: "held pipe_ex = {PipeLock 0}" "curproc pipe_ex = Some 0" "pipe_ok (pipes pipe_ex 0)" "pipe_list (pipes pipe_ex 0) = []"
      "pi_nwrite (pipes pipe_ex 0) = - 1"
    by (simp_all add: pipe_ok_def pipe_list_def pipe_ex_def)
  have v: "vload pipe_ex (KERNBASE + 0) 2 = Some [7, 9]" using vload_kernel[of KERNBASE pipe_ex 2] by (simp add: pipe_ex_def upt_rec)
  obtain m t where t: "m \<le> 2" "pipe_ok (pipes t 0)" "pipe_list (pipes t 0) = take m [7, 9]" "pi_nwrite (pipes t 0) = - 1 + of_nat m"
      "m = 2 \<and> pipewrite_loop 0 KERNBASE 0 2 pipe_ex = Ok 2 t \<or> pipe_full (pipes t 0)"
    using pipewrite_piece[OF ex(3) v ex(1,2)] unfolding ex(4,5) by auto
  have m: "m = 2" "pipewrite_loop 0 KERNBASE 0 2 pipe_ex = Ok 2 t"
    using t(3,5) by (auto simp: pipe_full_iff PIPESIZE_def min_def split: if_splits)
  have "pipe_step 0 pipe_ex (take (unat (pi_nwrite (pipes t 0) - pi_nwrite (pipes pipe_ex 0))) [7, 9]) [] t"
    by (rule ps_write[OF ex(1,2) v]) (simp_all add: m)
  then have 1: "pipe_run 0 pipe_ex ([] @ [7, 9]) ([] @ []) t"
    by (intro pr_step[OF pr_start]) (simp add: t(4) ex(5) m)
  let ?u = "t\<lparr>held := {PipeLock 0}, curproc := Some 0\<rparr>"
  have 2: "pipe_run 0 pipe_ex (([] @ [7, 9]) @ []) (([] @ []) @ []) ?u" by (rule pr_step[OF 1 ps_other]) simp
  obtain r w where w: "piperead_loop 0 KERNBASE 1 ?u = Ok r w" "vload w KERNBASE (nat r) = Some [7]"
    using piperead_piece[of ?u 0 KERNBASE 1 0] t(2,3) buf_ok_kernel[of KERNBASE ?u 1] by (auto simp: m(1))
  have 3: "pipe_run 0 pipe_ex ((([] @ [7, 9]) @ []) @ []) ((([] @ []) @ []) @ [7]) w"
    by (rule pr_step[OF 2 ps_read[OF _ _ _ w]]) (simp_all add: buf_ok_kernel)
  have "[7, 9] = [7] @ pipe_list (pipes w 0)"
    using conjunct1[OF pipe_fifo[OF 3 ex(3)]] by (simp only: ex(4) append_Nil append_Nil2)
  then show ?thesis using 3 by auto
qed

end
