(* ===== verification/Xv6_Console_Props.thy ===== *)
theory Xv6_Console_Props
  imports Xv6_Ring Xv6_Sched_Inv Xv6_Bio_Props
begin

section \<open>The console's input line\<close>

text \<open>
  The input buffer of the console refines a line editor: the bytes between \<^verbatim>\<open>input.r\<close> and \<^verbatim>\<open>input.w\<close> are the finished
  lines (\<open>inp\<close>), those between \<^verbatim>\<open>input.w\<close> and \<^verbatim>\<open>input.e\<close> the line being typed (\<open>edt\<close>). \<open>edit_key\<close> says what a key
  does to the two, \<open>take_line\<close> what a read takes from the finished lines.
\<close>

interpretation input_ring: ring INPUT_BUF
  by unfold_locales (simp_all add: INPUT_BUF_def)

definition inp :: "'a cons_state_scheme \<Rightarrow> u8 list" where
  "inp s = ring_list INPUT_BUF (in_buf s) (in_r s) (in_w s)"

definition edt :: "'a cons_state_scheme \<Rightarrow> u8 list" where
  "edt s = ring_list INPUT_BUF (in_buf s) (in_w s) (in_e s)"

definition input_ok :: "'a cons_state_scheme \<Rightarrow> bool" where
  "input_ok s \<longleftrightarrow> length (inp s) + length (edt s) \<le> INPUT_BUF \<and> 10 \<notin> set (edt s)"

definition screen_ok :: "'a cons_state_scheme \<Rightarrow> bool" where
  "screen_ok s \<longleftrightarrow> \<not> panicked s \<and> crt_pos s < 24 * 80"

definition edit_key :: "int \<Rightarrow> u8 list \<times> u8 list \<Rightarrow> u8 list \<times> u8 list" where
  "edit_key c b =
     (let (q, e) = b
      in if c = ctrl CHR ''P'' then (q, e)
         else if c = ctrl CHR ''U'' then (q, [])
         else if c = ctrl CHR ''H'' \<or> c = 127 then (q, butlast e)
         else if c = 0 \<or> length q + length e = INPUT_BUF then (q, e)
         else
           let c = (if c = 13 then 10 else c); e = e @ [word_of_int c]
           in if c = 10 \<or> c = ctrl CHR ''D'' \<or> length q + length e = INPUT_BUF then (q @ e, []) else (q, e))"

subsection \<open>Output\<close>

lemma cga_move_bound: "pos < 1920 \<Longrightarrow> cga_move c pos \<le> 1999"
  by (auto simp: cga_move_def)

lemma cgaputc_ok:
  assumes "crt_pos s < 24 * 80"
  shows "\<exists>t. cgaputc c s = Ok () t \<and> t = s\<lparr>crt := crt t, crt_pos := crt_pos t\<rparr> \<and> crt_pos t < 24 * 80"
proof -
  define pos where "pos = cga_move c (crt_pos s)"
  have b: "pos \<le> 1999" unfolding pos_def using assms by (intro cga_move_bound) simp
  show ?thesis
  proof (cases "24 \<le> pos div 80")
    case True
    moreover have "pos - 80 < 1920" using b True by linarith
    ultimately show ?thesis using b by (simp add: cgaputc_def Let_def pos_def[symmetric])
  next
    case False
    moreover have "pos < 1920" using False by linarith
    ultimately show ?thesis using b by (simp add: cgaputc_def Let_def pos_def[symmetric])
  qed
qed

text \<open>\<open>echoed s t\<close>: only the screen and the serial port changed.\<close>

definition echoed :: "'a cons_state_scheme \<Rightarrow> 'a cons_state_scheme \<Rightarrow> bool" where
  "echoed s t \<longleftrightarrow> (\<exists>v n u. t = s\<lparr>crt := v, crt_pos := n, uart_out := u\<rparr>)"

lemma echoed_simps:
  assumes "echoed s t"
  shows "in_r t = in_r s" "in_w t = in_w s" "in_e t = in_e s" "in_buf t = in_buf s" "held t = held s" "inp t = inp s" "edt t = edt s"
    "ptable t = ptable s" "mlfqstr t = mlfqstr s"
  using assms by (auto simp: echoed_def inp_def edt_def)

lemma consputc_ok:
  assumes "screen_ok s"
  shows "\<exists>t. consputc c s = Ok () t \<and> echoed s t \<and> screen_ok t"
proof -
  let ?s = "if c = BACKSPACE then uartputc 8 (uartputc 32 (uartputc 8 s)) else uartputc (word_of_int c) s"
  define o' where "o' = uart_out ?s"
  have o': "?s = s\<lparr>uart_out := o'\<rparr>" unfolding o'_def by (auto simp: uartputc_def)
  obtain t where t: "cgaputc c (s\<lparr>uart_out := o'\<rparr>) = Ok () t" "t = (s\<lparr>uart_out := o'\<rparr>)\<lparr>crt := crt t, crt_pos := crt_pos t\<rparr>"
      "crt_pos t < 24 * 80"
    using cgaputc_ok[of "s\<lparr>uart_out := o'\<rparr>" c] assms by (auto simp: screen_ok_def)
  have "echoed s t" 
    unfolding echoed_def by (intro exI[of _ "crt t"] exI[of _ "crt_pos t"] exI[of _ o'], rule trans[OF t(2)]) simp
  moreover have "panicked t = panicked s" using arg_cong[OF t(2), of panicked] by simp
  moreover have "consputc c s = Ok () t"
    using assms t(1) unfolding consputc_def Let_def o' by (simp add: screen_ok_def)
  ultimately show ?thesis using t(3) assms by (auto simp: screen_ok_def)
qed

subsection \<open>Editing\<close>

lemma unat_plus_small: "unat a + unat b < 2 ^ 32 \<Longrightarrow> unat (a + b :: u32) = unat a + unat b"
  by (simp add: unat_word_ariths)

lemma input_total:
  assumes "length (inp s) + length (edt s) \<le> INPUT_BUF"
  shows "unat (in_e s - in_r s) = length (inp s) + length (edt s)"
    and "ring_list INPUT_BUF (in_buf s) (in_r s) (in_e s) = inp s @ edt s"
proof -
  have "unat ((in_w s - in_r s) + (in_e s - in_w s)) = unat (in_w s - in_r s) + unat (in_e s - in_w s)"
    using assms by (intro unat_plus_small) (simp add: inp_def edt_def INPUT_BUF_def)
  then show u: "unat (in_e s - in_r s) = length (inp s) + length (edt s)" by (simp add: inp_def edt_def)
  show "ring_list INPUT_BUF (in_buf s) (in_r s) (in_e s) = inp s @ edt s"
    using input_ring.ring_append[of "in_e s" "in_r s" "in_w s" "in_buf s"] u by (simp add: inp_def edt_def)
qed

lemma type_key:
  assumes room: "length (inp s) + length (edt s) < INPUT_BUF"
    and t_def: "t = s\<lparr>in_buf := (in_buf s)(unat (in_e s) mod INPUT_BUF := c), in_e := in_e s + 1\<rparr>"
  shows "inp t = inp s" and "edt t = edt s @ [c]"
proof -
  note it = input_total[OF less_imp_le[OF room]]
  have e: "unat (in_e s - in_w s) < INPUT_BUF" using room by (simp add: edt_def)
  show et: "edt t = edt s @ [c]" using input_ring.ring_put[OF e] by (simp add: edt_def t_def)
  have "unat (in_e s - in_r s) < INPUT_BUF" using room it(1) by simp
  then have "ring_list INPUT_BUF (in_buf t) (in_r t) (in_e t) = inp s @ edt s @ [c]"
    using input_ring.ring_put[of "in_e s" "in_r s" "in_buf s" c] it(2) by (simp add: t_def)
  moreover have "unat (in_e t - in_r t) = unat (in_w t - in_r t) + unat (in_e t - in_w t)"
    using arg_cong[OF calculation, of length] arg_cong[OF et, of length] by (simp add: inp_def edt_def t_def)
  ultimately show "inp t = inp s"
    using input_ring.ring_append[of "in_e t" "in_r t" "in_w t" "in_buf t"] et by (simp add: inp_def edt_def)
qed

lemma commit_line:
  "length (inp s) + length (edt s) \<le> INPUT_BUF \<Longrightarrow> inp (s\<lparr>in_w := in_e s\<rparr>) = inp s @ edt s" "edt (s\<lparr>in_w := in_e s\<rparr>) = []"
  using input_total(2)[of s] by (simp_all add: inp_def edt_def)

lemma rub_out:
  assumes "in_e s \<noteq> in_w s"
  shows "inp (s\<lparr>in_e := in_e s - 1\<rparr>) = inp s" and "edt (s\<lparr>in_e := in_e s - 1\<rparr>) = butlast (edt s)"
    and "in_buf s (unat (in_e s - 1) mod INPUT_BUF) = last (edt s)"
  using input_ring.ring_unput[of "in_w s" "in_e s" "in_buf s"] assms by (simp_all add: inp_def edt_def)

lemma edt_empty: "edt s = [] \<longleftrightarrow> in_e s = in_w s"
  by (auto simp: edt_def)

text \<open>\<open>edited s t b\<close>: after some keys \<open>b\<close> is the pair of the finished lines and the line being typed.\<close>

definition edited :: "'a cons_state_scheme \<Rightarrow> 'a cons_state_scheme \<Rightarrow> u8 list \<times> u8 list \<Rightarrow> bool" where
  "edited s t b \<longleftrightarrow> (inp t, edt t) = b \<and> input_ok t \<and> screen_ok t \<and> held t = held s \<and> in_r t = in_r s"

lemma rub_key:
  assumes "input_ok s" and "screen_ok s" and "edt s \<noteq> []"
  shows "\<exists>t. consputc BACKSPACE (s\<lparr>in_e := in_e s - 1\<rparr>) = Ok () t \<and> edited s t (inp s, butlast (edt s))"
proof -
  let ?s = "s\<lparr>in_e := in_e s - 1\<rparr>"
  have n: "in_e s \<noteq> in_w s" using assms(3) by (simp add: edt_empty)
  obtain t where t: "consputc BACKSPACE ?s = Ok () t" "echoed ?s t" "screen_ok t"
    using consputc_ok[of ?s] assms(2) by (auto simp: screen_ok_def)
  have "input_ok t" using assms(1) rub_out(1,2)[OF n] in_set_butlastD
    by (fastforce simp: input_ok_def echoed_simps[OF t(2)])
  then show ?thesis using t rub_out(1,2)[OF n] echoed_simps[OF t(2)] by (simp add: edited_def)
qed

lemma kill_line_ok:
  assumes "input_ok s" and "screen_ok s" and "length (edt s) < k"
  shows "\<exists>t. kill_line k s = Ok () t \<and> edited s t (inp s, [])"
  using assms
proof (induction k arbitrary: s)
  case (Suc k)
  show ?case
  proof (cases "edt s = []")
    case True
    then show ?thesis using Suc.prems by (simp add: edt_empty edited_def)
  next
    case False
    then have n: "in_e s \<noteq> in_w s" by (simp add: edt_empty)
    have "0 < length (edt s)" using False by simp
    then have len: "length (butlast (edt s)) < k" using Suc.prems(3) unfolding length_butlast by linarith
    have "last (edt s) \<noteq> 10" using Suc.prems(1) False by (metis input_ok_def last_in_set)
    then have l: "in_buf s (unat (in_e s - 1) mod INPUT_BUF) \<noteq> 10" using rub_out(3)[OF n] by simp
    obtain t where t: "consputc BACKSPACE (s\<lparr>in_e := in_e s - 1\<rparr>) = Ok () t" "edited s t (inp s, butlast (edt s))"
      using rub_key[OF Suc.prems(1,2) False] by blast
    then have "\<exists>u. kill_line k t = Ok () u \<and> edited t u (inp t, [])"
      using len by (intro Suc.IH) (auto simp: edited_def)
    then show ?thesis using t n l by (auto simp: edited_def)
  qed
qed simp

lemma char_key_ok:
  assumes ok: "input_ok s" "screen_ok s" and l: "MlfqLock \<notin> held s" "PtableLock \<notin> held s"
    and room: "length (inp s) + length (edt s) < INPUT_BUF" and c: "0 < c" "c < 256"
    and t: "t = s\<lparr>in_buf := (in_buf s)(unat (in_e s) mod INPUT_BUF := word_of_int c), in_e := in_e s + 1\<rparr>"
  shows "\<exists>u. bnd (consputc c t) (\<lambda>_ s.
       if c = 10 \<or> c = ctrl CHR ''D'' \<or> in_e s = in_r s + of_nat INPUT_BUF then
         bnd (wakeup ChanInput (s\<lparr>in_w := in_e s\<rparr>)) (\<lambda>_ s. Ok False s)
       else Ok False s) = Ok False u \<and>
     edited s u (if c = 10 \<or> c = ctrl CHR ''D'' \<or> length (inp s) + length (edt s @ [word_of_int c]) = INPUT_BUF
       then (inp s @ edt s @ [word_of_int c], []) else (inp s, edt s @ [word_of_int c]))"
proof -
  note tk = type_key[OF room t]
  have ln: "length (inp t) + length (edt t) \<le> INPUT_BUF" using tk room by simp
  obtain w where w: "consputc c t = Ok () w" "echoed t w" "screen_ok w"
    using consputc_ok[of t c] ok(2) by (auto simp: screen_ok_def t)
  note e = echoed_simps[OF w(2)]
  have "unat (in_e t - in_r t) = INPUT_BUF \<longleftrightarrow> in_e t - in_r t = of_nat INPUT_BUF"
    by (auto simp: INPUT_BUF_def intro: unsigned_word_eqI)
  then have full: "in_e w = in_r w + of_nat INPUT_BUF \<longleftrightarrow> length (inp s) + length (edt s @ [word_of_int c]) = INPUT_BUF"
    using input_total(1)[OF ln] tk by (auto simp: e algebra_simps)
  show ?thesis
  proof (cases "c = 10 \<or> c = ctrl CHR ''D'' \<or> length (inp s) + length (edt s @ [word_of_int c]) = INPUT_BUF")
    case True
    let ?w = "w\<lparr>in_w := in_e w\<rparr>"
    let ?u = "?w\<lparr>ptable := wake_upto NPROC ChanInput (ptable w), mlfqstr := wake_mlfq NPROC ChanInput (ptable w) (mlfqstr w)\<rparr>"
    have "held w = held s" by (simp add: e t)
    then have "wakeup ChanInput ?w = Ok () ?u" using l by (subst wakeup_eq) simp_all
    moreover have "inp ?u = inp s @ edt s @ [word_of_int c]" "edt ?u = []"
      using commit_line[of w] ln tk by (simp_all add: e inp_def[of ?u] edt_def[of ?u], simp_all add: inp_def edt_def)
    moreover have "screen_ok ?u" using w(3) by (simp add: screen_ok_def)
    ultimately have "edited s ?u (inp s @ edt s @ [word_of_int c], [])"
      using ln tk by (simp add: edited_def input_ok_def e t)
    then show ?thesis using True full w(1) \<open>wakeup ChanInput ?w = Ok () ?u\<close> by auto
  next
    case False
    have "(word_of_int c :: u8) \<noteq> 10"
    proof
      assume "(word_of_int c :: u8) = 10"
      then have "uint (word_of_int c :: u8) = uint (10 :: u8)" by (rule arg_cong)
      then show False using False c by (simp add: uint_word_of_int)
    qed
    then have "edited s w (inp s, edt s @ [word_of_int c])"
      using w(3) ln tk ok(1) by (simp add: edited_def input_ok_def e) (simp add: t)
    then show ?thesis using False full w(1) by auto
  qed
qed

lemma cons_char_edit:
  assumes ok: "input_ok s" "screen_ok s" and l: "MlfqLock \<notin> held s" "PtableLock \<notin> held s" and c: "0 \<le> c" "c < 256"
  shows "\<exists>d t. cons_char c s = Ok d t \<and> edited s t (edit_key c (inp s, edt s))"
proof -
  have le: "length (inp s) + length (edt s) \<le> INPUT_BUF" using ok(1) by (simp add: input_ok_def)
  have room: "in_e s - in_r s < of_nat INPUT_BUF \<longleftrightarrow> length (inp s) + length (edt s) < INPUT_BUF"
    using input_total(1)[OF le] by (simp add: word_less_nat_alt INPUT_BUF_def)
  have same: "edited s s (inp s, edt s)" using ok by (simp add: edited_def)
  consider "c = ctrl CHR ''P''" | "c \<noteq> ctrl CHR ''P''" "c = ctrl CHR ''U''"
    | "c \<noteq> ctrl CHR ''P''" "c \<noteq> ctrl CHR ''U''" "c = ctrl CHR ''H'' \<or> c = 127"
    | "c \<noteq> ctrl CHR ''P''" "c \<noteq> ctrl CHR ''U''" "\<not> (c = ctrl CHR ''H'' \<or> c = 127)" by blast
  then show ?thesis
  proof cases
    case 1
    then show ?thesis using same by (auto simp: cons_char_def edit_key_def)
  next
    case 2
    have "length (edt s) < Suc (unat (in_e s - in_w s))" by (simp add: edt_def)
    then show ?thesis using kill_line_ok[OF ok, of "Suc (unat (in_e s - in_w s))"] 2
      by (auto simp: cons_char_def edit_key_def simp del: kill_line.simps)
  next
    case 3
    then show ?thesis
    proof (cases "edt s = []")
      case True
      moreover have "in_e s = in_w s" using True by (simp add: edt_empty)
      ultimately show ?thesis using 3 same by (auto simp: cons_char_def edit_key_def)
    next
      case False
      then show ?thesis using 3 rub_key[OF ok False] by (auto simp: cons_char_def edit_key_def edt_empty)
    qed
  next
    case 4
    show ?thesis
    proof (cases "c = 0 \<or> length (inp s) + length (edt s) = INPUT_BUF")
      case True
      then have "cons_char c s = Ok False s" using 4 room by (auto simp: cons_char_def)
      moreover have "edit_key c (inp s, edt s) = (inp s, edt s)" using True 4 by (auto simp: edit_key_def)
      ultimately show ?thesis using same by auto
    next
      case False
      define k :: int where "k = (if c = 13 then 10 else c)"
      have rm: "length (inp s) + length (edt s) < INPUT_BUF" using False le by simp
      have k: "0 < k" "k < 256" using False c by (auto simp: k_def)
      have "cons_char c s = bnd (consputc k (s\<lparr>in_buf := (in_buf s)(unat (in_e s) mod INPUT_BUF := word_of_int k), in_e := in_e s + 1\<rparr>))
        (\<lambda>_ s. if k = 10 \<or> k = ctrl CHR ''D'' \<or> in_e s = in_r s + of_nat INPUT_BUF then
           bnd (wakeup ChanInput (s\<lparr>in_w := in_e s\<rparr>)) (\<lambda>_ s. Ok False s)
         else Ok False s)"
        using 4 False rm room by (simp add: cons_char_def Let_def k_def)
      moreover have "edit_key c (inp s, edt s) =
        (if k = 10 \<or> k = ctrl CHR ''D'' \<or> length (inp s) + length (edt s @ [word_of_int k]) = INPUT_BUF
         then (inp s @ edt s @ [word_of_int k], []) else (inp s, edt s @ [word_of_int k]))"
        using 4 False by (simp add: edit_key_def Let_def k_def)
      ultimately show ?thesis using char_key_ok[OF ok l rm k refl] by (simp only:) blast
    qed
  qed
qed

lemma cons_chars_edit:
  assumes "input_ok s" "screen_ok s" "MlfqLock \<notin> held s" "PtableLock \<notin> held s" and "\<forall>c\<in>set cs. 0 \<le> c \<and> c < 256"
  shows "\<exists>d t. cons_chars cs b s = Ok d t \<and> edited s t (fold edit_key cs (inp s, edt s))"
  using assms
proof (induction cs arbitrary: b s)
  case Nil
  then show ?case by (simp add: edited_def)
next
  case (Cons c cs)
  obtain d t where t: "cons_char c s = Ok d t" "edited s t (edit_key c (inp s, edt s))"
    using cons_char_edit[OF Cons.prems(1-4), of c] Cons.prems(5) by auto
  have e: "(inp t, edt t) = edit_key c (inp s, edt s)" "input_ok t" "screen_ok t" "held t = held s" "in_r t = in_r s"
    using t(2) by (simp_all add: edited_def)
  obtain d' u where u: "cons_chars cs (b \<or> d) t = Ok d' u" "edited t u (fold edit_key cs (inp t, edt t))"
    using Cons.IH[OF e(2,3), of "b \<or> d"] Cons.prems(3-5) e(4) by auto
  then show ?case using t(1) e by (simp add: edited_def)
qed

subsection \<open>Reading\<close>

text \<open>
  What a read of at most \<open>n\<close> characters takes from the finished lines, \<open>dn\<close> being delivered already: the characters
  up to a newline; Control-D ends the read and stays in the buffer unless nothing was delivered. \<open>None\<close> is that the
  reader sleeps.
\<close>

fun take_line :: "nat \<Rightarrow> nat \<Rightarrow> u8 list \<Rightarrow> (u8 list \<times> u8 list) option" where
  "take_line 0 dn q = Some ([], q)"
| "take_line (Suc n) dn [] = None"
| "take_line (Suc n) dn (c # q) =
     (if c = 4 then Some ([], if dn > 0 then c # q else q)
      else if c = 10 then Some ([c], q)
      else map_option (\<lambda>(xs, r). (c # xs, r)) (take_line n (dn + 1) q))"

lemma take_line_length: "take_line n dn q = Some (xs, r) \<Longrightarrow> length xs \<le> n"
  by (induction n dn q arbitrary: xs r rule: take_line.induct) (auto split: if_splits)

definition dest_fits :: "dest \<Rightarrow> nat \<Rightarrow> bool" where
  "dest_fits dst n \<longleftrightarrow> (case dst of ToVar \<Rightarrow> True | ToAddr a \<Rightarrow> a + n \<le> 2 ^ 32)"

lemma to_dest_Cons:
  assumes "dest_fits dst (dn + Suc (length xs))"
  shows "to_dest dst dn (of_list (c # xs)) 0 (Suc (length xs)) s =
    bnd (to_dest dst dn (\<lambda>_. c) 0 1 s) (\<lambda>_ t. to_dest dst (dn + 1) (of_list xs) 0 (length xs) t)"
proof (cases dst)
  case (ToAddr a)
  have sh: "vstore b (of_list (c # xs)) 1 (length xs) t = vstore b (of_list xs) 0 (length xs) t" for b and t :: "'a fs_state_scheme"
    by (rule vstore_cong) (simp add: of_list_def)
  have f: "a + dn < 2 ^ 32" and g: "xs \<noteq> [] \<Longrightarrow> (a + dn) mod 2 ^ 32 + 1 = (a + (dn + 1)) mod 2 ^ 32"
    using assms ToAddr by (cases xs; simp add: dest_fits_def)+
  show ?thesis
  proof (cases "xs = []")
    case False
    then show ?thesis using ToAddr g sh by (simp add: to_dest_def of_list_def[of "c # xs"] split: option.splits)
  qed (simp add: ToAddr to_dest_def of_list_def split: option.splits)
qed (simp add: to_dest_def)

lemma vstore_in_r: "vstore a d k m (s\<lparr>in_r := r\<rparr>) = bnd (vstore a d k m s) (\<lambda>_ t. Ok () (t\<lparr>in_r := r\<rparr>))"
proof (induction m arbitrary: a k s)
  case (Suc m)
  have v: "vtrans (s\<lparr>in_r := r\<rparr>) a = vtrans s a" by (simp add: vtrans_def)
  have eq: "s\<lparr>in_r := r, mem := f\<rparr> = s\<lparr>mem := f, in_r := r\<rparr>" for f by simp
  show ?case
  proof (cases "vtrans s a")
    case (Some x)
    then have "vstore a d k (Suc m) (s\<lparr>in_r := r\<rparr>) = vstore (a + 1) d (k + 1) m (s\<lparr>in_r := r, mem := (mem s)(x := d k)\<rparr>)"
      using v by simp
    also have "\<dots> = bnd (vstore (a + 1) d (k + 1) m (s\<lparr>mem := (mem s)(x := d k)\<rparr>)) (\<lambda>_ t. Ok () (t\<lparr>in_r := r\<rparr>))"
      unfolding eq by (rule Suc.IH)
    finally show ?thesis using Some by simp
  qed (simp add: v)
qed simp

lemma to_dest_in_r: "to_dest dst i d k m (s\<lparr>in_r := r\<rparr>) = bnd (to_dest dst i d k m s) (\<lambda>_ t. Ok () (t\<lparr>in_r := r\<rparr>))"
  by (cases dst) (simp_all add: to_dest_def vstore_in_r)

lemma to_dest_frame: "to_dest dst i d k m s = Ok () t \<Longrightarrow> \<exists>f. t = s\<lparr>mem := f\<rparr>"
proof (cases dst)
  case ToVar
  then show "to_dest dst i d k m s = Ok () t \<Longrightarrow> ?thesis" by (auto simp: to_dest_def intro: exI[of _ "mem t"])
qed (auto simp: to_dest_def dest: vstore_frame)

lemma inp_get:
  assumes "inp s = c # q"
  shows "in_r s \<noteq> in_w s" and "in_buf s (unat (in_r s) mod INPUT_BUF) = c" and "inp (s\<lparr>in_r := in_r s + 1\<rparr>) = q"
proof -
  have "inp s \<noteq> []" using assms by simp
  then show n: "in_r s \<noteq> in_w s" by (simp add: inp_def)
  show "in_buf s (unat (in_r s) mod INPUT_BUF) = c" "inp (s\<lparr>in_r := in_r s + 1\<rparr>) = q"
    using input_ring.ring_get[OF n, of "in_buf s"] assms by (simp_all add: inp_def)
qed

text \<open>
  The loop of \<^verbatim>\<open>consoleread\<close> stores the characters \<open>take_line\<close> says and leaves the rest in the buffer; \<open>f\<close> is the
  memory when the loop is entered.
\<close>

lemma consoleread_loop_line:
  assumes "take_line n dn (inp s) = Some (xs, rest)" and "dest_fits dst (dn + n)"
  shows "\<exists>r acc'. inp (s\<lparr>in_r := r\<rparr>) = rest \<and> (\<forall>i<length xs. acc' (dn + i) = xs ! i) \<and> (\<forall>i<dn. acc' i = acc i) \<and>
    (\<forall>f. consoleread_loop ip dst n dn acc (s\<lparr>mem := f\<rparr>) =
       bnd (to_dest dst dn (of_list xs) 0 (length xs) (s\<lparr>mem := f\<rparr>)) (\<lambda>_ t.
       consoleread_end ip (dn + length xs) acc' (t\<lparr>in_r := r\<rparr>)))"
  using assms
proof (induction n arbitrary: dn s xs acc)
  case 0
  have "to_dest dst dn d 0 0 s = Ok () s" for d and s :: "'a cons_state_scheme" by (cases dst) (simp_all add: to_dest_def)
  then show ?case using 0 by (intro exI[of _ "in_r s"] exI[of _ acc]) simp
next
  case (Suc n)
  have z: "to_dest dst dn d 0 0 s = Ok () s" for d and s :: "'a cons_state_scheme" by (cases dst) (simp_all add: to_dest_def)
  obtain c q where q: "inp s = c # q" using Suc.prems(1) by (cases "inp s") auto
  note g = inp_get[OF q]
  show ?case
  proof (cases "c = 4")
    case True
    then have "xs = []" "rest = (if dn > 0 then inp s else q)" using Suc.prems(1) q by auto
    then show ?thesis using True g z
      by (intro exI[of _ "if dn > 0 then in_r s else in_r s + 1"] exI[of _ acc]) simp
  next
    case c4: False
    show ?thesis
    proof (cases "c = 10")
      case True
      then have x: "xs = [c]" "rest = q" using Suc.prems(1) q c4 by auto
      have e: "to_dest dst dn (of_list [k]) 0 (Suc 0) t = to_dest dst dn (\<lambda>_. k) 0 1 t" for k and t :: "'a cons_state_scheme"
        unfolding to_dest_def One_nat_def
        by (auto split: dest.split intro!: vstore_cong simp: of_list_def simp del: vstore.simps)
      have "consoleread_loop ip dst (Suc n) dn acc (s\<lparr>mem := f\<rparr>) =
          bnd (to_dest dst dn (of_list xs) 0 (length xs) (s\<lparr>mem := f\<rparr>)) (\<lambda>_ t.
          consoleread_end ip (dn + length xs) (acc(dn := c)) (t\<lparr>in_r := in_r s + 1\<rparr>))" for f
      proof -
        have "consoleread_loop ip dst (Suc n) dn acc (s\<lparr>mem := f\<rparr>) =
            bnd (to_dest dst dn (\<lambda>_. c) 0 1 (s\<lparr>mem := f, in_r := in_r s + 1\<rparr>)) (\<lambda>_ t.
            consoleread_end ip (dn + 1) (acc(dn := c)) t)"
          using g(1,2) True by (simp add: put_dest_def Let_def del: One_nat_def)
        then show ?thesis unfolding to_dest_in_r bnd_assoc by (simp add: x(1) e del: consoleread_loop.simps)
      qed
      moreover have "\<forall>i<length xs. (acc(dn := c)) (dn + i) = xs ! i" "\<forall>i<dn. (acc(dn := c)) i = acc i" by (simp_all add: x(1))
      ultimately show ?thesis using g(3) unfolding x(2) by blast
    next
      case False
      let ?s = "s\<lparr>in_r := in_r s + 1\<rparr>"
      obtain ys where y: "take_line n (dn + 1) q = Some (ys, rest)" "xs = c # ys"
        using Suc.prems(1) q c4 False by (auto split: option.splits)
      have fits: "dest_fits dst (dn + 1 + n)" "dest_fits dst (dn + Suc (length ys))"
        using Suc.prems(2) take_line_length[OF y(1)] by (auto simp: dest_fits_def split: dest.splits)
      have tl: "take_line n (dn + 1) (inp ?s) = Some (ys, rest)" using y(1) g(3) by simp
      obtain r acc' where r: "inp (?s\<lparr>in_r := r\<rparr>) = rest" "\<forall>i<length ys. acc' (dn + 1 + i) = ys ! i"
          "\<forall>i<dn + 1. acc' i = (acc(dn := c)) i"
          "\<And>f. consoleread_loop ip dst n (dn + 1) (acc(dn := c)) (?s\<lparr>mem := f\<rparr>) =
            bnd (to_dest dst (dn + 1) (of_list ys) 0 (length ys) (?s\<lparr>mem := f\<rparr>)) (\<lambda>_ t.
            consoleread_end ip (dn + 1 + length ys) acc' (t\<lparr>in_r := r\<rparr>))"
        using Suc.IH[OF tl fits(1), of "acc(dn := c)"] by blast
      have "consoleread_loop ip dst (Suc n) dn acc (s\<lparr>mem := f\<rparr>) =
          bnd (to_dest dst dn (of_list xs) 0 (length xs) (s\<lparr>mem := f\<rparr>)) (\<lambda>_ t.
          consoleread_end ip (dn + length xs) acc' (t\<lparr>in_r := r\<rparr>))" for f
      proof -
        have "consoleread_loop ip dst (Suc n) dn acc (s\<lparr>mem := f\<rparr>) =
            bnd (to_dest dst dn (\<lambda>_. c) 0 1 (s\<lparr>mem := f, in_r := in_r s + 1\<rparr>)) (\<lambda>_ t.
            consoleread_loop ip dst n (dn + 1) (acc(dn := c)) t)"
          using g(1,2) c4 False by (simp add: put_dest_def Let_def del: One_nat_def)
        also have "\<dots> = bnd (to_dest dst dn (\<lambda>_. c) 0 1 (s\<lparr>mem := f\<rparr>)) (\<lambda>_ t.
            bnd (to_dest dst (dn + 1) (of_list ys) 0 (length ys) t) (\<lambda>_ t.
            consoleread_end ip (dn + 1 + length ys) acc' (t\<lparr>in_r := r\<rparr>)))"
        proof (cases "to_dest dst dn (\<lambda>_. c) 0 1 (s\<lparr>mem := f\<rparr>)")
          case (Ok u t)
          then obtain f' where t: "t = s\<lparr>mem := f'\<rparr>" using to_dest_frame[of dst dn _ 0 1 "s\<lparr>mem := f\<rparr>" t] by auto
          have e: "?s\<lparr>mem := f'\<rparr> = s\<lparr>mem := f', in_r := in_r s + 1\<rparr>" by simp
          show ?thesis unfolding to_dest_in_r bnd_assoc Ok using r(4)[of f', unfolded e to_dest_in_r bnd_assoc] by (simp add: t)
        qed (simp_all add: to_dest_in_r)
        finally show ?thesis using to_dest_Cons[OF fits(2), of c "s\<lparr>mem := f\<rparr>"] by (simp add: y(2) bnd_assoc del: consoleread_loop.simps)
      qed
      moreover have "\<forall>i<length xs. acc' (dn + i) = xs ! i"
        using r(2,3) by (auto simp: y(2) nth_Cons split: nat.split)
      moreover have "\<forall>i<dn. acc' i = acc i" "inp (s\<lparr>in_r := r\<rparr>) = rest" using r(1,3) by simp_all
      ultimately show ?thesis by blast
    qed
  qed
qed

lemma consoleread_line:
  assumes tl: "take_line n 0 (inp s) = Some (xs, rest)" and a: "a + n \<le> 2 ^ 32" and b: "buf_ok s a n"
  shows "\<exists>acc' t. consoleread_loop ip (ToAddr a) n 0 acc s = consoleread_end ip (length xs) acc' t \<and> inp t = rest \<and>
    vload t a (length xs) = Some xs \<and> (\<exists>f r. t = s\<lparr>mem := f, in_r := r\<rparr>)"
proof -
  have "dest_fits (ToAddr a) (0 + n)" using a by (simp add: dest_fits_def)
  from consoleread_loop_line[OF tl this, of acc ip] obtain r acc' where r: "inp (s\<lparr>in_r := r\<rparr>) = rest"
      "\<And>f. consoleread_loop ip (ToAddr a) n 0 acc (s\<lparr>mem := f\<rparr>) =
         bnd (to_dest (ToAddr a) 0 (of_list xs) 0 (length xs) (s\<lparr>mem := f\<rparr>)) (\<lambda>_ t.
         consoleread_end ip (0 + length xs) acc' (t\<lparr>in_r := r\<rparr>))" by blast
  obtain f where f: "vstore a (of_list xs) 0 (length xs) s = Ok () (s\<lparr>mem := f\<rparr>)" "vload (s\<lparr>mem := f\<rparr>) a (length xs) = Some xs"
    using vstore_vload[OF b take_line_length[OF tl] refl] by blast
  have "to_dest (ToAddr a) 0 (of_list xs) 0 (length xs) s = Ok () (s\<lparr>mem := f\<rparr>)"
  proof (cases "xs = []")
    case True
    then show ?thesis using f(1) by (simp add: to_dest_def)
  next
    case False
    then have "0 < length xs" by simp
    then have "a < 2 ^ 32" using a take_line_length[OF tl] by linarith
    then show ?thesis using f(1) by (simp add: to_dest_def)
  qed
  then have "consoleread_loop ip (ToAddr a) n 0 acc s = consoleread_end ip (length xs) acc' (s\<lparr>mem := f, in_r := r\<rparr>)"
    using r(2)[of "mem s"] by (simp del: consoleread_loop.simps)
  moreover have "inp (s\<lparr>mem := f, in_r := r\<rparr>) = rest" using r(1) by (simp add: inp_def)
  moreover have "vload (s\<lparr>mem := f, in_r := r\<rparr>) a (length xs) = Some xs"
    unfolding f(2)[symmetric] by (rule vload_cong) simp_all
  ultimately show ?thesis by blast
qed

text \<open>
  \<open>reader ip s\<close>: the running process holds no spin lock and has the inode \<open>ip\<close> of the console locked, as \<^verbatim>\<open>readi\<close> has when it
  calls \<^verbatim>\<open>consoleread\<close>, which gives the inode's lock back before it waits for \<^verbatim>\<open>cons.lock\<close>.
\<close>

definition reader :: "nat \<Rightarrow> 'a cons_state_scheme \<Rightarrow> bool" where
  "reader ip s \<longleftrightarrow> idle_locks s \<and> owns_slock (InodeSl ip) s \<and> 1 \<le> i_ref (icache s ip) \<and> i_valid (icache s ip)"

lemma wake_cons_keeps [simp]: "inp (wake ch s) = inp s" "icache (wake ch s) = icache s" "mem (wake ch s) = mem s" "cr3 (wake ch s) = cr3 s"
  by (simp_all add: wake_def inp_def)

lemma upd_slock_cons_keeps [simp]: "inp (upd_slock k f s) = inp s" "icache (upd_slock k f s) = icache s"
    "mem (upd_slock k f s) = mem s" "cr3 (upd_slock k f s) = cr3 s"
  by (simp_all add: upd_slock_def inp_def)

lemma iunlock_eq:
  assumes "reader ip s"
  shows "iunlock (Some ip) s = Ok () (wake (ChanInodeLk ip) (upd_slock (InodeSl ip) (\<lambda>l. l\<lparr>sl_locked := False, sl_pid := 0\<rparr>) s))"
  using assms by (simp add: reader_def iunlock_def holdingsleep_eq releasesleep_eq)

lemma consoleread_end_eq:
  assumes "held s = {ConsLock}" and "curproc s \<noteq> None" and "\<not> sl_locked (slocks s (InodeSl ip))"
    and "1 \<le> i_ref (icache s ip)" and "i_valid (icache s ip)"
  shows "consoleread_end ip n acc s =
    Ok (int n, acc) (upd_slock (InodeSl ip) (\<lambda>l. l\<lparr>sl_locked := True, sl_pid := mypid s\<rparr>) (s\<lparr>held := {}\<rparr>))"
proof -
  have "idle_locks (s\<lparr>held := {}\<rparr>)" "mypid (s\<lparr>held := {}\<rparr>) = mypid s" using assms(2) by (simp_all add: idle_locks_def mypid_def)
  then show ?thesis using assms by (simp add: consoleread_end_def lock_simps ilock_def acquiresleep_eq)
qed

lemma consoleread_returns:
  assumes r: "reader ip s" and l: "take_line n 0 (inp s) = Some (xs, rest)" "a + n \<le> 2 ^ 32" "buf_ok s a n"
  shows "\<exists>acc u. consoleread ip (ToAddr a) (int n) s = Ok (int (length xs), acc) u \<and> inp u = rest \<and> vload u a (length xs) = Some xs \<and>
    reader ip u"
proof -
  let ?s = "wake (ChanInodeLk ip) (upd_slock (InodeSl ip) (\<lambda>l. l\<lparr>sl_locked := False, sl_pid := 0\<rparr>) s)"
  let ?c = "?s\<lparr>held := {ConsLock}\<rparr>"
  have h: "held s = {}" "curproc s \<noteq> None" "1 \<le> i_ref (icache s ip)" "i_valid (icache s ip)"
    using r by (auto simp: reader_def idle_locks_def)
  have e: "consoleread ip (ToAddr a) (int n) s = consoleread_loop ip (ToAddr a) n 0 (\<lambda>_. 0) ?c"
    using h(1) by (simp add: consoleread_def iunlock_eq[OF r] lock_simps del: consoleread_loop.simps)
  have "inp ?c = inp ?s" by (simp add: inp_def)
  then have "inp ?c = inp s" by simp
  moreover have "buf_ok ?c a n" using l(3) by (rule buf_ok_cong) simp_all
  ultimately obtain acc u where u: "consoleread_loop ip (ToAddr a) n 0 (\<lambda>_. 0) ?c = consoleread_end ip (length xs) acc u" "inp u = rest"
      "vload u a (length xs) = Some xs" and fr: "\<exists>f r. u = ?c\<lparr>mem := f, in_r := r\<rparr>"
    using consoleread_line[of n ?c xs rest a ip "\<lambda>_. 0"] l(1,2) by auto
  let ?v = "upd_slock (InodeSl ip) (\<lambda>l. l\<lparr>sl_locked := True, sl_pid := mypid u\<rparr>) (u\<lparr>held := {}\<rparr>)"
  have g: "held u = {ConsLock}" "curproc u \<noteq> None" "\<not> sl_locked (slocks u (InodeSl ip))"
      "1 \<le> i_ref (icache u ip)" "i_valid (icache u ip)" using fr h by auto
  have "consoleread ip (ToAddr a) (int n) s = Ok (int (length xs), acc) ?v"
    unfolding e u(1) by (rule consoleread_end_eq[OF g])
  moreover have "inp (u\<lparr>held := {}\<rparr>) = inp u" by (simp add: inp_def)
  then have "inp ?v = rest" using u(2) by simp
  moreover have "vload ?v a (length xs) = Some xs" unfolding u(3)[symmetric] by (rule vload_cong) simp_all
  moreover have "reader ip ?v" using g by (simp add: reader_def idle_locks_def owns_slock_def mypid_def)
  ultimately show ?thesis by blast
qed

text \<open>
  C13. The console edits and delivers lines: when the keyboard or the serial port hands characters to consoleintr, it
  returns, and the finished lines and the line being typed are those of the line editor: characters are appended,
  Control-H and delete rub out one, Control-U the whole line, a newline, a carriage return, Control-D or a full buffer
  finishes the line, and what exceeds the 128 bytes of the buffer is dropped; the screen position stays on the screen.
  A process that has the console's inode locked and reads when a finished line is there gets exactly the characters up
  to the end of the line (or Control-D, or the count asked for): \<^verbatim>\<open>consoleread\<close> returns their number, they are in the reader's
  memory, the rest is left for the next read, no spin lock is held and the inode is locked again.\<close>

theorem console_lines:
  assumes "input_ok s" and "screen_ok s" and "held s \<inter> {ConsLock, MlfqLock, PtableLock} = {}"
    and "\<forall>c\<in>set cs. 0 \<le> c \<and> c < 256"
  shows "\<exists>d t. consoleintr cs s = Ok d t \<and> (inp t, edt t) = fold edit_key cs (inp s, edt s) \<and> input_ok t \<and> screen_ok t \<and>
    held t = held s \<and>
    (\<forall>r :: 'b cons_state_scheme. \<forall>n xs rest a ip. inp r = inp t \<longrightarrow> take_line n 0 (inp t) = Some (xs, rest) \<longrightarrow>
      a + n \<le> 2 ^ 32 \<longrightarrow> buf_ok r a n \<longrightarrow> reader ip r \<longrightarrow>
      (\<exists>acc u. consoleread ip (ToAddr a) (int n) r = Ok (int (length xs), acc) u \<and> inp u = rest \<and>
        vload u a (length xs) = Some xs \<and> reader ip u))"
proof -
  let ?s = "s\<lparr>held := insert ConsLock (held s)\<rparr>"
  have ok: "input_ok ?s" "screen_ok ?s" using assms(1,2) by (simp_all add: input_ok_def screen_ok_def inp_def edt_def)
  have l: "MlfqLock \<notin> held ?s" "PtableLock \<notin> held ?s" using assms(3) by auto
  obtain d t where t: "cons_chars cs False ?s = Ok d t" "edited ?s t (fold edit_key cs (inp ?s, edt ?s))"
    using cons_chars_edit[OF ok l assms(4)] by blast
  let ?t = "t\<lparr>held := held s\<rparr>"
  have h: "held t = insert ConsLock (held s)" using t(2) by (simp add: edited_def)
  have "consoleintr cs s = Ok d ?t" using t(1) h assms(3) by (auto simp: consoleintr_def lock_simps)
  moreover have "inp ?s = inp s" "edt ?s = edt s" "inp ?t = inp t" "edt ?t = edt t" by (simp_all add: inp_def edt_def)
  moreover have "input_ok t" "screen_ok t" using t(2) by (simp_all add: edited_def)
  then have "input_ok ?t" "screen_ok ?t" by (simp_all add: input_ok_def screen_ok_def inp_def edt_def)
  moreover have "\<exists>acc u. consoleread ip (ToAddr a) (int n) r = Ok (int (length xs), acc) u \<and> inp u = rest \<and>
      vload u a (length xs) = Some xs \<and> reader ip u"
    if "inp r = inp t" "take_line n 0 (inp t) = Some (xs, rest)" "a + n \<le> 2 ^ 32" "buf_ok r a n" "reader ip r"
    for r :: "'b cons_state_scheme" and n xs rest a ip
    using consoleread_returns[OF that(5) _ that(3,4)] that(1,2) by simp
  ultimately show ?thesis using t(2)
    by (intro exI[of _ d] exI[of _ ?t] conjI allI impI) (simp_all add: edited_def)
qed

theorem console_lines_witness:
  "\<exists>d t (r :: cons_state) u acc. consoleintr [108, 120, 8, 115, 13] ex_state = Ok d t \<and> inp t = [108, 115, 10] \<and> edt t = [] \<and> inp r = inp t \<and>
     consoleread 0 (ToAddr KERNBASE) 80 r = Ok (3, acc) u \<and> vload u KERNBASE 3 = Some [108, 115, 10] \<and> inp u = []"
proof -
  have ok: "input_ok ex_state" "screen_ok ex_state" "held ex_state \<inter> {ConsLock, MlfqLock, PtableLock} = {}"
    and e: "inp ex_state = []" "edt ex_state = []"
    by (simp_all add: input_ok_def screen_ok_def inp_def edt_def ring_list_def)
  have f: "fold edit_key [108, 120, 8, 115, 13] ([], []) = ([108, 115, 10], [])"
    by (simp add: edit_key_def ctrl_def INPUT_BUF_def)
  have range: "\<forall>c\<in>set [108, 120, 8, 115, 13 :: int]. 0 \<le> c \<and> c < 256" by simp
  have l: "take_line 80 0 [108, 115, 10] = Some ([108, 115, 10], [])" by code_simp
  obtain d t where t: "consoleintr [108, 120, 8, 115, 13] ex_state = Ok d t" "inp t = [108, 115, 10]" "edt t = []"
      "\<forall>(r :: cons_state). \<forall>n xs rest a ip. inp r = inp t \<longrightarrow> take_line n 0 (inp t) = Some (xs, rest) \<longrightarrow> a + n \<le> 2 ^ 32 \<longrightarrow> buf_ok r a n \<longrightarrow>
        reader ip r \<longrightarrow> (\<exists>acc u. consoleread ip (ToAddr a) (int n) r = Ok (int (length xs), acc) u \<and> inp u = rest \<and>
          vload u a (length xs) = Some xs \<and> reader ip u)"
    using console_lines[OF ok range, where 'b = unit] unfolding e f prod.inject by blast
  let ?r = "t\<lparr>held := {}, curproc := Some 0, slocks := \<lambda>_. \<lparr>sl_locked = True, sl_name = [], sl_pid = p_pid (ptable t 0)\<rparr>,
    icache := \<lambda>i. (icache t i)\<lparr>i_ref := 1, i_valid := True\<rparr>\<rparr>"
  have rd: "\<exists>acc u. consoleread 0 (ToAddr KERNBASE) (int 80) ?r = Ok (int (length [108, 115, 10 :: u8]), acc) u \<and>
      inp u = [] \<and> vload u KERNBASE (length [108, 115, 10 :: u8]) = Some [108, 115, 10] \<and> reader 0 u"
    by (rule t(4)[rule_format]) (simp_all add: l t(2) buf_ok_kernel inp_def[of ?r] inp_def[of t, symmetric] reader_def idle_locks_def owns_slock_def mypid_def KERNBASE_def)
  have "length [108, 115, 10 :: u8] = 3" "int 3 = 3" "int 80 = 80" by simp_all
  from rd[unfolded this] obtain acc u where u: "consoleread 0 (ToAddr KERNBASE) 80 ?r = Ok (3, acc) u" "inp u = []"
    "vload u KERNBASE 3 = Some [108, 115, 10]" by blast
  have "inp ?r = inp t" by (simp add: inp_def)
  then show ?thesis using t(1-3) u by blast
qed

end
