(* ===== verification/Xv6_Sched_Choice.thy ===== *)
theory Xv6_Sched_Choice
  imports Xv6_Sched_Inv
begin

section \<open>Which process the scheduler runs\<close>

text \<open>
  What the two searches of \<^verbatim>\<open>scheduler\<close> return, what one turn of its loop does under \<open>sched_inv\<close>, and
  the operations on the stride queue (\<^verbatim>\<open>set_cpu_share\<close>, \<^verbatim>\<open>striderm\<close>).
\<close>

subsection \<open>The search of the feedback queue\<close>

lemma next_idx_mod: "i < NPROC \<Longrightarrow> next_idx i = Suc i mod NPROC"
  by (cases "i = 63") (auto simp: next_idx_def NPROC_def)

lemma next_idx_less [simp]: "next_idx i < NPROC"
  by (auto simp: next_idx_def NPROC_def)

lemma mod_NPROC_Suc: "(Suc i mod NPROC + j) mod NPROC = Suc (i + j) mod NPROC"
  by (simp add: mod_simps)

lemma mlfq_search_Some:
  "i < NPROC \<Longrightarrow> mlfq_search k tb lv i = (Some p, i') \<Longrightarrow>
   \<exists>j<k. p = (i + j) mod NPROC \<and> mlfq_match lv (tb p) \<and>
     (\<forall>j'<j. \<not> mlfq_match lv (tb ((i + j') mod NPROC))) \<and> i' = (p + 1) mod NPROC"
proof (induction k arbitrary: i)
  case (Suc k)
  show ?case
  proof (cases "mlfq_match lv (tb i)")
    case True
    with Suc.prems show ?thesis
      by (intro exI[of _ 0]) (auto simp: next_idx_mod)
  next
    case False
    with Suc obtain j where j: "j < k" "p = (next_idx i + j) mod NPROC" "mlfq_match lv (tb p)"
        "\<forall>j'<j. \<not> mlfq_match lv (tb ((next_idx i + j') mod NPROC))" "i' = (p + 1) mod NPROC"
      by (metis mlfq_search.simps(2) next_idx_less)
    have "\<not> mlfq_match lv (tb ((i + j') mod NPROC))" if "j' < Suc j" for j'
      using that False j(4) Suc.prems(1)
      by (cases j') (auto simp: next_idx_mod mod_NPROC_Suc)
    with j Suc.prems(1) show ?thesis
      by (intro exI[of _ "Suc j"]) (simp add: next_idx_mod mod_NPROC_Suc)
  qed
qed simp

lemma mlfq_search_None:
  "i < NPROC \<Longrightarrow> mlfq_search k tb lv i = (None, i') \<Longrightarrow>
   (\<forall>j<k. \<not> mlfq_match lv (tb ((i + j) mod NPROC))) \<and> i' = (i + k) mod NPROC"
proof (induction k arbitrary: i)
  case (Suc k)
  have nm: "\<not> mlfq_match lv (tb i)" and rest: "mlfq_search k tb lv (next_idx i) = (None, i')"
    using Suc.prems by (auto split: if_splits)
  note IH = Suc.IH[OF next_idx_less rest]
  have "\<not> mlfq_match lv (tb ((i + j) mod NPROC))" if "j < Suc k" for j
    using that nm IH Suc.prems(1)
    by (cases j) (auto simp: next_idx_mod mod_NPROC_Suc)
  with IH Suc.prems(1) show ?case by (simp add: next_idx_mod mod_NPROC_Suc)
qed simp

lemma cyclic_all:
  assumes "i < NPROC" and "p < NPROC"
  shows "\<exists>j<NPROC. p = (i + j) mod NPROC"
proof (cases "i \<le> p")
  case True
  with assms show ?thesis by (intro exI[of _ "p - i"]) auto
next
  case False
  with assms show ?thesis by (intro exI[of _ "p + NPROC - i"]) auto
qed

lemma mlfq_search_total:
  assumes "i < NPROC" and "p < NPROC" and "mlfq_match lv (tb p)"
  obtains p' i' where "mlfq_search NPROC tb lv i = (Some p', i')" and "p' < NPROC"
    and "mlfq_match lv (tb p')" and "i' = (p' + 1) mod NPROC"
proof (cases "mlfq_search NPROC tb lv i")
  case (Pair r i')
  obtain j where "j < NPROC" "p = (i + j) mod NPROC" using cyclic_all[OF assms(1,2)] by blast
  then have "r \<noteq> None" using mlfq_search_None[OF assms(1), of NPROC tb lv i'] assms(3) Pair by auto
  then obtain p' where r: "r = Some p'" by auto
  then have "mlfq_match lv (tb p')" "i' = (p' + 1) mod NPROC" "p' < NPROC"
    using mlfq_search_Some[OF assms(1), of NPROC tb lv p' i'] Pair by (auto simp: NPROC_def)
  with r Pair that show ?thesis by blast
qed

subsection \<open>The search of the stride queue\<close>

definition pass_of :: "proc \<Rightarrow> u32" where
  "pass_of q = word_of_int (p_pass q)"

definition scan_result :: "(nat \<Rightarrow> proc) \<Rightarrow> nat set \<Rightarrow> u32 \<Rightarrow> nat option \<Rightarrow> nat option \<Rightarrow> bool" where
  "scan_result tb X mp np r \<longleftrightarrow>
     (if \<forall>x\<in>X. p_state (tb x) = RUNNABLE \<longrightarrow> mp < pass_of (tb x) then r = np
      else \<exists>p\<in>X. r = Some p \<and> p_state (tb p) = RUNNABLE \<and> pass_of (tb p) \<le> mp \<and>
        (\<forall>x\<in>X. p_state (tb x) = RUNNABLE \<longrightarrow> pass_of (tb p) \<le> pass_of (tb x)))"

lemma scan_result_take:
  assumes "pass_of (tb x) \<le> mp" and "p_state (tb x) = RUNNABLE"
    and "scan_result tb X (pass_of (tb x)) (Some x) r"
  shows "scan_result tb (insert x X) mp np r"
proof (cases "\<forall>y\<in>X. p_state (tb y) = RUNNABLE \<longrightarrow> pass_of (tb x) < pass_of (tb y)")
  case True
  then have "r = Some x" using assms(3) by (simp add: scan_result_def)
  with True assms(1,2) show ?thesis by (auto simp: scan_result_def less_imp_le)
next
  case False
  then obtain p where p: "p \<in> X" "r = Some p" "p_state (tb p) = RUNNABLE" "pass_of (tb p) \<le> pass_of (tb x)"
      "\<forall>y\<in>X. p_state (tb y) = RUNNABLE \<longrightarrow> pass_of (tb p) \<le> pass_of (tb y)"
    using assms(3) unfolding scan_result_def by (auto split: if_splits)
  moreover have "pass_of (tb p) \<le> mp" using p(4) assms(1) by (rule order_trans)
  moreover have "\<not> (\<forall>y\<in>insert x X. p_state (tb y) = RUNNABLE \<longrightarrow> mp < pass_of (tb y))"
    using assms(1,2) by (auto simp: not_less)
  ultimately show ?thesis unfolding scan_result_def by auto
qed

lemma scan_result_skip:
  assumes "\<not> (pass_of (tb x) \<le> mp \<and> p_state (tb x) = RUNNABLE)" and "scan_result tb X mp np r"
  shows "scan_result tb (insert x X) mp np r"
proof (cases "\<forall>y\<in>X. p_state (tb y) = RUNNABLE \<longrightarrow> mp < pass_of (tb y)")
  case True
  with assms show ?thesis by (auto simp: scan_result_def not_le)
next
  case False
  then obtain p where p: "p \<in> X" "r = Some p" "p_state (tb p) = RUNNABLE" "pass_of (tb p) \<le> mp"
      "\<forall>y\<in>X. p_state (tb y) = RUNNABLE \<longrightarrow> pass_of (tb p) \<le> pass_of (tb y)"
    using assms(2) unfolding scan_result_def by (auto split: if_splits)
  then have "p_state (tb x) = RUNNABLE \<longrightarrow> pass_of (tb p) \<le> pass_of (tb x)" using assms(1) by auto
  with p False show ?thesis unfolding scan_result_def by auto
qed

lemma stride_scan_chain:
  "chain (s_link tb) h xs \<Longrightarrow> length xs < n \<Longrightarrow>
   \<exists>r. stride_scan n tb h mp np = Some r \<and> scan_result tb (set xs) mp np r"
proof (induction xs arbitrary: h n mp np)
  case Nil
  then obtain k where "n = Suc k" by (cases n) auto
  with Nil show ?case by (auto simp: scan_result_def)
next
  case (Cons x xs)
  then obtain k where n: "n = Suc k" "length xs < k" by (cases n) auto
  have h: "h = Some x" "chain (s_link tb) (p_s_link (tb x)) xs"
    using Cons.prems s_link_def[of tb x] by auto
  show ?case
  proof (cases "pass_of (tb x) \<le> mp \<and> p_state (tb x) = RUNNABLE")
    case True
    with Cons.IH[OF h(2) n(2), of "pass_of (tb x)" "Some x"] n h show ?thesis
      by (auto simp: pass_of_def[symmetric] intro: scan_result_take)
  next
    case False
    then have "stride_scan n tb h mp np = stride_scan k tb (p_s_link (tb x)) mp np"
      using n h by (auto simp: pass_of_def)
    with Cons.IH[OF h(2) n(2), of mp np] scan_result_skip[of tb x mp "set xs" np] False
    show ?thesis by auto
  qed
qed

lemma pick_stride_result:
  assumes "stride_list (ptable s) (mlfqstr s) xs"
  shows "\<exists>r. pick_stride s = Some r \<and>
    (case stride_head (mlfqstr s) of None \<Rightarrow> r = None
     | Some h \<Rightarrow> scan_result (ptable s) (set xs)
         (if mlfq_proc_cnt (mlfqstr s) > 0 then mlfq_pass (mlfqstr s) else pass_of (ptable s h)) None r)"
proof (cases "stride_head (mlfqstr s)")
  case None
  then show ?thesis by (simp add: pick_stride_def)
next
  case (Some h)
  have "chain (s_link (ptable s)) (Some h) xs" using assms Some by (simp add: stride_list_def)
  from stride_scan_chain[OF this stride_list_short[OF assms]] Some show ?thesis
    by (auto simp: pick_stride_def Let_def pass_of_def)
qed

lemma pick_stride_Some:
  assumes "stride_list (ptable s) (mlfqstr s) xs" and "pick_stride s = Some (Some p)"
  shows "p \<in> set xs" and "p_state (ptable s p) = RUNNABLE"
    and "x \<in> set xs \<Longrightarrow> p_state (ptable s x) = RUNNABLE \<Longrightarrow> pass_of (ptable s p) \<le> pass_of (ptable s x)"
    and "mlfq_proc_cnt (mlfqstr s) > 0 \<Longrightarrow> pass_of (ptable s p) \<le> mlfq_pass (mlfqstr s)"
proof -
  obtain h where h: "stride_head (mlfqstr s) = Some h"
    using assms(2) by (cases "stride_head (mlfqstr s)") (auto simp: pick_stride_def)
  then have *: "scan_result (ptable s) (set xs)
     (if mlfq_proc_cnt (mlfqstr s) > 0 then mlfq_pass (mlfqstr s) else pass_of (ptable s h)) None (Some p)"
    using pick_stride_result[OF assms(1)] assms(2) by auto
  show "p \<in> set xs" and "p_state (ptable s p) = RUNNABLE"
    and "x \<in> set xs \<Longrightarrow> p_state (ptable s x) = RUNNABLE \<Longrightarrow> pass_of (ptable s p) \<le> pass_of (ptable s x)"
    and "mlfq_proc_cnt (mlfqstr s) > 0 \<Longrightarrow> pass_of (ptable s p) \<le> mlfq_pass (mlfqstr s)"
    using * unfolding scan_result_def by (auto split: if_splits)
qed

subsection \<open>One turn of the scheduler\<close>

definition dispatch :: "nat \<Rightarrow> 'a proc_state_scheme \<Rightarrow> 'a proc_state_scheme" where
  "dispatch p s = s\<lparr>curproc := Some p, ts_esp0 := p_kstack (ptable s p) + KSTACKSIZE,
     cr3 := V2P (p_pgdir (ptable s p)),
     ptable := (ptable s)(p := (ptable s p)\<lparr>p_state := RUNNING\<rparr>)\<rparr>"

lemma run_proc_eq:
  assumes "sched_inv s" and "p < NPROC" and "p_state (ptable s p) = RUNNABLE"
  shows "run_proc p s = Swtch (dispatch p s)"
proof -
  have "proc_ok p (ptable s p)" using table_ok_proc[OF sched_invD(1)[OF assms(1)] assms(2)] .
  then have "p_thread_count (ptable s p) = 1" "p_kstack (ptable s p) \<noteq> 0" "p_pgdir (ptable s p) \<noteq> 0"
    using assms(3) by (auto simp: proc_ok_def alive_def)
  then show ?thesis by (simp add: run_proc_def switchuvm_def state_defs dispatch_def)
qed

lemma dispatch_inv:
  assumes inv: "sched_inv s" and p: "p < NPROC" "p_state (ptable s p) = RUNNABLE"
  shows "sched_inv (dispatch p s)" and "cur_ok (dispatch p s)"
proof -
  let ?q = "(ptable s p)\<lparr>p_state := RUNNING\<rparr>"
  have "sched_inv (s\<lparr>ptable := (ptable s)(p := ?q), mlfqstr := mlfqstr s\<rparr>)"
    using p by (intro sched_inv_state[OF inv p(1), where st = RUNNING and ch = "p_chan (ptable s p)"
          and k = "p_killed (ptable s p)"]) (auto simp: alive_def active_def)
  then show "sched_inv (dispatch p s)"
    by (rule sched_inv_frame) (simp_all add: dispatch_def)
  show "cur_ok (dispatch p s)" using p by (simp add: cur_ok_def dispatch_def active_def)
qed

lemma scheduler_cases:
  assumes inv: "sched_inv s" and free: "held s = {}" and idx: "searchidx s < NPROC"
  obtains (stride) p where "pick_stride s = Some (Some p)" and "p < NPROC"
      and "p_state (ptable s p) = RUNNABLE"
      and "scheduler s = Swtch (dispatch p (s\<lparr>held := {PtableLock}\<rparr>))"
    | (queue) p where "pick_stride s = Some None" and "p < NPROC"
      and "mlfq_match (pick_level (mlfqstr s)) (ptable s p)"
      and "\<exists>j<NPROC. p = (searchidx s + j) mod NPROC \<and>
        (\<forall>i<j. \<not> mlfq_match (pick_level (mlfqstr s)) (ptable s ((searchidx s + i) mod NPROC)))"
      and "scheduler s = Swtch (dispatch p (s\<lparr>held := {PtableLock}, searchidx := (p + 1) mod NPROC\<rparr>))"
    | (idle) "pick_stride s = Some None"
      and "\<forall>p<NPROC. \<not> mlfq_match (pick_level (mlfqstr s)) (ptable s p)"
      and "scheduler s = Ok () s"
proof -
  obtain xs where xs: "stride_list (ptable s) (mlfqstr s) xs"
    using sched_invD(3)[OF inv] by (auto simp: stride_ok_def)
  obtain r where r: "pick_stride s = Some r" using pick_stride_result[OF xs] by auto
  have pick: "pick_stride (s\<lparr>held := h\<rparr>) = pick_stride s" for h
    by (simp add: pick_stride_def split: option.split)
  have inv': "sched_inv (s\<lparr>held := {PtableLock}\<rparr>)"
    "\<And>i. sched_inv (s\<lparr>held := {PtableLock}, searchidx := i\<rparr>)"
    using inv by (rule sched_inv_frame; simp)+
  show thesis
  proof (cases r)
    case (Some p)
    have p: "p \<in> set xs" "p_state (ptable s p) = RUNNABLE"
      using pick_stride_Some[OF xs] r Some by auto
    then have "p < NPROC" using xs by (auto simp: stride_list_def)
    moreover have "scheduler s = Swtch (dispatch p (s\<lparr>held := {PtableLock}\<rparr>))"
      using free r Some pick p \<open>p < NPROC\<close> run_proc_eq[OF inv'(1)]
      by (simp add: scheduler_def lock_simps)
    ultimately show thesis using stride p r Some by blast
  next
    case None
    obtain f i where f: "mlfq_search NPROC (ptable s) (pick_level (mlfqstr s)) (searchidx s) = (f, i)"
      by fastforce
    show thesis
    proof (cases f)
      case (Some p)
      have first: "\<exists>j<NPROC. p = (searchidx s + j) mod NPROC \<and>
          (\<forall>i<j. \<not> mlfq_match (pick_level (mlfqstr s)) (ptable s ((searchidx s + i) mod NPROC)))"
        using mlfq_search_Some[OF idx] f Some by blast
      from Some mlfq_search_Some[OF idx] f have p: "p < NPROC" "mlfq_match (pick_level (mlfqstr s)) (ptable s p)"
          "i = (p + 1) mod NPROC"
        by (fastforce simp: NPROC_def)+
      then have "p_state (ptable s p) = RUNNABLE" by (simp add: mlfq_match_def)
      then have "scheduler s = Swtch (dispatch p (s\<lparr>held := {PtableLock}, searchidx := i\<rparr>))"
        using free r None f Some pick p run_proc_eq[OF inv'(2)]
        by (simp add: scheduler_def lock_simps)
      with p first None r queue show thesis by blast
    next
      case N: None
      have no: "\<forall>j<NPROC. \<not> mlfq_match (pick_level (mlfqstr s)) (ptable s ((searchidx s + j) mod NPROC))"
        and i: "i = searchidx s"
        using mlfq_search_None[OF idx, of NPROC] f N idx by auto
      have "\<not> mlfq_match (pick_level (mlfqstr s)) (ptable s p)" if "p < NPROC" for p
        using no cyclic_all[OF idx that] by auto
      moreover have "scheduler s = Ok () s"
        using free r None f N pick i by (simp add: scheduler_def lock_simps)
      ultimately show thesis using idle r None by blast
    qed
  qed
qed

lemma qlevels_pos:
  assumes "mlfq_ok tb m" and "l \<le> 2"
  shows "qlevels m l > 0 \<longleftrightarrow> (\<exists>p<NPROC. in_mlfq (tb p) \<and> p_level (tb p) = of_nat l)"
proof -
  have "at_lv l lv \<longleftrightarrow> lv = of_nat l" for lv
  proof -
    have "l = 0 \<or> l = 1 \<or> l = 2" using assms(2) by linarith
    then show ?thesis
      by (elim disjE) (auto simp: at_lv_def level_le_2)
  qed
  then show ?thesis using assms by (simp add: mlfq_ok_def slots_pos)
qed

lemma pick_level_max:
  assumes "table_ok tb np" and ok: "mlfq_ok tb m" and p: "p < NPROC" "in_mlfq (tb p)"
  shows "p_level (tb p) \<le> pick_level m" and "\<exists>r<NPROC. in_mlfq (tb r) \<and> p_level (tb r) = pick_level m"
proof -
  have "p_level (tb p) \<le> 2"
    using table_ok_proc[OF assms(1) p(1)] p(2) by (auto simp: proc_ok_def in_mlfq_def)
  then have lv: "p_level (tb p) = 0 \<or> p_level (tb p) = 1 \<or> p_level (tb p) = 2" by (simp add: level_le_2)
  note q = qlevels_pos[OF ok, of 0] qlevels_pos[OF ok, of 1] qlevels_pos[OF ok, of 2]
  show "p_level (tb p) \<le> pick_level m"
    using lv p q unfolding pick_level_def by (auto simp: level_le_2)
  show "\<exists>r<NPROC. in_mlfq (tb r) \<and> p_level (tb r) = pick_level m"
    using lv p q unfolding pick_level_def by auto
qed

lemma scheduler_inv:
  assumes inv: "sched_inv s" and free: "held s = {}" and idx: "searchidx s < NPROC"
  shows "scheduler s = Ok () s \<or>
    (\<exists>s' p. scheduler s = Swtch s' \<and> sched_inv s' \<and> cur_ok s' \<and> held s' = {PtableLock} \<and>
      searchidx s' < NPROC \<and> curproc s' = Some p \<and> p_state (ptable s p) = RUNNABLE \<and>
      ptable s' = (ptable s)(p := (ptable s p)\<lparr>p_state := RUNNING\<rparr>))"
  using inv free idx
proof (cases rule: scheduler_cases)
  case (stride p)
  have "sched_inv (s\<lparr>held := {PtableLock}\<rparr>)" using inv by (rule sched_inv_frame) simp_all
  from dispatch_inv[OF this stride(2)] stride idx show ?thesis
    by (auto simp: dispatch_def)
next
  case (queue p)
  then have "p_state (ptable s p) = RUNNABLE" by (simp add: mlfq_match_def)
  moreover have "sched_inv (s\<lparr>held := {PtableLock}, searchidx := (p + 1) mod NPROC\<rparr>)"
    using inv by (rule sched_inv_frame) simp_all
  ultimately show ?thesis
    using dispatch_inv[of "s\<lparr>held := {PtableLock}, searchidx := (p + 1) mod NPROC\<rparr>" p] queue
    by (auto simp: dispatch_def NPROC_def)
qed blast

lemma scheduler_resume_eq:
  "PtableLock \<in> held s \<Longrightarrow> scheduler_resume s =
    Ok () (s\<lparr>cr3 := V2P (kpgdir s), curproc := None, held := held s - {PtableLock}\<rparr>)"
  by (simp add: scheduler_resume_def switchkvm_def release_def lock_simps)

subsection \<open>Shares\<close>

lemma c_div_pos: "0 \<le> a \<Longrightarrow> 0 < b \<Longrightarrow> c_div a b = a div b"
  by (cases "a = 0") (auto simp: c_div_def)

lemma round_cast_nonneg: "0 \<le> q \<Longrightarrow> round_cast q = q"
  by (simp add: round_cast_def)

lemma set_mlfq_stride_eq:
  assumes "stride_share (mlfqstr s) \<le> 80"
  shows "set_mlfq_stride s = Ok () (s\<lparr>mlfqstr := (mlfqstr s)\<lparr>mlfq_stride :=
    word_of_int (STRIDE_DIVIDEND div (100 - stride_share (mlfqstr s)))\<rparr>\<rparr>)"
proof -
  have "0 \<le> STRIDE_DIVIDEND div (100 - stride_share (mlfqstr s))"
    using assms by (simp add: STRIDE_DIVIDEND_def pos_imp_zdiv_nonneg_iff)
  then show ?thesis
    using assms
    by (simp add: set_mlfq_stride_def state_defs c_div_pos round_cast_nonneg STRIDE_DIVIDEND_def Let_def)
qed

lemma stride_member_chain:
  "chain (s_link tb) h xs \<Longrightarrow> length xs < n \<Longrightarrow>
   stride_member n tb i h = Some (\<exists>x\<in>set xs. p_pid (tb x) = i)"
proof (induction xs arbitrary: h n)
  case Nil
  then obtain k where "n = Suc k" by (cases n) auto
  with Nil show ?case by simp
next
  case (Cons x xs)
  then obtain k where n: "n = Suc k" "length xs < k" by (cases n) auto
  have "h = Some x" "chain (s_link tb) (p_s_link (tb x)) xs"
    using Cons.prems s_link_def[of tb x] by auto
  with Cons.IH[OF _ n(2)] n show ?case by auto
qed

lemma sum_list_upd:
  fixes f :: "'a \<Rightarrow> int"
  assumes "distinct xs" and "p \<in> set xs"
  shows "(\<Sum>x\<leftarrow>xs. f ((tb(p := q)) x)) = (\<Sum>x\<leftarrow>xs. f (tb x)) - f (tb p) + f q"
proof -
  have "(\<Sum>x\<leftarrow>xs. f (t x)) = f (t p) + (\<Sum>x\<in>set xs - {p}. f (t x))" for t
    using assms by (simp add: sum_list_distinct_conv_sum_set sum.remove)
  from this[of tb] this[of "tb(p := q)"] show ?thesis by simp
qed

text \<open>A stride process of the queue gets a new share.\<close>

lemma stride_list_reshare:
  assumes l: "stride_list tb m xs" and p: "p < NPROC" "stride_proc (tb p)"
    and q: "stride_proc q" "p_s_link q = p_s_link (tb p)" "0 < p_share q"
    and m': "stride_head m' = stride_head m" "stride_share m' = stride_share m + p_share q"
  shows "stride_list (tb(p := q)) m' xs"
proof -
  have pxs: "p \<in> set xs" using l p by (auto simp: stride_list_def)
  have "chain (s_link (tb(p := q))) (stride_head m) xs"
    using l q(2) by (subst chain_cong[of xs _ "s_link tb"]) (auto simp: s_link_def stride_list_def)
  moreover have "(\<Sum>x\<leftarrow>xs. p_share ((tb(p := q)) x)) = (\<Sum>x\<leftarrow>xs. p_share (tb x)) - p_share (tb p) + p_share q"
    using l pxs by (intro sum_list_upd) (auto simp: stride_list_def chain_distinct)
  moreover have "0 < p_share (tb p)" and "(\<Sum>x\<leftarrow>xs. p_share (tb x)) \<le> stride_share m"
    using l pxs by (simp_all add: stride_list_def)
  ultimately have "chain (s_link (tb(p := q))) (stride_head m') xs"
    and "(\<Sum>x\<leftarrow>xs. p_share ((tb(p := q)) x)) \<le> stride_share m'"
    using m' by simp_all
  then show ?thesis
    using l p q m' pxs by (auto simp: stride_list_def)
qed

definition share_proc :: "int \<Rightarrow> mlfq \<Rightarrow> proc \<Rightarrow> proc" where
  "share_proc share m q = q\<lparr>
     p_s_link := (if p_level q = NOLEVEL then p_s_link q else stride_head m),
     p_share := share, p_stride := STRIDE_DIVIDEND div share, p_level := NOLEVEL, p_timequant := 5\<rparr>"

definition share_mlfq :: "int \<Rightarrow> nat \<Rightarrow> proc \<Rightarrow> mlfq \<Rightarrow> mlfq" where
  "share_mlfq share p q m =
     (if p_level q = NOLEVEL then m else (mlfq_out (p_level q) m)\<lparr>stride_head := Some p\<rparr>)\<lparr>
       stride_share := stride_share m + share,
       mlfq_stride := word_of_int (STRIDE_DIVIDEND div (100 - (stride_share m + share)))\<rparr>"

lemma share_proc_same: "p_s_link q = None \<Longrightarrow> stride_head m = None \<Longrightarrow> p_level q \<noteq> NOLEVEL \<Longrightarrow>
  share_proc share m q = q\<lparr>p_share := share, p_stride := STRIDE_DIVIDEND div share, p_level := NOLEVEL,
    p_timequant := 5\<rparr>"
  by (cases q) (simp add: share_proc_def)

lemma share_proc_member: "p_level q = NOLEVEL \<Longrightarrow>
  share_proc share m q = q\<lparr>p_share := share, p_stride := STRIDE_DIVIDEND div share, p_level := NOLEVEL,
    p_timequant := 5\<rparr>"
  by (cases q) (simp add: share_proc_def)

lemma set_cpu_share_eq:
  assumes inv: "sched_inv s" and cur: "cur_ok s" "curproc s = Some p"
    and free: "MlfqLock \<notin> held s" "PtableLock \<notin> held s"
    and share: "0 < share" "stride_share (mlfqstr s) + share \<le> 80"
  shows "set_cpu_share share s = Ok 0 (s\<lparr>
    ptable := (ptable s)(p := share_proc share (mlfqstr s) (ptable s p)),
    mlfqstr := share_mlfq share p (ptable s p) (mlfqstr s)\<rparr>)"
proof -
  have p: "p < NPROC" "active (ptable s p)" using cur by (auto simp: cur_ok_def)
  note ok = table_ok_proc[OF sched_invD(1)[OF inv] p(1)]
  obtain xs where xs: "stride_list (ptable s) (mlfqstr s) xs"
    using sched_invD(3)[OF inv] by (auto simp: stride_ok_def)
  have mem: "(\<exists>x\<in>set xs. p_pid (ptable s x) = p_pid (ptable s p)) \<longleftrightarrow> p_level (ptable s p) = NOLEVEL"
  proof -
    have "x = p" if "x \<in> set xs" "p_pid (ptable s x) = p_pid (ptable s p)" for x
    proof -
      have "x < NPROC" "alive (ptable s x)"
        using that xs by (auto simp: stride_list_def stride_proc_def alive_def)
      then show ?thesis
        using sched_invD(1)[OF inv] p active_alive[OF p(2)] that(2) by (auto simp: table_ok_def)
    qed
    then show ?thesis
      using xs p by (auto simp: stride_list_def stride_proc_def active_def)
  qed
  have walk: "stride_member WALK (ptable s) (p_pid (ptable s p)) (stride_head (mlfqstr s)) =
      Some (p_level (ptable s p) = NOLEVEL)"
    using stride_member_chain[of "ptable s" "stride_head (mlfqstr s)" xs WALK "p_pid (ptable s p)"]
      xs stride_list_short[OF xs] mem by (simp add: stride_list_def)
  have div: "round_cast (c_div STRIDE_DIVIDEND share) = STRIDE_DIVIDEND div share"
    using share by (simp add: c_div_pos round_cast_nonneg STRIDE_DIVIDEND_def pos_imp_zdiv_nonneg_iff)
  have link: "p_level (ptable s p) \<noteq> NOLEVEL \<Longrightarrow> p_s_link (ptable s p) = None"
    using ok active_alive[OF p(2)] by (simp add: proc_ok_def)
  have empty: "stride_head (mlfqstr s) = None \<Longrightarrow> p_level (ptable s p) \<noteq> NOLEVEL"
    using walk by (auto simp: WALK_def)
  have lk: "insert MlfqLock (insert PtableLock (held s)) - {PtableLock} - {MlfqLock} = held s"
    using free by auto
  show ?thesis
  proof (cases "p_level (ptable s p) = NOLEVEL")
    case True
    then obtain h where "stride_head (mlfqstr s) = Some h" using empty by (cases "stride_head (mlfqstr s)") auto
    with True free share cur walk div lk show ?thesis
      by (simp add: set_cpu_share_def lock_simps with_myproc_def myproc_def state_defs set_mlfq_stride_eq
          share_proc_member share_mlfq_def Let_def)
  next
    case False
    note facts = False free share cur walk div link lk
    note defs = set_cpu_share_def lock_simps with_myproc_def myproc_def state_defs set_mlfq_stride_eq
      share_mlfq_def Let_def mlfqrm_out strideadd_def
    show ?thesis
    proof (cases "stride_head (mlfqstr s)")
      case None
      with facts show ?thesis by (simp add: defs share_proc_same)
    next
      case (Some h)
      with facts show ?thesis by (simp add: defs share_proc_def)
    qed
  qed
qed

lemma mlfq_ok_fields:
  "mlfq_ok tb m \<Longrightarrow> qlevels m' = qlevels m \<Longrightarrow> mlfq_proc_cnt m' = mlfq_proc_cnt m \<Longrightarrow> mlfq_ok tb m'"
  by (simp add: mlfq_ok_def)

lemma set_cpu_share_inv:
  assumes inv: "sched_inv s" and p: "p < NPROC" "active (ptable s p)"
    and share: "0 < share" "stride_share (mlfqstr s) + share \<le> 80"
  shows "sched_inv (s\<lparr>ptable := (ptable s)(p := share_proc share (mlfqstr s) (ptable s p)),
    mlfqstr := share_mlfq share p (ptable s p) (mlfqstr s)\<rparr>)"
proof -
  let ?q = "share_proc share (mlfqstr s) (ptable s p)"
  let ?m = "share_mlfq share p (ptable s p) (mlfqstr s)"
  note ok = table_ok_proc[OF sched_invD(1)[OF inv] p(1)]
  have q: "active ?q" "p_level ?q = NOLEVEL" "p_pid ?q = p_pid (ptable s p)" "p_share ?q = share"
    using p by (auto simp: share_proc_def active_def)
  have "proc_ok p ?q"
    using ok active_alive[OF p(2)] by (auto simp: proc_ok_def share_proc_def alive_def)
  then have "table_ok ((ptable s)(p := ?q)) (nextpid s)"
    using sched_invD(1)[OF inv] q active_alive[OF p(2)] by (intro table_ok_upd) auto
  moreover have "mlfq_ok ((ptable s)(p := ?q)) ?m"
  proof (cases "p_level (ptable s p) = NOLEVEL")
    case True
    then show ?thesis
      using q by (intro mlfq_ok_same[OF sched_invD(2)[OF inv] p(1)]) (auto simp: in_mlfq_def share_mlfq_def)
  next
    case False
    have "mlfq_ok ((ptable s)(p := ?q)) (mlfq_out (p_level (ptable s p)) (mlfqstr s))"
      using False p q by (intro mlfq_ok_leave[OF sched_invD(2)[OF inv] p(1)]) (auto simp: in_mlfq_def)
    then show ?thesis by (rule mlfq_ok_fields) (use False in \<open>simp_all add: share_mlfq_def\<close>)
  qed
  moreover have "stride_ok ((ptable s)(p := ?q)) ?m"
  proof -
    obtain xs where xs: "stride_list (ptable s) (mlfqstr s) xs"
      using sched_invD(3)[OF inv] by (auto simp: stride_ok_def)
    have sq: "stride_proc ?q" using q by (auto simp: stride_proc_def active_def)
    show ?thesis
    proof (cases "p_level (ptable s p) = NOLEVEL")
      case True
      then have "stride_proc (ptable s p)" using p by (auto simp: stride_proc_def active_def)
      with stride_list_reshare[OF xs p(1) _ sq, of ?m] True share show ?thesis
        by (auto simp: stride_ok_def share_mlfq_def share_proc_def)
    next
      case False
      then have "\<not> stride_proc (ptable s p)" by (simp add: stride_proc_def)
      with stride_list_add[OF xs p(1) _ sq, of ?m] False share show ?thesis
        by (auto simp: stride_ok_def share_mlfq_def share_proc_def)
    qed
  qed
  ultimately show ?thesis by (simp add: sched_inv_def)
qed

lemma set_cpu_share_error:
  assumes "MlfqLock \<notin> held s" and "PtableLock \<notin> held s"
    and "share \<le> 0 \<or> stride_share (mlfqstr s) + share > 80"
  shows "set_cpu_share share s = Ok (-1) (s\<lparr>held := insert MlfqLock (insert PtableLock (held s))\<rparr>)"
  using assms by (auto simp: set_cpu_share_def lock_simps)

end
