(* ===== verification/Xv6_Syscall.thy ===== *)
theory Xv6_Syscall
  imports Xv6_Console
begin

section \<open>System call arguments and process calls\<close>

text \<open>
  The argument fetching of \<^verbatim>\<open>syscall.c\<close>, and the calls of \<^verbatim>\<open>sysproc.c\<close>, \<^verbatim>\<open>syslwp.c\<close>, \<^verbatim>\<open>syssemaphore.c\<close>,
  \<^verbatim>\<open>sysrwlock.c\<close> and \<^verbatim>\<open>prac_syscall.c\<close>. Where the code stores through a pointer and returns 0 or -1, the
  definition returns \<open>Some\<close> value or \<open>None\<close>.
\<close>

subsection \<open>Arguments\<close>

definition fetchint :: "nat \<Rightarrow> 'a proc_state_scheme \<Rightarrow> ('a proc_state_scheme, int option) res" where
  "fetchint addr s =
     with_myproc (\<lambda>p s.
       let sz = p_sz (ptable s p)
       in if addr \<ge> sz \<or> (addr + 4) mod 2 ^ 32 > sz then Ok None s
          else case vload32 s addr of
                 None \<Rightarrow> Fail (Panic ''trap'')
               | Some w \<Rightarrow> Ok (Some (sint w)) s) s"

text \<open>The scan of \<^verbatim>\<open>fetchstr\<close> over the \<open>k\<close> bytes up to the end of the address space.\<close>

fun fetchstr_loop :: "nat \<Rightarrow> nat \<Rightarrow> 'a proc_state_scheme \<Rightarrow> ('a proc_state_scheme, string option) res" where
  "fetchstr_loop a 0 s = Ok None s"
| "fetchstr_loop a (Suc k) s =
     (case vtrans s a of
        None \<Rightarrow> Fail (Panic ''trap'')
      | Some x \<Rightarrow>
          if mem s x = 0 then Ok (Some []) s
          else bnd (fetchstr_loop (a + 1) k s) (\<lambda>r s.
               Ok (map_option (\<lambda>t. char_of (unat (mem s x)) # t) r) s))"

definition fetchstr :: "nat \<Rightarrow> 'a proc_state_scheme \<Rightarrow> ('a proc_state_scheme, string option) res" where
  "fetchstr addr s =
     with_myproc (\<lambda>p s.
       let sz = p_sz (ptable s p)
       in if addr \<ge> sz then Ok None s else fetchstr_loop addr (sz - addr) s) s"

definition argint :: "nat \<Rightarrow> 'a proc_state_scheme \<Rightarrow> ('a proc_state_scheme, int option) res" where
  "argint n s =
     with_myproc (\<lambda>p s.
       fetchint ((unat (tf_esp (p_tf (ptable s p))) + 4 + 4 * n) mod 2 ^ 32) s) s"

definition argptr :: "nat \<Rightarrow> int \<Rightarrow> 'a proc_state_scheme \<Rightarrow> ('a proc_state_scheme, nat option) res" where
  "argptr n sz s =
     with_myproc (\<lambda>p s.
       bnd (argint n s) (\<lambda>r s.
       case r of
         None \<Rightarrow> Ok None s
       | Some i \<Rightarrow>
           let a = u32_of_int i; psz = p_sz (ptable s p)
           in if sz < 0 \<or> a \<ge> psz \<or> u32_of_int (int a + sz) > psz then Ok None s
              else Ok (Some a) s)) s"

definition argstr :: "nat \<Rightarrow> 'a proc_state_scheme \<Rightarrow> ('a proc_state_scheme, string option) res" where
  "argstr n s =
     bnd (argint n s) (\<lambda>r s.
     case r of None \<Rightarrow> Ok None s | Some i \<Rightarrow> fetchstr (u32_of_int i) s)"

text \<open>The pattern \<^verbatim>\<open>if(arg...(..) < 0) return -1;\<close>.\<close>

definition arg_or_fail ::
  "('s, 'v option) res \<Rightarrow> ('v \<Rightarrow> 's \<Rightarrow> ('s, int) res) \<Rightarrow> ('s, int) res" where
  "arg_or_fail r f = bnd r (\<lambda>v s. case v of None \<Rightarrow> Ok (-1) s | Some x \<Rightarrow> f x s)"

subsection \<open>Process calls\<close>

definition sys_fork :: "'a file_state_scheme \<Rightarrow> ('a file_state_scheme, int) res" where
  "sys_fork s = fork s"

definition sys_exit :: "'a file_state_scheme \<Rightarrow> ('a file_state_scheme, int) res" where
  "sys_exit s = bnd (exit s) (\<lambda>_ s. Ok 0 s)"

definition sys_wait :: "'a proc_state_scheme \<Rightarrow> ('a proc_state_scheme, int) res" where
  "sys_wait s = wait s"

definition sys_kill :: "'a proc_state_scheme \<Rightarrow> ('a proc_state_scheme, int) res" where
  "sys_kill s = arg_or_fail (argint 0 s) (\<lambda>pid s. kill pid s)"

definition sys_getpid :: "'a proc_state_scheme \<Rightarrow> ('a proc_state_scheme, int) res" where
  "sys_getpid s = with_myproc (\<lambda>p s. Ok (p_pid (ptable s p)) s) s"

definition sys_getppid :: "'a proc_state_scheme \<Rightarrow> ('a proc_state_scheme, int) res" where
  "sys_getppid s =
     with_myproc (\<lambda>p s.
       case p_parent (ptable s p) of
         None \<Rightarrow> Fail (UB ''parent is NULL'')
       | Some q \<Rightarrow> Ok (p_pid (ptable s q)) s) s"

definition sys_sbrk :: "'a proc_state_scheme \<Rightarrow> ('a proc_state_scheme, int) res" where
  "sys_sbrk s =
     arg_or_fail (argint 0 s) (\<lambda>n s.
     with_myproc (\<lambda>p s.
       let addr = int (p_sz (ptable s p))
       in bnd (growproc n s) (\<lambda>r s.
          if r < 0 then Ok (-1) s else Ok addr s)) s)"

definition sys_sleep_loop :: "int \<Rightarrow> u32 \<Rightarrow> 'a proc_state_scheme \<Rightarrow> ('a proc_state_scheme, int) res" where
  "sys_sleep_loop n ticks0 s =
     (if ticks s - ticks0 < word_of_int n then
        with_myproc (\<lambda>p s.
          if p_killed (ptable s p) then bnd (release TicksLock s) (\<lambda>_ s. Ok (-1) s)
          else sleep ChanTicks TicksLock s) s
      else bnd (release TicksLock s) (\<lambda>_ s. Ok 0 s))"

definition sys_sleep :: "'a proc_state_scheme \<Rightarrow> ('a proc_state_scheme, int) res" where
  "sys_sleep s =
     arg_or_fail (argint 0 s) (\<lambda>n s.
     bnd (acquire TicksLock s) (\<lambda>_ s.
     sys_sleep_loop n (ticks s) s))"

definition sys_sleep_resume :: "nat \<Rightarrow> int \<Rightarrow> u32 \<Rightarrow> 'a proc_state_scheme \<Rightarrow> ('a proc_state_scheme, int) res" where
  "sys_sleep_resume p n ticks0 s =
     bnd (sleep_resume p TicksLock s) (\<lambda>_ s. sys_sleep_loop n ticks0 s)"

definition sys_uptime :: "'a proc_state_scheme \<Rightarrow> ('a proc_state_scheme, int) res" where
  "sys_uptime s =
     bnd (acquire TicksLock s) (\<lambda>_ s.
     let xticks = ticks s
     in bnd (release TicksLock s) (\<lambda>_ s. Ok (sint xticks) s))"

definition sys_yield :: "'a proc_state_scheme \<Rightarrow> ('a proc_state_scheme, int) res" where
  "sys_yield s = yield s"

definition sys_getlev :: "'a proc_state_scheme \<Rightarrow> ('a proc_state_scheme, int) res" where
  "sys_getlev s = getlev s"

definition sys_set_cpu_share :: "'a proc_state_scheme \<Rightarrow> ('a proc_state_scheme, int) res" where
  "sys_set_cpu_share s = arg_or_fail (argint 0 s) (\<lambda>share s. set_cpu_share share s)"

definition my_syscall :: "string \<Rightarrow> 'a cons_state_scheme \<Rightarrow> ('a cons_state_scheme, int) res" where
  "my_syscall str s =
     bnd (cprintf (''%s'' @ [CHR 0x0A]) [Str (Some str)] s) (\<lambda>_ s. Ok (sint (0xABCDABCD :: u32)) s)"

definition sys_my_syscall :: "'a cons_state_scheme \<Rightarrow> ('a cons_state_scheme, int) res" where
  "sys_my_syscall s = arg_or_fail (argstr 0 s) (\<lambda>str s. my_syscall str s)"

subsection \<open>Thread calls\<close>

definition sys_thread_create :: "'a file_state_scheme \<Rightarrow> ('a file_state_scheme, int) res" where
  "sys_thread_create s =
     arg_or_fail (argptr 0 4 s) (\<lambda>thread s.
     arg_or_fail (argptr 1 4 s) (\<lambda>start_routine s.
     arg_or_fail (argptr 2 4 s) (\<lambda>arg s.
     thread_create thread start_routine (of_nat arg) s)))"

definition sys_thread_exit :: "'a proc_state_scheme \<Rightarrow> ('a proc_state_scheme, int) res" where
  "sys_thread_exit s =
     arg_or_fail (argptr 0 4 s) (\<lambda>retval s.
     bnd (thread_exit (int retval) s) (\<lambda>_ s. Ok 0 s))"

definition stack_word :: "nat \<Rightarrow> 'a proc_state_scheme \<Rightarrow> ('a proc_state_scheme, u32) res" where
  "stack_word a s = (case vload32 s a of None \<Rightarrow> Fail (Panic ''trap'') | Some w \<Rightarrow> Ok w s)"

definition sys_thread_join :: "'a proc_state_scheme \<Rightarrow> ('a proc_state_scheme, int) res" where
  "sys_thread_join s =
     with_myproc (\<lambda>p s.
       let us = p_ustack (ptable s p);
           addr = (unat (tf_esp (p_tf (ptable s p))) + 4) mod 2 ^ 32;
           read_sz = 8
       in if addr \<ge> us \<or> (addr + read_sz) mod 2 ^ 32 > us then Ok (-1) s
          else bnd (stack_word addr s) (\<lambda>tid s.
               bnd (stack_word (addr + 4) s) (\<lambda>gid s.
               let addr = addr + read_sz; read_sz = 4
               in if addr \<ge> us \<or> (addr + read_sz) mod 2 ^ 32 > us then Ok (-1) s
                  else bnd (stack_word addr s) (\<lambda>rv s.
                       thread_join (sint tid) (sint gid) (unat rv) s)))) s"

subsection \<open>Semaphore and lock calls\<close>

text \<open>The argument of the semaphore calls is used as an address without any check.\<close>

definition sys_xem_init :: "'a sem_state_scheme \<Rightarrow> ('a sem_state_scheme, int) res" where
  "sys_xem_init s = arg_or_fail (argint 0 s) (\<lambda>a s. xem_init (u32_of_int a) s)"

definition sys_xem_wait :: "'a sem_state_scheme \<Rightarrow> ('a sem_state_scheme, int) res" where
  "sys_xem_wait s = arg_or_fail (argint 0 s) (\<lambda>a s. xem_wait (u32_of_int a) s)"

definition sys_xem_post :: "'a sem_state_scheme \<Rightarrow> ('a sem_state_scheme, int) res" where
  "sys_xem_post s = arg_or_fail (argint 0 s) (\<lambda>a s. xem_post (u32_of_int a) s)"

definition sys_rwlock_init :: "'a sem_state_scheme \<Rightarrow> ('a sem_state_scheme, int) res" where
  "sys_rwlock_init s = arg_or_fail (argptr 0 4 s) (\<lambda>r s. rwlock_init r s)"

definition sys_rwlock_acquire_readlock :: "'a sem_state_scheme \<Rightarrow> ('a sem_state_scheme, int) res" where
  "sys_rwlock_acquire_readlock s = arg_or_fail (argptr 0 4 s) (\<lambda>r s. rwlock_acquire_readlock r s)"

definition sys_rwlock_acquire_writelock :: "'a sem_state_scheme \<Rightarrow> ('a sem_state_scheme, int) res" where
  "sys_rwlock_acquire_writelock s = arg_or_fail (argptr 0 4 s) (\<lambda>r s. rwlock_acquire_writelock r s)"

definition sys_rwlock_release_readlock :: "'a sem_state_scheme \<Rightarrow> ('a sem_state_scheme, int) res" where
  "sys_rwlock_release_readlock s = arg_or_fail (argptr 0 4 s) (\<lambda>r s. rwlock_release_readlock r s)"

definition sys_rwlock_release_writelock :: "'a sem_state_scheme \<Rightarrow> ('a sem_state_scheme, int) res" where
  "sys_rwlock_release_writelock s = arg_or_fail (argptr 0 4 s) (\<lambda>r s. rwlock_release_writelock r s)"

end
