(* ===== verification/Xv6_Sysfile.thy ===== *)
theory Xv6_Sysfile
  imports Xv6_Syscall
begin

unbundle bit_operations_syntax

section \<open>File system calls\<close>

text \<open>\<^verbatim>\<open>sysfile.c\<close> without \<^verbatim>\<open>sys_exec\<close>, which is with \<^verbatim>\<open>exec.c\<close>. \<open>dsw\<close> is the device table.\<close>

subsection \<open>Descriptors\<close>

definition argfd :: "nat \<Rightarrow> 'a file_state_scheme \<Rightarrow> ('a file_state_scheme, (nat \<times> nat) option) res" where
  "argfd n s =
     bnd (argint n s) (\<lambda>r s.
     case r of
       None \<Rightarrow> Ok None s
     | Some fd \<Rightarrow>
         if fd < 0 \<or> fd \<ge> int NOFILE then Ok None s
         else with_myproc (\<lambda>p s.
                case p_ofile (ptable s p) (nat fd) of
                  None \<Rightarrow> Ok None s
                | Some f \<Rightarrow> Ok (Some (nat fd, f)) s) s)"

definition fdalloc :: "nat \<Rightarrow> 'a file_state_scheme \<Rightarrow> ('a file_state_scheme, int) res" where
  "fdalloc f s =
     with_myproc (\<lambda>p s.
       case List.find (\<lambda>fd. p_ofile (ptable s p) fd = None) [0..<NOFILE] of
         Some fd \<Rightarrow> Ok (int fd) (upd_proc p (\<lambda>q. q\<lparr>p_ofile := (p_ofile q)(fd := Some f)\<rparr>) s)
       | None \<Rightarrow> Ok (-1) s) s"

definition sys_dup :: "'a file_state_scheme \<Rightarrow> ('a file_state_scheme, int) res" where
  "sys_dup s =
     arg_or_fail (argfd 0 s) (\<lambda>(_, f) s.
     bnd (fdalloc f s) (\<lambda>fd s.
     if fd < 0 then Ok (-1) s
     else bnd (filedup f s) (\<lambda>_ s. Ok fd s)))"

definition sys_read :: "'a file_state_scheme devsw \<Rightarrow> 'a file_state_scheme \<Rightarrow> ('a file_state_scheme, int) res" where
  "sys_read dsw s =
     arg_or_fail (argfd 0 s) (\<lambda>(_, f) s.
     arg_or_fail (argint 2 s) (\<lambda>n s.
     arg_or_fail (argptr 1 n s) (\<lambda>p s.
     fileread dsw f p n s)))"

definition sys_write :: "'a file_state_scheme devsw \<Rightarrow> 'a file_state_scheme \<Rightarrow> ('a file_state_scheme, int) res" where
  "sys_write dsw s =
     arg_or_fail (argfd 0 s) (\<lambda>(_, f) s.
     arg_or_fail (argint 2 s) (\<lambda>n s.
     arg_or_fail (argptr 1 n s) (\<lambda>p s.
     filewrite dsw f p n s)))"

definition sys_pread :: "'a file_state_scheme devsw \<Rightarrow> 'a file_state_scheme \<Rightarrow> ('a file_state_scheme, int) res" where
  "sys_pread dsw s =
     arg_or_fail (argfd 0 s) (\<lambda>(_, f) s.
     arg_or_fail (argint 2 s) (\<lambda>n s.
     arg_or_fail (argptr 1 n s) (\<lambda>p s.
     arg_or_fail (argint 3 s) (\<lambda>off s.
     pos_read dsw f p n off s))))"

definition sys_pwrite :: "'a file_state_scheme devsw \<Rightarrow> 'a file_state_scheme \<Rightarrow> ('a file_state_scheme, int) res" where
  "sys_pwrite dsw s =
     arg_or_fail (argfd 0 s) (\<lambda>(_, f) s.
     arg_or_fail (argint 2 s) (\<lambda>n s.
     arg_or_fail (argptr 1 n s) (\<lambda>p s.
     arg_or_fail (argint 3 s) (\<lambda>off s.
     pos_write dsw f p n off s))))"

definition sys_close :: "'a file_state_scheme \<Rightarrow> ('a file_state_scheme, int) res" where
  "sys_close s =
     arg_or_fail (argfd 0 s) (\<lambda>(fd, f) s.
     with_myproc (\<lambda>p s.
       let s = upd_proc p (\<lambda>q. q\<lparr>p_ofile := (p_ofile q)(fd := None)\<rparr>) s
       in bnd (fileclose f s) (\<lambda>_ s. Ok 0 s)) s)"

text \<open>\<^verbatim>\<open>struct stat\<close> in memory: type (16 bits, padded), device, inode, links (16 bits, padded), size.\<close>

definition put_stat :: "stat \<Rightarrow> bytes \<Rightarrow> bytes" where
  "put_stat st d =
     (let d = put16 d 0 (word_of_int (st_type st));
          d = put32 d 4 (of_nat (st_dev st));
          d = put32 d 8 (of_nat (st_ino st));
          d = put16 d 12 (word_of_int (st_nlink st))
      in put32 d 16 (of_nat (st_size st)))"

definition sys_fstat :: "'a file_state_scheme \<Rightarrow> ('a file_state_scheme, int) res" where
  "sys_fstat s =
     arg_or_fail (argfd 0 s) (\<lambda>(_, f) s.
     arg_or_fail (argptr 1 20 s) (\<lambda>st s.
     bnd (filestat f s) (\<lambda>r s.
     case r of
       None \<Rightarrow> Ok (-1) s
     | Some x \<Rightarrow>
         (case vload s st 20 of
            None \<Rightarrow> Fail (Panic ''trap'')
          | Some old \<Rightarrow> bnd (vstore st (put_stat x (of_list old)) 0 20 s) (\<lambda>_ s. Ok 0 s)))))"

subsection \<open>Links\<close>

definition add_nlink :: "nat \<Rightarrow> int \<Rightarrow> 'a fs_state_scheme \<Rightarrow> ('a fs_state_scheme, unit) res" where
  "add_nlink ip d s = iupdate ip (upd_inode ip (\<lambda>x. x\<lparr>i_nlink := i_nlink x + d\<rparr>) s)"

definition link_bad :: "nat \<Rightarrow> 'a fs_state_scheme \<Rightarrow> ('a fs_state_scheme, int) res" where
  "link_bad ip s =
     bnd (ilock (Some ip) s) (\<lambda>_ s.
     bnd (add_nlink ip (-1) s) (\<lambda>_ s.
     bnd (iunlockput ip s) (\<lambda>_ s.
     bnd (end_op s) (\<lambda>_ s. Ok (-1) s))))"

definition sys_link :: "'a fs_state_scheme devsw \<Rightarrow> 'a fs_state_scheme \<Rightarrow> ('a fs_state_scheme, int) res" where
  "sys_link dsw s =
     arg_or_fail (argstr 0 s) (\<lambda>old s.
     arg_or_fail (argstr 1 s) (\<lambda>new s.
     bnd (begin_op s) (\<lambda>_ s.
     bnd (namei dsw old s) (\<lambda>ipo s.
     case ipo of
       None \<Rightarrow> bnd (end_op s) (\<lambda>_ s. Ok (-1) s)
     | Some ip \<Rightarrow>
         bnd (ilock (Some ip) s) (\<lambda>_ s.
         if i_type (icache s ip) = T_DIR then
           bnd (iunlockput ip s) (\<lambda>_ s. bnd (end_op s) (\<lambda>_ s. Ok (-1) s))
         else
           bnd (add_nlink ip 1 s) (\<lambda>_ s.
           bnd (iunlock (Some ip) s) (\<lambda>_ s.
           bnd (nameiparent dsw new s) (\<lambda>(dpo, nm) s.
           case dpo of
             None \<Rightarrow> link_bad ip s
           | Some dp \<Rightarrow>
               bnd (ilock (Some dp) s) (\<lambda>_ s.
               bnd (if i_dev (icache s dp) \<noteq> i_dev (icache s ip) then Ok (-1) s
                    else dirlink dsw dp nm (i_inum (icache s ip)) s) (\<lambda>r s.
               if r < 0 then bnd (iunlockput dp s) (\<lambda>_ s. link_bad ip s)
               else
                 bnd (iunlockput dp s) (\<lambda>_ s.
                 bnd (iput ip s) (\<lambda>_ s.
                 bnd (end_op s) (\<lambda>_ s. Ok 0 s)))))))))))))"

fun isdirempty_loop ::
  "'a fs_state_scheme devsw \<Rightarrow> nat \<Rightarrow> nat list \<Rightarrow> 'a fs_state_scheme \<Rightarrow> ('a fs_state_scheme, bool) res" where
  "isdirempty_loop dsw dp [] s = Ok True s"
| "isdirempty_loop dsw dp (off # offs) s =
     bnd (readi dsw dp ToVar off DIRENTSZ s) (\<lambda>(r, de) s.
     if r \<noteq> int DIRENTSZ then Fail (Panic ''isdirempty: readi'')
     else if get16 de 0 \<noteq> 0 then Ok False s
     else isdirempty_loop dsw dp offs s)"

definition isdirempty ::
  "'a fs_state_scheme devsw \<Rightarrow> nat \<Rightarrow> 'a fs_state_scheme \<Rightarrow> ('a fs_state_scheme, bool) res" where
  "isdirempty dsw dp s = isdirempty_loop dsw dp (drop 2 (dir_offs (i_size (icache s dp)))) s"

definition unlink_bad :: "nat \<Rightarrow> 'a fs_state_scheme \<Rightarrow> ('a fs_state_scheme, int) res" where
  "unlink_bad dp s = bnd (iunlockput dp s) (\<lambda>_ s. bnd (end_op s) (\<lambda>_ s. Ok (-1) s))"

text \<open>The part of \<^verbatim>\<open>sys_unlink\<close> after the entry for \<open>ip\<close> was found at offset \<open>off\<close> of \<open>dp\<close>.\<close>

definition unlink_entry ::
  "'a fs_state_scheme devsw \<Rightarrow> nat \<Rightarrow> nat \<Rightarrow> nat \<Rightarrow> 'a fs_state_scheme \<Rightarrow> ('a fs_state_scheme, int) res" where
  "unlink_entry dsw dp ip off s =
     bnd (ilock (Some ip) s) (\<lambda>_ s.
     if i_nlink (icache s ip) < 1 then Fail (Panic ''unlink: nlink < 1'')
     else
       bnd (if i_type (icache s ip) = T_DIR then isdirempty dsw ip s else Ok True s) (\<lambda>e s.
       if \<not> e then bnd (iunlockput ip s) (\<lambda>_ s. unlink_bad dp s)
       else
         bnd (writei dsw dp (FromVar (\<lambda>_. 0)) off DIRENTSZ s) (\<lambda>r s.
         if r \<noteq> int DIRENTSZ then Fail (Panic ''unlink: writei'')
         else
           bnd (if i_type (icache s ip) = T_DIR then add_nlink dp (-1) s else Ok () s) (\<lambda>_ s.
           bnd (iunlockput dp s) (\<lambda>_ s.
           bnd (add_nlink ip (-1) s) (\<lambda>_ s.
           bnd (iunlockput ip s) (\<lambda>_ s.
           bnd (end_op s) (\<lambda>_ s. Ok 0 s))))))))"

definition sys_unlink :: "'a fs_state_scheme devsw \<Rightarrow> 'a fs_state_scheme \<Rightarrow> ('a fs_state_scheme, int) res" where
  "sys_unlink dsw s =
     arg_or_fail (argstr 0 s) (\<lambda>path s.
     bnd (begin_op s) (\<lambda>_ s.
     bnd (nameiparent dsw path s) (\<lambda>(dpo, nm) s.
     case dpo of
       None \<Rightarrow> bnd (end_op s) (\<lambda>_ s. Ok (-1) s)
     | Some dp \<Rightarrow>
         bnd (ilock (Some dp) s) (\<lambda>_ s.
         if namecmp nm ''.'' = 0 \<or> namecmp nm ''..'' = 0 then unlink_bad dp s
         else
           bnd (dirlookup dsw dp nm s) (\<lambda>r s.
           case r of
             None \<Rightarrow> unlink_bad dp s
           | Some (ip, off) \<Rightarrow> unlink_entry dsw dp ip off s)))))"

subsection \<open>Creating and opening\<close>

definition create ::
  "'a fs_state_scheme devsw \<Rightarrow> string \<Rightarrow> int \<Rightarrow> int \<Rightarrow> int \<Rightarrow> 'a fs_state_scheme \<Rightarrow>
   ('a fs_state_scheme, nat option) res" where
  "create dsw path type major minor s =
     bnd (nameiparent dsw path s) (\<lambda>(dpo, nm) s.
     case dpo of
       None \<Rightarrow> Ok None s
     | Some dp \<Rightarrow>
         bnd (ilock (Some dp) s) (\<lambda>_ s.
         bnd (dirlookup dsw dp nm s) (\<lambda>r s.
         case r of
           Some (ip, off) \<Rightarrow>
             bnd (iunlockput dp s) (\<lambda>_ s.
             bnd (ilock (Some ip) s) (\<lambda>_ s.
             if type = T_FILE \<and> i_type (icache s ip) = T_FILE then Ok (Some ip) s
             else bnd (iunlockput ip s) (\<lambda>_ s. Ok None s)))
         | None \<Rightarrow>
             bnd (ialloc (i_dev (icache s dp)) type s) (\<lambda>ip s.
             bnd (ilock (Some ip) s) (\<lambda>_ s.
             let s = upd_inode ip (\<lambda>x. x\<lparr>i_major := major, i_minor := minor, i_nlink := 1\<rparr>) s
             in bnd (iupdate ip s) (\<lambda>_ s.
                bnd (if type = T_DIR then
                       bnd (add_nlink dp 1 s) (\<lambda>_ s.
                       bnd (dirlink dsw ip ''.'' (i_inum (icache s ip)) s) (\<lambda>r s.
                       bnd (if r < 0 then Ok r s
                            else dirlink dsw ip ''..'' (i_inum (icache s dp)) s) (\<lambda>r s.
                       if r < 0 then Fail (Panic ''create dots'') else Ok () s)))
                     else Ok () s) (\<lambda>_ s.
                bnd (dirlink dsw dp nm (i_inum (icache s ip)) s) (\<lambda>r s.
                if r < 0 then Fail (Panic ''create: dirlink'')
                else bnd (iunlockput dp s) (\<lambda>_ s. Ok (Some ip) s)))))))))"

definition O_WRONLY :: u32 where "O_WRONLY = 1"
definition O_RDWR :: u32 where "O_RDWR = 2"
definition O_CREATE :: u32 where "O_CREATE = 0x200"

text \<open>The part of \<^verbatim>\<open>sys_open\<close> after the inode \<open>ip\<close> is found and locked.\<close>

definition open_inode :: "nat \<Rightarrow> u32 \<Rightarrow> 'a file_state_scheme \<Rightarrow> ('a file_state_scheme, int) res" where
  "open_inode ip omode s =
     bnd (filealloc s) (\<lambda>fo s.
     bnd (case fo of None \<Rightarrow> Ok (-1) s | Some f \<Rightarrow> fdalloc f s) (\<lambda>fd s.
     if fd < 0 then
       bnd (close_opt fo s) (\<lambda>_ s.
       bnd (iunlockput ip s) (\<lambda>_ s.
       bnd (end_op s) (\<lambda>_ s. Ok (-1) s)))
     else
       bnd (iunlock (Some ip) s) (\<lambda>_ s.
       bnd (end_op s) (\<lambda>_ s.
       let s = upd_file (the fo) (\<lambda>f. f\<lparr>f_type := FD_INODE, f_ip := Some ip, f_off := 0,
                 f_readable := (omode AND O_WRONLY = 0),
                 f_writable := (omode AND O_WRONLY \<noteq> 0 \<or> omode AND O_RDWR \<noteq> 0)\<rparr>) s
       in Ok fd s))))"

definition sys_open :: "'a file_state_scheme devsw \<Rightarrow> 'a file_state_scheme \<Rightarrow> ('a file_state_scheme, int) res" where
  "sys_open dsw s =
     arg_or_fail (argstr 0 s) (\<lambda>path s.
     arg_or_fail (argint 1 s) (\<lambda>om s.
     let omode = word_of_int om :: u32
     in bnd (begin_op s) (\<lambda>_ s.
        if omode AND O_CREATE \<noteq> 0 then
          bnd (create dsw path T_FILE 0 0 s) (\<lambda>ipo s.
          case ipo of
            None \<Rightarrow> bnd (end_op s) (\<lambda>_ s. Ok (-1) s)
          | Some ip \<Rightarrow> open_inode ip omode s)
        else
          bnd (namei dsw path s) (\<lambda>ipo s.
          case ipo of
            None \<Rightarrow> bnd (end_op s) (\<lambda>_ s. Ok (-1) s)
          | Some ip \<Rightarrow>
              bnd (ilock (Some ip) s) (\<lambda>_ s.
              if i_type (icache s ip) = T_DIR \<and> omode \<noteq> 0 then
                bnd (iunlockput ip s) (\<lambda>_ s. bnd (end_op s) (\<lambda>_ s. Ok (-1) s))
              else open_inode ip omode s)))))"

definition create_done :: "nat option \<Rightarrow> 'a fs_state_scheme \<Rightarrow> ('a fs_state_scheme, int) res" where
  "create_done ipo s =
     (case ipo of
        None \<Rightarrow> bnd (end_op s) (\<lambda>_ s. Ok (-1) s)
      | Some ip \<Rightarrow> bnd (iunlockput ip s) (\<lambda>_ s. bnd (end_op s) (\<lambda>_ s. Ok 0 s)))"

definition sys_mkdir :: "'a fs_state_scheme devsw \<Rightarrow> 'a fs_state_scheme \<Rightarrow> ('a fs_state_scheme, int) res" where
  "sys_mkdir dsw s =
     bnd (begin_op s) (\<lambda>_ s.
     bnd (argstr 0 s) (\<lambda>po s.
     bnd (case po of None \<Rightarrow> Ok None s | Some path \<Rightarrow> create dsw path T_DIR 0 0 s) (\<lambda>ipo s.
     create_done ipo s)))"

text \<open>\<^verbatim>\<open>major\<close> and \<^verbatim>\<open>minor\<close> are passed to parameters of type \<^verbatim>\<open>short\<close>.\<close>

definition short_of :: "int \<Rightarrow> int" where
  "short_of i = sint (word_of_int i :: u16)"

definition sys_mknod :: "'a fs_state_scheme devsw \<Rightarrow> 'a fs_state_scheme \<Rightarrow> ('a fs_state_scheme, int) res" where
  "sys_mknod dsw s =
     bnd (begin_op s) (\<lambda>_ s.
     bnd (argstr 0 s) (\<lambda>po s.
     bnd (if po = None then Ok None s else argint 1 s) (\<lambda>mj s.
     bnd (if mj = None then Ok None s else argint 2 s) (\<lambda>mn s.
     bnd (if mn = None then Ok None s
          else create dsw (the po) T_DEV (short_of (the mj)) (short_of (the mn)) s) (\<lambda>ipo s.
     create_done ipo s)))))"

definition sys_chdir :: "'a fs_state_scheme devsw \<Rightarrow> 'a fs_state_scheme \<Rightarrow> ('a fs_state_scheme, int) res" where
  "sys_chdir dsw s =
     with_myproc (\<lambda>p s.
       bnd (begin_op s) (\<lambda>_ s.
       bnd (argstr 0 s) (\<lambda>po s.
       bnd (case po of None \<Rightarrow> Ok None s | Some path \<Rightarrow> namei dsw path s) (\<lambda>ipo s.
       case ipo of
         None \<Rightarrow> bnd (end_op s) (\<lambda>_ s. Ok (-1) s)
       | Some ip \<Rightarrow>
           bnd (ilock (Some ip) s) (\<lambda>_ s.
           if i_type (icache s ip) \<noteq> T_DIR then
             bnd (iunlockput ip s) (\<lambda>_ s. bnd (end_op s) (\<lambda>_ s. Ok (-1) s))
           else
             bnd (iunlock (Some ip) s) (\<lambda>_ s.
             bnd (case p_cwd (ptable s p) of None \<Rightarrow> Fail (UB ''iput of NULL'') | Some c \<Rightarrow> iput c s) (\<lambda>_ s.
             bnd (end_op s) (\<lambda>_ s.
             Ok 0 (upd_proc p (\<lambda>q. q\<lparr>p_cwd := Some ip\<rparr>) s))))))))) s"

definition sys_pipe :: "'a file_state_scheme \<Rightarrow> ('a file_state_scheme, int) res" where
  "sys_pipe s =
     arg_or_fail (argptr 0 8 s) (\<lambda>fd s.
     bnd (pipealloc s) (\<lambda>r s.
     case r of
       None \<Rightarrow> Ok (-1) s
     | Some (rfile, wfile) \<Rightarrow>
         bnd (fdalloc rfile s) (\<lambda>fd0 s.
         bnd (if fd0 < 0 then Ok (-1) s else fdalloc wfile s) (\<lambda>fd1 s.
         if fd1 < 0 then
           with_myproc (\<lambda>p s.
             let s = (if fd0 \<ge> 0 then upd_proc p (\<lambda>q. q\<lparr>p_ofile := (p_ofile q)(nat fd0 := None)\<rparr>) s else s)
             in bnd (fileclose rfile s) (\<lambda>_ s.
                bnd (fileclose wfile s) (\<lambda>_ s. Ok (-1) s))) s
         else
           bnd (vstore32 fd (word_of_int fd0) s) (\<lambda>_ s.
           bnd (vstore32 (fd + 4) (word_of_int fd1) s) (\<lambda>_ s. Ok 0 s))))))"

end
