(* ===== verification/Xv6_Exec.thy ===== *)
theory Xv6_Exec
  imports Xv6_Sysfile
begin

section \<open>Loading programs, traps and the dispatch of system calls\<close>

text \<open>\<^verbatim>\<open>loaduvm\<close> of \<^verbatim>\<open>vm.c\<close>, \<^verbatim>\<open>exec.c\<close>, \<^verbatim>\<open>sys_exec\<close>, the table of \<^verbatim>\<open>syscall.c\<close>, and \<^verbatim>\<open>trap.c\<close>.\<close>

definition MAXARG :: nat where "MAXARG = 32"
definition ELF_MAGIC :: u32 where "ELF_MAGIC = 0x464C457F"
definition ELFHDRSZ :: nat where "ELFHDRSZ = 52"
definition PROGHDRSZ :: nat where "PROGHDRSZ = 32"

subsection \<open>Loading a segment\<close>

function loaduvm_loop ::
  "'a fs_state_scheme devsw \<Rightarrow> nat \<Rightarrow> nat \<Rightarrow> nat \<Rightarrow> nat \<Rightarrow> nat \<Rightarrow> nat \<Rightarrow> 'a fs_state_scheme \<Rightarrow>
   ('a fs_state_scheme, int) res" where
  "loaduvm_loop dsw pgdir addr ip off i sz s =
     (if i < sz then
        bnd (walkpgdir pgdir (addr + i) False s) (\<lambda>pte s.
        if pte = 0 then Fail (Panic ''loaduvm: address should exist'')
        else
          let pa = PTE_ADDR (get32 (mem s) pte);
              n = (if sz - i < PGSIZE then sz - i else PGSIZE)
          in bnd (readi dsw ip (ToAddr (P2V pa)) ((off + i) mod 2 ^ 32) n s) (\<lambda>(r, _) s.
             if r \<noteq> int n then Ok (-1) s
             else loaduvm_loop dsw pgdir addr ip off (i + PGSIZE) sz s))
      else Ok 0 s)"
  by pat_completeness auto
termination
  by (relation "measure (\<lambda>(dsw, pgdir, addr, ip, off, i, sz, s). sz - i)") (auto simp: PGSIZE_def)

declare loaduvm_loop.simps [simp del]

definition loaduvm ::
  "'a fs_state_scheme devsw \<Rightarrow> nat \<Rightarrow> nat \<Rightarrow> nat \<Rightarrow> nat \<Rightarrow> nat \<Rightarrow> 'a fs_state_scheme \<Rightarrow>
   ('a fs_state_scheme, int) res" where
  "loaduvm dsw pgdir addr ip off sz s =
     (if addr mod PGSIZE \<noteq> 0 then Fail (Panic ''loaduvm: addr must be page aligned'')
      else loaduvm_loop dsw pgdir addr ip off 0 sz s)"

subsection \<open>exec\<close>

text \<open>The label \<^verbatim>\<open>bad\<close>: \<open>ipo\<close> is \<^verbatim>\<open>ip\<close>.\<close>

definition exec_bad :: "nat \<Rightarrow> nat option \<Rightarrow> 'a fs_state_scheme \<Rightarrow> ('a fs_state_scheme, int) res" where
  "exec_bad pgdir ipo s =
     bnd (if pgdir \<noteq> 0 then freevm pgdir s else Ok () s) (\<lambda>_ s.
     bnd (case ipo of
            None \<Rightarrow> Ok () s
          | Some ip \<Rightarrow> bnd (iunlockput ip s) (\<lambda>_ s. end_op s)) (\<lambda>_ s.
     Ok (-1) s))"

text \<open>
  The loop over the program headers, at the offsets \<open>offs\<close>: \<open>Some sz\<close> is the size after it, \<open>None\<close> a
  jump to \<^verbatim>\<open>bad\<close>.
\<close>

fun exec_load ::
  "'a fs_state_scheme devsw \<Rightarrow> nat \<Rightarrow> nat \<Rightarrow> nat list \<Rightarrow> nat \<Rightarrow> 'a fs_state_scheme \<Rightarrow>
   ('a fs_state_scheme, nat option) res" where
  "exec_load dsw pgdir ip [] sz s = Ok (Some sz) s"
| "exec_load dsw pgdir ip (off # offs) sz s =
     bnd (readi dsw ip ToVar off PROGHDRSZ s) (\<lambda>(r, ph) s.
     let vaddr = get32 ph 8; filesz = get32 ph 16; memsz = get32 ph 20
     in if r \<noteq> int PROGHDRSZ then Ok None s
        else if get32 ph 0 \<noteq> 1 then exec_load dsw pgdir ip offs sz s
        else if memsz < filesz then Ok None s
        else if vaddr + memsz < vaddr then Ok None s
        else bnd (allocuvm pgdir sz (unat (vaddr + memsz)) s) (\<lambda>sz s.
          if sz = 0 then Ok None s
          else if unat vaddr mod PGSIZE \<noteq> 0 then Ok None s
          else bnd (loaduvm dsw pgdir (unat vaddr) ip (unat (get32 ph 4)) (unat filesz) s) (\<lambda>r s.
            if r < 0 then Ok None s else exec_load dsw pgdir ip offs sz s)))"

definition of_string :: "string \<Rightarrow> bytes" where
  "of_string t i = (if i < length t then of_char (t ! i) else 0)"

text \<open>
  Pushing the argument strings: the new stack pointer and the addresses of the strings, in order.
\<close>

fun exec_args ::
  "nat \<Rightarrow> nat \<Rightarrow> string list \<Rightarrow> nat \<Rightarrow> nat list \<Rightarrow> 'a kmem_state_scheme \<Rightarrow>
   ('a kmem_state_scheme, (nat \<times> nat list) option) res" where
  "exec_args pgdir argc [] sp us s = Ok (Some (sp, us)) s"
| "exec_args pgdir argc (a # as) sp us s =
     (if argc \<ge> MAXARG then Ok None s
      else
        let sp = u32_of_int (int sp - int (length a + 1)) div 4 * 4
        in bnd (copyout pgdir sp (of_string a) (length a + 1) s) (\<lambda>r s.
           if r < 0 then Ok None s else exec_args pgdir (argc + 1) as sp (us @ [sp]) s))"

definition words :: "nat list \<Rightarrow> bytes" where
  "words ws = fold (\<lambda>i d. put32 d (4 * i) (of_nat (ws ! i))) [0..<length ws] (\<lambda>_. 0)"

text \<open>The part of a path after its last slash.\<close>

definition last_elem :: "string \<Rightarrow> string" where
  "last_elem path = rev (takeWhile (\<lambda>c. \<not> slash c) (rev path))"

definition exec_commit ::
  "nat \<Rightarrow> string \<Rightarrow> u32 \<Rightarrow> nat \<Rightarrow> nat \<Rightarrow> nat \<Rightarrow> 'a proc_state_scheme \<Rightarrow> ('a proc_state_scheme, int) res" where
  "exec_commit p path entry pgdir sz sp s =
     (let s = upd_proc p (\<lambda>q. q\<lparr>p_name := take 15 (last_elem path)\<rparr>) s;
          oldpgdir = p_pgdir (ptable s p);
          s = upd_proc p (\<lambda>q. q\<lparr>p_pgdir := pgdir, p_sz := sz, p_ustack := sz,
                p_tf := (p_tf q)\<lparr>tf_eip := entry, tf_esp := of_nat sp\<rparr>\<rparr>) s
      in bnd (switchuvm p s) (\<lambda>_ s.
         bnd (freevm oldpgdir s) (\<lambda>_ s. Ok 0 s)))"

definition exec_stack ::
  "nat \<Rightarrow> string \<Rightarrow> string list \<Rightarrow> u32 \<Rightarrow> nat \<Rightarrow> nat \<Rightarrow> 'a fs_state_scheme \<Rightarrow> ('a fs_state_scheme, int) res" where
  "exec_stack p path argv entry pgdir sz s =
     (let sz = PGROUNDUP sz
      in bnd (allocuvm pgdir sz ((sz + 2 * PGSIZE) mod 2 ^ 32) s) (\<lambda>sz s.
         if sz = 0 then exec_bad pgdir None s
         else
           bnd (clearpteu pgdir (sz - 2 * PGSIZE) s) (\<lambda>_ s.
           bnd (exec_args pgdir 0 argv sz [] s) (\<lambda>r s.
           case r of
             None \<Rightarrow> exec_bad pgdir None s
           | Some (sp, us) \<Rightarrow>
               let argc = length us;
                   ustack = [0xffffffff, argc, u32_of_int (int sp - int ((argc + 1) * 4))] @ us @ [0];
                   sp = u32_of_int (int sp - int ((3 + argc + 1) * 4))
               in bnd (copyout pgdir sp (words ustack) ((3 + argc + 1) * 4) s) (\<lambda>r s.
                  if r < 0 then exec_bad pgdir None s
                  else exec_commit p path entry pgdir sz sp s)))))"

definition exec ::
  "'a fs_state_scheme devsw \<Rightarrow> string \<Rightarrow> string list \<Rightarrow> 'a fs_state_scheme \<Rightarrow> ('a fs_state_scheme, int) res" where
  "exec dsw path argv s =
     with_myproc (\<lambda>p s.
       bnd (begin_op s) (\<lambda>_ s.
       bnd (namei dsw path s) (\<lambda>ipo s.
       case ipo of
         None \<Rightarrow> bnd (end_op s) (\<lambda>_ s. Ok (-1) s)
       | Some ip \<Rightarrow>
           bnd (ilock (Some ip) s) (\<lambda>_ s.
           bnd (readi dsw ip ToVar 0 ELFHDRSZ s) (\<lambda>(r, elf) s.
           if r \<noteq> int ELFHDRSZ then exec_bad 0 (Some ip) s
           else if get32 elf 0 \<noteq> ELF_MAGIC then exec_bad 0 (Some ip) s
           else
             bnd (setupkvm s) (\<lambda>pgdir s.
             if pgdir = 0 then exec_bad 0 (Some ip) s
             else
               let offs = map (\<lambda>i. (unat (get32 elf 28) + PROGHDRSZ * i) mod 2 ^ 32) [0..<unat (get16 elf 44)]
               in bnd (exec_load dsw pgdir ip offs 0 s) (\<lambda>szo s.
                  case szo of
                    None \<Rightarrow> exec_bad pgdir (Some ip) s
                  | Some sz \<Rightarrow>
                      bnd (iunlockput ip s) (\<lambda>_ s.
                      bnd (end_op s) (\<lambda>_ s.
                      exec_stack p path argv (get32 elf 24) pgdir sz s))))))))) s"

text \<open>The argument vector of \<^verbatim>\<open>sys_exec\<close>: at most \<open>MAXARG\<close> entries including the NULL.\<close>

fun exec_argv :: "nat \<Rightarrow> nat \<Rightarrow> nat \<Rightarrow> 'a proc_state_scheme \<Rightarrow> ('a proc_state_scheme, string list option) res" where
  "exec_argv 0 i uargv s = Ok None s"
| "exec_argv (Suc k) i uargv s =
     bnd (fetchint ((uargv + 4 * i) mod 2 ^ 32) s) (\<lambda>r s.
     case r of
       None \<Rightarrow> Ok None s
     | Some uarg \<Rightarrow>
         if uarg = 0 then Ok (Some []) s
         else bnd (fetchstr (u32_of_int uarg) s) (\<lambda>a s.
           case a of
             None \<Rightarrow> Ok None s
           | Some a \<Rightarrow> bnd (exec_argv k (i + 1) uargv s) (\<lambda>as s. Ok (map_option (\<lambda>as. a # as) as) s)))"

definition sys_exec :: "'a fs_state_scheme devsw \<Rightarrow> 'a fs_state_scheme \<Rightarrow> ('a fs_state_scheme, int) res" where
  "sys_exec dsw s =
     arg_or_fail (argstr 0 s) (\<lambda>path s.
     arg_or_fail (argint 1 s) (\<lambda>uargv s.
     arg_or_fail (exec_argv MAXARG 0 (u32_of_int uargv) s) (\<lambda>argv s.
     exec dsw path argv s)))"

subsection \<open>Dispatch\<close>

definition syscalls :: "nat \<Rightarrow> ('a cons_state_scheme \<Rightarrow> ('a cons_state_scheme, int) res) option" where
  "syscalls num =
     (if num < 40 then
        [None, Some sys_fork, Some sys_exit, Some sys_wait, Some sys_pipe, Some (sys_read console_devsw),
         Some sys_kill, Some (sys_exec console_devsw), Some sys_fstat, Some (sys_chdir console_devsw),
         Some sys_dup, Some sys_getpid, Some sys_sbrk, Some sys_sleep, Some sys_uptime,
         Some (sys_open console_devsw), Some (sys_write console_devsw), Some (sys_mknod console_devsw),
         Some (sys_unlink console_devsw), Some (sys_link console_devsw), Some (sys_mkdir console_devsw),
         Some sys_close, Some sys_my_syscall, Some sys_getppid, Some sys_yield, Some sys_getlev,
         Some sys_set_cpu_share, Some sys_thread_create, Some sys_thread_exit, Some sys_thread_join,
         Some sys_xem_init, Some sys_xem_wait, Some sys_xem_post, Some sys_rwlock_init,
         Some sys_rwlock_acquire_readlock, Some sys_rwlock_acquire_writelock,
         Some sys_rwlock_release_readlock, Some sys_rwlock_release_writelock,
         Some (sys_pread console_devsw), Some (sys_pwrite console_devsw)] ! num
      else None)"

definition set_eax :: "nat \<Rightarrow> int \<Rightarrow> 'a proc_state_scheme \<Rightarrow> 'a proc_state_scheme" where
  "set_eax p r s = upd_proc p (\<lambda>q. q\<lparr>p_tf := (p_tf q)\<lparr>tf_eax := word_of_int r\<rparr>\<rparr>) s"

definition syscall :: "'a cons_state_scheme \<Rightarrow> ('a cons_state_scheme, unit) res" where
  "syscall s =
     with_myproc (\<lambda>p s.
       let num = sint (tf_eax (p_tf (ptable s p)))
       in case (if num > 0 then syscalls (nat num) else None) of
            Some f \<Rightarrow> bnd (f s) (\<lambda>r s. Ok () (set_eax p r s))
          | None \<Rightarrow>
              bnd (cprintf (''%d %s: unknown sys call %d'' @ [CHR 0x0A])
                     [Word (word_of_int (p_pid (ptable s p))), Str (Some (p_name (ptable s p))),
                      Word (word_of_int num)] s) (\<lambda>_ s.
              Ok () (set_eax p (-1) s))) s"

subsection \<open>Traps\<close>

definition T_SYSCALL :: nat where "T_SYSCALL = 64"
definition T_IRQ0 :: nat where "T_IRQ0 = 32"
definition IRQ_TIMER :: nat where "IRQ_TIMER = 0"
definition IRQ_KBD :: nat where "IRQ_KBD = 1"
definition IRQ_COM1 :: nat where "IRQ_COM1 = 4"
definition IRQ_IDE :: nat where "IRQ_IDE = 14"
definition IRQ_SPURIOUS :: nat where "IRQ_SPURIOUS = 31"

text \<open>What the devices deliver during one trap: input characters, and the drive's status and data.\<close>

record trap_input =
  ti_cpu :: nat
  ti_chars :: "int list"
  ti_status :: u8
  ti_data :: bytes

definition is_killed :: "'a proc_state_scheme \<Rightarrow> bool" where
  "is_killed s = (case myproc s of None \<Rightarrow> False | Some p \<Rightarrow> p_killed (ptable s p))"

definition is_running :: "'a proc_state_scheme \<Rightarrow> bool" where
  "is_running s = (case myproc s of None \<Rightarrow> False | Some p \<Rightarrow> p_state (ptable s p) = RUNNING)"

definition exit_if_killed :: "bool \<Rightarrow> 'a file_state_scheme \<Rightarrow> ('a file_state_scheme, unit) res" where
  "exit_if_killed user s = (if is_killed s \<and> user then exit s else Ok () s)"

definition trap_timer :: "nat \<Rightarrow> 'a proc_state_scheme \<Rightarrow> ('a proc_state_scheme, unit) res" where
  "trap_timer c s =
     (if c = 0 then
        bnd (acquire TicksLock s) (\<lambda>_ s.
        let s = s\<lparr>ticks := ticks s + 1\<rparr>
        in bnd (wakeup ChanTicks s) (\<lambda>_ s.
           release TicksLock s))
      else Ok () s)"

text \<open>The device part of \<^verbatim>\<open>trap\<close>; acknowledging the interrupt and printing are left out.\<close>

definition trap_dispatch ::
  "trap_input \<Rightarrow> trapframe \<Rightarrow> 'a cons_state_scheme \<Rightarrow> ('a cons_state_scheme, unit) res" where
  "trap_dispatch ti tf s =
     (let n = unat (tf_trapno tf)
      in if n = T_IRQ0 + IRQ_TIMER then trap_timer (ti_cpu ti) s
         else if n = T_IRQ0 + IRQ_IDE then ideintr (ti_status ti) (ti_data ti) s
         else if n = T_IRQ0 + IRQ_IDE + 1 then Ok () s
         else if n = T_IRQ0 + IRQ_KBD \<or> n = T_IRQ0 + IRQ_COM1
         then bnd (consoleintr (ti_chars ti) s) (\<lambda>_ s. Ok () s)
         else if n = T_IRQ0 + 7 \<or> n = T_IRQ0 + IRQ_SPURIOUS then Ok () s
         else case myproc s of
                None \<Rightarrow> Fail (Panic ''trap'')
              | Some p \<Rightarrow>
                  if tf_cs tf mod 4 = 0 then Fail (Panic ''trap'')
                  else Ok () (upd_proc p (\<lambda>q. q\<lparr>p_killed := True\<rparr>) s))"

definition trap ::
  "trap_input \<Rightarrow> trapframe \<Rightarrow> 'a cons_state_scheme \<Rightarrow> ('a cons_state_scheme, unit) res" where
  "trap ti tf s =
     (if unat (tf_trapno tf) = T_SYSCALL then
        with_myproc (\<lambda>p s.
          bnd (exit_if_killed True s) (\<lambda>_ s.
          let s = upd_proc p (\<lambda>q. q\<lparr>p_tf := tf\<rparr>) s
          in bnd (syscall s) (\<lambda>_ s.
             exit_if_killed True s))) s
      else
        let user = (tf_cs tf mod 4 = 3)
        in bnd (trap_dispatch ti tf s) (\<lambda>_ s.
           bnd (exit_if_killed user s) (\<lambda>_ s.
           bnd (if is_running s \<and> unat (tf_trapno tf) = T_IRQ0 + IRQ_TIMER
                then bnd (yield s) (\<lambda>_ s. Ok () s) else Ok () s) (\<lambda>_ s.
           exit_if_killed user s))))"

end
