(* ===== verification/Xv6_Keeps.thy ===== *)
theory Xv6_Keeps
  imports Xv6_Sched_Choice Xv6_Exec
begin

section \<open>Invariants that the operations of the kernel keep\<close>

text \<open>
  A compositional argument that the memory, file system, pipe, console and process operations keep
  an invariant of the scheduler's data and return with the locks they were called with. An invariant
  is a family \<open>P H\<close> of predicates, \<open>H\<close> being the set of held locks; the locale \<open>quiet_inv\<close> asks only
  that \<open>P\<close> does not look at anything but the process table, the queues, \<^verbatim>\<open>searchidx\<close> and the locks, and gives the
  operations that neither sleep nor wake; the locale \<open>kernel_inv\<close> adds what \<^verbatim>\<open>sleep\<close> and \<^verbatim>\<open>wakeup\<close> do, and
  gives all others. There is one lemma for each operation, in the collection \<open>kp\<close>; the rules follow the
  structure of the definitions, so most proofs only unfold one.
\<close>

named_theorems kp \<open>rules for outcomes that keep an invariant\<close>

subsection \<open>Outcomes\<close>

text \<open>A returned state satisfies \<open>I\<close>, a state in which the CPU is given away \<open>J\<close>.\<close>

fun kres :: "('s \<Rightarrow> bool) \<Rightarrow> ('s \<Rightarrow> bool) \<Rightarrow> ('s, 'a) res \<Rightarrow> bool" where
  "kres I J (Ok x s) \<longleftrightarrow> I s"
| "kres I J (Fail e) \<longleftrightarrow> True"
| "kres I J (Swtch s) \<longleftrightarrow> J s"

lemma kres_Ok [kp]: "I s \<Longrightarrow> kres I J (Ok x s)"
  by simp

lemma kres_Fail [kp]: "kres I J (Fail e)"
  by simp

lemma kres_bnd: "kres I' J r \<Longrightarrow> (\<And>x s. I' s \<Longrightarrow> kres I J (f x s)) \<Longrightarrow> kres I J (bnd r f)"
  by (cases r) auto

lemma kres_mono: "kres I J r \<Longrightarrow> (\<And>s. I s \<Longrightarrow> I' s) \<Longrightarrow> (\<And>s. J s \<Longrightarrow> J' s) \<Longrightarrow> kres I' J' r"
  by (cases r) auto

lemma kres_if [kp]: "(b \<Longrightarrow> kres I J r) \<Longrightarrow> (\<not> b \<Longrightarrow> kres I J r') \<Longrightarrow> kres I J (if b then r else r')"
  by simp

lemma kres_option [kp]:
  "(x = None \<Longrightarrow> kres I J r) \<Longrightarrow> (\<And>y. x = Some y \<Longrightarrow> kres I J (f y)) \<Longrightarrow>
   kres I J (case x of None \<Rightarrow> r | Some y \<Rightarrow> f y)"
  by (cases x) auto

lemma kres_prod [kp]: "(\<And>a b. x = (a, b) \<Longrightarrow> kres I J (f a b)) \<Longrightarrow> kres I J (case x of (a, b) \<Rightarrow> f a b)"
  by (cases x) auto

lemma kres_prod2 [kp]:
  "(\<And>a b. x = (a, b) \<Longrightarrow> kres I J (f a b s)) \<Longrightarrow> kres I J ((case x of (a, b) \<Rightarrow> f a b) s)"
  by (cases x) auto

lemma kres_nat [kp]:
  "kres I J r \<Longrightarrow> (\<And>k. n = Suc k \<Longrightarrow> kres I J (f k)) \<Longrightarrow> kres I J (case n of 0 \<Rightarrow> r | Suc k \<Rightarrow> f k)"
  by (cases n) auto

lemma kres_ftype [kp]:
  "kres I J r1 \<Longrightarrow> kres I J r2 \<Longrightarrow> kres I J r3 \<Longrightarrow>
   kres I J (case x of FD_NONE \<Rightarrow> r1 | FD_PIPE \<Rightarrow> r2 | FD_INODE \<Rightarrow> r3)"
  by (cases x) auto

lemma kres_dest [kp]:
  "kres I J r \<Longrightarrow> (\<And>a. kres I J (f a)) \<Longrightarrow> kres I J (case d of ToVar \<Rightarrow> r | ToAddr a \<Rightarrow> f a)"
  by (cases d) auto

lemma kres_src [kp]:
  "(\<And>b. kres I J (g b)) \<Longrightarrow> (\<And>a. kres I J (f a)) \<Longrightarrow> kres I J (case d of FromVar b \<Rightarrow> g b | FromAddr a \<Rightarrow> f a)"
  by (cases d) auto

lemma kres_let: "kres I J (f t) \<Longrightarrow> kres I J (Let t f)"
  by simp

lemma kres_for_each [kp]:
  "I s \<Longrightarrow> (\<And>i s. I s \<Longrightarrow> kres I J (f i s)) \<Longrightarrow> kres I J (for_each f xs s)"
proof (induction xs arbitrary: s)
  case (Cons x xs)
  have "kres I J (f x s)" using Cons.prems by simp
  then show ?case using Cons by (cases "f x s") auto
qed simp

subsection \<open>Updates of a process that the scheduler does not see\<close>

definition same_sched :: "proc \<Rightarrow> proc \<Rightarrow> bool" where
  "same_sched q q' \<longleftrightarrow> p_state q' = p_state q \<and> p_level q' = p_level q \<and> p_pid q' = p_pid q \<and>
     p_lwpgroup q' = p_lwpgroup q \<and> p_thread_count q' = p_thread_count q \<and> p_timequant q' = p_timequant q \<and>
     p_s_link q' = p_s_link q \<and> p_share q' = p_share q \<and>
     (p_kstack q \<noteq> 0 \<longrightarrow> p_kstack q' \<noteq> 0) \<and> (p_pgdir q \<noteq> 0 \<longrightarrow> p_pgdir q' \<noteq> 0)"

lemma sched_inv_same:
  assumes inv: "sched_inv s" and q: "same_sched (ptable s p) q"
  shows "sched_inv (s\<lparr>ptable := (ptable s)(p := q)\<rparr>)"
proof -
  have al: "alive q = alive (ptable s p)" "active q = active (ptable s p)"
    using q by (simp_all add: same_sched_def alive_def active_def)
  have ok: "i < NPROC \<Longrightarrow> proc_ok i (ptable s i)" for i
    using sched_invD(1)[OF inv] by (simp add: table_ok_def)
  have "proc_ok p (ptable s p) \<Longrightarrow> proc_ok p q"
    using q al by (auto simp: proc_ok_def same_sched_def)
  then have "table_ok ((ptable s)(p := q)) (nextpid s)"
    using q al ok by (intro table_ok_cong[OF sched_invD(1)[OF inv]]) (simp_all add: same_sched_def split: if_splits)
  moreover have "mlfq_ok ((ptable s)(p := q)) (mlfqstr s)"
    using q al by (intro mlfq_ok_cong[OF sched_invD(2)[OF inv]]) (auto simp: in_mlfq_def same_sched_def)
  moreover have "stride_ok ((ptable s)(p := q)) (mlfqstr s)"
    using q by (intro stride_ok_cong[OF sched_invD(3)[OF inv]]) (auto simp: stride_proc_def same_sched_def)
  ultimately show ?thesis by (simp add: sched_inv_def)
qed

lemma same_sched_simps [simp]:
  "same_sched q (q\<lparr>p_sz := a1\<rparr>)" "same_sched q (q\<lparr>p_ofile := a2\<rparr>)" "same_sched q (q\<lparr>p_cwd := a3\<rparr>)"
  "same_sched q (q\<lparr>p_parent := a4\<rparr>)" "same_sched q (q\<lparr>p_tf := a5\<rparr>)" "same_sched q (q\<lparr>p_killed := a6\<rparr>)"
  "same_sched q (q\<lparr>p_context := a7\<rparr>)" "same_sched q (q\<lparr>p_name := a8\<rparr>)"
  by (simp_all add: same_sched_def)


lemma PGSIZE_pos [simp]: "0 < PGSIZE"
  by (simp add: PGSIZE_def)

subsection \<open>Operations that do not schedule\<close>

locale quiet_inv =
  fixes P :: "lock set \<Rightarrow> cons_state \<Rightarrow> bool" and J :: "cons_state \<Rightarrow> bool"
  assumes frame: "P H s \<Longrightarrow> ptable t = ptable s \<Longrightarrow> mlfqstr t = mlfqstr s \<Longrightarrow> nextpid t = nextpid s \<Longrightarrow>
      curproc t = curproc s \<Longrightarrow> searchidx t = searchidx s \<Longrightarrow> held t = H' \<Longrightarrow> (MlfqLock \<in> H' \<Longrightarrow> MlfqLock \<in> H) \<Longrightarrow> P H' t"
    and held: "P H s \<Longrightarrow> held s = H"
    and upd: "P H s \<Longrightarrow> same_sched (ptable s p) (f (ptable s p)) \<Longrightarrow> P H (upd_proc p f s)"
begin

lemma same:
  "P H s \<Longrightarrow> ptable t = ptable s \<and> mlfqstr t = mlfqstr s \<and> nextpid t = nextpid s \<and>
    curproc t = curproc s \<and> searchidx t = searchidx s \<and> held t = held s \<Longrightarrow> P H t"
  by (rule frame[of H s]) (auto dest: held)

lemma bndP: "kres (P H') J r \<Longrightarrow> (\<And>x s. P H' s \<Longrightarrow> kres I J (f x s)) \<Longrightarrow> kres I J (bnd r f)"
  by (rule kres_bnd)

lemma argP [kp]: "kres (P H) J r \<Longrightarrow> (\<And>x s. P H s \<Longrightarrow> kres (P H) J (f x s)) \<Longrightarrow> kres (P H) J (arg_or_fail r f)"
  by (cases r) (auto simp: arg_or_fail_def split: option.split)

lemma letP: "P H t \<Longrightarrow> (\<And>s. P H s \<Longrightarrow> kres I J (f s)) \<Longrightarrow> kres I J (Let t f)"
  by simp

lemma P_if [kp]: "P H s \<Longrightarrow> P H t \<Longrightarrow> P H (if b then s else t)"
  by simp

lemma P_let [kp]: "P H (f t) \<Longrightarrow> P H (Let t f)"
  by simp

lemma P_option [kp]: "P H s \<Longrightarrow> (\<And>y. P H (f y)) \<Longrightarrow> P H (case x of None \<Rightarrow> s | Some y \<Rightarrow> f y)"
  by (cases x) auto

lemma acquire_bnd [kp]:
  "P H s \<Longrightarrow> l \<noteq> MlfqLock \<Longrightarrow> (\<And>t. l \<notin> H \<Longrightarrow> P (insert l H) t \<Longrightarrow> kres I J (f () t)) \<Longrightarrow>
   kres I J (bnd (acquire l s) f)"
  using held[of H s] frame[of H s "s\<lparr>held := insert l (held s)\<rparr>" "insert l H"]
  by (auto simp: acquire_def)

lemma release_kp [kp]: "P (insert l H) s \<Longrightarrow> l \<notin> H \<Longrightarrow> kres (P H) J (release l s)"
  using held[of "insert l H" s] by (auto simp: release_def intro: frame)

lemma with_myproc_kp [kp]:
  "P H s \<Longrightarrow> (\<And>p. curproc s = Some p \<Longrightarrow> kres I J (f p s)) \<Longrightarrow> kres I J (with_myproc f s)"
  by (auto simp: with_myproc_def myproc_def split: option.split)

lemma P_upd [kp]:
  "P H s \<Longrightarrow> P H (mem_update a1 s)" "P H s \<Longrightarrow> P H (freelist_update a2 s)"
  "P H s \<Longrightarrow> P H (initproc_update a3 s)" "P H s \<Longrightarrow> P H (ticks_update a4 s)"
  "P H s \<Longrightarrow> P H (cr3_update a5 s)" "P H s \<Longrightarrow> P H (ts_esp0_update a6 s)"
  "P H s \<Longrightarrow> P H (upd_xem a7 f7 s)" "P H s \<Longrightarrow> P H (upd_slock a8 f8 s)" "P H s \<Longrightarrow> P H (set_readers a9 f9 s)"
  "P H s \<Longrightarrow> P H (upd_buf b1 f1 s)" "P H s \<Longrightarrow> P H (disk_update b2 s)" "P H s \<Longrightarrow> P H (dtrace_update b3 s)"
  "P H s \<Longrightarrow> P H (idequeue_update b4 s)" "P H s \<Longrightarrow> P H (ide_out_update b5 s)"
  "P H s \<Longrightarrow> P H (set_data b6 d6 s)" "P H s \<Longrightarrow> P H (copy_block b7 d7 s)"
  "P H s \<Longrightarrow> P H (lg_start_update c1 s)" "P H s \<Longrightarrow> P H (lg_size_update c2 s)"
  "P H s \<Longrightarrow> P H (lg_outstanding_update c3 s)" "P H s \<Longrightarrow> P H (lg_committing_update c4 s)"
  "P H s \<Longrightarrow> P H (lg_dev_update c5 s)" "P H s \<Longrightarrow> P H (lg_n_update c6 s)" "P H s \<Longrightarrow> P H (lg_block_update c7 s)"
  "P H s \<Longrightarrow> P H (sb_update e1 s)" "P H s \<Longrightarrow> P H (upd_inode e2 f2 s)"
  "P H s \<Longrightarrow> P H (upd_pipe e3 f3 s)" "P H s \<Longrightarrow> P H (upd_file e4 f4 s)" "P H s \<Longrightarrow> P H (first_run_update e5 s)"
  "P H s \<Longrightarrow> P H (crt_update g1 s)" "P H s \<Longrightarrow> P H (crt_pos_update g2 s)"
  "P H s \<Longrightarrow> P H (in_buf_update g3 s)" "P H s \<Longrightarrow> P H (in_r_update g4 s)" "P H s \<Longrightarrow> P H (in_w_update g5 s)"
  "P H s \<Longrightarrow> P H (in_e_update g6 s)" "P H s \<Longrightarrow> P H (uartputc g7 s)"
  by (erule same, simp add: upd_xem_def upd_slock_def set_readers_def upd_buf_def set_data_def copy_block_def
    upd_inode_def upd_pipe_def upd_file_def uartputc_def)+

lemma P_upd_proc [kp]:
  "P H s \<Longrightarrow> P H (upd_proc p (\<lambda>q. q\<lparr>p_sz := a1\<rparr>) s)" "P H s \<Longrightarrow> P H (upd_proc p (\<lambda>q. q\<lparr>p_ofile := a2 q\<rparr>) s)"
  "P H s \<Longrightarrow> P H (upd_proc p (\<lambda>q. q\<lparr>p_cwd := a3\<rparr>) s)" "P H s \<Longrightarrow> P H (upd_proc p (\<lambda>q. q\<lparr>p_tf := a4 q\<rparr>) s)"
  "P H s \<Longrightarrow> P H (upd_proc p (\<lambda>q. q\<lparr>p_killed := a5\<rparr>) s)" "P H s \<Longrightarrow> P H (upd_proc p (\<lambda>q. q\<lparr>p_name := a6\<rparr>) s)"
  "P H s \<Longrightarrow> P H (upd_proc p (\<lambda>q. q\<lparr>p_parent := a7\<rparr>) s)"
  by (erule upd, simp)+

subsubsection \<open>Memory\<close>

lemma kalloc_kp [kp]: "P H s \<Longrightarrow> kres (P H) J (kalloc s)"
  by (auto simp: kalloc_def acquire_def release_def Let_def insert_Diff_if elim: same)

lemma kfree_kp [kp]: "P H s \<Longrightarrow> kres (P H) J (kfree v s)"
  by (auto simp: kfree_def acquire_def release_def Let_def insert_Diff_if elim: same)

lemma walkpgdir_kp [kp]: "P H s \<Longrightarrow> kres (P H) J (walkpgdir pgdir va alloc s)"
  unfolding walkpgdir_def
  by (rule kp letP bndP kres_let | assumption)+

lemma mappages_loop_kp [kp]: "P H s \<Longrightarrow> kres (P H) J (mappages_loop n pgdir a pa perm s)"
proof (induction n arbitrary: a pa s)
  case 0
  then show ?case unfolding mappages_loop.simps[of 0] nat.case
    by - (rule kp letP bndP kres_let | assumption | (simp; fail))+
next
  case (Suc n)
  show ?case using Suc.prems unfolding mappages_loop.simps[of "Suc n"] nat.case
    by - (rule kp letP bndP kres_let Suc.IH | assumption | (simp; fail))+
qed

lemma mappages_kp [kp]: "P H s \<Longrightarrow> kres (P H) J (mappages pgdir va sz pa perm s)"
  unfolding mappages_def
  by (rule kp letP bndP kres_let | assumption | (simp; fail))+

lemma deallocuvm_loop_kp [kp]: "P H s \<Longrightarrow> kres (P H) J (deallocuvm_loop pgdir a oldsz s)"
proof (induction "oldsz - a" arbitrary: a s rule: less_induct)
  case less
  have IH: "a < a' \<Longrightarrow> a < oldsz \<Longrightarrow> P H t \<Longrightarrow> kres (P H) J (deallocuvm_loop pgdir a' oldsz t)" for a' t
    by (rule less.hyps) auto
  show ?case using less.prems by (subst deallocuvm_loop.simps) (rule kp letP bndP kres_let IH | assumption | (simp; fail))+
qed

lemma deallocuvm_kp [kp]: "P H s \<Longrightarrow> kres (P H) J (deallocuvm pgdir oldsz newsz s)"
  unfolding deallocuvm_def
  by (rule kp letP bndP kres_let | assumption | (simp; fail))+

lemma free_pgtab_kp [kp]: "P H s \<Longrightarrow> kres (P H) J (free_pgtab pgdir i s)"
  unfolding free_pgtab_def
  by (rule kp letP bndP kres_let | assumption | (simp; fail))+

lemma freevm_kp [kp]: "P H s \<Longrightarrow> kres (P H) J (freevm pgdir s)"
  unfolding freevm_def
  by (rule kp letP bndP kres_let | assumption | (simp; fail))+

lemma setupkvm_loop_kp [kp]: "P H s \<Longrightarrow> kres (P H) J (setupkvm_loop pgdir ks s)"
proof (induction ks arbitrary: s)
  case (Cons x ks)
  show ?case using Cons.prems unfolding setupkvm_loop.simps
    by - (rule kp letP bndP kres_let Cons.IH | assumption | (simp; fail))+
qed simp

lemma setupkvm_kp [kp]: "P H s \<Longrightarrow> kres (P H) J (setupkvm s)"
  unfolding setupkvm_def
  by (rule kp letP bndP kres_let | assumption | (simp; fail))+

lemma inituvm_kp [kp]: "P H s \<Longrightarrow> kres (P H) J (inituvm pgdir init sz s)"
  unfolding inituvm_def
  by (rule kp letP bndP kres_let | assumption | (simp; fail))+

lemma allocuvm_loop_kp [kp]: "P H s \<Longrightarrow> kres (P H) J (allocuvm_loop pgdir a oldsz newsz s)"
proof (induction "newsz - a" arbitrary: a s rule: less_induct)
  case less
  have IH: "a < a' \<Longrightarrow> a < newsz \<Longrightarrow> P H t \<Longrightarrow> kres (P H) J (allocuvm_loop pgdir a' oldsz newsz t)" for a' t
    by (rule less.hyps) auto
  show ?case using less.prems by (subst allocuvm_loop.simps) (rule kp letP bndP kres_let IH | assumption | (simp; fail))+
qed

lemma allocuvm_kp [kp]: "P H s \<Longrightarrow> kres (P H) J (allocuvm pgdir oldsz newsz s)"
  unfolding allocuvm_def
  by (rule kp letP bndP kres_let | assumption | (simp; fail))+

lemma clearpteu_kp [kp]: "P H s \<Longrightarrow> kres (P H) J (clearpteu pgdir uva s)"
  unfolding clearpteu_def
  by (rule kp letP bndP kres_let | assumption | (simp; fail))+

lemma copyuvm_loop_kp [kp]: "P H s \<Longrightarrow> kres (P H) J (copyuvm_loop pgdir d i sz s)"
proof (induction "sz - i" arbitrary: i s rule: less_induct)
  case less
  have IH: "i < i' \<Longrightarrow> i < sz \<Longrightarrow> P H t \<Longrightarrow> kres (P H) J (copyuvm_loop pgdir d i' sz t)" for i' t
    by (rule less.hyps) auto
  show ?case using less.prems by (subst copyuvm_loop.simps) (rule kp letP bndP kres_let IH | assumption | (simp; fail))+
qed

lemma copyuvm_kp [kp]: "P H s \<Longrightarrow> kres (P H) J (copyuvm pgdir sz s)"
  unfolding copyuvm_def
  by (rule kp letP bndP kres_let | assumption | (simp; fail))+

lemma uva2ka_kp [kp]: "P H s \<Longrightarrow> kres (P H) J (uva2ka pgdir uva s)"
  unfolding uva2ka_def
  by (rule kp letP bndP kres_let | assumption | (simp; fail))+

lemma PGROUNDDOWN_off: "va - PGROUNDDOWN va < PGSIZE"
  by (simp add: PGROUNDDOWN_def PGSIZE_def minus_div_mult_eq_mod)

lemma copyout_loop_kp [kp]: "P H s \<Longrightarrow> kres (P H) J (copyout_loop pgdir va buf k len s)"
proof (induction len arbitrary: va k s rule: less_induct)
  case (less len)
  have IH: "0 < len \<Longrightarrow> P H t \<Longrightarrow>
      kres (P H) J (copyout_loop pgdir va' buf k' (len - min (PGSIZE - (va - PGROUNDDOWN va)) len) t)" for va' k' t
    using less.IH PGROUNDDOWN_off[of va] by simp
  show ?case using less.prems by (subst copyout_loop.simps) (rule kp letP bndP kres_let IH | assumption | (simp; fail))+
qed

lemma copyout_kp [kp]: "P H s \<Longrightarrow> kres (P H) J (copyout pgdir va buf len s)"
  unfolding copyout_def
  by (rule kp letP bndP kres_let | assumption | (simp; fail))+

lemma vstore_kp [kp]: "P H s \<Longrightarrow> kres (P H) J (vstore a d k m s)"
proof (induction m arbitrary: a k s)
  case 0
  then show ?case unfolding vstore.simps by - (rule kp letP bndP kres_let | assumption | (simp; fail))+
next
  case (Suc m)
  show ?case using Suc.prems unfolding vstore.simps
    by - (rule kp letP bndP kres_let Suc.IH | assumption | (simp; fail))+
qed

lemma vstore32_kp [kp]: "P H s \<Longrightarrow> kres (P H) J (vstore32 a v s)"
  unfolding vstore32_def
  by (rule kp letP bndP kres_let | assumption | (simp; fail))+

lemma switchuvm_kp [kp]: "P H s \<Longrightarrow> kres (P H) J (switchuvm p s)"
  unfolding switchuvm_def
  by (rule kp letP bndP kres_let | assumption | (simp; fail))+

subsubsection \<open>Locks, files and arguments\<close>

lemma slk_spin_neq [kp]: "slk_spin k \<noteq> MlfqLock"
  by (cases k) auto

lemma holdingsleep_kp [kp]: "P H s \<Longrightarrow> kres (P H) J (holdingsleep k s)"
  unfolding holdingsleep_def
  by (rule kp letP bndP kres_let | assumption | (simp; fail))+

lemma iderw_kp [kp]: "P H s \<Longrightarrow> kres (P H) J (iderw b s)"
  unfolding iderw_def
  by (rule kp letP bndP kres_let | assumption | (simp; fail))+

lemma log_write_kp [kp]: "P H s \<Longrightarrow> kres (P H) J (log_write b s)"
  unfolding log_write_def
  by (rule kp letP bndP kres_let | assumption | (simp; fail))+

lemma iget_kp [kp]: "P H s \<Longrightarrow> kres (P H) J (iget dev inum s)"
  unfolding iget_def
  by (rule kp letP bndP kres_let | assumption | (simp; fail))+

lemma idup_kp [kp]: "P H s \<Longrightarrow> kres (P H) J (idup ip s)"
  unfolding idup_def
  by (rule kp letP bndP kres_let | assumption | (simp; fail))+

lemma filealloc_kp [kp]: "P H s \<Longrightarrow> kres (P H) J (filealloc s)"
  unfolding filealloc_def
  by (rule kp letP bndP kres_let | assumption | (simp; fail))+

lemma filedup_kp [kp]: "P H s \<Longrightarrow> kres (P H) J (filedup fp s)"
  unfolding filedup_def
  by (rule kp letP bndP kres_let | assumption | (simp; fail))+

lemma dup_ofile_kp [kp]: "P H s \<Longrightarrow> kres (P H) J (dup_ofile p np fd s)"
  unfolding dup_ofile_def
  by (rule kp letP bndP kres_let | assumption | (simp; fail))+

lemma to_dest_kp [kp]: "P H s \<Longrightarrow> kres (P H) J (to_dest dst tot d k m s)"
  unfolding to_dest_def
  by (rule kp letP bndP kres_let | assumption | (simp; fail))+

lemma from_src_kp [kp]: "P H s \<Longrightarrow> kres (P H) J (from_src src tot m s)"
  unfolding from_src_def
  by (rule kp letP bndP kres_let | assumption | (simp; fail))+

lemma fetchint_kp [kp]: "P H s \<Longrightarrow> kres (P H) J (fetchint addr s)"
  unfolding fetchint_def
  by (rule kp letP bndP kres_let | assumption | (simp; fail))+

lemma fetchstr_loop_kp [kp]: "P H s \<Longrightarrow> kres (P H) J (fetchstr_loop a k s)"
proof (induction k arbitrary: a s)
  case 0
  then show ?case unfolding fetchstr_loop.simps by - (rule kp letP bndP kres_let | assumption | (simp; fail))+
next
  case (Suc k)
  show ?case using Suc.prems unfolding fetchstr_loop.simps
    by - (rule kp letP bndP kres_let Suc.IH | assumption | (simp; fail))+
qed

lemma fetchstr_kp [kp]: "P H s \<Longrightarrow> kres (P H) J (fetchstr addr s)"
  unfolding fetchstr_def
  by (rule kp letP bndP kres_let | assumption | (simp; fail))+

lemma argint_kp [kp]: "P H s \<Longrightarrow> kres (P H) J (argint n s)"
  unfolding argint_def
  by (rule kp letP bndP kres_let | assumption | (simp; fail))+

lemma argptr_kp [kp]: "P H s \<Longrightarrow> kres (P H) J (argptr n sz s)"
  unfolding argptr_def
  by (rule kp letP bndP kres_let | assumption | (simp; fail))+

lemma argstr_kp [kp]: "P H s \<Longrightarrow> kres (P H) J (argstr n s)"
  unfolding argstr_def
  by (rule kp letP bndP kres_let | assumption | (simp; fail))+

lemma argfd_kp [kp]: "P H s \<Longrightarrow> kres (P H) J (argfd n s)"
  unfolding argfd_def
  by (rule kp letP bndP kres_let | assumption | (simp; fail))+

lemma fdalloc_kp [kp]: "P H s \<Longrightarrow> kres (P H) J (fdalloc f s)"
  unfolding fdalloc_def
  by (rule kp letP bndP kres_let | assumption | (simp; fail))+

lemma stack_word_kp [kp]: "P H s \<Longrightarrow> kres (P H) J (stack_word a s)"
  unfolding stack_word_def
  by (rule kp letP bndP kres_let | assumption | (simp; fail))+

lemma exec_argv_kp [kp]: "P H s \<Longrightarrow> kres (P H) J (exec_argv k i uargv s)"
proof (induction k arbitrary: i s)
  case 0
  then show ?case unfolding exec_argv.simps by - (rule kp letP bndP kres_let | assumption | (simp; fail))+
next
  case (Suc k)
  show ?case using Suc.prems unfolding exec_argv.simps
    by - (rule kp letP bndP kres_let Suc.IH | assumption | (simp; fail))+
qed

subsubsection \<open>Console output\<close>

lemma put_dest_kp [kp]: "P H s \<Longrightarrow> kres (P H) J (put_dest dst i c s)"
  unfolding put_dest_def
  by (rule kp letP bndP kres_let | assumption | (simp; fail))+

lemma cgaputc_kp [kp]: "P H s \<Longrightarrow> kres (P H) J (cgaputc c s)"
  by (auto simp: cgaputc_def Let_def elim: same)

lemma consputc_kp [kp]: "P H s \<Longrightarrow> kres (P H) J (consputc c s)"
  unfolding consputc_def
  by (rule kp letP bndP kres_let | assumption | (simp; fail))+

lemma consolewrite_one_kp [kp]: "P H s \<Longrightarrow> kres (P H) J (consolewrite_one src i s)"
  unfolding consolewrite_one_def
  by (rule kp letP bndP kres_let | assumption | (simp; fail))+

lemma kill_line_kp [kp]: "P H s \<Longrightarrow> kres (P H) J (kill_line k s)"
proof (induction k arbitrary: s)
  case 0
  then show ?case unfolding kill_line.simps by - (rule kp letP bndP kres_let | assumption | (simp; fail))+
next
  case (Suc k)
  show ?case using Suc.prems unfolding kill_line.simps
    by - (rule kp letP bndP kres_let Suc.IH | assumption | (simp; fail))+
qed

end

subsection \<open>Operations that sleep and wake\<close>

text \<open>\<^verbatim>\<open>sleep\<close> never returns, so its outcome does not depend on the type it would return.\<close>

lemma kres_bnd_poly:
  "kres I J (bnd r f) \<Longrightarrow> (\<And>x s. kres I J (f x s) \<Longrightarrow> kres I' J (g x s)) \<Longrightarrow> kres I' J (bnd r g)"
  by (cases r) auto

lemma sched_poly: "kres I J (sched s :: (_, unit) res) \<Longrightarrow> kres I' J (sched s :: (_, 'b) res)"
  by (auto simp: sched_def with_myproc_def split: option.splits if_splits)

lemma sleep_poly:
  assumes "kres I J (sleep ch lk s :: (_, unit) res)"
  shows "kres I' J (sleep ch lk s :: (_, 'b) res)"
proof (cases "myproc s")
  case (Some p)
  show ?thesis
    using assms unfolding sleep_def Some option.case Let_def
    by (elim kres_bnd_poly) (rule sched_poly)
qed (simp add: sleep_def)

locale kernel_inv = quiet_inv +
  assumes wakeup_kp [kp]: "P H s \<Longrightarrow> kres (P H) J (wakeup ch s)"
    and sleep_unit: "P H s \<Longrightarrow> kres (P H) J (sleep ch lk s :: (cons_state, unit) res)"
begin

lemma sleep_kp [kp]: "P H s \<Longrightarrow> kres I J (sleep ch lk s)"
  by (rule sleep_poly[OF sleep_unit])

subsubsection \<open>Sleep locks, buffers and the log\<close>

lemma acquiresleep_loop_kp [kp]:
  "P (insert (slk_spin k) H) s \<Longrightarrow> slk_spin k \<notin> H \<Longrightarrow> kres (P H) J (acquiresleep_loop k s)"
  unfolding acquiresleep_loop_def
  by (rule kp letP bndP kres_let | assumption | (simp; fail))+

lemma acquiresleep_kp [kp]: "P H s \<Longrightarrow> kres (P H) J (acquiresleep k s)"
  unfolding acquiresleep_def
  by (rule kp letP bndP kres_let | assumption | (simp; fail))+

lemma releasesleep_kp [kp]: "P H s \<Longrightarrow> kres (P H) J (releasesleep k s)"
  unfolding releasesleep_def
  by (rule kp letP bndP kres_let | assumption | (simp; fail))+

lemma bget_kp [kp]: "P H s \<Longrightarrow> kres (P H) J (bget dev blockno s)"
  unfolding bget_def
  by (rule kp letP bndP kres_let | assumption | (simp; fail))+

lemma bread_kp [kp]: "P H s \<Longrightarrow> kres (P H) J (bread dev blockno s)"
  unfolding bread_def
  by (rule kp letP bndP kres_let | assumption | (simp; fail))+

lemma bwrite_kp [kp]: "P H s \<Longrightarrow> kres (P H) J (bwrite b s)"
  unfolding bwrite_def
  by (rule kp letP bndP kres_let | assumption | (simp; fail))+

lemma brelse_kp [kp]: "P H s \<Longrightarrow> kres (P H) J (brelse b s)"
  unfolding brelse_def
  by (rule kp letP bndP kres_let | assumption | (simp; fail))+

lemma readsb_kp [kp]: "P H s \<Longrightarrow> kres (P H) J (readsb dev s)"
  unfolding readsb_def
  by (rule kp letP bndP kres_let | assumption | (simp; fail))+

lemma read_head_kp [kp]: "P H s \<Longrightarrow> kres (P H) J (read_head s)"
  unfolding read_head_def
  by (rule kp letP bndP kres_let | assumption | (simp; fail))+

lemma write_head_kp [kp]: "P H s \<Longrightarrow> kres (P H) J (write_head s)"
  unfolding write_head_def
  by (rule kp letP bndP kres_let | assumption | (simp; fail))+

lemma install_one_kp [kp]: "P H s \<Longrightarrow> kres (P H) J (install_one i s)"
  unfolding install_one_def
  by (rule kp letP bndP kres_let | assumption | (simp; fail))+

lemma install_trans_kp [kp]: "P H s \<Longrightarrow> kres (P H) J (install_trans s)"
  unfolding install_trans_def
  by (rule kp letP bndP kres_let | assumption | (simp; fail))+

lemma write_log_one_kp [kp]: "P H s \<Longrightarrow> kres (P H) J (write_log_one i s)"
  unfolding write_log_one_def
  by (rule kp letP bndP kres_let | assumption | (simp; fail))+

lemma write_log_kp [kp]: "P H s \<Longrightarrow> kres (P H) J (write_log s)"
  unfolding write_log_def
  by (rule kp letP bndP kres_let | assumption | (simp; fail))+

lemma recover_from_log_kp [kp]: "P H s \<Longrightarrow> kres (P H) J (recover_from_log s)"
  unfolding recover_from_log_def
  by (rule kp letP bndP kres_let | assumption | (simp; fail))+

lemma commit_kp [kp]: "P H s \<Longrightarrow> kres (P H) J (commit s)"
  unfolding commit_def
  by (rule kp letP bndP kres_let | assumption | (simp; fail))+

lemma begin_op_loop_kp [kp]: "P (insert LogLock H) s \<Longrightarrow> LogLock \<notin> H \<Longrightarrow> kres (P H) J (begin_op_loop s)"
  unfolding begin_op_loop_def
  by (rule kp letP bndP kres_let | assumption | (simp; fail))+

lemma begin_op_kp [kp]: "P H s \<Longrightarrow> kres (P H) J (begin_op s)"
  unfolding begin_op_def
  by (rule kp letP bndP kres_let | assumption | (simp; fail))+

lemma end_op_kp [kp]: "P H s \<Longrightarrow> kres (P H) J (end_op s)"
  unfolding end_op_def
  by (rule kp letP bndP kres_let | assumption | (simp; fail))+

subsubsection \<open>Blocks and inodes\<close>

lemma bzero_kp [kp]: "P H s \<Longrightarrow> kres (P H) J (bzero dev bno s)"
  unfolding bzero_def
  by (rule kp letP bndP kres_let | assumption | (simp; fail))+

lemma balloc_scan_kp [kp]: "P H s \<Longrightarrow> kres (P H) J (balloc_scan dev bs s)"
proof (induction bs arbitrary: s)
  case (Cons x bs)
  show ?case using Cons.prems unfolding balloc_scan.simps
    by - (rule kp letP bndP kres_let Cons.IH | assumption | (simp; fail))+
qed simp

lemma balloc_kp [kp]: "P H s \<Longrightarrow> kres (P H) J (balloc dev s)"
  unfolding balloc_def
  by (rule kp letP bndP kres_let | assumption | (simp; fail))+

lemma bfree_kp [kp]: "P H s \<Longrightarrow> kres (P H) J (bfree dev b s)"
  unfolding bfree_def
  by (rule kp letP bndP kres_let | assumption | (simp; fail))+

lemma ialloc_scan_kp [kp]: "P H s \<Longrightarrow> kres (P H) J (ialloc_scan dev type ns s)"
proof (induction ns arbitrary: s)
  case (Cons x ns)
  show ?case using Cons.prems unfolding ialloc_scan.simps
    by - (rule kp letP bndP kres_let Cons.IH | assumption | (simp; fail))+
qed simp

lemma ialloc_kp [kp]: "P H s \<Longrightarrow> kres (P H) J (ialloc dev type s)"
  unfolding ialloc_def
  by (rule kp letP bndP kres_let | assumption | (simp; fail))+

lemma iupdate_kp [kp]: "P H s \<Longrightarrow> kres (P H) J (iupdate ip s)"
  unfolding iupdate_def
  by (rule kp letP bndP kres_let | assumption | (simp; fail))+

lemma ilock_kp [kp]: "P H s \<Longrightarrow> kres (P H) J (ilock ipp s)"
  unfolding ilock_def
  by (rule kp letP bndP kres_let | assumption | (simp; fail))+

lemma iunlock_kp [kp]: "P H s \<Longrightarrow> kres (P H) J (iunlock ipp s)"
  unfolding iunlock_def
  by (rule kp letP bndP kres_let | assumption | (simp; fail))+

lemma bmap_slot_kp [kp]: "P H s \<Longrightarrow> kres (P H) J (bmap_slot ip i s)"
  unfolding bmap_slot_def
  by (rule kp letP bndP kres_let | assumption | (simp; fail))+

lemma bmap_entry_kp [kp]: "P H s \<Longrightarrow> kres (P H) J (bmap_entry dev addr i s)"
  unfolding bmap_entry_def
  by (rule kp letP bndP kres_let | assumption | (simp; fail))+

lemma bmap_kp [kp]: "P H s \<Longrightarrow> kres (P H) J (bmap ip bn s)"
  unfolding bmap_def
  by (rule kp letP bndP kres_let | assumption | (simp; fail))+

lemma free_tree_kp [kp]: "P H s \<Longrightarrow> kres (P H) J (free_tree lv dev b s)"
proof (induction lv arbitrary: b s)
  case 0
  then show ?case unfolding free_tree.simps by - (rule kp letP bndP kres_let | assumption | (simp; fail))+
next
  case (Suc lv)
  show ?case using Suc.prems unfolding free_tree.simps
    by - (rule kp letP bndP kres_let Suc.IH | assumption | (simp; fail))+
qed

lemma itrunc_slot_kp [kp]: "P H s \<Longrightarrow> kres (P H) J (itrunc_slot ip lv i s)"
  unfolding itrunc_slot_def
  by (rule kp letP bndP kres_let | assumption | (simp; fail))+

lemma itrunc_kp [kp]: "P H s \<Longrightarrow> kres (P H) J (itrunc ip s)"
  unfolding itrunc_def
  by (rule kp letP bndP kres_let | assumption | (simp; fail))+

lemma iput_kp [kp]: "P H s \<Longrightarrow> kres (P H) J (iput ip s)"
  unfolding iput_def
  by (rule kp letP bndP kres_let | assumption | (simp; fail))+

lemma iunlockput_kp [kp]: "P H s \<Longrightarrow> kres (P H) J (iunlockput ip s)"
  unfolding iunlockput_def
  by (rule kp letP bndP kres_let | assumption | (simp; fail))+

subsubsection \<open>The console device\<close>

lemma consoleread_end_kp [kp]:
  "P (insert ConsLock H) s \<Longrightarrow> ConsLock \<notin> H \<Longrightarrow> kres (P H) J (consoleread_end ip dn acc s)"
  unfolding consoleread_end_def
  by (rule kp letP bndP kres_let | assumption | (simp; fail))+

lemma consoleread_loop_kp [kp]:
  "P (insert ConsLock H) s \<Longrightarrow> ConsLock \<notin> H \<Longrightarrow> kres (P H) J (consoleread_loop ip dst n dn acc s)"
proof (induction n arbitrary: dn acc s)
  case 0
  then show ?case unfolding consoleread_loop.simps by - (rule kp letP bndP kres_let | assumption | (simp; fail))+
next
  case (Suc n)
  show ?case using Suc.prems unfolding consoleread_loop.simps
    by - (rule kp letP bndP kres_let Suc.IH | assumption | (simp; fail))+
qed

lemma consoleread_kp [kp]: "P H s \<Longrightarrow> kres (P H) J (consoleread ip dst n s)"
  unfolding consoleread_def
  by (rule kp letP bndP kres_let | assumption | (simp; fail))+

lemma consolewrite_kp [kp]: "P H s \<Longrightarrow> kres (P H) J (consolewrite ip src n s)"
  unfolding consolewrite_def
  by (rule kp letP bndP kres_let | assumption | (simp; fail))+

lemma dev_read_kp: "dev_read (console_devsw m) = Some rd \<Longrightarrow> P H s \<Longrightarrow> kres (P H) J (rd ip dst n s)"
  by (auto simp: console_devsw_def consoleread_kp split: if_splits)

lemma dev_write_kp: "dev_write (console_devsw m) = Some wr \<Longrightarrow> P H s \<Longrightarrow> kres (P H) J (wr ip src n s)"
  by (auto simp: console_devsw_def consolewrite_kp split: if_splits)

lemma BSIZE_off: "0 < BSIZE - off mod BSIZE"
  by (simp add: BSIZE_def)

lemma cons_char_kp [kp]: "P H s \<Longrightarrow> kres (P H) J (cons_char c s)"
  unfolding cons_char_def
  by (rule kp letP bndP kres_let | assumption | (simp; fail))+

lemma cons_chars_kp [kp]: "P H s \<Longrightarrow> kres (P H) J (cons_chars cs dump s)"
proof (induction cs arbitrary: dump s)
  case (Cons x cs)
  show ?case using Cons.prems unfolding cons_chars.simps
    by - (rule kp letP bndP kres_let Cons.IH | assumption | (simp; fail))+
qed simp

lemma consoleintr_kp [kp]: "P H s \<Longrightarrow> kres (P H) J (consoleintr cs s)"
  unfolding consoleintr_def
  by (rule kp letP bndP kres_let | assumption | (simp; fail))+

lemma idestart_kp [kp]: "P H s \<Longrightarrow> kres (P H) J (idestart bp s)"
  unfolding idestart_def
  by (rule kp letP bndP kres_let | assumption | (simp; fail))+

lemma ideintr_kp [kp]: "P H s \<Longrightarrow> kres (P H) J (ideintr st din s)"
  unfolding ideintr_def
  by (rule kp letP bndP kres_let | assumption | (simp; fail))+

subsubsection \<open>Reading and writing files\<close>

lemma readi_loop_kp [kp]: "P H s \<Longrightarrow> kres (P H) J (readi_loop ip dst off tot n acc s)"
proof (induction "n - tot" arbitrary: off tot acc s rule: less_induct)
  case less
  have IH: "tot < n \<Longrightarrow> P H t \<Longrightarrow> kres (P H) J (readi_loop ip dst (off + min (n - tot) (BSIZE - off mod BSIZE))
      (tot + min (n - tot) (BSIZE - off mod BSIZE)) n acc' t)" for acc' t
    using less.hyps BSIZE_off[of off] by simp
  show ?case using less.prems by (subst readi_loop.simps) (rule kp letP bndP kres_let IH | assumption | (simp; fail))+
qed

lemma readi_kp [kp]: "P H s \<Longrightarrow> kres (P H) J (readi console_devsw ip dst off n s)"
  unfolding readi_def
  by (rule kp letP bndP kres_let | assumption | erule dev_read_kp)+

lemma writei_loop_kp [kp]: "P H s \<Longrightarrow> kres (P H) J (writei_loop ip src off tot n s)"
proof (induction "n - tot" arbitrary: off tot s rule: less_induct)
  case less
  have IH: "tot < n \<Longrightarrow> P H t \<Longrightarrow> kres (P H) J (writei_loop ip src (off + min (n - tot) (BSIZE - off mod BSIZE))
      (tot + min (n - tot) (BSIZE - off mod BSIZE)) n t)" for t
    using less.hyps BSIZE_off[of off] by simp
  show ?case using less.prems by (subst writei_loop.simps) (rule kp letP bndP kres_let IH | assumption | (simp; fail))+
qed

lemma writei_kp [kp]: "P H s \<Longrightarrow> kres (P H) J (writei console_devsw ip src off n s)"
  unfolding writei_def
  by (rule kp letP bndP kres_let | assumption | erule dev_write_kp)+

subsubsection \<open>Directories\<close>

lemma dirlookup_loop_kp [kp]: "P H s \<Longrightarrow> kres (P H) J (dirlookup_loop console_devsw dp nm offs s)"
proof (induction offs arbitrary: s)
  case (Cons x offs)
  show ?case using Cons.prems unfolding dirlookup_loop.simps
    by - (rule kp letP bndP kres_let Cons.IH | assumption | (simp; fail))+
qed simp

lemma dirlookup_kp [kp]: "P H s \<Longrightarrow> kres (P H) J (dirlookup console_devsw dp nm s)"
  unfolding dirlookup_def
  by (rule kp letP bndP kres_let | assumption | (simp; fail))+

lemma dirlink_slot_kp [kp]: "P H s \<Longrightarrow> kres (P H) J (dirlink_slot console_devsw dp e offs s)"
proof (induction offs arbitrary: s)
  case (Cons x offs)
  show ?case using Cons.prems unfolding dirlink_slot.simps
    by - (rule kp letP bndP kres_let Cons.IH | assumption | (simp; fail))+
qed simp

lemma dirlink_kp [kp]: "P H s \<Longrightarrow> kres (P H) J (dirlink console_devsw dp nm inum s)"
  unfolding dirlink_def
  by (rule kp letP bndP kres_let | assumption | (simp; fail))+

lemma namex_loop_kp [kp]: "P H s \<Longrightarrow> kres (P H) J (namex_loop console_devsw ip path parent nm s)"
proof (induction "length path" arbitrary: ip path nm s rule: less_induct)
  case less
  have IH: "skipelem path = Some (path', nm') \<Longrightarrow> P H t \<Longrightarrow>
      kres (P H) J (namex_loop console_devsw ip' path' parent nm' t)" for path' nm' ip' t
    using less.hyps skipelem_shorter by simp
  show ?case using less.prems by (subst namex_loop.simps) (rule kp letP bndP kres_let IH | assumption | (simp; fail))+
qed

lemma namex_kp [kp]: "P H s \<Longrightarrow> kres (P H) J (namex console_devsw path parent s)"
  unfolding namex_def
  by (rule kp letP bndP kres_let | assumption | (simp; fail))+

lemma namei_kp [kp]: "P H s \<Longrightarrow> kres (P H) J (namei console_devsw path s)"
  unfolding namei_def
  by (rule kp letP bndP kres_let | assumption | (simp; fail))+

lemma nameiparent_kp [kp]: "P H s \<Longrightarrow> kres (P H) J (nameiparent console_devsw path s)"
  unfolding nameiparent_def
  by (rule kp letP bndP kres_let | assumption | (simp; fail))+

subsubsection \<open>Pipes and open files\<close>

lemma pipeclose_kp [kp]: "P H s \<Longrightarrow> kres (P H) J (pipeclose pp writable s)"
  unfolding pipeclose_def
  by (rule kp letP bndP kres_let | assumption | (simp; fail))+

lemma pipewrite_loop_kp [kp]:
  "P (insert (PipeLock pp) H) s \<Longrightarrow> (PipeLock pp) \<notin> H \<Longrightarrow> kres (P H) J (pipewrite_loop pp addr i k s)"
proof (induction k arbitrary: i s)
  case 0
  then show ?case unfolding pipewrite_loop.simps by - (rule kp letP bndP kres_let | assumption | (simp; fail))+
next
  case (Suc k)
  show ?case using Suc.prems unfolding pipewrite_loop.simps
    by - (rule kp letP bndP kres_let Suc.IH | assumption | (simp; fail))+
qed

lemma pipewrite_kp [kp]: "P H s \<Longrightarrow> kres (P H) J (pipewrite pp addr n s)"
  unfolding pipewrite_def
  by (rule kp letP bndP kres_let | assumption | (simp; fail))+

lemma piperead_copy_kp [kp]: "P H s \<Longrightarrow> kres (P H) J (piperead_copy pp addr i k s)"
proof (induction k arbitrary: i s)
  case 0
  then show ?case unfolding piperead_copy.simps by - (rule kp letP bndP kres_let | assumption | (simp; fail))+
next
  case (Suc k)
  show ?case using Suc.prems unfolding piperead_copy.simps
    by - (rule kp letP bndP kres_let Suc.IH | assumption | (simp; fail))+
qed

lemma piperead_loop_kp [kp]:
  "P (insert (PipeLock pp) H) s \<Longrightarrow> (PipeLock pp) \<notin> H \<Longrightarrow> kres (P H) J (piperead_loop pp addr n s)"
  unfolding piperead_loop_def
  by (rule kp letP bndP kres_let | assumption | (simp; fail))+

lemma piperead_kp [kp]: "P H s \<Longrightarrow> kres (P H) J (piperead pp addr n s)"
  unfolding piperead_def
  by (rule kp letP bndP kres_let | assumption | (simp; fail))+

lemma fileclose_kp [kp]: "P H s \<Longrightarrow> kres (P H) J (fileclose fp s)"
  unfolding fileclose_def
  by (rule kp letP bndP kres_let | assumption | (simp; fail))+

lemma filestat_kp [kp]: "P H s \<Longrightarrow> kres (P H) J (filestat fp s)"
  unfolding filestat_def
  by (rule kp letP bndP kres_let | assumption | (simp; fail))+

lemma fileread_kp [kp]: "P H s \<Longrightarrow> kres (P H) J (fileread console_devsw fp addr n s)"
  unfolding fileread_def
  by (rule kp letP bndP kres_let | assumption | (simp; fail))+

lemma FILEMAX_pos: "0 < FILEMAX"
  by (simp add: FILEMAX_def MAXOPBLOCKS_def)

lemma filewrite_loop_kp [kp]: "P H s \<Longrightarrow> kres (P H) J (filewrite_loop console_devsw fp addr i n s)"
proof (induction "nat (n - i)" arbitrary: i s rule: less_induct)
  case less
  have IH: "i < n \<Longrightarrow> P H t \<Longrightarrow> kres (P H) J (filewrite_loop console_devsw fp addr (i + min (n - i) FILEMAX) n t)" for t
    using less.hyps FILEMAX_pos by simp
  show ?case using less.prems by (subst filewrite_loop.simps) (rule kp letP bndP kres_let IH | assumption | (simp; fail))+
qed

lemma filewrite_kp [kp]: "P H s \<Longrightarrow> kres (P H) J (filewrite console_devsw fp addr n s)"
  unfolding filewrite_def
  by (rule kp letP bndP kres_let | assumption | (simp; fail))+

lemma pos_write_loop_kp [kp]: "P H s \<Longrightarrow> kres (P H) J (pos_write_loop console_devsw fp addr off i n s)"
proof (induction "nat (n - i)" arbitrary: i s rule: less_induct)
  case less
  have IH: "i < n \<Longrightarrow> P H t \<Longrightarrow> kres (P H) J (pos_write_loop console_devsw fp addr off (i + min (n - i) FILEMAX) n t)" for t
    using less.hyps FILEMAX_pos by simp
  show ?case using less.prems by (subst pos_write_loop.simps) (rule kp letP bndP kres_let IH | assumption | (simp; fail))+
qed

lemma pos_write_kp [kp]: "P H s \<Longrightarrow> kres (P H) J (pos_write console_devsw fp addr n off s)"
  unfolding pos_write_def
  by (rule kp letP bndP kres_let | assumption | (simp; fail))+

lemma pos_read_kp [kp]: "P H s \<Longrightarrow> kres (P H) J (pos_read console_devsw fp addr n off s)"
  unfolding pos_read_def
  by (rule kp letP bndP kres_let | assumption | (simp; fail))+

lemma close_opt_kp [kp]: "P H s \<Longrightarrow> kres (P H) J (close_opt fo s)"
  unfolding close_opt_def
  by (rule kp letP bndP kres_let | assumption | (simp; fail))+

lemma no_locks [kp]: "P {} s \<Longrightarrow> P {} (s\<lparr>held := held s - A\<rparr>)"
  using held[of "{}" s] by (auto elim: same)

lemma pipealloc_kp [kp]: "P {} s \<Longrightarrow> kres (P {}) J (pipealloc s)"
  unfolding pipealloc_def
  by (rule kp letP bndP kres_let | assumption | (simp; fail))+

subsubsection \<open>System calls\<close>

lemma sys_dup_kp [kp]: "P H s \<Longrightarrow> kres (P H) J (sys_dup s)"
  unfolding sys_dup_def
  by (rule kp letP bndP kres_let | assumption | (simp; fail))+

lemma sys_read_kp [kp]: "P H s \<Longrightarrow> kres (P H) J (sys_read console_devsw s)"
  unfolding sys_read_def
  by (rule kp letP bndP kres_let | assumption | (simp; fail))+

lemma sys_write_kp [kp]: "P H s \<Longrightarrow> kres (P H) J (sys_write console_devsw s)"
  unfolding sys_write_def
  by (rule kp letP bndP kres_let | assumption | (simp; fail))+

lemma sys_pread_kp [kp]: "P H s \<Longrightarrow> kres (P H) J (sys_pread console_devsw s)"
  unfolding sys_pread_def
  by (rule kp letP bndP kres_let | assumption | (simp; fail))+

lemma sys_pwrite_kp [kp]: "P H s \<Longrightarrow> kres (P H) J (sys_pwrite console_devsw s)"
  unfolding sys_pwrite_def
  by (rule kp letP bndP kres_let | assumption | (simp; fail))+

lemma close_fd_kp [kp]: "P H s \<Longrightarrow> kres (P H) J (close_fd p fd s)"
  unfolding close_fd_def
  by (rule kp letP bndP kres_let | assumption | (simp; fail))+

lemma sys_close_kp [kp]: "P H s \<Longrightarrow> kres (P H) J (sys_close s)"
  unfolding sys_close_def
  by (rule kp letP bndP kres_let | assumption | (simp; fail))+

lemma sys_fstat_kp [kp]: "P H s \<Longrightarrow> kres (P H) J (sys_fstat s)"
  unfolding sys_fstat_def
  by (rule kp letP bndP kres_let | assumption | (simp; fail))+

lemma add_nlink_kp [kp]: "P H s \<Longrightarrow> kres (P H) J (add_nlink ip d s)"
  unfolding add_nlink_def
  by (rule kp letP bndP kres_let | assumption | (simp; fail))+

lemma link_bad_kp [kp]: "P H s \<Longrightarrow> kres (P H) J (link_bad ip s)"
  unfolding link_bad_def
  by (rule kp letP bndP kres_let | assumption | (simp; fail))+

lemma sys_link_kp [kp]: "P H s \<Longrightarrow> kres (P H) J (sys_link console_devsw s)"
  unfolding sys_link_def
  by (rule kp letP bndP kres_let | assumption | (simp; fail))+

lemma isdirempty_loop_kp [kp]: "P H s \<Longrightarrow> kres (P H) J (isdirempty_loop console_devsw dp offs s)"
proof (induction offs arbitrary: s)
  case (Cons x offs)
  show ?case using Cons.prems unfolding isdirempty_loop.simps
    by - (rule kp letP bndP kres_let Cons.IH | assumption | (simp; fail))+
qed simp

lemma isdirempty_kp [kp]: "P H s \<Longrightarrow> kres (P H) J (isdirempty console_devsw dp s)"
  unfolding isdirempty_def
  by (rule kp letP bndP kres_let | assumption | (simp; fail))+

lemma unlink_bad_kp [kp]: "P H s \<Longrightarrow> kres (P H) J (unlink_bad dp s)"
  unfolding unlink_bad_def
  by (rule kp letP bndP kres_let | assumption | (simp; fail))+

lemma unlink_entry_kp [kp]: "P H s \<Longrightarrow> kres (P H) J (unlink_entry console_devsw dp ip off s)"
  unfolding unlink_entry_def
  by (rule kp letP bndP kres_let | assumption | (simp; fail))+

lemma sys_unlink_kp [kp]: "P H s \<Longrightarrow> kres (P H) J (sys_unlink console_devsw s)"
  unfolding sys_unlink_def
  by (rule kp letP bndP kres_let | assumption | (simp; fail))+

lemma create_kp [kp]: "P H s \<Longrightarrow> kres (P H) J (create console_devsw path type major minor s)"
  unfolding create_def
  by (rule kp letP bndP kres_let | assumption | (simp; fail))+

lemma open_inode_kp [kp]: "P H s \<Longrightarrow> kres (P H) J (open_inode ip omode s)"
  unfolding open_inode_def
  by (rule kp letP bndP kres_let | assumption | (simp; fail))+

lemma sys_open_kp [kp]: "P H s \<Longrightarrow> kres (P H) J (sys_open console_devsw s)"
  unfolding sys_open_def
  by (rule kp letP bndP kres_let | assumption | (simp; fail))+

lemma create_done_kp [kp]: "P H s \<Longrightarrow> kres (P H) J (create_done ipo s)"
  unfolding create_done_def
  by (rule kp letP bndP kres_let | assumption | (simp; fail))+

lemma sys_mkdir_kp [kp]: "P H s \<Longrightarrow> kres (P H) J (sys_mkdir console_devsw s)"
  unfolding sys_mkdir_def
  by (rule kp letP bndP kres_let | assumption | (simp; fail))+

lemma sys_mknod_kp [kp]: "P H s \<Longrightarrow> kres (P H) J (sys_mknod console_devsw s)"
  unfolding sys_mknod_def
  by (rule kp letP bndP kres_let | assumption | (simp; fail))+

lemma sys_chdir_kp [kp]: "P H s \<Longrightarrow> kres (P H) J (sys_chdir console_devsw s)"
  unfolding sys_chdir_def
  by (rule kp letP bndP kres_let | assumption | (simp; fail))+

lemma sys_pipe_kp [kp]: "P {} s \<Longrightarrow> kres (P {}) J (sys_pipe s)"
  unfolding sys_pipe_def
  by (rule kp letP bndP kres_let | assumption | (simp; fail))+

lemma sys_getpid_kp [kp]: "P H s \<Longrightarrow> kres (P H) J (sys_getpid s)"
  unfolding sys_getpid_def
  by (rule kp letP bndP kres_let | assumption | (simp; fail))+

lemma sys_getppid_kp [kp]: "P H s \<Longrightarrow> kres (P H) J (sys_getppid s)"
  unfolding sys_getppid_def
  by (rule kp letP bndP kres_let | assumption | (simp; fail))+

lemma growproc_kp [kp]: "P H s \<Longrightarrow> kres (P H) J (growproc n s)"
  unfolding growproc_def
  by (rule kp letP bndP kres_let | assumption | (simp; fail))+

lemma sys_sbrk_kp [kp]: "P H s \<Longrightarrow> kres (P H) J (sys_sbrk s)"
  unfolding sys_sbrk_def
  by (rule kp letP bndP kres_let | assumption | (simp; fail))+

lemma sys_sleep_loop_kp [kp]:
  "P (insert TicksLock H) s \<Longrightarrow> TicksLock \<notin> H \<Longrightarrow> kres (P H) J (sys_sleep_loop n ticks0 s)"
  unfolding sys_sleep_loop_def
  by (rule kp letP bndP kres_let | assumption | (simp; fail))+

lemma sys_sleep_kp [kp]: "P H s \<Longrightarrow> kres (P H) J (sys_sleep s)"
  unfolding sys_sleep_def
  by (rule kp letP bndP kres_let | assumption | (simp; fail))+

lemma sys_uptime_kp [kp]: "P H s \<Longrightarrow> kres (P H) J (sys_uptime s)"
  unfolding sys_uptime_def
  by (rule kp letP bndP kres_let | assumption | (simp; fail))+

lemma sys_getlev_kp [kp]: "P H s \<Longrightarrow> kres (P H) J (sys_getlev s)"
  unfolding sys_getlev_def getlev_def
  by (rule kp letP bndP kres_let | assumption | (simp; fail))+

lemma cprintf_kp [kp]: "P H s \<Longrightarrow> kres (P H) J (cprintf fmt as s)"
proof (cases "cons_locking s")
  case True
  assume "P H s"
  then show ?thesis
    by (simp only: cprintf_def Let_def True if_True) (rule kp letP bndP kres_let | assumption | (simp; fail))+
next
  case False
  assume "P H s"
  then show ?thesis
    by (simp only: cprintf_def Let_def False if_False bnd.simps) (rule kp letP bndP kres_let | assumption | (simp; fail))+
qed

lemma my_syscall_kp [kp]: "P H s \<Longrightarrow> kres (P H) J (my_syscall str s)"
  unfolding my_syscall_def
  by (rule kp letP bndP kres_let | assumption | (simp; fail))+

lemma sys_my_syscall_kp [kp]: "P H s \<Longrightarrow> kres (P H) J (sys_my_syscall s)"
  unfolding sys_my_syscall_def
  by (rule kp letP bndP kres_let | assumption | (simp; fail))+

subsubsection \<open>Semaphores\<close>

lemma xem_init_kp [kp]: "P {} s \<Longrightarrow> kres (P {}) J (xem_init a s)"
  unfolding xem_init_def
  by (rule kp letP bndP kres_let | assumption | (simp; fail))+

lemma xem_wait_loop_kp [kp]:
  "P (insert (SemLock a) H) s \<Longrightarrow> (SemLock a) \<notin> H \<Longrightarrow> kres (P H) J (xem_wait_loop a s)"
  unfolding xem_wait_loop_def
  by (rule kp letP bndP kres_let | assumption | (simp; fail))+

lemma xem_wait_kp [kp]: "P H s \<Longrightarrow> kres (P H) J (xem_wait a s)"
  unfolding xem_wait_def
  by (rule kp letP bndP kres_let | assumption | (simp; fail))+

lemma rwlock_init_kp [kp]: "P {} s \<Longrightarrow> kres (P {}) J (rwlock_init r s)"
  unfolding rwlock_init_def
  by (rule kp letP bndP kres_let | assumption | (simp; fail))+

lemma rwlock_acquire_writelock_kp [kp]: "P H s \<Longrightarrow> kres (P H) J (rwlock_acquire_writelock r s)"
  unfolding rwlock_acquire_writelock_def
  by (rule kp letP bndP kres_let | assumption | (simp; fail))+

subsubsection \<open>Loading programs\<close>

lemma loaduvm_loop_kp [kp]: "P H s \<Longrightarrow> kres (P H) J (loaduvm_loop console_devsw pgdir addr ip off i sz s)"
proof (induction "sz - i" arbitrary: i s rule: less_induct)
  case less
  have IH: "i < sz \<Longrightarrow> P H t \<Longrightarrow> kres (P H) J (loaduvm_loop console_devsw pgdir addr ip off (i + PGSIZE) sz t)" for t
    by (rule less.hyps) (use PGSIZE_pos in arith)
  show ?case using less.prems by (subst loaduvm_loop.simps) (rule kp letP bndP kres_let IH | assumption | (simp; fail))+
qed

lemma loaduvm_kp [kp]: "P H s \<Longrightarrow> kres (P H) J (loaduvm console_devsw pgdir addr ip off sz s)"
  unfolding loaduvm_def
  by (rule kp letP bndP kres_let | assumption | (simp; fail))+

lemma exec_bad_kp [kp]: "P H s \<Longrightarrow> kres (P H) J (exec_bad pgdir ipo s)"
  unfolding exec_bad_def
  by (rule kp letP bndP kres_let | assumption | (simp; fail))+

lemma exec_load_kp [kp]: "P H s \<Longrightarrow> kres (P H) J (exec_load console_devsw pgdir ip offs sz s)"
proof (induction offs arbitrary: sz s)
  case (Cons x offs)
  show ?case using Cons.prems unfolding exec_load.simps
    by - (rule kp letP bndP kres_let Cons.IH | assumption | (simp; fail))+
qed simp

lemma exec_args_kp [kp]: "P H s \<Longrightarrow> kres (P H) J (exec_args pgdir argc args sp us s)"
proof (induction args arbitrary: argc sp us s)
  case (Cons a args)
  show ?case using Cons.prems unfolding exec_args.simps
    by - (rule kp letP bndP kres_let Cons.IH | assumption | (simp; fail))+
qed simp

lemma P_upd_pgdir [kp]:
  "P H s \<Longrightarrow> pd \<noteq> 0 \<Longrightarrow> P H (upd_proc p (\<lambda>q. q\<lparr>p_pgdir := pd, p_sz := a1, p_ustack := a2, p_tf := a3 q\<rparr>) s)"
  by (erule upd, simp add: same_sched_def)

lemma exec_commit_kp [kp]: "P H s \<Longrightarrow> pgdir \<noteq> 0 \<Longrightarrow> kres (P H) J (exec_commit p path entry pgdir sz sp s)"
  unfolding exec_commit_def
  by (rule kp letP bndP kres_let | assumption | (simp; fail))+

lemma exec_stack_kp [kp]: "P H s \<Longrightarrow> pgdir \<noteq> 0 \<Longrightarrow> kres (P H) J (exec_stack p path argv entry pgdir sz s)"
  unfolding exec_stack_def
  by (rule kp letP bndP kres_let | assumption | (simp; fail))+

lemma exec_kp [kp]: "P H s \<Longrightarrow> kres (P H) J (exec console_devsw path argv s)"
  unfolding exec_def
  by (rule kp letP bndP kres_let | assumption | (simp; fail))+

lemma sys_exec_kp [kp]: "P H s \<Longrightarrow> kres (P H) J (sys_exec console_devsw s)"
  unfolding sys_exec_def
  by (rule kp letP bndP kres_let | assumption | (simp; fail))+

subsubsection \<open>Interrupts and resumption\<close>

lemma trap_timer_kp [kp]: "P H s \<Longrightarrow> kres (P H) J (trap_timer n s)"
  unfolding trap_timer_def
  by (rule kp letP bndP kres_let | assumption | (simp; fail))+

lemma trap_dispatch_kp [kp]: "P H s \<Longrightarrow> kres (P H) J (trap_dispatch ti tf s)"
  unfolding trap_dispatch_def
  by (rule kp letP bndP kres_let | assumption | (simp; fail))+

lemma sleep_resume_bnd [kp]:
  assumes s: "P {PtableLock} s" and lk: "lk \<noteq> PtableLock" "lk \<noteq> MlfqLock"
    and f: "\<And>t. P {lk} t \<Longrightarrow> kres I J (f () t)"
  shows "kres I J (bnd (sleep_resume p lk s) f)"
proof -
  let ?t = "upd_proc p (\<lambda>q. q\<lparr>p_chan := None\<rparr>) s"
  have t: "P {PtableLock} ?t" using s by (rule upd) (simp add: same_sched_def)
  have "P {lk} (?t\<lparr>held := {lk}\<rparr>)"
    using t by (rule frame) (use lk in auto)
  then show ?thesis
    using held[OF t] lk f by (simp add: sleep_resume_def Let_def release_def acquire_def)
qed

lemma slk_spin_Ptable [kp]: "slk_spin k \<noteq> PtableLock"
  by (cases k) auto

lemma initsleeplock_P [kp]: "P {} s \<Longrightarrow> P {} (initsleeplock k nm s)"
  unfolding initsleeplock_def Let_def by (rule kp | assumption)+

lemma initsleeplocks_P [kp]: "P {} s \<Longrightarrow> P {} (fold (\<lambda>i. initsleeplock (InodeSl i) nm) xs s)"
  by (induction xs arbitrary: s) (auto intro: initsleeplock_P)

lemma iinit_kp [kp]: "P {} s \<Longrightarrow> kres (P {}) J (iinit dev s)"
  unfolding iinit_def
  by (rule kp letP bndP kres_let | assumption | (simp; fail))+

lemma initlog_kp [kp]: "P {} s \<Longrightarrow> kres (P {}) J (initlog dev s)"
  unfolding initlog_def
  by (rule kp letP bndP kres_let | assumption | (simp; fail))+

lemma forkret_kp [kp]: "P {PtableLock} s \<Longrightarrow> kres (P {}) J (forkret s)"
  unfolding forkret_def
  by (rule kp letP bndP kres_let | assumption | (simp; fail))+

lemma yield_resume_kp [kp]: "P {PtableLock} s \<Longrightarrow> kres (P {}) J (yield_resume s)"
  unfolding yield_resume_def
  by (rule kp letP bndP kres_let | assumption | (simp; fail))+

lemma ide_wait_loop_kp [kp]: "P (insert IdeLock H) s \<Longrightarrow> IdeLock \<notin> H \<Longrightarrow> kres (P H) J (ide_wait_loop b s)"
  unfolding ide_wait_loop_def
  by (rule kp letP bndP kres_let | assumption | (simp; fail))+

lemma begin_op_resume_kp [kp]: "P {PtableLock} s \<Longrightarrow> kres (P {}) J (begin_op_resume p s)"
  unfolding begin_op_resume_def
  by (rule kp letP bndP kres_let | assumption | (simp; fail))+

lemma acquiresleep_resume_kp [kp]: "P {PtableLock} s \<Longrightarrow> kres (P {}) J (acquiresleep_resume p k s)"
  unfolding acquiresleep_resume_def
  by (rule kp letP bndP kres_let | assumption | (simp; fail))+

lemma ide_iderw_resume_kp [kp]: "P {PtableLock} s \<Longrightarrow> kres (P {}) J (ide_iderw_resume p b s)"
  unfolding ide_iderw_resume_def
  by (rule kp letP bndP kres_let | assumption | (simp; fail))+

lemma xem_wait_resume_kp [kp]: "P {PtableLock} s \<Longrightarrow> kres (P {}) J (xem_wait_resume p a s)"
  unfolding xem_wait_resume_def
  by (rule kp letP bndP kres_let | assumption | (simp; fail))+

lemma pipewrite_resume_kp [kp]: "P {PtableLock} s \<Longrightarrow> kres (P {}) J (pipewrite_resume p pp addr i k s)"
  unfolding pipewrite_resume_def
  by (rule kp letP bndP kres_let | assumption | (simp; fail))+

lemma piperead_resume_kp [kp]: "P {PtableLock} s \<Longrightarrow> kres (P {}) J (piperead_resume p pp addr n s)"
  unfolding piperead_resume_def
  by (rule kp letP bndP kres_let | assumption | (simp; fail))+

lemma consoleread_resume_kp [kp]: "P {PtableLock} s \<Longrightarrow> kres (P {}) J (consoleread_resume p ip dst n dn acc s)"
  unfolding consoleread_resume_def
  by (rule kp letP bndP kres_let | assumption | (simp; fail))+

lemma sys_sleep_resume_kp [kp]: "P {PtableLock} s \<Longrightarrow> kres (P {}) J (sys_sleep_resume p n ticks0 s)"
  unfolding sys_sleep_resume_def
  by (rule kp letP bndP kres_let | assumption | (simp; fail))+

end

end
