(* ===== verification/Xv6_Sched_Claims.thy ===== *)
theory Xv6_Sched_Claims
  imports Xv6_Sched_Choice Xv6_Example
begin

section \<open>What the scheduler guarantees\<close>

text \<open>
  The properties of the scheduling operations of \<^verbatim>\<open>proc.c\<close> in the terms of the process table, applied to
  the example system.
\<close>

subsection \<open>The example system\<close>

lemma slots_few:
  assumes "\<And>p. k \<le> p \<Longrightarrow> p < n \<Longrightarrow> \<not> P (tb p)" and "k \<le> n"
  shows "slots n P tb = slots k P tb"
  using assms(2,1)
proof (induction n)
  case (Suc n)
  then show ?case by (cases "k = Suc n") auto
qed simp

lemma ex_table_ok: "table_ok ex_ptable 5"
  by (auto simp: table_ok_def ex_ptable_def live_proc_def proc0_def proc_ok_def alive_def NOLEVEL_def)

lemma ex_mlfq_ok: "mlfq_ok ex_ptable ex_mlfq"
proof -
  have *: "4 \<le> p \<Longrightarrow> \<not> in_mlfq (ex_ptable p)" for p
    by (simp add: ex_ptable_def proc0_def in_mlfq_def active_def)
  have "slots NPROC in_mlfq ex_ptable = slots 4 in_mlfq ex_ptable"
    using * by (intro slots_few) (auto simp: NPROC_def)
  moreover have "slots NPROC (\<lambda>q. in_mlfq q \<and> at_lv l (p_level q)) ex_ptable =
      slots 4 (\<lambda>q. in_mlfq q \<and> at_lv l (p_level q)) ex_ptable" for l
    using * by (intro slots_few) (auto simp: NPROC_def)
  moreover have "slots 4 P tb = of_bool (P (tb 0)) + of_bool (P (tb 1)) + of_bool (P (tb 2)) + of_bool (P (tb 3))"
    for P and tb :: "nat \<Rightarrow> proc"
    by (simp add: slots_def eval_nat_numeral)
  moreover have "in_mlfq (ex_ptable 0)" "in_mlfq (ex_ptable 1)" "\<not> in_mlfq (ex_ptable 2)" "\<not> in_mlfq (ex_ptable 3)"
    "p_level (ex_ptable 0) = 2" "p_level (ex_ptable 1) = 2"
    by (simp_all add: ex_ptable_def live_proc_def proc0_def in_mlfq_def active_def NOLEVEL_def)
  ultimately show ?thesis
    by (auto simp: mlfq_ok_def ex_mlfq_def at_lv_def)
qed

lemma ex_stride_ok: "stride_ok ex_ptable ex_mlfq"
proof -
  have "stride_list ex_ptable ex_mlfq [2]"
    by (auto simp: stride_list_def s_link_def ex_mlfq_def ex_ptable_def live_proc_def proc0_def stride_proc_def
      NOLEVEL_def NPROC_def split: if_splits)
  then show ?thesis by (auto simp: stride_ok_def ex_mlfq_def)
qed

lemma ex_sched_inv: "sched_inv ex_state" "cur_ok ex_state"
  using ex_table_ok ex_mlfq_ok ex_stride_ok
  by (simp_all add: sched_inv_def cur_ok_def active_def ex_ptable_def live_proc_def NPROC_def)

subsection \<open>The choice of the next process\<close>

text \<open>
  C6. When one turn of \<^verbatim>\<open>scheduler\<close> switches to a process, that process was ready and is marked running,
  its page table is loaded and only \<^verbatim>\<open>ptable.lock\<close> is held. A stride process is chosen only with the
  smallest pass among the ready stride processes, and not above \<^verbatim>\<open>mlfq_pass\<close> while the queues have
  processes. A process of the queues is at the highest level that has a ready or running process, and
  it is the first ready process of that level in cyclic order from \<^verbatim>\<open>searchidx\<close>, where the next search
  goes on behind it.
\<close>

theorem scheduler_choice:
  assumes inv: "sched_inv s" and free: "held s = {}" and idx: "searchidx s < NPROC"
    and run: "scheduler s = Swtch t"
  shows "\<exists>p<NPROC. curproc t = Some p \<and> p_state (ptable s p) = RUNNABLE \<and>
    ptable t = (ptable s)(p := (ptable s p)\<lparr>p_state := RUNNING\<rparr>) \<and>
    cr3 t = V2P (p_pgdir (ptable s p)) \<and> held t = {PtableLock} \<and> sched_inv t \<and>
    (if p_level (ptable s p) = NOLEVEL
     then (\<forall>r<NPROC. p_level (ptable s r) = NOLEVEL \<and> p_state (ptable s r) = RUNNABLE \<longrightarrow>
              pass_of (ptable s p) \<le> pass_of (ptable s r)) \<and>
          (mlfq_proc_cnt (mlfqstr s) > 0 \<longrightarrow> pass_of (ptable s p) \<le> mlfq_pass (mlfqstr s))
     else (\<forall>r<NPROC. active (ptable s r) \<and> p_level (ptable s r) \<noteq> NOLEVEL \<longrightarrow>
              p_level (ptable s r) \<le> p_level (ptable s p)) \<and>
          searchidx t = (p + 1) mod NPROC \<and>
          (\<exists>j<NPROC. p = (searchidx s + j) mod NPROC \<and>
             (\<forall>i<j. \<not> mlfq_match (p_level (ptable s p)) (ptable s ((searchidx s + i) mod NPROC)))))"
proof -
  have fr: "sched_inv (s\<lparr>held := {PtableLock}\<rparr>)" "sched_inv (s\<lparr>held := {PtableLock}, searchidx := i\<rparr>)" for i
    using inv by (rule sched_inv_frame; simp)+
  from inv free idx show ?thesis
  proof (cases rule: scheduler_cases)
    case (stride p)
    obtain xs where xs: "stride_list (ptable s) (mlfqstr s) xs"
      using sched_invD(3)[OF inv] by (auto simp: stride_ok_def)
    note pick = pick_stride_Some[OF xs stride(1)]
    have set: "set xs = {p. p < NPROC \<and> stride_proc (ptable s p)}" using xs by (simp add: stride_list_def)
    have t: "t = dispatch p (s\<lparr>held := {PtableLock}\<rparr>)" using stride run by simp
    have lv: "p_level (ptable s p) = NOLEVEL" using pick(1) set by (simp add: stride_proc_def)
    have min: "pass_of (ptable s p) \<le> pass_of (ptable s r)"
      if "r < NPROC" "p_level (ptable s r) = NOLEVEL" "p_state (ptable s r) = RUNNABLE" for r
      using that set by (intro pick(3)) (auto simp: stride_proc_def)
    have "sched_inv t" unfolding t using dispatch_inv[OF fr(1) stride(2)] stride(3) by simp
    then show ?thesis
      using stride(2,3) min pick(4) lv t by (intro exI[of _ p]) (simp add: dispatch_def)
  next
    case (queue p)
    have st: "p_state (ptable s p) = RUNNABLE" and lv: "p_level (ptable s p) = pick_level (mlfqstr s)"
      using queue(3) by (auto simp: mlfq_match_def)
    have n: "p_level (ptable s p) \<noteq> NOLEVEL" unfolding lv by (simp add: pick_level_def NOLEVEL_def)
    have t: "t = dispatch p (s\<lparr>held := {PtableLock}, searchidx := (p + 1) mod NPROC\<rparr>)" using queue run by simp
    have max: "p_level (ptable s r) \<le> p_level (ptable s p)"
      if "r < NPROC" "active (ptable s r)" "p_level (ptable s r) \<noteq> NOLEVEL" for r
      unfolding lv using that by (intro pick_level_max(1)[OF sched_invD(1,2)[OF inv]]) (simp_all add: in_mlfq_def)
    have "sched_inv t" unfolding t using dispatch_inv[OF fr(2) queue(2)] st by simp
    then show ?thesis
      using queue(2,4) st n max t unfolding lv[symmetric] by (intro exI[of _ p]) (simp add: dispatch_def)
  next
    case idle
    then show ?thesis using run by simp
  qed
qed

text \<open>Searches with a literal number of steps.\<close>

lemma search_numeral:
  "mlfq_search (numeral w) tb lv i =
    (if mlfq_match lv (tb i) then (Some i, next_idx i) else mlfq_search (pred_numeral w) tb lv (next_idx i))"
  "stride_scan (numeral w) tb None mp np = Some np"
  "stride_scan (numeral w) tb (Some q) mp np =
    (if word_of_int (p_pass (tb q)) \<le> mp \<and> p_state (tb q) = RUNNABLE
     then stride_scan (pred_numeral w) tb (p_s_link (tb q)) (word_of_int (p_pass (tb q))) (Some q)
     else stride_scan (pred_numeral w) tb (p_s_link (tb q)) mp np)"
  by (simp_all add: numeral_eq_Suc)

lemma pick_stride_held: "pick_stride (s\<lparr>held := h\<rparr>) = pick_stride s"
  by (simp add: pick_stride_def split: option.split)

lemma ex_pick_stride: "pick_stride ex_state = Some None"
  by (simp add: pick_stride_def WALK_def NPROC_def search_numeral ex_mlfq_def ex_ptable_def live_proc_def proc0_def)

lemma ex_scheduler:
  "scheduler ex_state = Swtch (dispatch 1 (ex_state\<lparr>held := {PtableLock}, searchidx := 2\<rparr>))"
proof -
  have "mlfq_search NPROC ex_ptable (pick_level ex_mlfq) 0 = (Some 1, 2)"
    by (simp add: search_numeral ex_mlfq_def pick_level_def mlfq_match_def ex_ptable_def live_proc_def proc0_def
      next_idx_def NPROC_def)
  moreover have "sched_inv (ex_state\<lparr>held := {PtableLock}, searchidx := 2\<rparr>)"
    using ex_sched_inv(1) by (rule sched_inv_frame) simp_all
  then have "run_proc 1 (ex_state\<lparr>held := {PtableLock}, searchidx := 2\<rparr>) =
      Swtch (dispatch 1 (ex_state\<lparr>held := {PtableLock}, searchidx := 2\<rparr>))"
    by (rule run_proc_eq) (simp_all add: NPROC_def ex_ptable_def live_proc_def)
  moreover have "pick_stride (ex_state\<lparr>held := h\<rparr>) = Some None" for h
    using ex_pick_stride by (simp add: pick_stride_held)
  ultimately show ?thesis by (simp add: scheduler_def lock_simps)
qed

theorem scheduler_choice_witness:
  "\<exists>t. scheduler ex_state = Swtch t \<and> sched_inv t \<and> curproc t = Some 1 \<and> p_state (ptable t 1) = RUNNING"
proof -
  let ?t = "dispatch 1 (ex_state\<lparr>held := {PtableLock}, searchidx := 2\<rparr>)"
  from scheduler_choice[OF ex_sched_inv(1) _ _ ex_scheduler] have "sched_inv ?t \<and> curproc ?t = Some 1"
    by (auto simp: NPROC_def dispatch_def)
  then show ?thesis using ex_scheduler by (intro exI[of _ ?t]) (simp add: dispatch_def)
qed

text \<open>
  C10. The scheduler does not idle while a process of the queues can run: when no process is marked
  running and some process of the multi-level queue is ready, one turn of \<^verbatim>\<open>scheduler\<close> switches to a
  process.
\<close>

theorem scheduler_progress:
  assumes inv: "sched_inv s" and free: "held s = {}" and idx: "searchidx s < NPROC"
    and none: "\<forall>r<NPROC. p_state (ptable s r) \<noteq> RUNNING"
    and p: "p < NPROC" "p_state (ptable s p) = RUNNABLE" "p_level (ptable s p) \<noteq> NOLEVEL"
  shows "\<exists>t r. scheduler s = Swtch t \<and> curproc t = Some r \<and> p_state (ptable t r) = RUNNING"
  using inv free idx
proof (cases rule: scheduler_cases)
  case idle
  have "in_mlfq (ptable s p)" using p by (simp add: in_mlfq_def active_def)
  then obtain r where r: "r < NPROC" "in_mlfq (ptable s r)" "p_level (ptable s r) = pick_level (mlfqstr s)"
    using pick_level_max(2)[OF sched_invD(1,2)[OF inv] p(1)] by blast
  have "p_pid (ptable s r) \<noteq> -1"
    using table_ok_proc[OF sched_invD(1)[OF inv] r(1)] by (simp add: proc_ok_def)
  then have "mlfq_match (pick_level (mlfqstr s)) (ptable s r)"
    using r none by (auto simp: mlfq_match_def in_mlfq_def active_def)
  with idle r show ?thesis by simp
qed (auto simp: dispatch_def)

definition ex_idle :: cons_state where
  "ex_idle = ex_state\<lparr>curproc := None, ptable := (ptable ex_state)(0 := live_proc 0 RUNNABLE 2)\<rparr>"

lemma ex_idle_inv: "sched_inv ex_idle"
proof -
  have "sched_inv (ex_state\<lparr>ptable := (ptable ex_state)(0 := (ptable ex_state 0)\<lparr>p_state := RUNNABLE,
      p_chan := None, p_killed := False\<rparr>), mlfqstr := mlfqstr ex_state\<rparr>)"
    by (rule sched_inv_state[OF ex_sched_inv(1)])
      (simp_all add: NPROC_def alive_def active_def ex_ptable_def live_proc_def)
  then show ?thesis
    by (rule sched_inv_frame) (simp_all add: ex_idle_def ex_ptable_def live_proc_def proc0_def)
qed

theorem scheduler_progress_witness:
  "p_state (ptable ex_idle 1) = RUNNABLE \<and> (\<exists>t r. scheduler ex_idle = Swtch t \<and> curproc t = Some r \<and> p_state (ptable t r) = RUNNING)"
proof -
  have "\<forall>r<NPROC. p_state (ptable ex_idle r) \<noteq> RUNNING"
    by (simp add: ex_idle_def ex_ptable_def live_proc_def proc0_def)
  then show ?thesis
    using scheduler_progress[OF ex_idle_inv, of 1]
    by (simp add: ex_idle_def ex_ptable_def live_proc_def proc0_def NPROC_def)
qed

text \<open>
  C21. The stride queue can be passed over although it has a ready process: with no process in the
  multi-level queue, the search starts from the pass of the head of the stride queue, ready or not.
  When the head does not run and every ready stride process has a larger pass, the turn of the
  scheduler ends without running anything, and leaves the state as it was.
\<close>

theorem scheduler_passes_over:
  assumes inv: "sched_inv s" and free: "held s = {}" and idx: "searchidx s < NPROC"
    and "mlfq_proc_cnt (mlfqstr s) = 0" and head: "stride_head (mlfqstr s) = Some h"
    and late: "\<forall>r<NPROC. p_level (ptable s r) = NOLEVEL \<and> p_state (ptable s r) = RUNNABLE \<longrightarrow>
      pass_of (ptable s h) < pass_of (ptable s r)"
  shows "scheduler s = Ok () s"
proof -
  obtain xs where xs: "stride_list (ptable s) (mlfqstr s) xs"
    using sched_invD(3)[OF inv] by (auto simp: stride_ok_def)
  have "\<forall>x\<in>set xs. p_state (ptable s x) = RUNNABLE \<longrightarrow> pass_of (ptable s h) < pass_of (ptable s x)"
    using xs late by (auto simp: stride_list_def stride_proc_def)
  then have pick: "pick_stride s = Some None"
    using pick_stride_result[OF xs] head assms(4) by (auto simp: scan_result_def)
  have "pick_level (mlfqstr s) \<noteq> NOLEVEL" by (simp add: pick_level_def)
  then have m: "mlfq_match (pick_level (mlfqstr s)) q \<Longrightarrow> in_mlfq q" for q
    by (auto simp: mlfq_match_def in_mlfq_def active_def)
  have "\<not> in_mlfq (ptable s r)" if "r < NPROC" for r
    using sched_invD(2)[OF inv] assms(4) that slots_pos[of NPROC in_mlfq "ptable s"] by (auto simp: mlfq_ok_def)
  then have "\<not> mlfq_match (pick_level (mlfqstr s)) (ptable s r)" if "r < NPROC" for r
    using that m by blast
  from inv free idx this pick show ?thesis by (cases rule: scheduler_cases) auto
qed

text \<open>Two stride processes; the head sleeps with pass 0, the other one is ready with pass 40.\<close>

definition ex_stuck :: cons_state where
  "ex_stuck = ex_state\<lparr>curproc := None,
     ptable := (\<lambda>p. if p = 0 then (live_proc 0 SLEEPING NOLEVEL)\<lparr>p_share := 20, p_s_link := Some 2, p_chan := Some ChanTicks\<rparr>
                    else if p = 2 then ex_ptable 2 else proc0),
     mlfqstr := ex_mlfq\<lparr>stride_head := Some 0, stride_share := 40, qlevels := (\<lambda>_. 0), mlfq_proc_cnt := 0\<rparr>\<rparr>"

lemma ex_stuck_inv: "sched_inv ex_stuck"
proof -
  have no: "\<not> in_mlfq (ptable ex_stuck p)" for p
    by (simp add: ex_stuck_def in_mlfq_def active_def live_proc_def proc0_def ex_ptable_def)
  have "table_ok (ptable ex_stuck) (nextpid ex_stuck)"
    by (auto simp: ex_stuck_def table_ok_def ex_ptable_def live_proc_def proc0_def proc_ok_def alive_def)
  moreover have "mlfq_ok (ptable ex_stuck) (mlfqstr ex_stuck)"
    using no by (simp add: mlfq_ok_def slots_def) (simp add: ex_stuck_def)
  moreover have "stride_list (ptable ex_stuck) (mlfqstr ex_stuck) [0, 2]"
    by (auto simp: ex_stuck_def stride_list_def s_link_def ex_ptable_def live_proc_def proc0_def stride_proc_def
      NPROC_def split: if_splits)
  then have "stride_ok (ptable ex_stuck) (mlfqstr ex_stuck)" by (auto simp: stride_ok_def ex_stuck_def)
  ultimately show ?thesis by (simp add: sched_inv_def)
qed

theorem scheduler_passes_over_witness:
  "p_state (ptable ex_stuck 2) = RUNNABLE \<and> scheduler ex_stuck = Ok () ex_stuck"
proof -
  have "scheduler ex_stuck = Ok () ex_stuck"
    by (rule scheduler_passes_over[OF ex_stuck_inv, of 0])
      (auto simp: ex_stuck_def NPROC_def ex_ptable_def live_proc_def proc0_def pass_of_def)
  then show ?thesis by (simp add: ex_stuck_def ex_ptable_def live_proc_def)
qed

subsection \<open>Giving up the CPU\<close>



text \<open>
  C22. The priority boost: every ready process of the queues is at the highest level afterwards, with a
  full quantum and allotment and no ticks counted; every other process is as it was, and the counters
  of the queues agree with the table.
\<close>

theorem priboost_effect:
  assumes inv: "sched_inv s"
  shows "sched_inv (priboost s) \<and> held (priboost s) = held s \<and> (\<forall>p<NPROC.
    ptable (priboost s) p = (if p_state (ptable s p) = RUNNABLE \<and> p_level (ptable s p) \<noteq> NOLEVEL
      then (ptable s p)\<lparr>p_level := 2, p_timequant := 5, p_timeallot := 20, p_tickcount := 0\<rparr> else ptable s p))"
proof -
  have "p_pid (ptable s p) \<noteq> -1" if "p < NPROC" for p
    using table_ok_proc[OF sched_invD(1)[OF inv] that] by (simp add: proc_ok_def)
  then show ?thesis
    using priboost_inv[OF inv] by (simp add: priboost_ptable boost_proc_def frame_simps)
qed

theorem priboost_effect_witness:
  "sched_inv (priboost (ex_state\<lparr>curproc := None\<rparr>)) \<and> p_timeallot (ptable (priboost (ex_state\<lparr>curproc := None\<rparr>)) 1) = 20"
proof -
  have "sched_inv (ex_state\<lparr>curproc := None\<rparr>)" using ex_sched_inv(1) by (rule sched_inv_frame) simp_all
  from priboost_effect[OF this] show ?thesis
    by (auto simp: NPROC_def ex_ptable_def live_proc_def)
qed

subsection \<open>Sleeping and waking\<close>

text \<open>
  C11. No wakeup is lost: a process that goes to sleep on a channel with a lock gives up the CPU with only
  \<^verbatim>\<open>ptable.lock\<close> held; once the scheduler has taken the CPU back, a \<^verbatim>\<open>wakeup\<close> of that channel makes the
  process ready and returns it to its queue, does not touch any process that does not sleep on the
  channel, and keeps the invariant of the scheduler.
\<close>

theorem sleep_then_wakeup:
  fixes s :: "'a proc_state_scheme"
  assumes inv: "sched_inv s" and cur: "cur_ok s" "curproc s = Some p"
    and lk: "held s = {lk}" "lk \<noteq> MlfqLock"
  shows "\<exists>t u v. sleep ch lk s = (Swtch t :: ('a proc_state_scheme, 'b) res) \<and> p_state (ptable t p) = SLEEPING \<and>
    held t = {PtableLock} \<and> scheduler_resume t = Ok () u \<and> curproc u = None \<and> held u = {} \<and>
    wakeup ch u = Ok () v \<and> sched_inv v \<and> held v = {} \<and> p_state (ptable v p) = RUNNABLE \<and>
    (\<forall>r. \<not> sleeps_on ch (ptable u r) \<longrightarrow> ptable v r = ptable u r)"
proof -
  obtain t where t: "sleep ch lk s = (Swtch t :: ('a proc_state_scheme, 'b) res)" "sched_inv t" "held t = {PtableLock}"
    "p_state (ptable t p) = SLEEPING" "p_chan (ptable t p) = Some ch"
    using sleep_inv[OF inv cur lk, of ch] by blast
  let ?u = "t\<lparr>cr3 := V2P (kpgdir t), curproc := None, held := {}\<rparr>"
  let ?v = "?u\<lparr>ptable := wake_upto NPROC ch (ptable ?u), mlfqstr := wake_mlfq NPROC ch (ptable ?u) (mlfqstr ?u)\<rparr>"
  have u: "scheduler_resume t = Ok () ?u" using t(3) by (simp add: scheduler_resume_eq)
  have "sched_inv ?u" using t(2) by (rule sched_inv_frame) simp_all
  then have v: "sched_inv ?v" by (rule sched_inv_wake)
  have "wakeup ch ?u = Ok () ?v" by (rule wakeup_eq) simp_all
  moreover have "p < NPROC" using cur by (simp add: cur_ok_def)
  then have "p_state (ptable ?v p) = RUNNABLE" using t(4,5) by (simp add: wake_upto_def wake_proc_def sleeps_on_def)
  moreover have "\<forall>r. \<not> sleeps_on ch (ptable ?u r) \<longrightarrow> ptable ?v r = ptable ?u r"
    by (simp add: wake_upto_def wake_proc_def)
  ultimately show ?thesis using t u v by (intro exI[of _ t] exI[of _ ?u] exI[of _ ?v]) simp
qed

theorem sleep_then_wakeup_witness:
  "\<exists>t u v. sleep ChanTicks TicksLock (ex_state\<lparr>held := {TicksLock}\<rparr>) = (Swtch t :: (cons_state, unit) res) \<and>
    scheduler_resume t = Ok () u \<and> wakeup ChanTicks u = Ok () v \<and> sched_inv v \<and> p_state (ptable v 0) = RUNNABLE"
proof -
  have "sched_inv (ex_state\<lparr>held := {TicksLock}\<rparr>)" using ex_sched_inv(1) by (rule sched_inv_frame) simp_all
  moreover have "cur_ok (ex_state\<lparr>held := {TicksLock}\<rparr>)" using ex_sched_inv(2) by (simp add: cur_ok_def)
  ultimately show ?thesis
    using sleep_then_wakeup[of "ex_state\<lparr>held := {TicksLock}\<rparr>" 0 TicksLock ChanTicks, where 'b = unit] by auto
qed

subsection \<open>Shares\<close>




end
