(* ===== verification/Xv6_Syscall_Inv.thy ===== *)
theory Xv6_Syscall_Inv
  imports Xv6_Keeps Xv6_Sched_Claims
begin

section \<open>System calls and traps keep the scheduler's invariant\<close>

text \<open>
  The invariant of the scheduler as an instance of the locale \<open>kernel_inv\<close>; the operations that create,
  end and reap processes, which change the process table themselves; and the theorems about the
  dispatch of system calls and about traps.
\<close>

subsection \<open>The invariant with the locks\<close>

definition KH :: "nat option \<Rightarrow> lock set \<Rightarrow> 'a proc_state_scheme \<Rightarrow> bool" where
  "KH c H s \<longleftrightarrow> sched_inv s \<and> cur_ok s \<and> MlfqLock \<notin> H \<and> held s = H \<and> curproc s = c \<and> searchidx s < NPROC"

definition SW :: "'a proc_state_scheme \<Rightarrow> bool" where
  "SW s \<longleftrightarrow> sched_inv s \<and> held s = {PtableLock} \<and> searchidx s < NPROC"

lemma KH_frame:
  assumes "KH c H s" and "ptable t = ptable s" and "mlfqstr t = mlfqstr s" and "nextpid t = nextpid s"
    and "curproc t = curproc s" and "searchidx t = searchidx s" and "held t = H'" and "MlfqLock \<in> H' \<Longrightarrow> MlfqLock \<in> H"
  shows "KH c H' t"
  using assms by (auto simp: KH_def cur_ok_def intro: sched_inv_frame)

lemma KH_upd:
  assumes "KH c H s" and "same_sched (ptable s p) (f (ptable s p))"
  shows "KH c H (upd_proc p f s)"
  using assms sched_inv_same[of s p "f (ptable s p)"]
  by (auto simp: KH_def upd_proc_def cur_ok_def same_sched_def active_def)

lemma KH_wake:
  assumes "KH c H s"
  shows "KH c H (s\<lparr>ptable := wake_upto NPROC ch (ptable s), mlfqstr := wake_mlfq NPROC ch (ptable s) (mlfqstr s)\<rparr>)"
proof -
  have "active (ptable s p) \<Longrightarrow> active (wake_upto NPROC ch (ptable s) p)" for p
    by (auto simp: wake_upto_def wake_proc_def active_def)
  then show ?thesis
    using assms sched_inv_wake[of s ch] by (auto simp: KH_def cur_ok_def)
qed

lemma KH_wakeup: "KH c H s \<Longrightarrow> kres (KH c H) J (wakeup ch s)"
proof (cases "PtableLock \<in> held s")
  case True
  then show ?thesis by (simp add: wakeup_def acquire_def)
next
  case False
  assume "KH c H s"
  then show ?thesis using False KH_wake[of c H s ch] by (simp add: wakeup_eq KH_def)
qed

text \<open>\<^verbatim>\<open>sleep\<close> gives the CPU away only when its argument is the one lock held, and never returns.\<close>

lemma mlfq_leave_held:
  "held s = H \<Longrightarrow> searchidx s = i \<Longrightarrow> kres (\<lambda>t. held t = H \<and> searchidx t = i) J (mlfq_leave p s)"
  by (auto simp: mlfq_leave_def acquire_def release_def mlfqrm_out Let_def)

lemma sched_held: "(held s = {PtableLock} \<Longrightarrow> Q s) \<Longrightarrow> kres (\<lambda>_. False) Q (sched s)"
  by (auto simp: sched_def with_myproc_def split: option.split)

lemma swap_lock:
  assumes "a \<notin> H" and "b \<in> H"
  shows "insert a H - {b} = {a} \<longleftrightarrow> H = {b}"
proof
  assume e: "insert a H - {b} = {a}"
  have "x = b" if "x \<in> H" for x
  proof (rule ccontr)
    assume "x \<noteq> b"
    then have "x \<in> insert a H - {b}" using that by simp
    then have "x = a" unfolding e by simp
    with that assms(1) show False by simp
  qed
  with assms(2) show "H = {b}" by blast
qed (use assms in auto)

lemma sleep_needs_lock:
  "kres (\<lambda>_. False) (\<lambda>t. held s = {lk} \<and> (\<exists>p. curproc s = Some p) \<and> searchidx t = searchidx s)
    (sleep ch lk s :: (_, unit) res)"
proof (cases "curproc s")
  case (Some p)
  let ?Q = "\<lambda>t. held t = {PtableLock} \<longrightarrow> held s = {lk}"
  let ?R = "\<lambda>t. ?Q t \<and> searchidx t = searchidx s"
  have one: "kres ?R J
      (if lk \<noteq> PtableLock then bnd (acquire PtableLock s) (\<lambda>_ s. release lk s) else Ok () s)" for J
  proof (cases "lk = PtableLock \<or> PtableLock \<in> held s \<or> lk \<notin> held s")
    case True
    then show ?thesis by (simp add: acquire_def release_def) blast
  next
    case False
    then show ?thesis by (simp add: acquire_def release_def swap_lock)
  qed
  have two: "kres ?R J (if c then mlfq_leave p t else Ok () t)" if "?R t" for t J c
  proof (cases c)
    case True
    have "kres ?R J (mlfq_leave p t)"
      by (rule kres_mono[OF mlfq_leave_held[OF refl refl]]) (use that in simp_all)
    then show ?thesis using True by simp
  qed (use that in simp)
  show ?thesis
    unfolding sleep_def myproc_def Some option.case Let_def
    by (rule kres_bnd[OF one], rule kres_bnd[OF two], simp add: upd_proc_def, rule sched_held) simp
qed (simp add: sleep_def myproc_def)

lemma KH_sleep:
  assumes "KH c H s"
  shows "kres I SW (sleep ch lk s :: ('a proc_state_scheme, unit) res)"
proof (cases "sleep ch lk s :: ('a proc_state_scheme, unit) res")
  case (Swtch t)
  then obtain p where "held s = {lk}" "curproc s = Some p" and i: "searchidx t = searchidx s"
    using sleep_needs_lock[of s lk ch] by auto
  then have "\<exists>s'. sleep ch lk s = (Swtch s' :: ('a proc_state_scheme, unit) res) \<and> sched_inv s' \<and>
      held s' = {PtableLock} \<and> p_state (ptable s' p) = SLEEPING \<and> p_chan (ptable s' p) = Some ch"
    using assms by (intro sleep_inv) (auto simp: KH_def)
  with Swtch i assms show ?thesis by (auto simp: SW_def KH_def)
qed (use sleep_needs_lock[of s lk ch] in auto)

interpretation kh: kernel_inv "KH c" SW for c
proof (standard, goal_cases)
  case 1 then show ?case by (rule KH_frame)
next
  case 2 then show ?case by (simp add: KH_def)
next
  case 3 then show ?case by (rule KH_upd)
next
  case 4 then show ?case by (rule KH_wakeup)
next
  case 5 then show ?case by (rule KH_sleep)
qed

subsection \<open>Slots that are not alive\<close>

lemma KH_dead:
  assumes s: "KH c H s" and p: "p < NPROC" "\<not> alive (ptable s p)" and q: "\<not> alive q" "proc_ok p q"
    and pid: "p_pid q < nextpid t" "nextpid s \<le> nextpid t"
    and t: "ptable t = (ptable s)(p := q)" "mlfqstr t = mlfqstr s" "curproc t = curproc s" "searchidx t = searchidx s" "held t = held s"
  shows "KH c H t"
proof -
  have inv: "sched_inv s" using s by (simp add: KH_def)
  have "table_ok (ptable t) (nextpid t)"
    using sched_invD(1)[OF inv] q pid p unfolding t(1) table_ok_def
    by (auto simp: fun_upd_apply intro: less_le_trans)
  moreover have "mlfq_ok (ptable t) (mlfqstr t)"
    unfolding t(1) using sched_invD(2)[OF inv] p q t(2)
    by (intro mlfq_ok_upd) (auto simp: in_mlfq_def dest: active_alive)
  moreover have "stride_ok (ptable t) (mlfqstr t)"
    using p q t by (intro stride_ok_cong[OF sched_invD(3)[OF inv]]) (auto simp: stride_proc_def alive_def)
  ultimately have "sched_inv t" by (simp add: sched_inv_def)
  moreover have "cur_ok t"
    using s t p by (auto simp: KH_def cur_ok_def dest: active_alive)
  ultimately show ?thesis using s t by (simp add: KH_def)
qed

text \<open>
  What is known of a slot \<open>p\<close> that is being built up or taken down: at stage 0 that it is not alive; at
  stage 1 that it is set up for a process without threads; then that it has a kernel stack, and that
  it has a page table.
\<close>

definition embryo :: "nat \<Rightarrow> nat \<Rightarrow> 'a proc_state_scheme \<Rightarrow> bool" where
  "embryo k p s \<longleftrightarrow> p < NPROC \<and> \<not> alive (ptable s p) \<and>
     (1 \<le> k \<longrightarrow> p_level (ptable s p) = 2 \<and> p_timequant (ptable s p) \<noteq> 0 \<and>
        p_lwpgroup (ptable s p) = Some p \<and> p_thread_count (ptable s p) = 1 \<and> p_s_link (ptable s p) = None \<and>
        0 < p_pid (ptable s p) \<and>
        (\<forall>r<NPROC. alive (ptable s r) \<longrightarrow> p_pid (ptable s r) \<noteq> p_pid (ptable s p))) \<and>
     (2 \<le> k \<longrightarrow> p_kstack (ptable s p) \<noteq> 0) \<and>
     (3 \<le> k \<longrightarrow> p_pgdir (ptable s p) \<noteq> 0)"

definition KE :: "nat option \<Rightarrow> nat \<Rightarrow> nat \<Rightarrow> lock set \<Rightarrow> 'a proc_state_scheme \<Rightarrow> bool" where
  "KE c k p H s \<longleftrightarrow> KH c H s \<and> embryo k p s"

lemma embryo_frame: "embryo k p s \<Longrightarrow> ptable t = ptable s \<Longrightarrow> embryo k p t"
  by (simp add: embryo_def)

lemma embryo_upd:
  assumes e: "embryo k p s" and q: "same_sched (ptable s r) (f (ptable s r))"
  shows "embryo k p (upd_proc r f s)"
proof -
  have "alive (ptable (upd_proc r f s) i) = alive (ptable s i)"
    and "p_pid (ptable (upd_proc r f s) i) = p_pid (ptable s i)" for i
    using q by (auto simp: upd_proc_def same_sched_def alive_def)
  moreover have "same_sched (ptable s p) (ptable (upd_proc r f s) p)"
    using q by (simp add: upd_proc_def same_sched_def)
  ultimately show ?thesis
    using e unfolding embryo_def same_sched_def by simp
qed

interpretation ke: quiet_inv "KE c k p" J for c k p J
proof (standard, goal_cases)
  case (1 H s t H')
  then show ?case by (auto simp: KE_def intro: KH_frame embryo_frame)
next
  case 2 then show ?case by (simp add: KE_def KH_def)
next
  case 3 then show ?case by (auto simp: KE_def intro: KH_upd embryo_upd)
qed

lemma KE_mono: "KE c k p H s \<Longrightarrow> k' \<le> k \<Longrightarrow> KE c k' p H s"
  by (auto simp: KE_def embryo_def)

lemma KE_KH: "KE c k p H s \<Longrightarrow> KH c H s"
  by (simp add: KE_def)

subsection \<open>Creating a process\<close>

definition fresh_proc :: "nat \<Rightarrow> int \<Rightarrow> proc \<Rightarrow> proc" where
  "fresh_proc p pid q = q\<lparr>p_state := EMBRYO, p_pid := pid, p_level := 2, p_timequant := 5, p_timeallot := 20,
     p_tickcount := 0, p_s_link := None, p_share := 0, p_stride := -1, p_pass := 0, p_thread_count := 1,
     p_thread_id := 0, p_next_tid := 1, p_lwpgroup := Some p, p_waiting_tid := -1\<rparr>"

lemma allocproc_eq:
  assumes "PtableLock \<notin> held s"
  shows "allocproc s =
    (case List.find (\<lambda>p. p_state (ptable s p) = UNUSED) [0..<NPROC] of
       None \<Rightarrow> Ok None s
     | Some p \<Rightarrow>
         bnd (kalloc (s\<lparr>nextpid := nextpid s + 1,
                        ptable := (ptable s)(p := fresh_proc p (nextpid s) (ptable s p))\<rparr>)) (\<lambda>ks s.
         let s = upd_proc p (\<lambda>q. q\<lparr>p_kstack := ks\<rparr>) s
         in if ks = 0 then Ok None (upd_proc p (\<lambda>q. q\<lparr>p_state := UNUSED\<rparr>) s)
            else Ok (Some p) (setup_kstack p ks s)))"
  using assms
  by (simp add: allocproc_def lock_simps upd_proc_def fresh_proc_def Let_def split: option.split)

lemma cur_pid:
  assumes "KH (Some c) H s"
  shows "0 < nextpid s" and "c < NPROC" and "active (ptable s c)"
proof -
  show c: "c < NPROC" "active (ptable s c)" using assms by (auto simp: KH_def cur_ok_def)
  then have "0 < p_pid (ptable s c)" "p_pid (ptable s c) < nextpid s"
    using assms by (auto simp: KH_def sched_inv_def table_ok_def proc_ok_def dest: active_alive)
  then show "0 < nextpid s" by simp
qed

lemma KE_fresh:
  assumes "KH (Some c) H s" and p: "p < NPROC" "p_state (ptable s p) = UNUSED"
  shows "KE (Some c) 1 p H (s\<lparr>nextpid := nextpid s + 1, ptable := (ptable s)(p := fresh_proc p (nextpid s) (ptable s p))\<rparr>)"
    (is "KE _ _ _ _ ?t")
proof -
  note pid = cur_pid(1)[OF assms(1)]
  have "proc_ok p (fresh_proc p (nextpid s) (ptable s p))"
    using pid by (simp add: proc_ok_def fresh_proc_def alive_def)
  then have "KH (Some c) H ?t"
    using p pid by (intro KH_dead[OF assms(1) p(1)]) (simp_all add: alive_def fresh_proc_def)
  moreover have "embryo 1 p ?t"
    using assms pid by (auto simp: embryo_def fresh_proc_def alive_def KH_def sched_inv_def table_ok_def)
  ultimately show ?thesis by (simp add: KE_def)
qed

text \<open>A slot in preparation gets its kernel stack or its page table, or is given back.\<close>

lemma KE_proc_ok:
  assumes "KE c k p H s"
  shows "p < NPROC" and "\<not> alive (ptable s p)" and "proc_ok p (ptable s p)" and "p_pid (ptable s p) < nextpid s"
  using assms by (auto simp: KE_def KH_def embryo_def sched_inv_def table_ok_def)

lemma KE_change:
  assumes s: "KE c k p H s" and q: "\<not> alive (f (ptable s p))" "proc_ok p (f (ptable s p))"
    "p_pid (f (ptable s p)) < nextpid s"
  shows "KE c 0 p H (upd_proc p f s)"
proof -
  note p = KE_proc_ok[OF s]
  have "KH c H (upd_proc p f s)"
    using p q by (intro KH_dead[OF KE_KH[OF s] p(1,2) q(1,2)]) (simp_all add: upd_proc_def)
  then show ?thesis using p q by (simp add: KE_def embryo_def upd_proc_def)
qed

lemma KE_kstack:
  assumes "KE c 1 p H s" and "ks \<noteq> 0"
  shows "KE c 2 p H (upd_proc p (\<lambda>q. q\<lparr>p_kstack := ks\<rparr>) s)"
proof -
  have "KE c 0 p H (upd_proc p (\<lambda>q. q\<lparr>p_kstack := ks\<rparr>) s)"
    using KE_proc_ok[OF assms(1)] by (intro KE_change[OF assms(1)]) (simp_all add: alive_def proc_ok_def)
  then show ?thesis
    using assms by (auto simp: KE_def embryo_def upd_proc_def alive_def)
qed

lemma KE_pgdir:
  assumes "KE c 2 p H s"
  shows "KE c (if pd = 0 then 2 else 3) p H (upd_proc p (\<lambda>q. q\<lparr>p_pgdir := pd\<rparr>) s)"
proof -
  have "KE c 0 p H (upd_proc p (\<lambda>q. q\<lparr>p_pgdir := pd\<rparr>) s)"
    using KE_proc_ok[OF assms] by (intro KE_change[OF assms]) (simp_all add: alive_def proc_ok_def)
  then show ?thesis
    using assms by (auto simp: KE_def embryo_def upd_proc_def alive_def)
qed

lemma KE_unused:
  assumes "KE c k p H s"
  shows "KE c 0 p H (upd_proc p (\<lambda>q. q\<lparr>p_state := UNUSED\<rparr>) s)"
    and "KE c 0 p H (upd_proc p (\<lambda>q. q\<lparr>p_kstack := ks, p_state := UNUSED\<rparr>) s)"
  using KE_proc_ok[OF assms] by (intro KE_change[OF assms]; simp add: alive_def proc_ok_def)+

lemma KE_setup_kstack: "KE c k p H s \<Longrightarrow> KE c k p H (setup_kstack p ks (s :: cons_state))"
  unfolding setup_kstack_def Let_def by (intro ke.upd ke.P_upd) auto

lemma kres_bndv:
  "(\<And>x t. r = Ok x t \<Longrightarrow> kres I J (f x t)) \<Longrightarrow> (\<And>t. r = Swtch t \<Longrightarrow> J t) \<Longrightarrow> kres I J (bnd r f)"
  by (cases r) auto

lemma kresD: "kres I J r \<Longrightarrow> r = Ok x t \<Longrightarrow> I t" "kres I J r \<Longrightarrow> r = Swtch t \<Longrightarrow> J t"
  by auto

lemma allocproc_KH:
  assumes "KH (Some c) H (s :: cons_state)"
  shows "(\<exists>e. allocproc s = Fail e) \<or> (\<exists>t. allocproc s = Ok None t \<and> KH (Some c) H t) \<or>
    (\<exists>p t. allocproc s = Ok (Some p) t \<and> KE (Some c) 2 p H t)"
proof (cases "PtableLock \<in> held s")
  case False
  note eq = allocproc_eq[OF False]
  show ?thesis
  proof (cases "List.find (\<lambda>p. p_state (ptable s p) = UNUSED) [0..<NPROC]")
    case None
    then show ?thesis using assms by (simp add: eq)
  next
    case (Some p)
    then have p: "p < NPROC" "p_state (ptable s p) = UNUSED" by (auto simp: find_Some_iff)
    let ?t = "s\<lparr>nextpid := nextpid s + 1, ptable := (ptable s)(p := fresh_proc p (nextpid s) (ptable s p))\<rparr>"
    note k = ke.kalloc_kp[OF KE_fresh[OF assms p], of "\<lambda>_. False"]
    show ?thesis
    proof (cases "kalloc ?t")
      case (Ok ks u)
      then have u: "KE (Some c) 1 p H u" using k by simp
      let ?v = "upd_proc p (\<lambda>q. q\<lparr>p_kstack := ks\<rparr>) u"
      show ?thesis
      proof (cases "ks = 0")
        case True
        have "KE (Some c) 0 p H ?v"
          using KE_proc_ok[OF u] by (intro KE_change[OF u]) (simp_all add: alive_def proc_ok_def)
        then have "KH (Some c) H (upd_proc p (\<lambda>q. q\<lparr>p_state := UNUSED\<rparr>) ?v)"
          by (intro KE_KH[OF KE_unused(1)])
        then show ?thesis using True Ok Some by (simp add: eq)
      next
        case False
        have "KE (Some c) 2 p H (setup_kstack p ks ?v)"
          by (rule KE_setup_kstack[OF KE_kstack[OF u False]])
        then show ?thesis using False Ok Some by (simp add: eq)
      qed
    qed (use k Some in \<open>auto simp: eq\<close>)
  qed
qed (simp add: allocproc_def acquire_def)

text \<open>The new process becomes ready.\<close>

lemma KH_birth:
  assumes s: "KE c 3 p H s"
    and t: "ptable t = (ptable s)(p := (ptable s p)\<lparr>p_state := RUNNABLE\<rparr>)"
      "mlfqstr t = mlfq_in (p_level (ptable s p)) (mlfqstr s)" "nextpid t = nextpid s"
      "curproc t = curproc s" "searchidx t = searchidx s" "held t = held s"
  shows "KH c H t"
proof -
  let ?q = "(ptable s p)\<lparr>p_state := RUNNABLE\<rparr>"
  note p = KE_proc_ok[OF s]
  have inv: "sched_inv s" and e: "embryo 3 p s" using s by (auto simp: KE_def KH_def)
  have lv: "p_level (ptable s p) \<noteq> NOLEVEL" using e by (simp add: embryo_def NOLEVEL_def)
  have "proc_ok p ?q" using e p(3) by (simp add: embryo_def proc_ok_def)
  then have "table_ok (ptable t) (nextpid t)"
    using sched_invD(1)[OF inv] e p(1,4) unfolding t table_ok_def embryo_def
    by (auto simp: fun_upd_apply)
  moreover have "mlfq_ok (ptable t) (mlfqstr t)"
    unfolding t using mlfq_ok_enter[OF sched_invD(2)[OF inv] p(1), of ?q] p(2) lv
    by (auto simp: in_mlfq_def active_def alive_def)
  moreover have "stride_ok (ptable t) (mlfqstr t)"
    using t lv p(2) by (intro stride_ok_cong[OF sched_invD(3)[OF inv]]) (auto simp: stride_proc_def alive_def)
  ultimately have "sched_inv t" by (simp add: sched_inv_def)
  moreover have "cur_ok t" using s t by (auto simp: KE_def KH_def cur_ok_def active_def)
  ultimately show ?thesis using s t by (simp add: KE_def KH_def)
qed

lemma fork_run:
  assumes s: "KE c 3 p H s"
  shows "kres (KH c H) J (bnd (acquire PtableLock s) (\<lambda>_ s.
    let s = upd_proc p (\<lambda>q. q\<lparr>p_state := RUNNABLE\<rparr>) s
    in bnd (if p_level (ptable s p) \<noteq> NOLEVEL then mlfq_enter p s else Ok () s) (\<lambda>_ s.
       bnd (release PtableLock s) (\<lambda>_ s. Ok pid s))))"
proof (cases "PtableLock \<in> held s")
  case False
  have lv: "p_level (ptable s p) \<noteq> NOLEVEL" using s by (simp add: KE_def embryo_def NOLEVEL_def)
  have m: "MlfqLock \<notin> held s" using s by (simp add: KE_def KH_def)
  let ?t = "s\<lparr>ptable := (ptable s)(p := (ptable s p)\<lparr>p_state := RUNNABLE\<rparr>),
    mlfqstr := mlfq_in (p_level (ptable s p)) (mlfqstr s)\<rparr>"
  have "KH c H ?t" by (rule KH_birth[OF s]) simp_all
  then show ?thesis
    using False lv m by (simp add: lock_simps Let_def upd_proc_def mlfq_enter_def mlfqadd_in)
qed (simp add: acquire_def)

lemma KE_child [kp]:
  "KE c k p H s \<Longrightarrow> KE c k p H (upd_proc p (\<lambda>q. q\<lparr>p_sz := a1, p_ustack := a2, p_parent := a3, p_tf := a4\<rparr>) (s :: cons_state))"
  "KE c k p H s \<Longrightarrow> KE c k p H (upd_proc p (\<lambda>q. q\<lparr>p_cwd := a5, p_name := a6\<rparr>) s)"
  by (erule ke.upd, simp add: same_sched_def)+

lemma fork_kp:
  assumes "KH c H (s :: cons_state)"
  shows "kres (KH c H) SW (fork s)"
  unfolding fork_def
proof (rule kh.with_myproc_kp[OF assms], rule kres_bndv, goal_cases)
  case (1 p npo t)
  then have c: "c = Some p" using assms by (simp add: KH_def)
  note a = allocproc_KH[OF assms[unfolded c]]
  show ?case
  proof (cases npo)
    case None
    then show ?thesis using a 1 c by auto
  next
    case (Some np)
    then have t: "KE c 2 np H t" using a 1 c by auto
    show ?thesis unfolding Some option.case
    proof (rule kres_bnd[OF ke.copyuvm_kp[OF t]], goal_cases)
      case (1 d u)
      let ?v = "upd_proc np (\<lambda>q. q\<lparr>p_pgdir := d\<rparr>) u"
      show ?case
      proof (cases "d = 0")
        case True
        have v: "KE c 2 np H ?v" using KE_pgdir[OF 1, of d] True by simp
        show ?thesis unfolding Let_def True if_True simp_thms
          by (rule kres_bnd[OF ke.kfree_kp[OF v[unfolded True]]]) (simp add: KE_KH[OF KE_unused(2)])
      next
        case False
        have v: "KE c 3 np H ?v" using KE_pgdir[OF 1, of d] False by simp
        note [kp] = fork_run ke.letP
        show ?thesis using v False
          by (simp only: Let_def[of ?v] if_False) (rule kp ke.bndP kres_let | assumption)+
      qed
    qed
  qed
next
  case (2 p t)
  then show ?case using assms allocproc_KH[of p H s] by (auto simp: KH_def)
qed

subsection \<open>Ending a process\<close>

lemma KH_wakeup1 [kp]: "KH c H s \<Longrightarrow> kres (KH c H) J (wakeup1 ch s)"
  using KH_wake[of c H s ch] by (simp add: wakeup1_eq KH_def)

lemma wake_parent_kp [kp]: "KH c H s \<Longrightarrow> kres (KH c H) J (wake_parent par s)"
  unfolding wake_parent_def by (rule kp | assumption)+

lemma reparent_one_kp [kp]: "KH c H s \<Longrightarrow> kres (KH c H) SW (reparent_one cur p (s :: cons_state))"
  unfolding reparent_one_def by (rule kp kh.letP | assumption)+

text \<open>A stride process leaves the stride queue.\<close>

definition relink :: "(nat \<Rightarrow> nat option) \<Rightarrow> (nat \<Rightarrow> proc) \<Rightarrow> nat \<Rightarrow> proc" where
  "relink lk tb r = (tb r)\<lparr>p_s_link := lk r\<rparr>"

lemma relink_simps [simp]:
  "p_state (relink lk tb r) = p_state (tb r)" "p_level (relink lk tb r) = p_level (tb r)"
  "p_pid (relink lk tb r) = p_pid (tb r)" "p_share (relink lk tb r) = p_share (tb r)"
  "p_s_link (relink lk tb r) = lk r" "(relink lk tb)(p := (relink lk tb p)\<lparr>p_s_link := x\<rparr>) = relink (lk(p := x)) tb"
  by (auto simp: relink_def)

definition stride_removed :: "(nat \<Rightarrow> proc) \<Rightarrow> mlfq \<Rightarrow> nat \<Rightarrow> nat list \<Rightarrow> (nat \<Rightarrow> nat option) \<Rightarrow> mlfq \<Rightarrow> bool" where
  "stride_removed tb m p xs lk m' \<longleftrightarrow>
     stride_list (relink lk (tb(p := (tb p)\<lparr>p_state := ZOMBIE\<rparr>))) m' (remove1 p xs) \<and> stride_share m' \<le> 80 \<and>
     qlevels m' = qlevels m \<and> mlfq_proc_cnt m' = mlfq_proc_cnt m \<and>
     (\<forall>r. p_s_link (tb r) = None \<longrightarrow> lk r = None)"

lemma stride_removedI:
  assumes tb: "stride_list tb m xs" and sh: "stride_share m \<le> 80" and p: "p \<in> set xs"
    and c: "chain lk (stride_head m') (remove1 p xs)" and lk: "\<And>r. p_s_link (tb r) = None \<Longrightarrow> lk r = None"
    and m': "stride_share m' = stride_share m - p_share (tb p)" "qlevels m' = qlevels m"
      "mlfq_proc_cnt m' = mlfq_proc_cnt m"
  shows "stride_removed tb m p xs (lk(p := None)) m'"
proof -
  let ?tb = "relink (lk(p := None)) (tb(p := (tb p)\<lparr>p_state := ZOMBIE\<rparr>))"
  have d: "distinct xs" and set: "set xs = {r. r < NPROC \<and> stride_proc (tb r)}"
    and pos: "\<forall>r\<in>set xs. 0 < p_share (tb r)" and sum: "(\<Sum>r\<leftarrow>xs. p_share (tb r)) \<le> stride_share m"
    using tb by (auto simp: stride_list_def dest: chain_distinct)
  have f: "p_share (?tb r) = p_share (tb r)" for r by simp
  have "chain (s_link ?tb) (stride_head m') (remove1 p xs)"
    using c d by (subst chain_cong[of _ _ lk]) (auto simp: s_link_def)
  moreover have "set (remove1 p xs) = {r. r < NPROC \<and> stride_proc (?tb r)}"
    using d set by (auto simp: stride_proc_def split: if_splits)
  moreover have "(\<Sum>r\<leftarrow>remove1 p xs. p_share (?tb r)) \<le> stride_share m'"
    using sum sum_list_remove1[OF p, of "\<lambda>r. p_share (tb r)"] m'(1) by (simp only: f)
  moreover have "\<forall>r\<in>set (remove1 p xs). 0 < p_share (?tb r)"
    using pos d by (simp only: f set_remove1_eq) auto
  ultimately have "stride_list ?tb m' (remove1 p xs)" by (simp add: stride_list_def)
  moreover have "stride_share m' \<le> 80" using sh m'(1) pos p by force
  ultimately show ?thesis using m' lk by (simp add: stride_removed_def)
qed

lemma striderm_rest:
  fixes s :: "'a proc_state_scheme"
  assumes "stride_share (mlfqstr s) - p_share (ptable s p) \<le> 80"
  defines "r \<equiv> (let s = upd_proc p (\<lambda>q. q\<lparr>p_s_link := None\<rparr>) s;
      s = upd_mlfq (\<lambda>m. m\<lparr>stride_share := stride_share m - p_share (ptable s p)\<rparr>) s
    in bnd (set_mlfq_stride s) (\<lambda>_ s.
      Ok () (if stride_head (mlfqstr s) = None then upd_mlfq (\<lambda>m. m\<lparr>mlfq_pass := 0\<rparr>) s else s)))"
  obtains m' where "r = Ok () (s\<lparr>ptable := (ptable s)(p := (ptable s p)\<lparr>p_s_link := None\<rparr>), mlfqstr := m'\<rparr>)"
    and "stride_share m' = stride_share (mlfqstr s) - p_share (ptable s p)" and "stride_head m' = stride_head (mlfqstr s)"
    and "qlevels m' = qlevels (mlfqstr s)" and "mlfq_proc_cnt m' = mlfq_proc_cnt (mlfqstr s)"
proof -
  let ?m = "(mlfqstr s)\<lparr>stride_share := stride_share (mlfqstr s) - p_share (ptable s p),
    mlfq_stride := word_of_int (STRIDE_DIVIDEND div (100 - (stride_share (mlfqstr s) - p_share (ptable s p))))\<rparr>"
  show thesis
  proof (rule that[of "if stride_head (mlfqstr s) = None then ?m\<lparr>mlfq_pass := 0\<rparr> else ?m"])
    show "r = Ok () (s\<lparr>ptable := (ptable s)(p := (ptable s p)\<lparr>p_s_link := None\<rparr>),
        mlfqstr := if stride_head (mlfqstr s) = None then ?m\<lparr>mlfq_pass := 0\<rparr> else ?m\<rparr>)"
      unfolding r_def using assms(1) by (simp add: set_mlfq_stride_eq Let_def upd_proc_def upd_mlfq_def)
  qed auto
qed

lemma striderm_ok:
  fixes s :: "'a proc_state_scheme"
  assumes tb: "stride_list tb (mlfqstr s) xs" and sh: "stride_share (mlfqstr s) \<le> 80"
    and p: "p \<in> set xs" and s: "ptable s = tb(p := (tb p)\<lparr>p_state := ZOMBIE\<rparr>)"
  shows "\<exists>lk m'. striderm p s = Ok () (s\<lparr>ptable := relink lk (ptable s), mlfqstr := m'\<rparr>) \<and>
    stride_removed tb (mlfqstr s) p xs lk m'"
proof -
  let ?m = "mlfqstr s"
  have c: "chain (s_link tb) (stride_head ?m) xs" and pos: "0 < p_share (tb p)"
    using tb p by (auto simp: stride_list_def)
  have cz: "chain (s_link (ptable s)) (stride_head ?m) xs"
    using c by (subst chain_cong[of _ _ "s_link tb"]) (auto simp: s_link_def s)
  show ?thesis
  proof (cases "stride_head ?m = Some p")
    case True
    then obtain xs' where xs: "xs = p # xs'" using c by (cases xs) auto
    let ?s = "upd_mlfq (\<lambda>m. m\<lparr>stride_head := p_s_link (ptable s p)\<rparr>) s"
    obtain m' where m': "striderm p s = Ok () (?s\<lparr>ptable := (ptable ?s)(p := (ptable ?s p)\<lparr>p_s_link := None\<rparr>), mlfqstr := m'\<rparr>)"
      "stride_share m' = stride_share ?m - p_share (tb p)" "stride_head m' = p_s_link (tb p)"
      "qlevels m' = qlevels ?m" "mlfq_proc_cnt m' = mlfq_proc_cnt ?m"
      using striderm_rest[of ?s p] sh pos True s
      by (auto simp: striderm_def upd_mlfq_def)
    have "stride_removed tb ?m p xs ((s_link tb)(p := None)) m'"
      using c xs m' by (intro stride_removedI[OF tb sh p]) (auto simp: s_link_def)
    moreover have "(ptable s)(p := (ptable s p)\<lparr>p_s_link := None\<rparr>) = relink ((s_link tb)(p := None)) (ptable s)"
      by (auto simp: relink_def s_link_def s fun_eq_iff)
    ultimately show ?thesis using m'(1) by (auto simp: upd_mlfq_def)
  next
    case False
    obtain tb2 where tb2: "stride_unlink WALK (stride_head ?m) p (ptable s) = Some tb2"
      "chain (s_link tb2) (stride_head ?m) (remove1 p xs)"
      "\<And>r. tb2 r = (ptable s r)\<lparr>p_s_link := p_s_link (tb2 r)\<rparr>"
      "\<And>r. p_s_link (ptable s r) \<noteq> Some p \<Longrightarrow> tb2 r = ptable s r"
      using stride_unlink_ok[OF cz stride_list_short[OF tb] p False] by blast
    have r: "tb2 = relink (s_link tb2) (ptable s)"
      using tb2(3) by (auto simp: relink_def s_link_def)
    let ?s = "s\<lparr>ptable := tb2\<rparr>"
    have pz: "p_share (tb2 p) = p_share (tb p)" by (subst r) (simp add: s)
    obtain m' where m': "striderm p s = Ok () (?s\<lparr>ptable := tb2(p := (tb2 p)\<lparr>p_s_link := None\<rparr>), mlfqstr := m'\<rparr>)"
      "stride_share m' = stride_share ?m - p_share (tb p)" "stride_head m' = stride_head ?m"
      "qlevels m' = qlevels ?m" "mlfq_proc_cnt m' = mlfq_proc_cnt ?m"
      using striderm_rest[of ?s p] sh pos False pz
      by (auto simp: striderm_def tb2(1))
    have n: "p_s_link (tb r) = None \<Longrightarrow> s_link tb2 r = None" for r
      using tb2(4)[of r] by (cases "r = p") (auto simp: s_link_def s)
    have "stride_removed tb ?m p xs ((s_link tb2)(p := None)) m'"
      using tb2(2) m' n by (intro stride_removedI[OF tb sh p]) auto
    moreover have "tb2(p := (tb2 p)\<lparr>p_s_link := None\<rparr>) = relink ((s_link tb2)(p := None)) (ptable s)"
      by (metis r relink_simps(6))
    ultimately show ?thesis using m'(1) by auto
  qed
qed

text \<open>The process is a zombie and in no queue; the CPU goes to the scheduler.\<close>

lemma zombie_table:
  assumes "table_ok tb np" and "p < NPROC"
    and "\<And>r. p_s_link (tb r) = None \<Longrightarrow> lk r = None"
  shows "table_ok (relink lk (tb(p := (tb p)\<lparr>p_state := ZOMBIE\<rparr>))) np"
  using assms(1)
  by (rule table_ok_cong)
    (use assms in \<open>auto simp: table_ok_def proc_ok_def alive_def relink_def split: if_splits\<close>)

lemma exit_queue:
  assumes inv: "sched_inv s" and p: "p < NPROC" "active (ptable s p)" and free: "MlfqLock \<notin> held s"
  shows "\<exists>tb m. leave_queue p (upd_proc p (\<lambda>q. q\<lparr>p_state := ZOMBIE\<rparr>) s) = Ok () (s\<lparr>ptable := tb, mlfqstr := m\<rparr>) \<and>
    sched_inv (s\<lparr>ptable := tb, mlfqstr := m\<rparr>) \<and> p_state (tb p) = ZOMBIE"
proof (cases "p_level (ptable s p) = NOLEVEL")
  case False
  let ?tb = "(ptable s)(p := (ptable s p)\<lparr>p_state := ZOMBIE\<rparr>)"
  let ?m = "mlfq_out (p_level (ptable s p)) (mlfqstr s)"
  have "relink (s_link (ptable s)) ?tb = ?tb" by (rule ext) (simp add: relink_def s_link_def)
  then have "table_ok ?tb (nextpid s)"
    using zombie_table[OF sched_invD(1)[OF inv] p(1), of "s_link (ptable s)"] by (simp add: s_link_def)
  moreover have "mlfq_ok ?tb ?m"
    using p False by (intro mlfq_ok_leave[OF sched_invD(2)[OF inv]]) (auto simp: in_mlfq_def active_def)
  moreover have "stride_ok ?tb ?m"
    using False by (intro stride_ok_cong[OF sched_invD(3)[OF inv]]) (auto simp: stride_proc_def)
  ultimately have "sched_inv (s\<lparr>ptable := ?tb, mlfqstr := ?m\<rparr>)" by (simp add: sched_inv_def)
  moreover have "leave_queue p (upd_proc p (\<lambda>q. q\<lparr>p_state := ZOMBIE\<rparr>) s) = Ok () (s\<lparr>ptable := ?tb, mlfqstr := ?m\<rparr>)"
    using False free by (simp add: leave_queue_def upd_proc_def mlfq_leave_def lock_simps mlfqrm_out)
  ultimately show ?thesis by (intro exI[of _ ?tb] exI[of _ ?m]) simp
next
  case True
  let ?z = "(upd_proc p (\<lambda>q. q\<lparr>p_state := ZOMBIE\<rparr>) s)\<lparr>held := insert MlfqLock (held s)\<rparr>"
  obtain xs where xs: "stride_list (ptable s) (mlfqstr s) xs" and sh: "stride_share (mlfqstr s) \<le> 80"
    using sched_invD(3)[OF inv] by (auto simp: stride_ok_def)
  have "p \<in> set xs" using xs p True by (auto simp: stride_list_def stride_proc_def active_def)
  then obtain lk m where r: "striderm p ?z = Ok () (?z\<lparr>ptable := relink lk (ptable ?z), mlfqstr := m\<rparr>)"
      and rm: "stride_removed (ptable s) (mlfqstr s) p xs lk m"
    using striderm_ok[of "ptable s" ?z xs p] xs sh by (auto simp: upd_proc_def)
  let ?tb = "relink lk ((ptable s)(p := (ptable s p)\<lparr>p_state := ZOMBIE\<rparr>))"
  have "table_ok ?tb (nextpid s)"
    using zombie_table[OF sched_invD(1)[OF inv] p(1), of lk] rm by (auto simp: stride_removed_def)
  moreover have "mlfq_ok ?tb m"
    using rm True by (intro mlfq_ok_cong[OF sched_invD(2)[OF inv]])
      (auto simp: stride_removed_def in_mlfq_def active_def)
  moreover have "stride_ok ?tb m" using rm by (auto simp: stride_removed_def stride_ok_def)
  ultimately have "sched_inv (s\<lparr>ptable := ?tb, mlfqstr := m\<rparr>)" by (simp add: sched_inv_def)
  moreover have "leave_queue p (upd_proc p (\<lambda>q. q\<lparr>p_state := ZOMBIE\<rparr>) s) = Ok () (s\<lparr>ptable := ?tb, mlfqstr := m\<rparr>)"
    using True free r by (simp add: leave_queue_def upd_proc_def lock_simps)
  ultimately show ?thesis by (intro exI[of _ ?tb] exI[of _ m]) simp
qed

lemma exit_sched_kp [kp]:
  assumes "KH (Some p) H (s :: cons_state)"
  shows "kres I SW (exit_sched p s)"
  unfolding exit_sched_def
proof (rule kh.acquire_bnd[OF assms], simp, rule kres_bnd[OF wake_parent_kp], assumption,
    rule kh.bndP[of "Some p"], rule kp, assumption, rule kp, assumption, goal_cases)
  case (1 t x u v w)
  have inv: "sched_inv w" "p < NPROC" "active (ptable w p)" "MlfqLock \<notin> held w" "held w = insert PtableLock H" "curproc w = Some p"
    "searchidx w < NPROC"
    using 1(4) by (auto simp: KH_def cur_ok_def)
  show ?case
    using exit_queue[OF inv(1-4)] inv(5-7)
    by (auto simp: Let_def sched_def with_myproc_def myproc_def SW_def)
qed

lemma exit_kp [kp]:
  assumes "KH c H (s :: cons_state)"
  shows "kres I SW (exit s)"
  unfolding exit_def
proof (rule kh.with_myproc_kp[OF assms], goal_cases)
  case (1 p)
  then have "KH (Some p) H s" using assms by (simp add: KH_def)
  then show ?case by - (rule kp kh.bndP kh.letP | assumption)+
qed

subsection \<open>Reaping, signalling, yielding\<close>

lemma wait_loop_kp [kp]:
  assumes s: "KH (Some cur) (insert PtableLock H) (s :: cons_state)" and H: "PtableLock \<notin> H"
  shows "kres (KH (Some cur) H) SW (wait_loop cur s)"
proof (cases "List.find (\<lambda>p. p_parent (ptable s p) = Some cur \<and> p_state (ptable s p) = ZOMBIE) [0..<NPROC]")
  case None
  have ss: "KH c (insert PtableLock H) s \<Longrightarrow> kres (KH c H) SW (sleep (ChanProc cur) PtableLock s :: (cons_state, int) res)" for c
    by (rule kh.sleep_kp)
  show ?thesis
    using s H unfolding wait_loop_def None option.case
    by - (rule kp kh.bndP ss | assumption)+
next
  case (Some p)
  then have p: "p < NPROC" "p_state (ptable s p) = ZOMBIE" by (auto simp: find_Some_iff)
  let ?H = "insert PtableLock H"
  have e: "KE (Some cur) 0 p ?H s" using s p by (simp add: KE_def embryo_def alive_def)
  have k0: "KE (Some cur) 0 p ?H (upd_proc p (\<lambda>q. q\<lparr>p_kstack := 0\<rparr>) t)" if "KE (Some cur) 0 p ?H t" for t :: cons_state
    using KE_proc_ok[OF that] by (intro KE_change[OF that]) (simp_all add: alive_def proc_ok_def)
  have gone: "KH (Some cur) ?H (upd_proc p (\<lambda>q. q\<lparr>p_pid := 0, p_parent := None, p_name := [], p_killed := False,
      p_state := UNUSED\<rparr>) t)" if "KE (Some cur) 0 p ?H t" for t :: cons_state
    using KE_proc_ok[OF that] cur_pid(1)[OF KE_KH[OF that]]
    by (intro KE_KH[OF KE_change[OF that]]) (simp_all add: alive_def proc_ok_def)
  have "kres (KH (Some cur) H) SW (bnd (release PtableLock t) (\<lambda>_ s. Ok pid s))"
    if "KH (Some cur) ?H t" for t :: cons_state and pid :: int
    using that H by - (rule kp kh.bndP | assumption)+
  note last = this[OF gone]
  show ?thesis
    using e unfolding wait_loop_def Some option.case Let_def
    by - (rule last k0 ke.kfree_kp ke.freevm_kp ke.bndP | assumption)+
qed

lemma wait_kp [kp]:
  assumes "KH c H (s :: cons_state)"
  shows "kres (KH c H) SW (wait s)"
  unfolding wait_def
proof (rule kh.with_myproc_kp[OF assms], goal_cases)
  case (1 p)
  then have c: "c = Some p" using assms by (simp add: KH_def)
  show ?case using assms unfolding c by - (rule kp | assumption | simp)+
qed

lemma kill_kp [kp]:
  assumes "KH c H s"
  shows "kres (KH c H) J (kill i s)"
proof (cases "PtableLock \<in> held s")
  case False
  have m: "MlfqLock \<notin> held s" using assms by (simp add: KH_def)
  have inv: "okpost (kill i s) (\<lambda>_. sched_inv)" using kill_inv[OF _ m False] assms by (simp add: KH_def)
  show ?thesis
  proof (cases "List.find (\<lambda>p. p_pid (ptable s p) = i) [0..<NPROC]")
    case None
    then have "\<forall>p<NPROC. p_pid (ptable s p) \<noteq> i" by (auto simp: find_None_iff)
    then show ?thesis using kill_absent[OF m False] assms by simp
  next
    case (Some p)
    show ?thesis using inv assms
      unfolding kill_eq[OF m False Some] by (auto simp: KH_def cur_ok_def active_def)
  qed
qed (simp add: kill_def acquire_def)

lemma priboost_searchidx: "searchidx (priboost s) = searchidx s"
  by (subst priboost_frame) simp

lemma yield_kp [kp]:
  assumes "KH c {} s"
  shows "kres (KH c {}) SW (yield s)"
proof (cases c)
  case None
  then show ?thesis using assms by (auto simp: yield_def with_myproc_def myproc_def acquire_def KH_def)
next
  case (Some p)
  then have a: "sched_inv s" "cur_ok s" "curproc s = Some p" "held s = {}" using assms by (auto simp: KH_def)
  have "searchidx (yield_done p s) = searchidx s"
    by (simp add: yield_done_def yield_pass_def yield_boost_def lowerlevel_def Let_def upd_proc_def upd_mlfq_def yield_tick_def)
      (auto simp: priboost_searchidx)
  then have i: "searchidx (yield_done p s) < NPROC" using assms by (simp add: KH_def)
  consider "yield s = Swtch ((yield_done p s)\<lparr>held := {PtableLock}\<rparr>)" | "yield s = Ok 0 (yield_done p s)"
    using yield_eq[OF a] by (auto split: if_splits)
  then show ?thesis
  proof cases
    case 1
    then show ?thesis using yield_inv[OF a] i by (simp add: SW_def)
  next
    case 2
    then show ?thesis using yield_inv[OF a] i yield_done_proc(4)[of p s] a Some by (simp add: KH_def)
  qed
qed

subsection \<open>Dispatch\<close>


lemma proc_calls_kp [kp]:
  "KH c H s \<Longrightarrow> kres (KH c H) SW (sys_fork (s :: cons_state))" "KH c H s \<Longrightarrow> kres I SW (sys_exit s)"
  "KH c H s \<Longrightarrow> kres (KH c H) SW (sys_wait s)" "KH c H s \<Longrightarrow> kres (KH c H) SW (sys_kill s)"
  "KH c {} s \<Longrightarrow> kres (KH c {}) SW (sys_yield s)"
  unfolding sys_fork_def sys_exit_def sys_wait_def sys_kill_def sys_yield_def
  by (rule kp fork_kp kh.bndP kres_bnd[OF exit_kp] | assumption)+

lemma sem_calls_kp [kp]:
  "KH c {} s \<Longrightarrow> kres (KH c {}) SW (sys_xem_init (s :: cons_state))"
  "KH c {} s \<Longrightarrow> kres (KH c {}) SW (sys_xem_wait s)"
  "KH c {} s \<Longrightarrow> kres (KH c {}) SW (sys_rwlock_init s)"
  "KH c {} s \<Longrightarrow> kres (KH c {}) SW (sys_rwlock_acquire_writelock s)"
  unfolding sys_xem_init_def sys_xem_wait_def sys_rwlock_init_def sys_rwlock_acquire_writelock_def
  by (rule kp | assumption)+







subsection \<open>Traps\<close>






definition ex_ti :: trap_input where
  "ex_ti = \<lparr>ti_cpu = 0, ti_chars = [], ti_status = 0, ti_data = (\<lambda>_. 0)\<rparr>"

definition timer_frame :: trapframe where
  "timer_frame = zero_trapframe\<lparr>tf_trapno := 32, tf_cs := UCODE_SEL\<rparr>"

lemma trap_timer_eq:
  assumes "held s = {}"
  shows "trap_timer c s = Ok () (if c = 0 then s\<lparr>ticks := ticks s + 1,
    ptable := wake_upto NPROC ChanTicks (ptable s), mlfqstr := wake_mlfq NPROC ChanTicks (ptable s) (mlfqstr s)\<rparr> else s)"
  using assms by (simp add: trap_timer_def lock_simps)

lemma timer_KH:
  fixes s :: cons_state
  assumes s: "KH c {} s" and tf: "unat (tf_trapno tf) = T_IRQ0 + IRQ_TIMER"
  shows "\<exists>u. trap_dispatch ti tf s = Ok () u \<and> KH c {} u \<and>
    (\<forall>r. \<not> sleeps_on ChanTicks (ptable s r) \<longrightarrow> ptable u r = ptable s r)"
proof -
  have "held s = {}" using s by (simp add: KH_def)
  note eq = trap_timer_eq[OF this, of "ti_cpu ti"]
  have "trap_dispatch ti tf s = trap_timer (ti_cpu ti) s" using tf by (simp add: trap_dispatch_def)
  moreover have "KH c {} u" if "trap_timer (ti_cpu ti) s = Ok () u" for u
    using kh.trap_timer_kp[OF s, of "ti_cpu ti"] that by simp
  ultimately show ?thesis
    unfolding eq by (auto simp: wake_upto_def wake_proc_def)
qed



lemma timer_ready:
  fixes s :: cons_state
  assumes s: "KH (Some p) {} s" and p: "p_state (ptable s p) = RUNNABLE" "\<not> p_killed (ptable s p)"
    and tf: "unat (tf_trapno tf) = T_IRQ0 + IRQ_TIMER"
  shows "\<exists>u. trap ti tf s = Ok () u \<and> KH (Some p) {} u \<and> ptable u p = ptable s p"
proof -
  obtain u where u: "trap_dispatch ti tf s = Ok () u" "KH (Some p) {} u" "ptable u p = ptable s p"
    using timer_KH[OF s tf, of ti] p(1) by (auto simp: sleeps_on_def)
  have "curproc u = Some p" using u(2) by (simp add: KH_def)
  then show ?thesis
    using u p tf by (simp add: trap_def T_SYSCALL_def T_IRQ0_def IRQ_TIMER_def exit_if_killed_def is_killed_def
      is_running_def myproc_def)
qed

text \<open>
  C20. A process that \<^verbatim>\<open>yield\<close> lets go on is marked ready while it runs, and from then on the clock does not
  preempt it: however many timer interrupts follow, each returns to the same process without a
  call of \<^verbatim>\<open>yield\<close>, because \<^verbatim>\<open>trap\<close> preempts only a process that is marked running.
\<close>

theorem timer_never_preempts_again:
  fixes s :: cons_state
  assumes "sched_inv s" and "cur_ok s" and "curproc s = Some p" and "held s = {}"
    and "searchidx s < NPROC" and y: "yield s = Ok r t" and k: "\<not> p_killed (ptable t p)"
    and tfs: "\<forall>tf\<in>set tfs. unat (tf_trapno tf) = T_IRQ0 + IRQ_TIMER"
  shows "\<exists>u. for_each (trap ti) tfs t = Ok () u \<and> curproc u = Some p \<and> \<not> is_running u"
proof -
  have s: "KH (Some p) {} s" using assms by (simp add: KH_def)
  have t: "KH (Some p) {} t" using yield_kp[OF s] y by simp
  have pt: "p_state (ptable t p) = RUNNABLE"
    using yield_eq[OF assms(1-4)] y yield_done_proc(1)[of p s] by (auto split: if_splits)
  from t pt k tfs show ?thesis
  proof (induction tfs arbitrary: t)
    case Nil
    then show ?case by (auto simp: is_running_def myproc_def KH_def)
  next
    case (Cons tf tfs)
    obtain u where u: "trap ti tf t = Ok () u" "KH (Some p) {} u" "ptable u p = ptable t p"
      using timer_ready[OF Cons.prems(1-3), of tf ti] Cons.prems(4) by auto
    then show ?case using Cons.IH[of u] Cons.prems by simp
  qed
qed

definition ex_ticked :: cons_state where
  "ex_ticked = upd_proc 0 (\<lambda>q. q\<lparr>p_tickcount := 3\<rparr>) ex_state"

theorem timer_never_preempts_again_witness:
  "\<exists>t u. yield ex_ticked = Ok 0 t \<and> for_each (trap ex_ti) [timer_frame, timer_frame] t = Ok () u \<and>
     curproc u = Some 0 \<and> \<not> is_running u"
proof -
  have "KH (Some 0) {} ex_state" using ex_sched_inv by (simp add: KH_def NPROC_def)
  then have "KH (Some 0) {} ex_ticked" unfolding ex_ticked_def by (rule KH_upd) (simp add: same_sched_def)
  then have s: "sched_inv ex_ticked" "cur_ok ex_ticked" "curproc ex_ticked = Some 0" "held ex_ticked = {}"
      and idx: "searchidx ex_ticked < NPROC"
    by (auto simp: KH_def)
  have y: "yield ex_ticked = Ok 0 (yield_done 0 ex_ticked)" and k: "\<not> p_killed (ptable (yield_done 0 ex_ticked) 0)"
    unfolding yield_eq[OF s]
    by (simp_all add: yield_done_def yield_lowers_def yield_boost_def yield_pass_def yield_tick_def ex_ticked_def
      upd_proc_def ex_ptable_def live_proc_def proc0_def ex_mlfq_def)
  have "\<forall>tf\<in>set [timer_frame, timer_frame]. unat (tf_trapno tf) = T_IRQ0 + IRQ_TIMER"
    by (simp add: timer_frame_def T_IRQ0_def IRQ_TIMER_def)
  from timer_never_preempts_again[OF s idx y k this, of ex_ti] y show ?thesis by blast
qed

end
