(* ===== verification/Xv6_Reach.thy ===== *)
theory Xv6_Reach
  imports Xv6_Syscall_Inv
begin

section \<open>Runs of the kernel on one CPU\<close>

text \<open>
  A transition system of traps, context switches and resumptions. Between two steps no lock is held and
  either a process runs (\<open>curproc\<close>) or the scheduler does. A process that is switched to goes on where it
  gave up the CPU: in \<^verbatim>\<open>yield\<close>, in \<^verbatim>\<open>forkret\<close> when it is new, or behind one of the calls of \<^verbatim>\<open>sleep\<close>. A
  resumption step ends where the operation that slept returns or where it sleeps again.
\<close>

datatype resumption =
    InYield | InForkret | InWait | InBeginOp | InSleeplock slk | InIde nat | InSem nat
  | InPipewrite nat nat nat nat | InPiperead nat nat int | InConsole nat dest nat nat bytes | InSleep int u32

fun resume :: "resumption \<Rightarrow> nat \<Rightarrow> cons_state \<Rightarrow> (cons_state, unit) res" where
  "resume InYield p s = bnd (yield_resume s) (\<lambda>_ s. Ok () s)"
| "resume InForkret p s = forkret s"
| "resume InWait p s = bnd (wait_resume p s) (\<lambda>_ s. Ok () s)"
| "resume InBeginOp p s = begin_op_resume p s"
| "resume (InSleeplock k) p s = acquiresleep_resume p k s"
| "resume (InIde b) p s = ide_iderw_resume p b s"
| "resume (InSem a) p s = bnd (xem_wait_resume p a s) (\<lambda>_ s. Ok () s)"
| "resume (InPipewrite pp addr i k) p s = bnd (pipewrite_resume p pp addr i k s) (\<lambda>_ s. Ok () s)"
| "resume (InPiperead pp addr n) p s = bnd (piperead_resume p pp addr n s) (\<lambda>_ s. Ok () s)"
| "resume (InConsole ip dst n dn acc) p s = bnd (consoleread_resume p ip dst n dn acc s) (\<lambda>_ s. Ok () s)"
| "resume (InSleep n t0) p s = bnd (sys_sleep_resume p n t0 s) (\<lambda>_ s. Ok () s)"

inductive kstep :: "cons_state \<Rightarrow> cons_state \<Rightarrow> bool" where
  trap_returns: "plain_trap tf \<Longrightarrow> trap ti tf s = Ok () t \<Longrightarrow> kstep s t"
| trap_leaves: "plain_trap tf \<Longrightarrow> trap ti tf s = Swtch t \<Longrightarrow> scheduler_resume t = Ok () u \<Longrightarrow> kstep s u"
| idle: "curproc s = None \<Longrightarrow> scheduler s = Ok () t \<Longrightarrow> kstep s t"
| resumed: "curproc s = None \<Longrightarrow> scheduler s = Swtch t \<Longrightarrow> curproc t = Some p \<Longrightarrow>
    resume k p t = Ok () u \<Longrightarrow> kstep s u"
| resumed_leaves: "curproc s = None \<Longrightarrow> scheduler s = Swtch t \<Longrightarrow> curproc t = Some p \<Longrightarrow>
    resume k p t = Swtch u \<Longrightarrow> scheduler_resume u = Ok () v \<Longrightarrow> kstep s v"

inductive_cases kstepE: "kstep s t"










end
