(* ===== verification/Xv6_Args_Props.thy ===== *)
theory Xv6_Args_Props
  imports Xv6_Sysfile Xv6_Example
begin

section \<open>What the kernel accepts from user space\<close>

text \<open>
  The checks of \<^verbatim>\<open>syscall.c\<close> and of the descriptor functions of \<^verbatim>\<open>sysfile.c\<close>: a pointer, string or descriptor
  that is accepted lies inside the address space of the caller or names one of its open files.
\<close>

subsection \<open>Pointers and strings\<close>

lemma fetchint_pure: "fetchint a s = Ok r t \<Longrightarrow> t = s"
  by (auto simp: fetchint_def with_myproc_def Let_def split: option.splits if_splits)

lemma argint_pure: "argint n s = Ok r t \<Longrightarrow> t = s"
  by (auto simp: argint_def with_myproc_def dest: fetchint_pure split: option.splits)

text \<open>
  C28. A pointer argument that \<^verbatim>\<open>argptr\<close> accepts for a buffer of \<open>sz\<close> bytes points to \<open>sz\<close> bytes inside the
  address space of the caller, and a negative size is refused. The sum is computed with 32 bits; it
  cannot wrap because user memory ends below the kernel.
\<close>

theorem argptr_bounds:
  assumes cur: "curproc s = Some p" and user: "p_sz (ptable s p) \<le> KERNBASE" and int: "sz < 2 ^ 31"
    and ok: "argptr n sz s = Ok (Some a) t"
  shows "t = s \<and> 0 \<le> sz \<and> a < p_sz (ptable s p) \<and> int a + sz \<le> int (p_sz (ptable s p))"
proof -
  obtain r u where r: "argint n s = Ok (Some r) u"
    using ok cur by (auto simp: argptr_def with_myproc_def myproc_def split: option.splits)
  have u: "u = s" by (rule argint_pure[OF r])
  have *: "t = s" "a = u32_of_int r" "0 \<le> sz" "u32_of_int r < p_sz (ptable s p)"
    "u32_of_int (int a + sz) \<le> p_sz (ptable s p)"
    using ok cur r unfolding u by (auto simp: argptr_def with_myproc_def myproc_def Let_def split: if_splits)
  have "int a + sz < 2 ^ 32" using *(2,4) user int by (simp add: KERNBASE_def)
  then have "u32_of_int (int a + sz) = nat (int a + sz)"
    using *(3) by (simp add: u32_of_int_def)
  with * show ?thesis by simp
qed

lemma fetchstr_loop_string:
  "fetchstr_loop a k s = Ok (Some str) t \<Longrightarrow> t = s \<and> length str < k \<and>
    (\<forall>i<length str. \<exists>x. vtrans s (a + i) = Some x \<and> mem s x \<noteq> 0 \<and> char_of (unat (mem s x)) = str ! i) \<and>
    (\<exists>x. vtrans s (a + length str) = Some x \<and> mem s x = 0)"
proof (induction k arbitrary: a str t)
  case (Suc k)
  then obtain x where x: "vtrans s a = Some x" by (auto split: option.splits)
  show ?case
  proof (cases "mem s x = 0")
    case True
    then show ?thesis using Suc.prems x by auto
  next
    case False
    then obtain r u where r: "fetchstr_loop (a + 1) k s = Ok r u"
        and str: "map_option ((#) (char_of (unat (mem u x)))) r = Some str" and t: "t = u"
      using Suc.prems x by auto
    then obtain str' where s': "r = Some str'" "str = char_of (unat (mem u x)) # str'" by auto
    note IH = Suc.IH[OF r[unfolded s'(1)]]
    have "\<exists>y. vtrans s (a + i) = Some y \<and> mem s y \<noteq> 0 \<and> char_of (unat (mem s y)) = str ! i"
      if "i < length str" for i
    proof (cases i)
      case 0
      then show ?thesis using x False s' IH by auto
    next
      case (Suc j)
      then show ?thesis using IH s' that by auto
    qed
    then show ?thesis using IH s' t by auto
  qed
qed simp

text \<open>
  C29. A string that \<^verbatim>\<open>fetchstr\<close> returns is stored, with its terminating NUL, at consecutive mapped addresses
  below the size of the caller's address space, and contains no NUL.
\<close>

theorem fetchstr_in_bounds:
  assumes cur: "curproc s = Some p" and ok: "fetchstr a s = Ok (Some str) t"
  shows "t = s \<and> a + length str < p_sz (ptable s p) \<and>
    (\<forall>i<length str. \<exists>x. vtrans s (a + i) = Some x \<and> mem s x \<noteq> 0 \<and> char_of (unat (mem s x)) = str ! i) \<and>
    (\<exists>x. vtrans s (a + length str) = Some x \<and> mem s x = 0)"
proof -
  have a: "a < p_sz (ptable s p)" and l: "fetchstr_loop a (p_sz (ptable s p) - a) s = Ok (Some str) t"
    using ok cur by (auto simp: fetchstr_def with_myproc_def myproc_def Let_def split: if_splits)
  from fetchstr_loop_string[OF l] a show ?thesis by auto
qed

text \<open>
  The example system with one page of user memory: the page directory at \<open>0x80600000\<close> maps page 0 to the
  physical page \<open>0x602000\<close>; the first argument of a call is the pointer \<open>0x200\<close>, where the string \<open>ab\<close> is.
\<close>

definition ex_mem :: bytes where
  "ex_mem = put32 (put32 (put32 (put32 (\<lambda>_. 0) 0x80600000 0x601007) 0x80601000 0x602007) 0x80602104 0x200) 0x80602200 0x6261"

definition ex_user :: cons_state where
  "ex_user = upd_proc 0 (\<lambda>q. q\<lparr>p_tf := zero_trapframe\<lparr>tf_esp := 0x100\<rparr>\<rparr>) (ex_state\<lparr>mem := ex_mem\<rparr>)"

lemma ex_vtrans: "a < 4096 \<Longrightarrow> vtrans ex_user a = Some (0x80602000 + a)"
proof -
  assume a: "a < 4096"
  have "get32 ex_mem 0x80600000 = 0x601007" "get32 ex_mem 0x80601000 = 0x602007"
    by (simp_all add: ex_mem_def get32_put32_other)
  then show ?thesis
    using a by (simp add: vtrans_def ex_user_def upd_proc_def KERNBASE_def P2V_def PDX_def PTX_def has_bit_def PTE_P_def
      PTE_ADDR_def PGSIZE_def)
qed

lemma ex_user_mem:
  "mem ex_user 0x80602104 = 0" "mem ex_user 0x80602105 = 2" "mem ex_user 0x80602106 = 0" "mem ex_user 0x80602107 = 0"
  "mem ex_user 0x80602200 = 0x61" "mem ex_user 0x80602201 = 0x62" "mem ex_user 0x80602202 = 0"
  by (simp_all add: ex_user_def upd_proc_def ex_mem_def put32_def)

lemma ex_argint: "argint 0 ex_user = Ok (Some 0x200) ex_user"
proof -
  have c: "curproc ex_user = Some 0" "p_sz (ptable ex_user 0) = 4096" "tf_esp (p_tf (ptable ex_user 0)) = 0x100"
    by (simp_all add: ex_user_def upd_proc_def ex_ptable_def live_proc_def)
  have v: "vtrans ex_user 260 = Some 0x80602104" "vtrans ex_user 261 = Some 0x80602105"
    "vtrans ex_user 262 = Some 0x80602106" "vtrans ex_user 263 = Some 0x80602107"
    by (simp_all add: ex_vtrans)
  have four: "4 = Suc (Suc (Suc (Suc 0)))" by simp
  have "vload ex_user 260 4 = Some [0, 2, 0, 0]"
    unfolding four by (simp add: v ex_user_mem)
  then have "vload32 ex_user 260 = Some 0x200"
    by (simp add: vload32_def of_list_def get32_def)
  then show ?thesis
    using c by (simp add: argint_def fetchint_def with_myproc_def myproc_def)
qed

theorem argptr_bounds_witness:
  "argptr 0 256 ex_user = Ok (Some 0x200) ex_user \<and> int 0x200 + 256 \<le> int (p_sz (ptable ex_user 0))"
proof -
  have c: "curproc ex_user = Some 0" "p_sz (ptable ex_user 0) = 4096"
    by (simp_all add: ex_user_def upd_proc_def ex_ptable_def live_proc_def)
  have "argptr 0 256 ex_user = Ok (Some 0x200) ex_user"
    using ex_argint c by (simp add: argptr_def with_myproc_def myproc_def u32_of_int_def)
  with argptr_bounds[OF c(1) _ _ this] show ?thesis using c(2) by (simp add: KERNBASE_def)
qed

theorem fetchstr_in_bounds_witness:
  "fetchstr 0x200 ex_user = Ok (Some ''ab'') ex_user \<and> 0x200 + length ''ab'' < p_sz (ptable ex_user 0)"
proof -
  have c: "curproc ex_user = Some 0" "p_sz (ptable ex_user 0) = 4096"
    by (simp_all add: ex_user_def upd_proc_def ex_ptable_def live_proc_def)
  have ch: "char_of (97 :: nat) = CHR ''a''" "char_of (98 :: nat) = CHR ''b''" by code_simp+
  have "fetchstr_loop 512 (Suc (Suc (Suc k))) ex_user = Ok (Some ''ab'') ex_user" for k
    by (simp add: ex_vtrans ex_user_mem ch)
  from this[of 3581] have "fetchstr_loop 512 3584 ex_user = Ok (Some ''ab'') ex_user" by simp
  then have "fetchstr 0x200 ex_user = Ok (Some ''ab'') ex_user"
    using c by (simp add: fetchstr_def with_myproc_def myproc_def)
  then show ?thesis using fetchstr_in_bounds[OF c(1)] c(2) by simp
qed

subsection \<open>Descriptors\<close>

text \<open>
  C30. \<^verbatim>\<open>fdalloc\<close> gives out the smallest free descriptor of the caller and stores the file there; no other
  descriptor changes. When all \<^verbatim>\<open>NOFILE\<close> descriptors are in use it returns -1 and changes nothing.
\<close>

theorem fdalloc_lowest:
  assumes cur: "curproc s = Some p"
  defines "free \<equiv> {fd. fd < NOFILE \<and> p_ofile (ptable s p) fd = None}"
  shows "fdalloc f s = (if free = {} then Ok (-1) s
    else Ok (int (Min free)) (upd_proc p (\<lambda>q. q\<lparr>p_ofile := (p_ofile q)(Min free := Some f)\<rparr>) s))"
proof (cases "List.find (\<lambda>fd. p_ofile (ptable s p) fd = None) [0..<NOFILE]")
  case None
  then have "free = {}" by (auto simp: free_def find_None_iff)
  then show ?thesis using None cur by (simp add: fdalloc_def with_myproc_def myproc_def)
next
  case (Some fd)
  then have fd: "fd < NOFILE" "p_ofile (ptable s p) fd = None" "\<forall>i<fd. p_ofile (ptable s p) i \<noteq> None"
    by (auto simp: find_Some_iff)
  have "Min free = fd"
  proof (rule Min_eqI)
    show "finite free" by (simp add: free_def)
    show "fd \<le> y" if "y \<in> free" for y using that fd(3) by (auto simp: free_def not_le[symmetric])
    show "fd \<in> free" using fd by (simp add: free_def)
  qed
  moreover have "free \<noteq> {}" using fd by (auto simp: free_def)
  ultimately show ?thesis using Some cur by (simp add: fdalloc_def with_myproc_def myproc_def)
qed

theorem fdalloc_lowest_witness:
  "fdalloc 9 ex_state = Ok 0 (upd_proc 0 (\<lambda>q. q\<lparr>p_ofile := (p_ofile q)(0 := Some 9)\<rparr>) ex_state)"
proof -
  have "{fd. fd < NOFILE \<and> p_ofile (ptable ex_state 0) fd = None} = {0..<16}"
    by (auto simp: NOFILE_def ex_ptable_def live_proc_def proc0_def)
  moreover have "Min {0..<16 :: nat} = 0" by (rule Min_eqI) auto
  ultimately show ?thesis using fdalloc_lowest[of ex_state 0 9] by simp
qed

end
