(* ===== verification/Xv6_Ulib.thy ===== *)
theory Xv6_Ulib
  imports Xv6_String Xv6_Console
begin

section \<open>The user library\<close>

text \<open>
  \<^verbatim>\<open>ulib.c\<close> and \<^verbatim>\<open>printf.c\<close>. The string routines work on a byte memory as those of \<^verbatim>\<open>string.c\<close> do; a loop
  that runs until a NUL byte takes fuel, and running out of it is \<open>None\<close>. What is written to the
  descriptor by \<^verbatim>\<open>printf\<close> is the result, one character per \<^verbatim>\<open>write\<close>; \<^verbatim>\<open>gets\<close> reads from the list of the characters
  that \<^verbatim>\<open>read\<close> still delivers.
\<close>

subsection \<open>Strings\<close>

fun ustrcpy :: "nat \<Rightarrow> bytes \<Rightarrow> nat \<Rightarrow> nat \<Rightarrow> bytes option" where
  "ustrcpy 0 m s t = None"
| "ustrcpy (Suc fuel) m s t =
     (let m' = m(s := m t)
      in if m t \<noteq> 0 then ustrcpy fuel m' (s + 1) (t + 1) else Some m')"

fun ustrcmp :: "nat \<Rightarrow> bytes \<Rightarrow> nat \<Rightarrow> nat \<Rightarrow> int option" where
  "ustrcmp 0 m p q = None"
| "ustrcmp (Suc fuel) m p q =
     (if m p \<noteq> 0 \<and> m p = m q then ustrcmp fuel m (p + 1) (q + 1)
      else Some (uint (m p) - uint (m q)))"

fun ustrlen_loop :: "nat \<Rightarrow> bytes \<Rightarrow> nat \<Rightarrow> nat \<Rightarrow> nat option" where
  "ustrlen_loop 0 m s n = None"
| "ustrlen_loop (Suc fuel) m s n = (if m (s + n) \<noteq> 0 then ustrlen_loop fuel m s (n + 1) else Some n)"

definition ustrlen :: "nat \<Rightarrow> bytes \<Rightarrow> nat \<Rightarrow> nat option" where
  "ustrlen fuel m s = ustrlen_loop fuel m s 0"

definition umemset :: "bytes \<Rightarrow> nat \<Rightarrow> u32 \<Rightarrow> nat \<Rightarrow> bytes" where
  "umemset m dst c n = stosb m dst (ucast c) n"

text \<open>The result of \<^verbatim>\<open>strchr\<close>: NULL is \<open>None\<close> inside.\<close>

fun ustrchr :: "nat \<Rightarrow> bytes \<Rightarrow> nat \<Rightarrow> u8 \<Rightarrow> nat option option" where
  "ustrchr 0 m s c = None"
| "ustrchr (Suc fuel) m s c =
     (if m s \<noteq> 0 then if m s = c then Some (Some s) else ustrchr fuel m (s + 1) c
      else Some None)"

fun umemmove :: "bytes \<Rightarrow> nat \<Rightarrow> nat \<Rightarrow> nat \<Rightarrow> bytes" where
  "umemmove m dst src 0 = m"
| "umemmove m dst src (Suc n) = umemmove (m(dst := m src)) (dst + 1) (src + 1) n"

fun atoi_loop :: "nat \<Rightarrow> bytes \<Rightarrow> nat \<Rightarrow> int \<Rightarrow> int option" where
  "atoi_loop 0 m s n = None"
| "atoi_loop (Suc fuel) m s n =
     (if 48 \<le> m s \<and> m s \<le> 57 then atoi_loop fuel m (s + 1) (n * 10 + uint (m s) - 48) else Some n)"

definition atoi :: "nat \<Rightarrow> bytes \<Rightarrow> nat \<Rightarrow> int option" where
  "atoi fuel m s = atoi_loop fuel m s 0"

subsection \<open>Input\<close>

text \<open>What \<^verbatim>\<open>gets\<close> stores before the NUL, and the input that is left; the list ends where \<^verbatim>\<open>read\<close> returns less than 1.\<close>

fun gets_loop :: "nat \<Rightarrow> nat \<Rightarrow> string \<Rightarrow> string \<times> string" where
  "gets_loop i mx inp =
     (if i + 1 < mx then
        case inp of
          [] \<Rightarrow> ([], [])
        | c # inp \<Rightarrow>
            if c = CHR 0x0A \<or> c = CHR 0x0D then ([c], inp)
            else let (b, r) = gets_loop (i + 1) mx inp in (c # b, r)
      else ([], inp))"

declare gets_loop.simps [simp del]

definition gets :: "nat \<Rightarrow> string \<Rightarrow> string \<times> string" where
  "gets mx inp = gets_loop 0 mx inp"

subsection \<open>Output\<close>

definition udigit :: "nat \<Rightarrow> char" where
  "udigit d = ''0123456789ABCDEF'' ! d"

function uprintint_digits :: "nat \<Rightarrow> nat \<Rightarrow> string" where
  "uprintint_digits base x =
     udigit (x mod base) # (if x div base \<noteq> 0 \<and> 1 < base then uprintint_digits base (x div base) else [])"
  by pat_completeness auto
termination
  by (relation "measure snd") (auto intro!: div_less_dividend gr0I)

declare uprintint_digits.simps [simp del]

definition uprintint :: "int \<Rightarrow> nat \<Rightarrow> bool \<Rightarrow> string" where
  "uprintint xx base sg =
     (let neg = sg \<and> xx < 0;
          x = u32_of_int (if neg then - xx else xx);
          buf = uprintint_digits base x;
          buf = (if neg then buf @ ''-'' else buf)
      in rev buf)"

text \<open>
  The loop of \<^verbatim>\<open>printf\<close>: \<open>pct\<close> is that \<^verbatim>\<open>state\<close> is \<^verbatim>\<open>'%'\<close>. \<open>None\<close> is an argument that was not passed, or is of
  another kind.
\<close>

fun uprintf :: "bool \<Rightarrow> string \<Rightarrow> cp_arg list \<Rightarrow> string option" where
  "uprintf pct [] as = Some []"
| "uprintf False (c # f) as =
     (if c = CHR ''%'' then uprintf True f as else map_option (\<lambda>r. c # r) (uprintf False f as))"
| "uprintf True (c # f) as =
     (if c = CHR ''d'' then
        (case as of Word w # as \<Rightarrow> map_option (\<lambda>r. uprintint (sint w) 10 True @ r) (uprintf False f as) | _ \<Rightarrow> None)
      else if c = CHR ''x'' \<or> c = CHR ''p'' then
        (case as of Word w # as \<Rightarrow> map_option (\<lambda>r. uprintint (sint w) 16 False @ r) (uprintf False f as) | _ \<Rightarrow> None)
      else if c = CHR ''s'' then
        (case as of Str so # as \<Rightarrow>
           map_option (\<lambda>r. (case so of None \<Rightarrow> ''(null)'' | Some t \<Rightarrow> t) @ r) (uprintf False f as) | _ \<Rightarrow> None)
      else if c = CHR ''c'' then
        (case as of Word w # as \<Rightarrow> map_option (\<lambda>r. char_of (unat w) # r) (uprintf False f as) | _ \<Rightarrow> None)
      else if c = CHR ''%'' then map_option (\<lambda>r. c # r) (uprintf False f as)
      else map_option (\<lambda>r. CHR ''%'' # c # r) (uprintf False f as))"

end
