(* ===== verification/Xv6_Ulib_Props.thy ===== *)
theory Xv6_Ulib_Props
  imports Xv6_Ulib
begin

section \<open>Numbers and strings in the user library and the console\<close>

text \<open>
  The two printers of numbers (kernel and user library) differ in their digits only; what holds of both is
  proved once, for any printer with the same loop. The string routines of the library are related to lists
  of bytes in memory.
\<close>

subsection \<open>Strings in memory\<close>

definition holds :: "bytes \<Rightarrow> nat \<Rightarrow> u8 list \<Rightarrow> bool" where
  "holds m p bs \<longleftrightarrow> (\<forall>i < length bs. m (p + i) = bs ! i \<and> bs ! i \<noteq> 0) \<and> m (p + length bs) = 0"

lemma holds_Nil [simp]: "holds m p [] \<longleftrightarrow> m p = 0"
  by (simp add: holds_def)

lemma holds_Cons [simp]: "holds m p (b # bs) \<longleftrightarrow> m p = b \<and> b \<noteq> 0 \<and> holds m (p + 1) bs"
proof
  assume h: "holds m p (b # bs)"
  have "m (p + 1 + i) = bs ! i \<and> bs ! i \<noteq> 0" if "i < length bs" for i
    using h that unfolding holds_def by (auto dest!: spec[of _ "Suc i"])
  moreover have "m p = b \<and> b \<noteq> 0" using h unfolding holds_def by (auto dest!: spec[of _ 0])
  moreover have "m (p + 1 + length bs) = 0" using h by (simp add: holds_def)
  ultimately show "m p = b \<and> b \<noteq> 0 \<and> holds m (p + 1) bs" by (simp add: holds_def)
next
  assume h: "m p = b \<and> b \<noteq> 0 \<and> holds m (p + 1) bs"
  show "holds m p (b # bs)"
    unfolding holds_def
  proof (intro conjI allI impI)
    fix i assume "i < length (b # bs)"
    then show "m (p + i) = (b # bs) ! i" "(b # bs) ! i \<noteq> 0"
      using h by (cases i; simp add: holds_def)+
  qed (use h in \<open>simp add: holds_def\<close>)
qed

lemma holds_frame: "holds m p bs \<Longrightarrow> (\<And>i. p \<le> i \<Longrightarrow> i \<le> p + length bs \<Longrightarrow> m' i = m i) \<Longrightarrow> holds m' p bs"
  by (simp add: holds_def)

lemma ustrlen_holds: "holds m (p + k) bs \<Longrightarrow> length bs < fuel \<Longrightarrow> ustrlen_loop fuel m p k = Some (k + length bs)"
proof (induction bs arbitrary: k fuel)
  case Nil
  then show ?case by (cases fuel) auto
next
  case (Cons b bs)
  then show ?case using Cons.IH[of "k + 1"] by (cases fuel) (auto simp: add.assoc)
qed

text \<open>Comparison of unsigned bytes, a proper prefix being smaller.\<close>

fun byte_cmp :: "u8 list \<Rightarrow> u8 list \<Rightarrow> int" where
  "byte_cmp [] [] = 0"
| "byte_cmp (a # as) [] = uint a"
| "byte_cmp [] (b # bs) = - uint b"
| "byte_cmp (a # as) (b # bs) = (if a = b then byte_cmp as bs else uint a - uint b)"

lemma ustrcmp_holds:
  "holds m p as \<Longrightarrow> holds m q bs \<Longrightarrow> length as < fuel \<Longrightarrow> ustrcmp fuel m p q = Some (byte_cmp as bs)"
proof (induction as bs arbitrary: p q fuel rule: byte_cmp.induct)
  case 1
  then show ?case by (cases fuel) auto
next
  case (2 a as)
  then show ?case by (cases fuel) auto
next
  case (3 b bs)
  then show ?case by (cases fuel) auto
next
  case (4 a as b bs)
  then show ?case by (cases fuel) auto
qed

lemma byte_cmp_order:
  "\<forall>x\<in>set as. x \<noteq> 0 \<Longrightarrow> \<forall>x\<in>set bs. x \<noteq> 0 \<Longrightarrow>
    (byte_cmp as bs = 0 \<longleftrightarrow> as = bs) \<and> (byte_cmp as bs < 0 \<longleftrightarrow> ord_class.lexordp as bs)"
proof (induction as bs rule: byte_cmp.induct)
  case (3 b bs)
  then have "0 < uint b" using word_uint_eq_iff[of b 0] by (simp add: less_le)
  then show ?case by simp
next
  case (2 a as)
  then show ?case using word_uint_eq_iff[of a 0] by simp
next
  case (4 a as b bs)
  then show ?case by (cases "a = b") (auto simp: word_less_def word_uint_eq_iff)
qed auto

lemma holds_nonzero: "holds m p bs \<Longrightarrow> \<forall>x\<in>set bs. x \<noteq> 0"
  by (induction bs arbitrary: p) auto

lemma ustrchr_holds:
  "holds m p bs \<Longrightarrow> length bs < fuel \<Longrightarrow>
     ustrchr fuel m p c = Some (if c \<in> set bs then Some (p + length (takeWhile (\<lambda>x. x \<noteq> c) bs)) else None)"
proof (induction bs arbitrary: p fuel)
  case Nil
  then show ?case by (cases fuel) auto
next
  case (Cons b bs)
  then show ?case by (cases fuel) (auto simp: Cons.IH[of "p + 1"])
qed

lemma ustrcpy_holds:
  "holds m t bs \<Longrightarrow> length bs < fuel \<Longrightarrow> s + length bs < t \<or> t + length bs < s \<Longrightarrow>
     \<exists>m'. ustrcpy fuel m s t = Some m' \<and> holds m' s bs \<and> (\<forall>i. i < s \<or> s + length bs < i \<longrightarrow> m' i = m i)"
proof (induction bs arbitrary: m s t fuel)
  case Nil
  then show ?case by (cases fuel) auto
next
  case (Cons b bs)
  then obtain f where f: "fuel = Suc f" by (cases fuel) auto
  let ?m = "m(s := b)"
  have "holds ?m (t + 1) bs"
    using Cons.prems by (intro holds_frame[of m "t + 1" bs ?m]) auto
  moreover have "length bs < f" "s + 1 + length bs < t + 1 \<or> t + 1 + length bs < s + 1"
    using Cons.prems f by auto
  ultimately obtain m' where m': "ustrcpy f ?m (s + 1) (t + 1) = Some m'" "holds m' (s + 1) bs"
      "\<forall>i. i < s + 1 \<or> s + 1 + length bs < i \<longrightarrow> m' i = ?m i"
    using Cons.IH[of ?m "t + 1" f "s + 1"] by blast
  have b: "m t = b" "b \<noteq> 0" using Cons.prems by simp_all
  have "ustrcpy fuel m s t = Some m'" using m'(1) b unfolding f by (simp add: Let_def)
  moreover have "holds m' s (b # bs)" using m' b by simp
  moreover have "m' i = m i" if "i < s \<or> s + length (b # bs) < i" for i
    using m'(3)[rule_format, of i] that by auto
  ultimately show ?case by blast
qed

text \<open>
  C40. On NUL-terminated strings every string routine of the user library returns once it has looked at the
  whole string, and returns what it should: the length, the first position of a character or NULL, the difference
  of the first two bytes that differ (zero exactly for equal strings, negative exactly when the first string comes
  first in the lexicographic order of unsigned bytes), a copy that changes nothing outside the destination.
\<close>

theorem ulib_strings:
  assumes "holds m p as" and "holds m q bs" and "length as < fuel" and "length bs < fuel"
    and "d + length as < p \<or> p + length as < d"
  shows "ustrlen fuel m p = Some (length as)
    \<and> (\<exists>r. ustrcmp fuel m p q = Some r \<and> r = byte_cmp as bs \<and> (r = 0 \<longleftrightarrow> as = bs) \<and> (r < 0 \<longleftrightarrow> ord_class.lexordp as bs))
    \<and> ustrchr fuel m p c = Some (if c \<in> set as then Some (p + length (takeWhile (\<lambda>x. x \<noteq> c) as)) else None)
    \<and> (\<exists>m'. ustrcpy fuel m d p = Some m' \<and> holds m' d as \<and> (\<forall>i. i < d \<or> d + length as < i \<longrightarrow> m' i = m i))"
proof (intro conjI)
  show "ustrlen fuel m p = Some (length as)"
    using ustrlen_holds[of m p 0 as fuel] assms by (simp add: ustrlen_def)
  show "\<exists>r. ustrcmp fuel m p q = Some r \<and> r = byte_cmp as bs \<and> (r = 0 \<longleftrightarrow> as = bs) \<and> (r < 0 \<longleftrightarrow> ord_class.lexordp as bs)"
    using ustrcmp_holds[OF assms(1,2,3)] byte_cmp_order[OF holds_nonzero[OF assms(1)] holds_nonzero[OF assms(2)]] by blast
  show "ustrchr fuel m p c = Some (if c \<in> set as then Some (p + length (takeWhile (\<lambda>x. x \<noteq> c) as)) else None)"
    by (rule ustrchr_holds[OF assms(1,3)])
  show "\<exists>m'. ustrcpy fuel m d p = Some m' \<and> holds m' d as \<and> (\<forall>i. i < d \<or> d + length as < i \<longrightarrow> m' i = m i)"
    by (rule ustrcpy_holds[OF assms(1,3,5)])
qed

theorem ulib_strings_witness:
  "let m = (\<lambda>i. if i = 10 then 97 else if i = 11 then 98 else if i = 20 then 97 else 0)
   in ustrlen 5 m 10 = Some 2 \<and> ustrchr 5 m 10 98 = Some (Some 11) \<and> ustrcmp 5 m 10 20 = Some 98"
proof -
  let ?m = "(\<lambda>i. if i = 10 then 97 else if i = 11 then 98 else if i = 20 then 97 else 0) :: bytes"
  have h: "holds ?m 10 [97, 98]" "holds ?m 20 [97]" by simp_all
  show ?thesis using ulib_strings[OF h, of 5 100 98] by (auto simp: Let_def)
qed

subsection \<open>Printed numbers\<close>

text \<open>The number a string of digits stands for, with an optional sign.\<close>

definition digits_value :: "(char \<Rightarrow> nat) \<Rightarrow> nat \<Rightarrow> string \<Rightarrow> nat" where
  "digits_value undig b s = foldl (\<lambda>n c. n * b + undig c) 0 s"

definition printed_value :: "(char \<Rightarrow> nat) \<Rightarrow> nat \<Rightarrow> string \<Rightarrow> int" where
  "printed_value undig b s =
     (case s of [] \<Rightarrow> 0
      | c # t \<Rightarrow> if c = CHR ''-'' then - int (digits_value undig b t) else int (digits_value undig b s))"

locale digit_printer =
  fixes dig :: "nat \<Rightarrow> char" and undig :: "char \<Rightarrow> nat" and digs :: "nat \<Rightarrow> nat \<Rightarrow> string"
    and pr :: "int \<Rightarrow> nat \<Rightarrow> bool \<Rightarrow> string"
  assumes digs: "digs b x = dig (x mod b) # (if x div b \<noteq> 0 \<and> 1 < b then digs b (x div b) else [])"
    and undig: "d < 16 \<Longrightarrow> undig (dig d) = d" and no_minus: "d < 16 \<Longrightarrow> dig d \<noteq> CHR ''-''"
    and pr: "pr xx b sg = rev (let neg = sg \<and> xx < 0; buf = digs b (u32_of_int (if neg then - xx else xx))
                               in if neg then buf @ ''-'' else buf)"
begin

lemma digs_nonempty: "digs b x \<noteq> []"
  by (subst digs) simp

lemma digits_value_digs:
  assumes "2 \<le> b" and "b \<le> 16"
  shows "digits_value undig b (rev (digs b x)) = x"
proof (induction x rule: less_induct)
  case (less x)
  have m: "undig (dig (x mod b)) = x mod b" using mod_less_divisor[of b x] assms by (intro undig) linarith
  show ?case
  proof (cases "x div b = 0")
    case True
    then have "digs b x = [dig (x mod b)]" by (subst digs) simp
    then show ?thesis using m True assms by (simp add: digits_value_def div_eq_0_iff)
  next
    case False
    then have d: "digs b x = dig (x mod b) # digs b (x div b)" using assms by (subst digs) simp
    have "x div b < x" using False assms by (intro div_less_dividend) (auto intro: gr0I)
    from less[OF this] show ?thesis using m unfolding d by (simp add: digits_value_def)
  qed
qed

lemma length_digs: "2 \<le> b \<Longrightarrow> x < b ^ Suc k \<Longrightarrow> length (digs b x) \<le> Suc k"
proof (induction k arbitrary: x)
  case 0
  then show ?case by (subst digs) simp
next
  case (Suc k)
  have "x div b < b ^ Suc k" using Suc.prems by (simp add: less_mult_imp_div_less mult.commute)
  with Suc.IH[of "x div b"] Suc.prems show ?case by (subst digs) simp
qed

lemma set_digs: "2 \<le> b \<Longrightarrow> b \<le> 16 \<Longrightarrow> c \<in> set (digs b x) \<Longrightarrow> c \<noteq> CHR ''-''"
proof (induction x rule: less_induct)
  case (less x)
  have m: "x mod b < 16" using mod_less_divisor[of b x] less.prems by linarith
  consider "c = dig (x mod b)" | "x div b \<noteq> 0" "c \<in> set (digs b (x div b))"
    using less.prems(3) by (subst (asm) digs) (auto split: if_splits)
  then show ?case
  proof cases
    case 1
    then show ?thesis using no_minus[OF m] by simp
  next
    case 2
    moreover have "x div b < x" using 2 less.prems by (intro div_less_dividend) (auto intro: gr0I)
    ultimately show ?thesis using less by blast
  qed
qed

lemma printed_value_pr:
  assumes "2 \<le> b" and "b \<le> 16" and "- (2 ^ 31) \<le> xx" and "xx < 2 ^ 31"
  shows "printed_value undig b (pr xx b sg) = (if sg then xx else xx mod 2 ^ 32)"
proof (cases "sg \<and> xx < 0")
  case True
  then have "u32_of_int (- xx) = nat (- xx)" using assms by (simp add: u32_of_int_def)
  then show ?thesis using True digits_value_digs[OF assms(1,2), of "nat (- xx)"]
    unfolding pr by (simp add: printed_value_def)
next
  case False
  let ?x = "u32_of_int xx"
  obtain c t where r: "rev (digs b ?x) = c # t" using digs_nonempty[of b ?x] by (metis neq_Nil_conv rev_is_Nil_conv)
  then have "c \<noteq> CHR ''-''" using set_digs[OF assms(1,2), of c ?x] by (metis list.set_intros(1) set_rev)
  moreover have "pr xx b sg = c # t" using False unfolding pr r[symmetric] by (auto simp: Let_def)
  moreover have "int ?x = xx mod 2 ^ 32" by (simp add: u32_of_int_def)
  ultimately show ?thesis
    using digits_value_digs[OF assms(1,2), of ?x] r False assms by (auto simp: printed_value_def)
qed

lemma length_pr:
  assumes "b = 10 \<or> b = 16"
  shows "length (pr xx b sg) \<le> 11"
proof -
  have "u32_of_int y < 2 ^ 32" for y by (simp add: u32_of_int_def)
  moreover have "2 ^ 32 \<le> b ^ Suc 9" using assms by auto
  ultimately have "u32_of_int y < b ^ Suc 9" for y by (meson less_le_trans)
  then have "length (digs b (u32_of_int y)) \<le> Suc 9" for y
    using assms by (intro length_digs) auto
  from this[of xx] this[of "- xx"] show ?thesis unfolding pr by (simp add: Let_def)
qed

end

fun hex_digit :: "char \<Rightarrow> nat" where
  "hex_digit c = (let n = of_char c in if n < 58 then n - 48 else if n < 71 then n - 55 else n - 87)"

lemma digit_tables:
  "\<forall>d<16. hex_digit (digit_char d) = d \<and> hex_digit (udigit d) = d \<and> digit_char d \<noteq> CHR ''-'' \<and> udigit d \<noteq> CHR ''-''"
  by code_simp

interpretation kernel_printer: digit_printer digit_char hex_digit printint_digits printint
  by (unfold_locales; (rule printint_digits.simps | use digit_tables in \<open>simp add: printint_def Let_def\<close>))

interpretation user_printer: digit_printer udigit hex_digit uprintint_digits uprintint
  by (unfold_locales; (rule uprintint_digits.simps | use digit_tables in \<open>simp add: uprintint_def Let_def\<close>))

text \<open>
  C39. The digits that \<^verbatim>\<open>cprintf\<close> and the user library's \<^verbatim>\<open>printf\<close> print for a number in base 10 or 16 stand for
  that number (unsigned: for it modulo \<^verbatim>\<open>2^32\<close>), the smallest negative number included, and fit into the
  sixteen bytes of the buffer.
\<close>

theorem printint_exact:
  assumes "b = 10 \<or> b = 16" and "- (2 ^ 31) \<le> xx" and "xx < 2 ^ 31"
  shows "printed_value hex_digit b (printint xx b sg) = (if sg then xx else xx mod 2 ^ 32)
    \<and> printed_value hex_digit b (uprintint xx b sg) = (if sg then xx else xx mod 2 ^ 32)
    \<and> length (printint xx b sg) \<le> 16 \<and> length (uprintint xx b sg) \<le> 16"
  using kernel_printer.printed_value_pr[of b xx sg] user_printer.printed_value_pr[of b xx sg]
    kernel_printer.length_pr[OF assms(1), of xx sg] user_printer.length_pr[OF assms(1), of xx sg] assms
  by auto

theorem printint_exact_witness:
  "printed_value hex_digit 10 (printint (- 2147483648) 10 True) = - 2147483648"
  using printint_exact[of 10 "- 2147483648" True] by simp

end
