(* ===== verification/Xv6_Grep.thy ===== *)
theory Xv6_Grep
  imports Xv6_Prelude
begin

section \<open>The grep program\<close>

text \<open>
  \<^verbatim>\<open>grep.c\<close>: the matcher of Kernighan and Pike with its do-while loops, and the loop that cuts what it reads
  into lines. A C string is the list of its characters before the NUL, a pointer into it a suffix; the
  buffer is the list of the \<^verbatim>\<open>m\<close> bytes in use, and the results of the successive calls of \<^verbatim>\<open>read\<close> are a list
  of chunks (the call after the last one returns 0 or less).
\<close>

subsection \<open>The matcher\<close>

function matchhere :: "string \<Rightarrow> string \<Rightarrow> bool"
  and matchstar :: "char \<Rightarrow> string \<Rightarrow> string \<Rightarrow> bool" where
  "matchhere re tx =
     (case re of
        [] \<Rightarrow> True
      | c # re1 \<Rightarrow>
          if re1 \<noteq> [] \<and> hd re1 = CHR ''*'' then matchstar c (tl re1) tx
          else if c = CHR ''$'' \<and> re1 = [] then tx = []
          else if tx \<noteq> [] \<and> (c = CHR ''.'' \<or> c = hd tx) then matchhere re1 (tl tx)
          else False)"
| "matchstar c re tx =
     (if matchhere re tx then True
      else if tx \<noteq> [] \<and> (hd tx = c \<or> c = CHR ''.'') then matchstar c re (tl tx)
      else False)"
  by pat_completeness auto
termination
  by (relation "measures [\<lambda>x. case x of Inl (re, t) \<Rightarrow> length re | Inr (c, re, t) \<Rightarrow> length re,
      \<lambda>x. case x of Inl (re, t) \<Rightarrow> length t | Inr (c, re, t) \<Rightarrow> length t,
      \<lambda>x. case x of Inl (re, t) \<Rightarrow> 0 | Inr (c, re, t) \<Rightarrow> 1]") auto

declare matchhere.simps [simp del] matchstar.simps [simp del]

fun match_loop :: "string \<Rightarrow> string \<Rightarrow> bool" where
  "match_loop re tx =
     (if matchhere re tx then True
      else case tx of [] \<Rightarrow> False | _ # tx1 \<Rightarrow> match_loop re tx1)"

definition match :: "string \<Rightarrow> string \<Rightarrow> bool" where
  "match re tx =
     (if re \<noteq> [] \<and> hd re = CHR ''^'' then matchhere (tl re) tx else match_loop re tx)"

subsection \<open>Reading and printing lines\<close>

text \<open>
  \<open>strchr p c\<close>: the position of the first \<open>c\<close> in \<open>p\<close> before a NUL byte.
\<close>

fun strchr :: "string \<Rightarrow> char \<Rightarrow> nat option" where
  "strchr [] c = None"
| "strchr (x # s) c =
     (if x = CHR 0x00 then None else if x = c then Some 0 else map_option Suc (strchr s c))"

lemma strchr_less: "strchr p c = Some i \<Longrightarrow> i < length p"
  by (induction p arbitrary: i) (auto split: if_splits)

definition NL :: char where "NL = CHR 0x0A"

text \<open>The inner loop: what it writes, and the pointer \<^verbatim>\<open>p\<close> it ends with.\<close>

function grep_lines :: "string \<Rightarrow> string \<Rightarrow> string list \<times> string" where
  "grep_lines pattern p =
     (case strchr p NL of
        None \<Rightarrow> ([], p)
      | Some i \<Rightarrow>
          let (out, p') = grep_lines pattern (drop (i + 1) p)
          in (if match pattern (take i p) then take (i + 1) p # out else out, p'))"
  by pat_completeness auto
termination
  by (relation "measure (length \<circ> snd)") (auto dest: strchr_less)

declare grep_lines.simps [simp del]

text \<open>The outer loop: \<open>b\<close> is the content of \<^verbatim>\<open>buf\<close> up to \<^verbatim>\<open>m\<close>.\<close>

fun grep_loop :: "string \<Rightarrow> string \<Rightarrow> string list \<Rightarrow> string list" where
  "grep_loop pattern b [] = []"
| "grep_loop pattern b (chunk # chunks) =
     (let b = b @ chunk;
          (out, p) = grep_lines pattern b;
          b = (if length p = length b then [] else p)
      in out @ grep_loop pattern b chunks)"

definition grep :: "string \<Rightarrow> string list \<Rightarrow> string list" where
  "grep pattern chunks = grep_loop pattern [] chunks"

subsection \<open>The language of a pattern\<close>

datatype item = One char | Many char | End

fun items :: "string \<Rightarrow> item list" where
  "items [] = []"
| "items [c] = (if c = CHR ''$'' then [End] else [One c])"
| "items (c # d # r) = (if d = CHR ''*'' then Many c # items r else One c # items (d # r))"

definition accepts :: "char \<Rightarrow> char \<Rightarrow> bool" where
  "accepts c x \<longleftrightarrow> c = CHR ''.'' \<or> x = c"

fun lang :: "item list \<Rightarrow> string set" where
  "lang [] = {[]}"
| "lang (One c # its) = {x # w | x w. accepts c x \<and> w \<in> lang its}"
| "lang (Many c # its) = {v @ w | v w. (\<forall>x\<in>set v. accepts c x) \<and> w \<in> lang its}"
| "lang (End # its) = lang its"

definition anchored :: "item list \<Rightarrow> bool" where
  "anchored its \<longleftrightarrow> End \<in> set its"

text \<open>The tx starts with a word of the pattern, up to its end if the pattern ends in \<^verbatim>\<open>$\<close>.\<close>

definition starts :: "string \<Rightarrow> string \<Rightarrow> bool" where
  "starts re tx \<longleftrightarrow> (\<exists>w v. tx = w @ v \<and> w \<in> lang (items re) \<and> (anchored (items re) \<longrightarrow> v = []))"

lemma starts_Nil [simp]: "starts [] tx"
  by (simp add: starts_def anchored_def)

lemma starts_End [simp]: "starts ''$'' tx \<longleftrightarrow> tx = []"
  by (auto simp: starts_def anchored_def)

lemma starts_One:
  assumes "items (c # re) = One c # items re"
  shows "starts (c # re) tx \<longleftrightarrow> tx \<noteq> [] \<and> accepts c (hd tx) \<and> starts re (tl tx)"
proof
  assume "starts (c # re) tx"
  then obtain z v where z: "tx = z @ v" "z \<in> lang (One c # items re)" "anchored (items re) \<longrightarrow> v = []"
    unfolding starts_def assms anchored_def by auto
  then obtain x w where "z = x # w" "accepts c x" "w \<in> lang (items re)" by auto
  with z show "tx \<noteq> [] \<and> accepts c (hd tx) \<and> starts re (tl tx)" by (auto simp: starts_def)
next
  assume *: "tx \<noteq> [] \<and> accepts c (hd tx) \<and> starts re (tl tx)"
  then obtain w v where "tl tx = w @ v" "w \<in> lang (items re)" "anchored (items re) \<longrightarrow> v = []"
    by (auto simp: starts_def)
  with * show "starts (c # re) tx"
    unfolding starts_def assms by (intro exI[of _ "hd tx # w"] exI[of _ v]) (cases tx; auto simp: anchored_def)
qed

lemma starts_Many:
  "starts (c # CHR ''*'' # re) tx \<longleftrightarrow>
     (\<exists>v u. tx = v @ u \<and> (\<forall>x\<in>set v. accepts c x) \<and> starts re u)"
proof
  assume "starts (c # CHR ''*'' # re) tx"
  then obtain z r where z: "tx = z @ r" "z \<in> lang (Many c # items re)" "anchored (items re) \<longrightarrow> r = []"
    by (auto simp: starts_def anchored_def)
  then obtain v w where "z = v @ w" "\<forall>x\<in>set v. accepts c x" "w \<in> lang (items re)" by auto
  then show "\<exists>v u. tx = v @ u \<and> (\<forall>x\<in>set v. accepts c x) \<and> starts re u"
    unfolding starts_def using z by (intro exI[of _ v] exI[of _ "w @ r"]) auto
next
  assume "\<exists>v u. tx = v @ u \<and> (\<forall>x\<in>set v. accepts c x) \<and> starts re u"
  then obtain v w r where "tx = v @ w @ r" "\<forall>x\<in>set v. accepts c x" "w \<in> lang (items re)"
    "anchored (items re) \<longrightarrow> r = []"
    by (auto simp: starts_def)
  then show "starts (c # CHR ''*'' # re) tx"
    unfolding starts_def by (intro exI[of _ "v @ w"] exI[of _ r]) (auto simp: anchored_def)
qed

lemma many_unfold:
  "(\<exists>v u. tx = v @ u \<and> (\<forall>x\<in>set v. accepts c x) \<and> P u) \<longleftrightarrow>
     P tx \<or> (tx \<noteq> [] \<and> accepts c (hd tx) \<and> (\<exists>v u. tl tx = v @ u \<and> (\<forall>x\<in>set v. accepts c x) \<and> P u))"
  (is "?l \<longleftrightarrow> ?r")
proof
  assume ?l
  then obtain v u where *: "tx = v @ u" "\<forall>x\<in>set v. accepts c x" "P u" by blast
  then show ?r by (cases v) auto
next
  assume ?r
  then show ?l
  proof
    assume "P tx"
    then show ?l by (intro exI[of _ "[]"] exI[of _ tx]) simp
  next
    assume "tx \<noteq> [] \<and> accepts c (hd tx) \<and> (\<exists>v u. tl tx = v @ u \<and> (\<forall>x\<in>set v. accepts c x) \<and> P u)"
    then obtain v u where "tx = (hd tx # v) @ u" "\<forall>x\<in>set (hd tx # v). accepts c x" "P u"
      by (cases tx) auto
    then show ?l by blast
  qed
qed

lemma matchhere_matchstar:
  "matchhere re tx \<longleftrightarrow> starts re tx"
  "matchstar c re tx \<longleftrightarrow> (\<exists>v u. tx = v @ u \<and> (\<forall>x\<in>set v. accepts c x) \<and> starts re u)"
proof (induction re tx and c re tx rule: matchhere_matchstar.induct)
  case (1 re tx)
  show ?case
  proof (cases re)
    case Nil
    then show ?thesis by (simp add: matchhere.simps)
  next
    case (Cons c re1)
    consider "re1 \<noteq> []" "hd re1 = CHR ''*''" | "c = CHR ''$''" "re1 = []"
      | "\<not> (re1 \<noteq> [] \<and> hd re1 = CHR ''*'')" "\<not> (c = CHR ''$'' \<and> re1 = [])" by blast
    then show ?thesis
    proof cases
      case 1
      then obtain r where r: "re1 = CHR ''*'' # r" by (cases re1) auto
      have "matchhere re tx = matchstar c r tx" unfolding Cons r by (simp add: matchhere.simps)
      also have "\<dots> \<longleftrightarrow> starts re tx"
        using "1.IH"(1)[OF Cons] unfolding Cons r starts_Many by simp
      finally show ?thesis .
    next
      case 2
      then show ?thesis unfolding Cons by (simp add: matchhere.simps)
    next
      case 3
      have it: "items (c # re1) = One c # items re1" using 3 by (cases re1) auto
      have "matchhere re tx \<longleftrightarrow> tx \<noteq> [] \<and> accepts c (hd tx) \<and> matchhere re1 (tl tx)"
        using 3 unfolding Cons by (subst matchhere.simps) (auto simp: accepts_def)
      then show ?thesis
        using "1.IH"(2)[OF Cons] 3 unfolding Cons starts_One[OF it] by (auto simp: accepts_def)
    qed
  qed
next
  case (2 c re tx)
  show ?case
    unfolding many_unfold[of tx c "starts re"] matchstar.simps[of c re tx]
    using 2 by (auto simp: accepts_def)
qed

text \<open>
  C37. \<^verbatim>\<open>match\<close> finds exactly the lines that contain a word of the pattern: anywhere, at the start if the
  pattern begins with \<^verbatim>\<open>^\<close>, at the end if it ends in \<^verbatim>\<open>$\<close>, where \<^verbatim>\<open>.\<close> stands for any character and a
  character followed by \<^verbatim>\<open>*\<close> for any number of them.
\<close>

theorem match_language:
  "match re tx \<longleftrightarrow>
     (let rooted = (re \<noteq> [] \<and> hd re = CHR ''^''); its = items (if rooted then tl re else re)
      in \<exists>u w v. tx = u @ w @ v \<and> w \<in> lang its \<and> (rooted \<longrightarrow> u = []) \<and> (anchored its \<longrightarrow> v = []))"
proof -
  have loop: "match_loop re tx \<longleftrightarrow> (\<exists>u t. tx = u @ t \<and> starts re t)" for re
  proof (induction tx)
    case Nil
    then show ?case by (simp add: matchhere_matchstar)
  next
    case (Cons x tx)
    have "(\<exists>u t. x # tx = u @ t \<and> starts re t) \<longleftrightarrow> starts re (x # tx) \<or> (\<exists>u t. tx = u @ t \<and> starts re t)"
      by (metis append_Cons append_Nil list.exhaust list.inject)
    with Cons show ?case by (simp add: matchhere_matchstar)
  qed
  show ?thesis
  proof (cases "re \<noteq> [] \<and> hd re = CHR ''^''")
    case True
    then show ?thesis unfolding match_def matchhere_matchstar starts_def by (simp add: Let_def)
  next
    case False
    have "match re tx \<longleftrightarrow> (\<exists>u t. tx = u @ t \<and> starts re t)"
      unfolding match_def if_not_P[OF False] by (rule loop)
    also have "\<dots> \<longleftrightarrow> (\<exists>u w v. tx = u @ w @ v \<and> w \<in> lang (items re) \<and> (anchored (items re) \<longrightarrow> v = []))"
      unfolding starts_def by blast
    finally show ?thesis unfolding Let_def if_not_P[OF False] using False by blast
  qed
qed

theorem match_language_witness: "match ''^a.*b$'' ''acdb''"
proof -
  have "''acdb'' \<in> lang (items ''a.*b$'')"
    by (simp add: accepts_def)
  then have "\<exists>u w v. ''acdb'' = u @ w @ v \<and> w \<in> lang (items ''a.*b$'')
      \<and> (True \<longrightarrow> u = []) \<and> (anchored (items ''a.*b$'') \<longrightarrow> v = [])"
    by (intro exI[of _ "[]"] exI[of _ "''acdb''"] conjI impI) (rule refl | simp only: append_Nil append_Nil2)+
  then show ?thesis using match_language[of "''^a.*b$''" "''acdb''"] by (simp only: Let_def list.sel list.distinct simp_thms if_True)
qed

subsection \<open>Lines\<close>

text \<open>The lines of a text that a newline ends, and what follows the last newline.\<close>

fun cut_lines :: "string \<Rightarrow> string \<Rightarrow> string list \<times> string" where
  "cut_lines acc [] = ([], acc)"
| "cut_lines acc (x # t) =
     (if x = NL then (let (ls, r) = cut_lines [] t in (acc # ls, r)) else cut_lines (acc @ [x]) t)"

definition lines :: "string \<Rightarrow> string list" where
  "lines t = fst (cut_lines [] t)"

lemma cut_lines_plain: "NL \<notin> set w \<Longrightarrow> cut_lines acc w = ([], acc @ w)"
  by (induction w arbitrary: acc) auto

lemma cut_lines_append:
  "cut_lines acc (a @ b) =
     (fst (cut_lines acc a) @ fst (cut_lines (snd (cut_lines acc a)) b), snd (cut_lines (snd (cut_lines acc a)) b))"
  by (induction acc a rule: cut_lines.induct) (auto simp: split_beta Let_def)

lemma cut_lines_rest: "NL \<notin> set acc \<Longrightarrow> NL \<notin> set (snd (cut_lines acc t))"
  by (induction acc t rule: cut_lines.induct) (auto simp: split_beta Let_def)

lemma cut_lines_subset: "set (snd (cut_lines acc t)) \<subseteq> set acc \<union> set t"
  by (induction acc t rule: cut_lines.induct) (auto simp: split_beta Let_def)

lemma cut_lines_acc: "NL \<notin> set b \<Longrightarrow> cut_lines [] (b @ t) = cut_lines b t"
  by (simp add: cut_lines_append cut_lines_plain)

lemma cut_lines_shorter: "NL \<in> set t \<Longrightarrow> length (snd (cut_lines acc t)) < length acc + length t"
proof (induction acc t rule: cut_lines.induct)
  case (2 acc x t)
  then show ?case
  proof (cases "x = NL")
    case True
    have "length (snd (cut_lines [] t)) \<le> length t"
    proof (cases "NL \<in> set t")
      case True
      then show ?thesis using 2(1)[OF \<open>x = NL\<close>] by simp
    qed (simp add: cut_lines_plain)
    with True show ?thesis by (simp add: split_beta Let_def)
  qed (use 2 in auto)
qed simp

lemma strchr_SomeD:
  "strchr p c = Some i \<Longrightarrow> p = take i p @ c # drop (i + 1) p \<and> c \<notin> set (take i p)"
  by (induction p arbitrary: i) (fastforce split: if_splits)+

lemma strchr_NoneD: "strchr p c = None \<Longrightarrow> CHR 0x00 \<notin> set p \<Longrightarrow> c \<notin> set p"
  by (induction p) (auto split: if_splits)

lemma grep_lines_eq:
  "CHR 0x00 \<notin> set p \<Longrightarrow>
     grep_lines pattern p =
       (map (\<lambda>l. l @ [NL]) (filter (match pattern) (fst (cut_lines [] p))), snd (cut_lines [] p))"
proof (induction pattern p rule: grep_lines.induct)
  case (1 pattern p)
  show ?case
  proof (cases "strchr p NL")
    case None
    then have "NL \<notin> set p" using 1(2) by (rule strchr_NoneD)
    with None show ?thesis by (simp add: grep_lines.simps cut_lines_plain)
  next
    case (Some i)
    let ?l = "take i p" and ?r = "drop (i + 1) p"
    from strchr_SomeD[OF Some] have p: "p = ?l @ NL # ?r" and l: "NL \<notin> set ?l" by auto
    have c: "cut_lines [] p = (?l # fst (cut_lines [] ?r), snd (cut_lines [] ?r))"
      by (subst p) (simp add: cut_lines_append cut_lines_plain[OF l] split_beta Let_def)
    have t: "take (i + 1) p = ?l @ [NL]"
      using strchr_less[OF Some] by (subst (1) p) simp
    have "CHR 0x00 \<notin> set ?r" using 1(2) by (meson in_set_dropD)
    from 1(1)[OF Some this] show ?thesis
      unfolding grep_lines.simps[of pattern p] Some c option.case t by (simp add: Let_def)
  qed
qed

text \<open>
  C38. When every chunk that \<^verbatim>\<open>read\<close> delivers holds a newline and no NUL byte, \<^verbatim>\<open>grep\<close> writes exactly the
  lines of the input that match the pattern, in order, each with its newline, however the input is cut
  into chunks.
\<close>

theorem grep_matching_lines:
  assumes "\<forall>c \<in> set chunks. NL \<in> set c \<and> CHR 0x00 \<notin> set c"
  shows "grep pattern chunks = map (\<lambda>l. l @ [NL]) (filter (match pattern) (lines (concat chunks)))"
proof -
  have "grep_loop pattern b cs = map (\<lambda>l. l @ [NL]) (filter (match pattern) (fst (cut_lines b (concat cs))))"
    if "\<forall>c \<in> set cs. NL \<in> set c \<and> CHR 0x00 \<notin> set c" "NL \<notin> set b" "CHR 0x00 \<notin> set b" for b cs
    using that
  proof (induction cs arbitrary: b)
    case (Cons c cs)
    let ?r = "snd (cut_lines b c)"
    have z: "CHR 0x00 \<notin> set (b @ c)" using Cons.prems by auto
    have e: "cut_lines [] (b @ c) = cut_lines b c" using Cons.prems by (simp add: cut_lines_acc)
    have "length ?r < length (b @ c)" using cut_lines_shorter[of c b] Cons.prems by simp
    moreover have "NL \<notin> set ?r" using Cons.prems by (simp add: cut_lines_rest)
    moreover have "CHR 0x00 \<notin> set ?r" using cut_lines_subset[of b c] z by auto
    ultimately show ?case
      using Cons by (simp add: grep_lines_eq[OF z] e cut_lines_append[of b])
  qed simp
  from this[of chunks "[]"] assms show ?thesis by (simp add: grep_def lines_def)
qed

theorem grep_matching_lines_witness:
  "grep ''b$'' [''ab'' @ [NL] @ ''c'', ''b'' @ [NL] @ ''ba'' @ [NL]] = [''ab'' @ [NL], ''cb'' @ [NL]]"
proof -
  have "match ''b$'' ''ab''" "match ''b$'' ''cb''" "\<not> match ''b$'' ''ba''"
    by (simp_all add: match_def matchhere.simps)
  moreover have "lines (concat [''ab'' @ [NL] @ ''c'', ''b'' @ [NL] @ ''ba'' @ [NL]]) = [''ab'', ''cb'', ''ba'']"
    by (simp add: lines_def NL_def)
  ultimately show ?thesis
    using grep_matching_lines[of "[''ab'' @ [NL] @ ''c'', ''b'' @ [NL] @ ''ba'' @ [NL]]" "''b$''"]
    by (simp add: NL_def)
qed

text \<open>A part of a line that comes without its newline is dropped, so a short read loses the line.\<close>

lemma grep_short_read: "grep ''abc'' [''ab'', ''c'' @ [NL]] = []"
  by (simp add: grep_def grep_lines.simps NL_def match_def matchhere.simps Let_def)

end
