(* ===== verification/Xv6_Sh.thy ===== *)
theory Xv6_Sh
  imports Xv6_Grep Xv6_Ulib
begin

section \<open>The shell\<close>

text \<open>
  \<^verbatim>\<open>sh.c\<close>. The input line is a string \<open>s\<close> and its pointers are positions in it; the position \<open>length s\<close> is
  the end \<^verbatim>\<open>es\<close>, where the buffer holds a NUL. A command is a tree whose words are pairs of positions
  (\<^verbatim>\<open>argv\<close> and \<^verbatim>\<open>eargv\<close>), and strings once \<^verbatim>\<open>nulterminate\<close> has cut the buffer. The parser's functions return the
  new value of \<^verbatim>\<open>*ps\<close>, or end the process through \<^verbatim>\<open>panic\<close>. The four functions that call one another take fuel;
  the other loops are total.
\<close>

subsection \<open>Commands\<close>

datatype 'w cmd =
    EXEC "'w list"
  | REDIR "'w cmd" 'w int int
  | PIPE "'w cmd" "'w cmd"
  | LIST "'w cmd" "'w cmd"
  | BACK "'w cmd"

definition MAXARGS :: nat where "MAXARGS = 10"
definition SH_RDONLY :: int where "SH_RDONLY = 0"
definition SH_WRCREATE :: int where "SH_WRCREATE = 0x201"

text \<open>\<^verbatim>\<open>cmd->argv[argc] = q\<close>: the node \<^verbatim>\<open>cmd\<close> points to is the innermost one of \<^verbatim>\<open>ret\<close>.\<close>

primrec add_arg :: "'w \<Rightarrow> 'w cmd \<Rightarrow> 'w cmd" where
  "add_arg w (EXEC ws) = EXEC (ws @ [w])"
| "add_arg w (REDIR c f m d) = REDIR (add_arg w c) f m d"
| "add_arg w (PIPE l r) = PIPE l r"
| "add_arg w (LIST l r) = LIST l r"
| "add_arg w (BACK c) = BACK c"

subsection \<open>Tokens\<close>

definition whitespace :: string where
  "whitespace = [CHR '' '', CHR 0x09, CHR 0x0D, CHR 0x0A, CHR 0x0B]"

definition symbols :: string where
  "symbols = ''<|>&;()''"

definition char_at :: "string \<Rightarrow> nat \<Rightarrow> char" where
  "char_at s i = (if i < length s then s ! i else CHR 0x00)"

definition in_str :: "string \<Rightarrow> char \<Rightarrow> bool" where
  "in_str t c \<longleftrightarrow> strchr t c \<noteq> None"

function skip_ws :: "string \<Rightarrow> nat \<Rightarrow> nat" where
  "skip_ws s i = (if i < length s \<and> in_str whitespace (char_at s i) then skip_ws s (i + 1) else i)"
  by pat_completeness auto
termination by (relation "measure (\<lambda>(s, i). length s - i)") auto

function skip_word :: "string \<Rightarrow> nat \<Rightarrow> nat" where
  "skip_word s i =
     (if i < length s \<and> \<not> in_str whitespace (char_at s i) \<and> \<not> in_str symbols (char_at s i)
      then skip_word s (i + 1) else i)"
  by pat_completeness auto
termination by (relation "measure (\<lambda>(s, i). length s - i)") auto

declare skip_ws.simps [simp del] skip_word.simps [simp del]

text \<open>\<^verbatim>\<open>gettoken\<close>: the kind of token, its start and end, and the new position.\<close>

definition gettoken :: "string \<Rightarrow> nat \<Rightarrow> char \<times> nat \<times> nat \<times> nat" where
  "gettoken s i =
     (let q = skip_ws s i;
          c = char_at s q;
          (ret, e) =
            (if c = CHR 0x00 then (c, q)
             else if c \<in> {CHR ''|'', CHR ''('', CHR '')'', CHR '';'', CHR ''&'', CHR ''<''} then (c, q + 1)
             else if c = CHR ''>'' then
               (if char_at s (q + 1) = CHR ''>'' then (CHR ''+'', q + 2) else (c, q + 1))
             else (CHR ''a'', skip_word s q))
      in (ret, q, e, skip_ws s e))"

definition peek :: "string \<Rightarrow> nat \<Rightarrow> string \<Rightarrow> bool \<times> nat" where
  "peek s i toks =
     (let p = skip_ws s i; c = char_at s p in (c \<noteq> CHR 0x00 \<and> in_str toks c, p))"

subsection \<open>Progress of the scanner\<close>

lemma in_str_iff: "CHR 0x00 \<notin> set t \<Longrightarrow> in_str t c \<longleftrightarrow> c \<in> set t"
  by (induction t) (auto simp: in_str_def)

lemma in_whitespace [simp]: "in_str whitespace c \<longleftrightarrow> c \<in> set whitespace"
  by (rule in_str_iff) (simp add: whitespace_def)

lemma in_symbols [simp]: "in_str symbols c \<longleftrightarrow> c \<in> set symbols"
  by (rule in_str_iff) (simp add: symbols_def)

lemma skip_ws_bounds: "i \<le> skip_ws s i" "i \<le> length s \<Longrightarrow> skip_ws s i \<le> length s"
  by (induction s i rule: skip_ws.induct; subst skip_ws.simps; auto)+

lemma skip_ws_stop: "skip_ws s i < length s \<Longrightarrow> char_at s (skip_ws s i) \<notin> set whitespace"
proof (induction s i rule: skip_ws.induct)
  case (1 s i)
  then show ?case by (cases "i < length s \<and> char_at s i \<in> set whitespace") (auto simp: skip_ws.simps[of s i])
qed

lemma skip_ws_idem [simp]: "skip_ws s (skip_ws s i) = skip_ws s i"
  using skip_ws_stop[of s i] by (subst skip_ws.simps) auto

lemma skip_word_bounds: "i \<le> skip_word s i" "i \<le> length s \<Longrightarrow> skip_word s i \<le> length s"
  by (induction s i rule: skip_word.induct; subst skip_word.simps; auto)+

lemma skip_word_first:
  "i < length s \<Longrightarrow> char_at s i \<notin> set whitespace \<Longrightarrow> char_at s i \<notin> set symbols \<Longrightarrow> i < skip_word s i"
  using skip_word_bounds(1)[of "i + 1" s] by (subst skip_word.simps) simp

lemma peek_bounds:
  assumes "peek s i toks = (b, p)"
  shows "i \<le> p" and "b \<Longrightarrow> p < length s" and "i \<le> length s \<Longrightarrow> p \<le> length s" and "skip_ws s p = p"
  using assms skip_ws_bounds[of i s] by (auto simp: peek_def Let_def char_at_def split: if_splits)

lemma gettoken_progress:
  assumes "gettoken s i = (tok, q, e, p)"
  shows "i \<le> p" and "i \<le> length s \<Longrightarrow> p \<le> length s" and "skip_ws s p = p"
    and "skip_ws s i < length s \<Longrightarrow> char_at s (skip_ws s i) \<noteq> CHR 0x00 \<Longrightarrow> i < length s \<and> i < p"
    and "tok = CHR ''a'' \<Longrightarrow> i < length s \<and> i < p"
proof -
  have q: "q = skip_ws s i" "p = skip_ws s e"
    using assms by (auto simp: gettoken_def Let_def split_beta split: if_splits)
  note b = skip_ws_bounds[of i s] skip_ws_bounds[of e s]
  have e: "q \<le> e" "q \<le> length s \<Longrightarrow> e \<le> length s"
    using assms skip_word_bounds[of q s] unfolding q(1)
    by (auto simp: gettoken_def Let_def char_at_def split: if_splits)
  show "i \<le> p" "skip_ws s p = p" using b e q by (linarith, simp)
  show "i \<le> length s \<Longrightarrow> p \<le> length s" using b e q by simp
  have *: "i < length s \<and> i < p" if l: "q < length s" and c: "char_at s q \<noteq> CHR 0x00"
  proof -
    have "char_at s q \<notin> set whitespace" using skip_ws_stop l unfolding q(1) by blast
    then have "q < e"
      using assms c l skip_word_first[of q s] unfolding q(1)
      by (auto simp: gettoken_def Let_def symbols_def split: if_splits)
    then show ?thesis using b q l by linarith
  qed
  then show "skip_ws s i < length s \<Longrightarrow> char_at s (skip_ws s i) \<noteq> CHR 0x00 \<Longrightarrow> i < length s \<and> i < p"
    unfolding q(1) by blast
  assume "tok = CHR ''a''"
  then have "q < length s \<and> char_at s q \<noteq> CHR 0x00"
    using assms unfolding q(1) by (auto simp: gettoken_def Let_def char_at_def split: if_splits)
  with * show "i < length s \<and> i < p" by blast
qed

lemma peek_gettoken:
  assumes "peek s i toks = (True, p)" and "gettoken s p = (tok, q, e, p')"
  shows "i \<le> p" and "p < length s" and "p < p'" and "p' \<le> length s"
proof -
  have p: "p = skip_ws s i" "char_at s p \<noteq> CHR 0x00" using assms(1) by (auto simp: peek_def Let_def)
  show "i \<le> p" "p < length s" using peek_bounds[OF assms(1)] by auto
  then show "p < p'" "p' \<le> length s"
    using gettoken_progress[OF assms(2)] p by auto
qed

lemma peek_shorter:
  "peek s i toks = (True, p) \<Longrightarrow> gettoken s p = (tok, q, e, p') \<Longrightarrow> length s - p' < length s - i"
  using peek_gettoken[of s i toks p tok q e p'] by linarith

lemma redirs_shorter:
  "peek s i toks = (True, p) \<Longrightarrow> gettoken s p = (tok, q, e, p') \<Longrightarrow> gettoken s p' = (CHR ''a'', q', e', p'')
     \<Longrightarrow> length s - p'' < length s - i"
  using peek_gettoken[of s i toks p tok q e p'] gettoken_progress(5)[of s p' "CHR ''a''" q' e' p''] by auto

subsection \<open>The parser\<close>

datatype 'a parse = Parsed 'a nat | Quit string | NoFuel

fun pbind :: "'a parse \<Rightarrow> ('a \<Rightarrow> nat \<Rightarrow> 'b parse) \<Rightarrow> 'b parse" where
  "pbind (Parsed x i) f = f x i"
| "pbind (Quit m) f = Quit m"
| "pbind NoFuel f = NoFuel"

type_synonym span = "nat \<times> nat"

function parseredirs :: "string \<Rightarrow> span cmd \<Rightarrow> nat \<Rightarrow> span cmd parse" where
  "parseredirs s cmd i =
     (case peek s i ''<>'' of (b, i) \<Rightarrow>
      if \<not> b then Parsed cmd i
      else case gettoken s i of (tok, _, _, i) \<Rightarrow>
           case gettoken s i of (tok2, q, eq, i) \<Rightarrow>
           if tok2 \<noteq> CHR ''a'' then Quit ''missing file for redirection''
           else parseredirs s
             (if tok = CHR ''<'' then REDIR cmd (q, eq) SH_RDONLY 0
              else if tok = CHR ''>'' then REDIR cmd (q, eq) SH_WRCREATE 1
              else if tok = CHR ''+'' then REDIR cmd (q, eq) SH_WRCREATE 1
              else cmd) i)"
  by pat_completeness auto
termination
  by (relation "measure (\<lambda>(s, cmd, i). length s - i)") (auto intro: redirs_shorter[OF sym sym sym])

declare parseredirs.simps [simp del]

function parse_args :: "string \<Rightarrow> nat \<Rightarrow> span cmd \<Rightarrow> nat \<Rightarrow> span cmd parse" where
  "parse_args s argc ret i =
     (case peek s i ''|)&;'' of (b, i) \<Rightarrow>
      if b then Parsed ret i
      else case gettoken s i of (tok, q, eq, i) \<Rightarrow>
           if tok = CHR 0x00 then Parsed ret i
           else if tok \<noteq> CHR ''a'' then Quit ''syntax''
           else let ret = add_arg (q, eq) ret; argc = argc + 1
                in if argc \<ge> MAXARGS then Quit ''too many args''
                   else pbind (parseredirs s ret i) (\<lambda>ret i. parse_args s argc ret i))"
  by pat_completeness auto
termination
  by (relation "measure (\<lambda>(s, argc, ret, i). MAXARGS - argc)") auto

declare parse_args.simps [simp del]

function parse_backs :: "string \<Rightarrow> span cmd \<Rightarrow> nat \<Rightarrow> span cmd parse" where
  "parse_backs s cmd i =
     (case peek s i ''&'' of (b, i) \<Rightarrow>
      if \<not> b then Parsed cmd i
      else case gettoken s i of (_, _, _, i) \<Rightarrow> parse_backs s (BACK cmd) i)"
  by pat_completeness auto
termination
  by (relation "measure (\<lambda>(s, cmd, i). length s - i)") (auto intro: peek_shorter[OF sym sym])

declare parse_backs.simps [simp del]

fun parseline :: "nat \<Rightarrow> string \<Rightarrow> nat \<Rightarrow> span cmd parse"
  and parsepipe :: "nat \<Rightarrow> string \<Rightarrow> nat \<Rightarrow> span cmd parse"
  and parseexec :: "nat \<Rightarrow> string \<Rightarrow> nat \<Rightarrow> span cmd parse"
  and parseblock :: "nat \<Rightarrow> string \<Rightarrow> nat \<Rightarrow> span cmd parse" where
  "parseline 0 s i = NoFuel"
| "parseline (Suc n) s i =
     pbind (parsepipe n s i) (\<lambda>cmd i.
     pbind (parse_backs s cmd i) (\<lambda>cmd i.
     case peek s i '';'' of (b, i) \<Rightarrow>
     if b then case gettoken s i of (_, _, _, i) \<Rightarrow>
               pbind (parseline n s i) (\<lambda>r i. Parsed (LIST cmd r) i)
     else Parsed cmd i))"
| "parsepipe 0 s i = NoFuel"
| "parsepipe (Suc n) s i =
     pbind (parseexec n s i) (\<lambda>cmd i.
     case peek s i ''|'' of (b, i) \<Rightarrow>
     if b then case gettoken s i of (_, _, _, i) \<Rightarrow>
               pbind (parsepipe n s i) (\<lambda>r i. Parsed (PIPE cmd r) i)
     else Parsed cmd i)"
| "parseexec 0 s i = NoFuel"
| "parseexec (Suc n) s i =
     (case peek s i ''('' of (b, i) \<Rightarrow>
      if b then parseblock n s i
      else pbind (parseredirs s (EXEC []) i) (\<lambda>ret i. parse_args s 0 ret i))"
| "parseblock 0 s i = NoFuel"
| "parseblock (Suc n) s i =
     (case peek s i ''('' of (b, i) \<Rightarrow>
      if \<not> b then Quit ''parseblock''
      else case gettoken s i of (_, _, _, i) \<Rightarrow>
           pbind (parseline n s i) (\<lambda>cmd i.
           case peek s i '')'' of (b, i) \<Rightarrow>
           if \<not> b then Quit ''syntax - missing )''
           else case gettoken s i of (_, _, _, i) \<Rightarrow> parseredirs s cmd i))"

text \<open>\<^verbatim>\<open>nulterminate\<close> writes a NUL at the end of every word; the buffer is the string with its closing NUL.\<close>

primrec nulterminate :: "span cmd \<Rightarrow> string \<Rightarrow> string" where
  "nulterminate (EXEC ws) b = fold (\<lambda>(q, eq) b. b[eq := CHR 0x00]) ws b"
| "nulterminate (REDIR c f m d) b = (nulterminate c b)[snd f := CHR 0x00]"
| "nulterminate (PIPE l r) b = nulterminate r (nulterminate l b)"
| "nulterminate (LIST l r) b = nulterminate r (nulterminate l b)"
| "nulterminate (BACK c) b = nulterminate c b"

text \<open>The string a pointer into the buffer stands for.\<close>

definition string_at :: "string \<Rightarrow> nat \<Rightarrow> string" where
  "string_at b q = takeWhile (\<lambda>c. c \<noteq> CHR 0x00) (drop q b)"

definition parse_fuel :: "string \<Rightarrow> nat" where
  "parse_fuel s = 4 * length s + 4"

definition parsecmd :: "string \<Rightarrow> string cmd parse" where
  "parsecmd s =
     pbind (parseline (parse_fuel s) s 0) (\<lambda>cmd i.
     case peek s i [] of (_, i) \<Rightarrow>
     if i \<noteq> length s then Quit (''leftovers: '' @ drop i s @ [NL] @ ''syntax'')
     else let b = nulterminate cmd (s @ [CHR 0x00])
          in Parsed (map_cmd (\<lambda>(q, eq). string_at b q) cmd) i)"

subsection \<open>Running commands\<close>

text \<open>
  A program as the tree of the system calls it makes: a call whose result the program looks at goes on with a
  function of the result, \<^verbatim>\<open>exec\<close> goes on only when it fails.
\<close>

datatype prog =
    Exit
  | Exec string "string list" prog
  | Open string int "int \<Rightarrow> prog"
  | Close int prog
  | Dup int prog
  | Pipe "(int \<times> int) option \<Rightarrow> prog"
  | Fork "int \<Rightarrow> prog"
  | Wait prog
  | Chdir string "int \<Rightarrow> prog"
  | Write int string prog

definition sh_panic :: "string \<Rightarrow> prog" where
  "sh_panic msg = Write 2 (msg @ [NL]) Exit"

definition fork1 :: "(int \<Rightarrow> prog) \<Rightarrow> prog" where
  "fork1 k = Fork (\<lambda>pid. if pid = -1 then sh_panic ''fork'' else k pid)"

primrec runcmd :: "string cmd \<Rightarrow> prog" where
  "runcmd (EXEC ws) =
     (case ws of
        [] \<Rightarrow> Exit
      | w # _ \<Rightarrow> Exec w ws (Write 2 (''exec '' @ w @ '' failed'' @ [NL]) Exit))"
| "runcmd (REDIR c f m d) =
     Close d (Open f m (\<lambda>r. if r < 0 then Write 2 (''open '' @ f @ '' failed'' @ [NL]) Exit else runcmd c))"
| "runcmd (LIST l r) = fork1 (\<lambda>pid. if pid = 0 then runcmd l else Wait (runcmd r))"
| "runcmd (PIPE l r) =
     Pipe (\<lambda>po. case po of
         None \<Rightarrow> sh_panic ''pipe''
       | Some (p0, p1) \<Rightarrow>
           fork1 (\<lambda>pid.
             if pid = 0 then Close 1 (Dup p1 (Close p0 (Close p1 (runcmd l))))
             else fork1 (\<lambda>pid.
               if pid = 0 then Close 0 (Dup p0 (Close p0 (Close p1 (runcmd r))))
               else Close p0 (Close p1 (Wait (Wait Exit))))))"
| "runcmd (BACK c) = fork1 (\<lambda>pid. if pid = 0 then runcmd c else Exit)"

text \<open>
  \<^verbatim>\<open>getcmd\<close> and the loops of \<^verbatim>\<open>main\<close>: \<open>inp\<close> is what standard input still delivers. The line is the string before
  the first NUL of the buffer.
\<close>

definition getcmd :: "nat \<Rightarrow> string \<Rightarrow> (string \<times> string) option" where
  "getcmd nbuf inp =
     (let (b, r) = gets nbuf inp; b = string_at b 0 in if b = [] then None else Some (b, r))"

definition run_line :: "string \<Rightarrow> prog" where
  "run_line b =
     (case parsecmd b of
        Parsed cmd i \<Rightarrow> runcmd cmd
      | Quit msg \<Rightarrow> sh_panic msg
      | NoFuel \<Rightarrow> Exit)"

lemma gets_append: "gets_loop i mx inp = (b, r) \<Longrightarrow> inp = b @ r"
proof (induction i mx inp arbitrary: b r rule: gets_loop.induct)
  case (1 i mx inp)
  from 1(2) show ?case
    unfolding gets_loop.simps[of i mx inp]
    using 1(1) by (cases inp) (auto split: if_splits prod.splits)
qed

lemma getcmd_shorter: "getcmd n inp = Some (b, r) \<Longrightarrow> length r < length inp"
  by (auto simp: getcmd_def gets_def string_at_def Let_def split: prod.splits if_splits dest!: gets_append)

function main_loop :: "string \<Rightarrow> prog" where
  "main_loop inp =
     Write 2 ''$ '' (
     case getcmd 100 inp of
       None \<Rightarrow> Exit
     | Some (b, r) \<Rightarrow>
         if char_at b 0 = CHR ''c'' \<and> char_at b 1 = CHR ''d'' \<and> char_at b 2 = CHR '' '' then
           let dir = drop 3 (butlast b)
           in Chdir dir (\<lambda>res. if res < 0 then Write 2 (''cannot cd '' @ dir @ [NL]) (main_loop r) else main_loop r)
         else fork1 (\<lambda>pid. if pid = 0 then run_line b else Wait (main_loop r)))"
  by pat_completeness auto
termination
  by (relation "measure length") (auto dest: getcmd_shorter[OF sym] getcmd_shorter)

declare main_loop.simps [simp del]

end
