(* ===== verification/Xv6_Sh_Props.thy ===== *)
theory Xv6_Sh_Props
  imports Xv6_Sh
begin

section \<open>Properties of the shell\<close>

text \<open>
  The parser returns on every line, printing a command and parsing it gives the command back, and the
  processes of a pipeline get the right ends of the right pipes.
\<close>

subsection \<open>The parser returns\<close>

definition within :: "string \<Rightarrow> nat \<Rightarrow> 'a parse \<Rightarrow> bool" where
  "within s i r \<longleftrightarrow> (case r of Parsed c j \<Rightarrow> i \<le> j \<and> j \<le> length s | Quit m \<Rightarrow> True | NoFuel \<Rightarrow> True)"

lemma within_simps [simp]:
  "within s i (Parsed c j) \<longleftrightarrow> i \<le> j \<and> j \<le> length s" "within s i (Quit m)" "within s i NoFuel"
  by (simp_all add: within_def)

lemma within_pbind:
  "within s i r \<Longrightarrow> (\<And>c j. r = Parsed c j \<Longrightarrow> i \<le> j \<Longrightarrow> j \<le> length s \<Longrightarrow> within s i (f c j)) \<Longrightarrow> within s i (pbind r f)"
  by (cases r) auto

lemma within_mono: "within s j r \<Longrightarrow> i \<le> j \<Longrightarrow> within s i r"
  by (cases r) auto

lemma parseredirs_within: "i \<le> length s \<Longrightarrow> within s i (parseredirs s cmd i) \<and> parseredirs s cmd i \<noteq> NoFuel"
proof (induction s cmd i rule: parseredirs.induct)
  case (1 s cmd i)
  obtain b p where p: "peek s i ''<>'' = (b, p)" by fastforce
  obtain tok q e p1 where g: "gettoken s p = (tok, q, e, p1)" by (metis prod_cases4)
  obtain tok2 q2 e2 p2 where g2: "gettoken s p1 = (tok2, q2, e2, p2)" by (metis prod_cases4)
  have b: "i \<le> p" "p \<le> length s" using peek_bounds[OF p] 1(2) by auto
  show ?case
  proof (cases "b \<and> tok2 = CHR ''a''")
    case False
    then show ?thesis using p g g2 b by (auto simp: parseredirs.simps[of s cmd i])
  next
    case True
    have l: "i \<le> p2" "p2 \<le> length s"
      using gettoken_progress(1,2)[OF g] gettoken_progress(1,2)[OF g2] b by auto
    have "parseredirs s cmd i = parseredirs s
        (if tok = CHR ''<'' then REDIR cmd (q2, e2) SH_RDONLY 0
              else if tok = CHR ''>'' then REDIR cmd (q2, e2) SH_WRCREATE 1
              else if tok = CHR ''+'' then REDIR cmd (q2, e2) SH_WRCREATE 1
              else cmd) p2"
      using True by (simp add: parseredirs.simps[of s cmd i] p g g2)
    moreover have "\<not> \<not> b" "\<not> tok2 \<noteq> CHR ''a''" using True by simp_all
    note 1(1)[OF p[symmetric] this(1) g[symmetric] refl refl g2[symmetric] refl refl this(2) l(2)]
    ultimately show ?thesis using l(1) by (metis within_mono)
  qed
qed

lemma parse_args_within:
  "i \<le> length s \<Longrightarrow> within s i (parse_args s argc ret i) \<and> parse_args s argc ret i \<noteq> NoFuel"
proof (induction s argc ret i rule: parse_args.induct)
  case (1 s argc ret i)
  obtain b p where p: "peek s i ''|)&;'' = (b, p)" by fastforce
  obtain tok q e p1 where g: "gettoken s p = (tok, q, e, p1)" by (metis prod_cases4)
  have b: "i \<le> p" "p \<le> length s" "p \<le> p1" "p1 \<le> length s"
    using peek_bounds[OF p] gettoken_progress(1,2)[OF g] 1(2) by auto
  show ?case
  proof (cases "\<not> b \<and> tok = CHR ''a'' \<and> argc + 1 < MAXARGS")
    case False
    then show ?thesis using p g b by (auto simp: parse_args.simps[of s argc ret i] Let_def)
  next
    case True
    have *: "\<not> b" "tok \<noteq> CHR 0x00" "\<not> tok \<noteq> CHR ''a''" "\<not> MAXARGS \<le> argc + 1" using True by auto
    have u: "parse_args s argc ret i =
        pbind (parseredirs s (add_arg (q, e) ret) p1) (\<lambda>ret i. parse_args s (argc + 1) ret i)"
      using * by (simp add: parse_args.simps[of s argc ret i] p g Let_def)
    have r: "within s p1 (parseredirs s (add_arg (q, e) ret) p1)" "parseredirs s (add_arg (q, e) ret) p1 \<noteq> NoFuel"
      using parseredirs_within b(4) by blast+
    show ?thesis
    proof (cases "parseredirs s (add_arg (q, e) ret) p1")
      case (Parsed c j)
      then have j: "p1 \<le> j" "j \<le> length s" using r(1) by simp_all
      have "within s j (parse_args s (argc + 1) c j) \<and> parse_args s (argc + 1) c j \<noteq> NoFuel"
        using 1(1)[OF p[symmetric] *(1) g[symmetric] refl refl *(2) *(3) refl refl *(4) j(2)] .
      then show ?thesis using b j unfolding u Parsed by (auto elim: within_mono)
    qed (use r u in auto)
  qed
qed

lemma parse_backs_within: "i \<le> length s \<Longrightarrow> within s i (parse_backs s cmd i) \<and> parse_backs s cmd i \<noteq> NoFuel"
proof (induction s cmd i rule: parse_backs.induct)
  case (1 s cmd i)
  obtain b p where p: "peek s i ''&'' = (b, p)" by fastforce
  obtain tok q e p1 where g: "gettoken s p = (tok, q, e, p1)" by (metis prod_cases4)
  have b: "i \<le> p" "p \<le> length s" "p \<le> p1" "p1 \<le> length s"
    using peek_bounds[OF p] gettoken_progress(1,2)[OF g] 1(2) by auto
  show ?case
  proof (cases b)
    case False
    then show ?thesis using p b by (simp add: parse_backs.simps[of s cmd i])
  next
    case True
    then have "\<not> \<not> b" by simp
    from 1(1)[OF p[symmetric] this g[symmetric] refl refl b(4)] True
    show ?thesis using b by (auto simp: parse_backs.simps[of s cmd i] p g elim: within_mono)
  qed
qed

text \<open>Looking for a symbol and, when it is there, taking it: the two ways the parser goes on.\<close>

lemma peek_take:
  assumes "k \<le> length s"
    and "\<And>p. k \<le> p \<Longrightarrow> p \<le> length s \<Longrightarrow> Q (F p)"
    and "\<And>p. k < length s \<Longrightarrow> k < p \<Longrightarrow> p \<le> length s \<Longrightarrow> Q (G p)"
  shows "Q (case peek s k t of (b, i) \<Rightarrow> if b then case gettoken s i of (_, _, _, i) \<Rightarrow> G i else F i)"
    and "Q (case peek s k t of (b, i) \<Rightarrow> if \<not> b then F i else case gettoken s i of (_, _, _, i) \<Rightarrow> G i)"
proof -
  obtain b p where p: "peek s k t = (b, p)" by fastforce
  obtain tok q e p1 where g: "gettoken s p = (tok, q, e, p1)" by (metis prod_cases4)
  have "Q (F p)" if "\<not> b" using peek_bounds[OF p] assms(1,2) by simp
  moreover have "Q (G p1)" if b
    using peek_gettoken[of s k t p tok q e p1] p g that assms(3)[of p1] by simp
  ultimately show "Q (case peek s k t of (b, i) \<Rightarrow> if b then case gettoken s i of (_, _, _, i) \<Rightarrow> G i else F i)"
    "Q (case peek s k t of (b, i) \<Rightarrow> if \<not> b then F i else case gettoken s i of (_, _, _, i) \<Rightarrow> G i)"
    by (simp_all add: p g)
qed

lemmas within_take = peek_take [where Q = "within s' i'" for s' i']
lemmas fuel_take = peek_take [where Q = "\<lambda>r. r \<noteq> NoFuel"]

lemma parse_within:
  "i \<le> length s \<Longrightarrow> within s i (parseline n s i) \<and> within s i (parsepipe n s i) \<and>
     within s i (parseexec n s i) \<and> within s i (parseblock n s i)"
proof (induction n arbitrary: i)
  case (Suc n)
  have line: "within s j (parseline n s j)" and pipe: "within s j (parsepipe n s j)"
    and exec: "within s j (parseexec n s j)" and block: "within s j (parseblock n s j)" if "j \<le> length s" for j
    using Suc.IH[OF that] by simp_all
  have "within s i (parseline (Suc n) s i)"
    unfolding parseline.simps
  proof (intro within_pbind pipe Suc.prems)
    fix c j assume j: "i \<le> j" "j \<le> length s"
    then show "within s i (parse_backs s c j)" using parse_backs_within[of j s c] by (blast intro: within_mono)
    fix d k assume k: "i \<le> k" "k \<le> length s"
    have "within s i (pbind (parseline n s p) (\<lambda>r i. Parsed (LIST d r) i))" if "k < p" "p \<le> length s" for p
      using within_pbind[OF line[OF that(2)], of "\<lambda>r i. Parsed (LIST d r) i"] that k by (auto elim: within_mono[of s p])
    then show "within s i (case peek s k '';'' of (b, i) \<Rightarrow> if b then case gettoken s i of (_, _, _, i) \<Rightarrow>
        pbind (parseline n s i) (\<lambda>r i. Parsed (LIST d r) i) else Parsed d i)"
      using k by (intro within_take(1)) auto
  qed
  moreover have "within s i (parsepipe (Suc n) s i)"
    unfolding parsepipe.simps
  proof (intro within_pbind exec Suc.prems)
    fix d k assume k: "i \<le> k" "k \<le> length s"
    have "within s i (pbind (parsepipe n s p) (\<lambda>r i. Parsed (PIPE d r) i))" if "k < p" "p \<le> length s" for p
      using within_pbind[OF pipe[OF that(2)], of "\<lambda>r i. Parsed (PIPE d r) i"] that k by (auto elim: within_mono[of s p])
    then show "within s i (case peek s k ''|'' of (b, i) \<Rightarrow> if b then case gettoken s i of (_, _, _, i) \<Rightarrow>
        pbind (parsepipe n s i) (\<lambda>r i. Parsed (PIPE d r) i) else Parsed d i)"
      using k by (intro within_take(1)) auto
  qed
  moreover have "within s i (parseblock (Suc n) s i)"
    unfolding parseblock.simps
  proof (intro within_take(2) Suc.prems)
    fix p assume p: "i < p" "p \<le> length s"
    show "within s i (pbind (parseline n s p) (\<lambda>cmd i. case peek s i '')'' of (b, i) \<Rightarrow>
        if \<not> b then Quit ''syntax - missing )'' else case gettoken s i of (_, _, _, i) \<Rightarrow> parseredirs s cmd i))"
    proof (intro within_pbind within_take(2))
      show "within s i (parseline n s p)" using line[OF p(2)] p(1) by (auto intro: within_mono)
      fix c k p' assume "i \<le> k" "k < p'" "p' \<le> length s"
      then show "within s i (parseredirs s c p')" using parseredirs_within[of p' s c] by (auto intro: within_mono)
    qed auto
  qed auto
  moreover have "within s i (parseexec (Suc n) s i)"
  proof (cases "peek s i ''(''")
    case (Pair b p)
    note b = peek_bounds[OF Pair]
    have p: "p \<le> length s" using b Suc.prems by simp
    have "within s p (pbind (parseredirs s (EXEC []) p) (\<lambda>ret i. parse_args s 0 ret i))"
    proof (rule within_pbind)
      show "within s p (parseredirs s (EXEC []) p)" using parseredirs_within[OF p] by simp
      fix c j assume "p \<le> j" "j \<le> length s"
      then show "within s p (parse_args s 0 c j)" using parse_args_within[of j s 0 c] by (auto intro: within_mono)
    qed
    then show ?thesis using b Suc.prems block[of p] by (auto simp: Pair intro: within_mono)
  qed
  ultimately show ?case by simp
qed simp

text \<open>Enough fuel: four for every character still to read, and the place of the function in the cycle.\<close>

lemma pbind_fuel:
  "r \<noteq> NoFuel \<Longrightarrow> (\<And>c j. r = Parsed c j \<Longrightarrow> f c j \<noteq> NoFuel) \<Longrightarrow> pbind r f \<noteq> NoFuel"
  by (cases r) auto

lemma parse_enough:
  "i \<le> length s \<Longrightarrow>
     (4 * (length s - i) + 4 \<le> n \<longrightarrow> parseline n s i \<noteq> NoFuel) \<and> (4 * (length s - i) + 3 \<le> n \<longrightarrow> parsepipe n s i \<noteq> NoFuel) \<and>
     (4 * (length s - i) + 2 \<le> n \<longrightarrow> parseexec n s i \<noteq> NoFuel) \<and> (4 * (length s - i) + 1 \<le> n \<longrightarrow> parseblock n s i \<noteq> NoFuel)"
proof (induction n arbitrary: i)
  case (Suc n)
  have later: "j \<le> length s \<Longrightarrow> i \<le> j \<Longrightarrow> 4 * (length s - j) + k \<le> 4 * (length s - i) + k" for j k by simp
  have "parseline (Suc n) s i \<noteq> NoFuel" if n: "4 * (length s - i) + 4 \<le> Suc n"
    unfolding parseline.simps
  proof (intro pbind_fuel)
    show "parsepipe n s i \<noteq> NoFuel" using Suc.IH[OF Suc.prems] n by simp
    fix c j assume "parsepipe n s i = Parsed c j"
    then have j: "i \<le> j" "j \<le> length s" using parse_within[OF Suc.prems, of n] by auto
    show "parse_backs s c j \<noteq> NoFuel" using parse_backs_within[OF j(2)] by simp
    fix d k assume "parse_backs s c j = Parsed d k"
    then have k: "j \<le> k" "k \<le> length s" using parse_backs_within[OF j(2), of c] by auto
    show "(case peek s k '';'' of (b, i) \<Rightarrow> if b then case gettoken s i of (_, _, _, i) \<Rightarrow>
        pbind (parseline n s i) (\<lambda>r i. Parsed (LIST d r) i) else Parsed d i) \<noteq> NoFuel"
      by (intro fuel_take(1) k pbind_fuel) (use Suc.IH n j k in auto)
  qed
  moreover have "parsepipe (Suc n) s i \<noteq> NoFuel" if n: "4 * (length s - i) + 3 \<le> Suc n"
    unfolding parsepipe.simps
  proof (intro pbind_fuel)
    show "parseexec n s i \<noteq> NoFuel" using Suc.IH[OF Suc.prems] n by simp
    fix d k assume "parseexec n s i = Parsed d k"
    then have k: "i \<le> k" "k \<le> length s" using parse_within[OF Suc.prems, of n] by auto
    show "(case peek s k ''|'' of (b, i) \<Rightarrow> if b then case gettoken s i of (_, _, _, i) \<Rightarrow>
        pbind (parsepipe n s i) (\<lambda>r i. Parsed (PIPE d r) i) else Parsed d i) \<noteq> NoFuel"
      by (intro fuel_take(1) k pbind_fuel) (use Suc.IH n k in auto)
  qed
  moreover have "parseexec (Suc n) s i \<noteq> NoFuel" if n: "4 * (length s - i) + 2 \<le> Suc n"
  proof (cases "peek s i ''(''")
    case (Pair b p)
    note b = peek_bounds[OF Pair]
    have "p \<le> length s" using b Suc.prems by simp
    have "pbind (parseredirs s (EXEC []) p) (\<lambda>ret i. parse_args s 0 ret i) \<noteq> NoFuel"
      using parseredirs_within[OF \<open>p \<le> length s\<close>, of "EXEC []"] parse_args_within
      by (intro pbind_fuel) auto
    then show ?thesis using b n Suc.IH[OF \<open>p \<le> length s\<close>] by (auto simp: Pair)
  qed
  moreover have "parseblock (Suc n) s i \<noteq> NoFuel" if n: "4 * (length s - i) + 1 \<le> Suc n"
    unfolding parseblock.simps
  proof (intro fuel_take(2) Suc.prems pbind_fuel)
    fix p assume p: "i < length s" "i < p" "p \<le> length s"
    then show "parseline n s p \<noteq> NoFuel" using Suc.IH[OF p(3)] n by auto
    fix c k assume "parseline n s p = Parsed c k"
    then have "k \<le> length s" using parse_within[OF p(3), of n] by auto
    then show "k \<le> length s" .
  qed (use parseredirs_within in auto)
  ultimately show ?case by simp
qed simp

text \<open>More fuel does not change a result.\<close>

definition agrees :: "'a parse \<Rightarrow> 'a parse \<Rightarrow> bool" where
  "agrees r r' \<longleftrightarrow> r = NoFuel \<or> r' = r"

lemma agrees_refl: "agrees r r"
  by (simp add: agrees_def)

lemma agrees_pbind: "agrees r r' \<Longrightarrow> (\<And>c j. agrees (f c j) (f' c j)) \<Longrightarrow> agrees (pbind r f) (pbind r' f')"
  by (cases r) (auto simp: agrees_def)

lemma agrees_prod: "(\<And>a b. agrees (f a b) (f' a b)) \<Longrightarrow> agrees (case x of (a, b) \<Rightarrow> f a b) (case x of (a, b) \<Rightarrow> f' a b)"
  by (cases x) simp

lemma agrees_if: "agrees f f' \<Longrightarrow> agrees g g' \<Longrightarrow> agrees (if b then f else g) (if b then f' else g')"
  by simp

lemma parse_agrees:
  "agrees (parseline n s i) (parseline (Suc n) s i) \<and> agrees (parsepipe n s i) (parsepipe (Suc n) s i) \<and>
   agrees (parseexec n s i) (parseexec (Suc n) s i) \<and> agrees (parseblock n s i) (parseblock (Suc n) s i)"
proof (induction n arbitrary: i)
  case 0
  show ?case by (simp add: agrees_def)
next
  case (Suc n)
  have IH: "agrees (parseline n s j) (parseline (Suc n) s j)" "agrees (parsepipe n s j) (parsepipe (Suc n) s j)"
    "agrees (parseexec n s j) (parseexec (Suc n) s j)" "agrees (parseblock n s j) (parseblock (Suc n) s j)" for j
    using Suc.IH[of j] by simp_all
  note unf = parseline.simps(2)[of "Suc n"] parsepipe.simps(2)[of "Suc n"] parseexec.simps(2)[of "Suc n"]
    parseblock.simps(2)[of "Suc n"] parseline.simps(2)[of n] parsepipe.simps(2)[of n] parseexec.simps(2)[of n]
    parseblock.simps(2)[of n]
  show ?case
    by (intro conjI; (subst (1 2) unf | subst unf, subst unf)?)
      ((rule IH agrees_refl agrees_pbind agrees_prod agrees_if)+)
qed

lemma parseline_stable: "parseline m s i \<noteq> NoFuel \<Longrightarrow> m \<le> n \<Longrightarrow> parseline n s i = parseline m s i"
proof (induction n)
  case (Suc n)
  then show ?case using parse_agrees[of n s i] by (cases "m = Suc n") (auto simp: agrees_def simp del: parseline.simps)
qed simp

text \<open>
  C35. The parser returns on every input line: with the fuel the model gives it, it ends with a command or with
  an error message, and more fuel does not change the outcome.
\<close>

theorem parsecmd_returns:
  assumes "parse_fuel s \<le> n"
  shows "parseline n s 0 = parseline (parse_fuel s) s 0 \<and> parseline n s 0 \<noteq> NoFuel \<and> parsecmd s \<noteq> NoFuel"
proof -
  have f: "parseline (parse_fuel s) s 0 \<noteq> NoFuel"
    using parse_enough[of 0 s "parse_fuel s"] by (simp add: parse_fuel_def)
  then have "parsecmd s \<noteq> NoFuel"
    unfolding parsecmd_def by (intro pbind_fuel) (auto simp: Let_def split: prod.splits)
  with f parseline_stable[OF f assms] show ?thesis by simp
qed

theorem parsecmd_returns_witness: "parsecmd ''((ls|'' \<noteq> NoFuel"
  using parsecmd_returns[of "''((ls|''" "parse_fuel ''((ls|''"] by simp

subsection \<open>Scanning a suffix\<close>

definition at :: "string \<Rightarrow> nat \<Rightarrow> string \<Rightarrow> bool" where
  "at s i u \<longleftrightarrow> i \<le> length s \<and> drop i s = u"

definition blank :: "char \<Rightarrow> bool" where
  "blank c \<longleftrightarrow> c \<in> set whitespace"

definition wordc :: "char \<Rightarrow> bool" where
  "wordc c \<longleftrightarrow> c \<noteq> CHR 0x00 \<and> c \<notin> set whitespace \<and> c \<notin> set symbols"

lemma at_char: "at s i u \<Longrightarrow> char_at s i = (case u of [] \<Rightarrow> CHR 0x00 | c # _ \<Rightarrow> c)"
  by (cases "i < length s") (auto simp: at_def char_at_def Cons_nth_drop_Suc[symmetric])

lemma at_Cons: "at s i (c # u) \<Longrightarrow> i < length s \<and> at s (Suc i) u"
  by (metis Cons_nth_drop_Suc Suc_leI at_def drop_all leI list.distinct(1) list.inject)

lemma at_append: "at s i (w @ u) \<Longrightarrow> at s (i + length w) u"
proof (induction w arbitrary: i)
  case (Cons c w)
  then have "at s (Suc i) (w @ u)" using at_Cons[of s i c "w @ u"] by simp
  from Cons.IH[OF this] show ?case by simp
qed simp

lemma set_whitespace: "set whitespace = {CHR '' '', CHR 0x09, CHR 0x0D, CHR 0x0A, CHR 0x0B}"
  by (simp add: whitespace_def)

lemma at_end: "at s i [] \<longleftrightarrow> i = length s"
  by (auto simp: at_def)

lemma skip_ws_at: "at s i u \<Longrightarrow> at s (skip_ws s i) (dropWhile blank u)"
proof (induction u arbitrary: i)
  case Nil
  then show ?case by (subst skip_ws.simps) (simp add: at_end)
next
  case (Cons c u)
  note c = at_Cons[OF Cons.prems] at_char[OF Cons.prems]
  show ?case
  proof (cases "blank c")
    case True
    then have "skip_ws s i = skip_ws s (Suc i)" using c by (subst skip_ws.simps) (simp add: blank_def)
    then show ?thesis using Cons.IH c True by simp
  next
    case False
    then have "skip_ws s i = i" using c by (subst skip_ws.simps) (simp add: blank_def)
    then show ?thesis using Cons.prems False by simp
  qed
qed

lemma skip_word_at:
  assumes "at s i (w @ u)" and "\<forall>c\<in>set w. wordc c" and "u = [] \<or> \<not> wordc (hd u)" and "CHR 0x00 \<notin> set u"
  shows "skip_word s i = i + length w"
  using assms(1,2)
proof (induction w arbitrary: i)
  case Nil
  then show ?case
    using assms(3,4) at_char[of s i u] by (subst skip_word.simps) (auto simp: at_end wordc_def split: list.splits)
next
  case (Cons c w)
  have a: "at s i (c # (w @ u))" using Cons.prems by simp
  have "skip_word s i = skip_word s (Suc i)"
    using at_Cons[OF a] at_char[OF a] Cons.prems(2) by (subst skip_word.simps) (auto simp: wordc_def)
  then show ?case using Cons at_Cons[OF a] by simp
qed

definition front :: "string \<Rightarrow> string \<Rightarrow> bool" where
  "front toks u \<longleftrightarrow> (case dropWhile blank u of [] \<Rightarrow> False | c # _ \<Rightarrow> c \<in> set toks)"

lemma peek_at:
  assumes "at s i u" and "CHR 0x00 \<notin> set u" and "CHR 0x00 \<notin> set toks"
  shows "peek s i toks = (front toks u, skip_ws s i)" and "at s (skip_ws s i) (dropWhile blank u)"
proof -
  show a: "at s (skip_ws s i) (dropWhile blank u)" by (rule skip_ws_at[OF assms(1)])
  have "CHR 0x00 \<notin> set (dropWhile blank u)" using assms(2) by (meson set_dropWhileD)
  then show "peek s i toks = (front toks u, skip_ws s i)"
    using at_char[OF a] in_str_iff[OF assms(3)]
    by (cases "dropWhile blank u") (auto simp: peek_def front_def Let_def simp del: dropWhile_eq_Nil_conv)
qed

lemma gettoken_symbol:
  assumes "at s i (c # u)" and "c \<in> set ''|();&<''"
  shows "gettoken s i = (c, i, i + 1, skip_ws s (i + 1))" and "at s (skip_ws s (i + 1)) (dropWhile blank u)"
proof -
  have "skip_ws s i = i"
    using assms at_char[OF assms(1)] by (subst skip_ws.simps) (auto simp: set_whitespace)
  then show "gettoken s i = (c, i, i + 1, skip_ws s (i + 1))"
    using at_char[OF assms(1)] assms(2) by (auto simp: gettoken_def Let_def)
  show "at s (skip_ws s (i + 1)) (dropWhile blank u)" using at_Cons[OF assms(1)] skip_ws_at by simp
qed

lemma gettoken_out:
  assumes "at s i (CHR ''>'' # u)" and "u \<noteq> []" and "hd u \<noteq> CHR ''>''"
  shows "gettoken s i = (CHR ''>'', i, i + 1, skip_ws s (i + 1))" and "at s (skip_ws s (i + 1)) (dropWhile blank u)"
proof -
  have "skip_ws s i = i"
    using at_char[OF assms(1)] by (subst skip_ws.simps) (simp add: set_whitespace)
  moreover have "char_at s (i + 1) \<noteq> CHR ''>''"
    using at_char[of s "Suc i" u] at_Cons[OF assms(1)] assms(2,3) by (cases u) auto
  ultimately show "gettoken s i = (CHR ''>'', i, i + 1, skip_ws s (i + 1))"
    using at_char[OF assms(1)] by (simp add: gettoken_def Let_def)
  show "at s (skip_ws s (i + 1)) (dropWhile blank u)" using at_Cons[OF assms(1)] skip_ws_at by simp
qed

lemma gettoken_word:
  assumes "at s i (w @ u)" and "w \<noteq> []" and "\<forall>c\<in>set w. wordc c" and "u = [] \<or> \<not> wordc (hd u)" and "CHR 0x00 \<notin> set u"
  shows "gettoken s i = (CHR ''a'', i, i + length w, skip_ws s (i + length w))"
    and "at s (skip_ws s (i + length w)) (dropWhile blank u)"
proof -
  obtain c w' where w: "w = c # w'" using assms(2) by (cases w) auto
  have c: "char_at s i = c" "wordc c" using at_char[OF assms(1)] assms(3) by (simp_all add: w)
  then have "skip_ws s i = i" by (subst skip_ws.simps) (simp add: wordc_def)
  then show "gettoken s i = (CHR ''a'', i, i + length w, skip_ws s (i + length w))"
    using c skip_word_at[OF assms(1,3,4,5)] by (auto simp: gettoken_def Let_def wordc_def symbols_def)
  show "at s (skip_ws s (i + length w)) (dropWhile blank u)" by (rule skip_ws_at[OF at_append[OF assms(1)]])
qed

subsection \<open>Printing commands\<close>

definition par :: "bool \<Rightarrow> string \<Rightarrow> string" where
  "par b x = (if b then ''('' @ x @ '')'' else x)"

definition word_list :: "string list \<Rightarrow> string" where
  "word_list ws = concat (map (\<lambda>w. CHR '' '' # w) ws)"

text \<open>The argument is the context: 0 a line, 1 what \<^verbatim>\<open>&\<close> may follow, 2 an operand of a pipe, 3 a simple command.\<close>

primrec pr :: "nat \<Rightarrow> string cmd \<Rightarrow> string" where
  "pr lv (EXEC ws) = word_list ws"
| "pr lv (REDIR c f m d) = pr 3 c @ (if d = 0 then '' <'' else '' >'') @ f"
| "pr lv (PIPE l r) = par (lv > 2) (pr 3 l @ ''|'' @ pr 2 r)"
| "pr lv (BACK c) = par (lv > 1) (pr 1 c @ ''&'')"
| "pr lv (LIST l r) = par (lv > 0) (pr 1 l @ '';'' @ pr 0 r)"

definition good_word :: "string \<Rightarrow> bool" where
  "good_word w \<longleftrightarrow> w \<noteq> [] \<and> (\<forall>c\<in>set w. wordc c)"

primrec good :: "string cmd \<Rightarrow> bool" where
  "good (EXEC ws) \<longleftrightarrow> length ws < MAXARGS \<and> (\<forall>w\<in>set ws. good_word w)"
| "good (REDIR c f m d) \<longleftrightarrow> good c \<and> good_word f \<and> (m = SH_RDONLY \<and> d = 0 \<or> m = SH_WRCREATE \<and> d = 1)"
| "good (PIPE l r) \<longleftrightarrow> good l \<and> good r"
| "good (BACK c) \<longleftrightarrow> good c"
| "good (LIST l r) \<longleftrightarrow> good l \<and> good r"

subsection \<open>What spans stand for\<close>

definition tok_ok :: "string \<Rightarrow> span \<Rightarrow> bool" where
  "tok_ok s w \<longleftrightarrow> fst w < snd w \<and> snd w \<le> length s \<and> (\<forall>k. fst w \<le> k \<and> k < snd w \<longrightarrow> wordc (s ! k))
     \<and> (snd w < length s \<longrightarrow> \<not> wordc (s ! snd w))"

definition sub :: "string \<Rightarrow> span \<Rightarrow> string" where
  "sub s w = take (snd w - fst w) (drop (fst w) s)"

definition means :: "string \<Rightarrow> span cmd \<Rightarrow> string cmd \<Rightarrow> bool" where
  "means s c' c \<longleftrightarrow> map_cmd (sub s) c' = c \<and> (\<forall>w\<in>set_cmd c'. tok_ok s w)"

lemma map_add_arg: "map_cmd f (add_arg w c) = add_arg (f w) (map_cmd f c)"
  by (induction c) simp_all

lemma set_add_arg: "set_cmd (add_arg w c) \<subseteq> insert w (set_cmd c)"
  by (induction c) auto

definition stop :: "string \<Rightarrow> bool" where
  "stop u \<longleftrightarrow> u = [] \<or> \<not> wordc (hd u)"

definition ends :: "string \<Rightarrow> string \<Rightarrow> bool" where
  "ends toks u \<longleftrightarrow> dropWhile blank u = [] \<or> hd (dropWhile blank u) \<in> set toks"

lemma word_span:
  assumes "at s i (w @ u)" and "good_word w" and "stop u"
  shows "tok_ok s (i, i + length w) \<and> sub s (i, i + length w) = w"
proof -
  have d: "i \<le> length s" "drop i s = w @ u" using assms(1) by (simp_all add: at_def)
  then have "length (drop i s) = length w + length u" by simp
  then have l: "length s = i + length w + length u" unfolding length_drop using d(1) by linarith
  have n: "s ! (i + k) = (w @ u) ! k" for k
    unfolding d(2)[symmetric] using d(1) by (rule nth_drop[symmetric])
  have "wordc (s ! k)" if k: "i \<le> k" "k < i + length w" for k
  proof -
    have "k - i < length w" "s ! k = (w @ u) ! (k - i)" using n[of "k - i"] k by auto
    then show ?thesis using assms(2) by (simp add: good_word_def nth_append)
  qed
  moreover have "\<not> wordc (s ! (i + length w))" if "i + length w < length s"
    using n[of "length w"] that l assms(3) by (cases u) (auto simp: stop_def nth_append)
  moreover have "w \<noteq> []" using assms(2) by (simp add: good_word_def)
  ultimately have "tok_ok s (i, i + length w)" using l by (simp add: tok_ok_def)
  moreover have "sub s (i, i + length w) = w" by (simp add: sub_def d(2))
  ultimately show ?thesis by simp
qed

lemma blank_word: "good_word w \<Longrightarrow> dropWhile blank (w @ u) = w @ u"
  by (cases w) (auto simp: good_word_def wordc_def blank_def)

lemma front_word: "good_word w \<Longrightarrow> set toks \<subseteq> set symbols \<Longrightarrow> \<not> front toks (w @ u)"
  by (cases w) (auto simp: front_def good_word_def wordc_def blank_def)

lemma dropWhile_idem [simp]: "dropWhile P (dropWhile P u) = dropWhile P u"
  by (induction u) auto

lemma front_dropWhile [simp]: "front toks (dropWhile blank u) = front toks u"
  by (simp add: front_def)

lemma skip_ws_at_blank:
  assumes "at s i (dropWhile blank u)"
  shows "skip_ws s i = i"
proof -
  have "char_at s i = CHR 0x00 \<or> \<not> blank (char_at s i)"
    using at_char[OF assms] hd_dropWhile[of blank u] by (cases "dropWhile blank u") auto
  then show ?thesis by (subst skip_ws.simps) (auto simp: blank_def set_whitespace)
qed

lemma at_nul: "at s i u \<Longrightarrow> CHR 0x00 \<notin> set s \<Longrightarrow> CHR 0x00 \<notin> set u"
  by (auto simp: at_def dest: in_set_dropD)

text \<open>Peeking and taking a symbol at a position past the blanks.\<close>

lemma peek_here:
  assumes "CHR 0x00 \<notin> set s" and "at s i (dropWhile blank u)" and "CHR 0x00 \<notin> set toks"
  shows "peek s i toks = (front toks u, i)"
  using peek_at(1)[OF assms(2) at_nul[OF assms(2,1)] assms(3)] skip_ws_at_blank[OF assms(2)] by simp

lemma blank_simps [simp]:
  "blank CHR '' ''" "\<not> blank CHR ''<''" "\<not> blank CHR ''>''" "\<not> blank CHR ''|''" "\<not> blank CHR ''(''"
  "\<not> blank CHR '')''" "\<not> blank CHR '';''" "\<not> blank CHR ''&''"
  by (simp_all add: blank_def set_whitespace)

lemma peek_symbol:
  assumes "CHR 0x00 \<notin> set s" and "at s i (c # u)" and "\<not> blank c" and "CHR 0x00 \<notin> set toks"
  shows "peek s i toks = (c \<in> set toks, i)"
  using peek_here[OF assms(1) _ assms(4), of i "c # u"] assms(2,3) by (simp add: front_def)

lemma take_symbol:
  assumes "CHR 0x00 \<notin> set s" and "at s i (c # u)" and "c \<in> set ''|();&''" and "c \<in> set toks" and "CHR 0x00 \<notin> set toks"
  shows "peek s i toks = (True, i)"
    and "gettoken s i = (c, i, i + 1, skip_ws s (i + 1))" and "at s (skip_ws s (i + 1)) (dropWhile blank u)"
proof -
  have "\<not> blank c" using assms(3) by auto
  from peek_symbol[OF assms(1,2) this assms(5)] show "peek s i toks = (True, i)" using assms(4) by simp
  show "gettoken s i = (c, i, i + 1, skip_ws s (i + 1))" "at s (skip_ws s (i + 1)) (dropWhile blank u)"
    using gettoken_symbol[OF assms(2)] assms(3) by auto
qed

lemma parseredirs_none:
  assumes "CHR 0x00 \<notin> set s" and "at s i (dropWhile blank u)" and "\<not> front ''<>'' u"
  shows "parseredirs s c i = Parsed c i"
  using peek_here[OF assms(1,2), of "''<>''"] assms(3) by (subst parseredirs.simps) simp

lemma parseredirs_one:
  assumes nul: "CHR 0x00 \<notin> set s" and a: "at s i ((if d = 0 then CHR ''<'' else CHR ''>'') # f @ u)"
    and f: "good_word f" and u: "stop u" and md: "m = SH_RDONLY \<and> d = 0 \<or> m = SH_WRCREATE \<and> d = 1"
  shows "\<exists>w p. parseredirs s c i = parseredirs s (REDIR c w m d) p \<and> at s p (dropWhile blank u)
    \<and> tok_ok s w \<and> sub s w = f"
proof -
  let ?t = "if d = 0 then CHR ''<'' else CHR ''>''"
  have p: "peek s i ''<>'' = (True, i)"
    using peek_symbol[OF nul a, of "''<>''"] by simp
  let ?p1 = "skip_ws s (i + 1)"
  have f0: "f \<noteq> []" "wordc (hd f)" using f by (auto simp: good_word_def)
  then have "hd (f @ u) \<noteq> CHR ''>''" "f @ u \<noteq> []" by (auto simp: wordc_def symbols_def)
  then have g: "gettoken s i = (?t, i, i + 1, ?p1)" "at s ?p1 (dropWhile blank (f @ u))"
    using gettoken_symbol[of s i "CHR ''<''" "f @ u"] gettoken_out[of s i "f @ u"] a by (cases "d = 0"; simp)+
  have a1: "at s ?p1 (f @ u)" using g(2) unfolding blank_word[OF f] .
  have "CHR 0x00 \<notin> set u" using at_nul[OF a1 nul] by simp
  note w = gettoken_word[OF a1 f0(1) _ _ this] word_span[OF a1 f u]
  have fw: "\<forall>c\<in>set f. wordc c" "u = [] \<or> \<not> wordc (hd u)" using f u by (simp_all add: good_word_def stop_def)
  have "parseredirs s c i = parseredirs s (REDIR c (?p1, ?p1 + length f) m d) (skip_ws s (?p1 + length f))"
    using p g(1) w(1)[OF fw] md by (subst parseredirs.simps) auto
  with w(2)[OF fw] w(3) show ?thesis by blast
qed

lemma parse_words:
  assumes nul: "CHR 0x00 \<notin> set s" and u: "ends ''<>|)&;'' u" "stop u"
  shows "at s i (dropWhile blank (word_list ws @ u)) \<Longrightarrow> argc + length ws < MAXARGS \<Longrightarrow> \<forall>w\<in>set ws. good_word w \<Longrightarrow>
    \<forall>w\<in>set_cmd c. tok_ok s w \<Longrightarrow>
    \<exists>c' p. pbind (parseredirs s c i) (parse_args s argc) = pbind (parseredirs s c' p) (parse_args s (argc + length ws))
      \<and> at s p (dropWhile blank u) \<and> map_cmd (sub s) c' = fold add_arg ws (map_cmd (sub s) c) \<and> (\<forall>w\<in>set_cmd c'. tok_ok s w)"
proof (induction ws arbitrary: i argc c)
  case Nil
  then show ?case by (auto simp: word_list_def)
next
  case (Cons w ws)
  let ?u = "word_list ws @ u"
  have w: "good_word w" using Cons.prems by simp
  have a: "at s i (w @ ?u)"
    using Cons.prems(1) blank_word[OF w, of ?u] by (simp add: word_list_def)
  have a': "at s i (dropWhile blank (w @ ?u))" using a by (simp add: blank_word[OF w])
  have st: "stop ?u" using u(2) by (cases ws) (auto simp: stop_def word_list_def wordc_def set_whitespace)
  have r: "parseredirs s c i = Parsed c i"
    using parseredirs_none[OF nul a'] front_word[OF w, of "''<>''" ?u] by (simp add: symbols_def)
  have p: "peek s i ''|)&;'' = (False, i)"
    using peek_here[OF nul a', of "''|)&;''"] front_word[OF w, of "''|)&;''" ?u] by (simp add: symbols_def)
  let ?p1 = "skip_ws s (i + length w)"
  have g: "gettoken s i = (CHR ''a'', i, i + length w, ?p1)" "at s ?p1 (dropWhile blank ?u)"
    using gettoken_word[OF a] w st at_nul[OF a nul] by (auto simp: good_word_def stop_def)
  have args: "parse_args s argc c i =
      pbind (parseredirs s (add_arg (i, i + length w) c) ?p1) (parse_args s (argc + 1))"
    using p g(1) Cons.prems(2) by (subst parse_args.simps) (simp add: Let_def)
  note sp = word_span[OF a w st]
  have "\<forall>w\<in>set_cmd (add_arg (i, i + length w) c). tok_ok s w"
    using set_add_arg[of "(i, i + length w)" c] sp Cons.prems(4) by auto
  from Cons.IH[OF g(2) _ _ this, of "argc + 1"] Cons.prems sp show ?case
    by (simp add: r args map_add_arg)
qed

subsection \<open>Parsing what was printed\<close>

text \<open>
  One statement per level of the grammar, for a command printed before \<open>u\<close> and a position past the blanks.
  A simple command may be followed by redirections; \<open>k\<close> is what the parser does after them.
\<close>

definition parsed_exec :: "string cmd \<Rightarrow> bool" where
  "parsed_exec c \<longleftrightarrow> (\<forall>s i u. CHR 0x00 \<notin> set s \<longrightarrow> at s i (dropWhile blank (pr 3 c @ u)) \<longrightarrow> ends ''<>|)&;'' u \<longrightarrow> stop u \<longrightarrow>
     (\<exists>n0 c' p k. (\<forall>n\<ge>n0. parseexec n s i = pbind (parseredirs s c' p) k) \<and> at s p (dropWhile blank u) \<and> means s c' c
        \<and> (\<forall>c'' j v. at s j (dropWhile blank v) \<longrightarrow> ends ''|)&;'' v \<longrightarrow> k c'' j = Parsed c'' j)))"

definition parsed_pipe :: "string cmd \<Rightarrow> bool" where
  "parsed_pipe c \<longleftrightarrow> (\<forall>s i u. CHR 0x00 \<notin> set s \<longrightarrow> at s i (dropWhile blank (pr 2 c @ u)) \<longrightarrow> ends '')&;'' u \<longrightarrow> stop u \<longrightarrow>
     (\<exists>n0 c' p. (\<forall>n\<ge>n0. parsepipe n s i = Parsed c' p) \<and> at s p (dropWhile blank u) \<and> means s c' c))"

definition parsed_back :: "string cmd \<Rightarrow> bool" where
  "parsed_back c \<longleftrightarrow> (\<forall>s i u. CHR 0x00 \<notin> set s \<longrightarrow> at s i (dropWhile blank (pr 1 c @ u)) \<longrightarrow> ends '')&;'' u \<longrightarrow> stop u \<longrightarrow>
     (\<exists>n0 c' p. (\<forall>n\<ge>n0. pbind (parsepipe n s i) (parse_backs s) = parse_backs s c' p) \<and> at s p (dropWhile blank u) \<and> means s c' c))"

definition parsed_line :: "string cmd \<Rightarrow> bool" where
  "parsed_line c \<longleftrightarrow> (\<forall>s i u. CHR 0x00 \<notin> set s \<longrightarrow> at s i (dropWhile blank (pr 0 c @ u)) \<longrightarrow> ends '')'' u \<longrightarrow> stop u \<longrightarrow>
     (\<exists>n0 c' p. (\<forall>n\<ge>n0. parseline n s i = Parsed c' p) \<and> at s p (dropWhile blank u) \<and> means s c' c))"

lemma ends_not_front: "ends toks u \<Longrightarrow> set toks \<inter> set toks' = {} \<Longrightarrow> \<not> front toks' u"
  by (cases "dropWhile blank u") (auto simp: ends_def front_def simp del: dropWhile_eq_Nil_conv)

lemma ends_mono: "ends toks u \<Longrightarrow> set toks \<subseteq> set toks' \<Longrightarrow> ends toks' u"
  by (auto simp: ends_def)

lemma ends_symbol: "c \<in> set toks \<Longrightarrow> \<not> blank c \<Longrightarrow> ends toks (c # u)"
  by (simp add: ends_def)

lemma stop_symbol: "c \<in> set symbols \<union> {CHR '' ''} \<Longrightarrow> stop (c # u)"
  by (auto simp: stop_def wordc_def set_whitespace)

lemma parse_args_stop:
  assumes nul: "CHR 0x00 \<notin> set s" and a: "at s j (dropWhile blank v)" and e: "ends ''|)&;'' v"
  shows "parse_args s argc c j = Parsed c j"
proof (cases "front ''|)&;'' v")
  case True
  then show ?thesis using peek_here[OF nul a, of "''|)&;''"] by (subst parse_args.simps) simp
next
  case False
  then have v: "dropWhile blank v = []" using e
    by (cases "dropWhile blank v") (auto simp: ends_def front_def simp del: dropWhile_eq_Nil_conv)
  have "j = length s" using a unfolding v by (simp add: at_end)
  then have "gettoken s j = (CHR 0x00, j, j, j)"
    using skip_ws_at_blank[OF a] by (simp add: gettoken_def char_at_def Let_def)
  then show ?thesis using peek_here[OF nul a, of "''|)&;''"] False by (subst parse_args.simps) simp
qed

lemma parsed_exec_done:
  assumes "parsed_exec c" and nul: "CHR 0x00 \<notin> set s" and "at s i (dropWhile blank (pr 3 c @ u))"
    and e: "ends ''|)&;'' u" and "stop u"
  shows "\<exists>n0 c' p. (\<forall>n\<ge>n0. parseexec n s i = Parsed c' p) \<and> at s p (dropWhile blank u) \<and> means s c' c"
proof -
  have "ends ''<>|)&;'' u" using e by (rule ends_mono) simp
  with assms obtain n0 c' p k where *: "\<forall>n\<ge>n0. parseexec n s i = pbind (parseredirs s c' p) k"
      "at s p (dropWhile blank u)" "means s c' c"
      "\<forall>c'' j v. at s j (dropWhile blank v) \<longrightarrow> ends ''|)&;'' v \<longrightarrow> k c'' j = Parsed c'' j"
    unfolding parsed_exec_def by blast
  have "parseredirs s c' p = Parsed c' p"
    using parseredirs_none[OF nul *(2)] ends_not_front[OF e, of "''<>''"] by simp
  moreover have "k c' p = Parsed c' p" using *(2,4) e by blast
  ultimately show ?thesis using * by auto
qed

lemma parsed_pipeI:
  assumes "parsed_exec c" and "pr 2 c = pr 3 c"
  shows "parsed_pipe c"
  unfolding parsed_pipe_def
proof (intro allI impI)
  fix s i u assume a: "CHR 0x00 \<notin> set s" "at s i (dropWhile blank (pr 2 c @ u))" "ends '')&;'' u" "stop u"
  have "ends ''|)&;'' u" using a(3) by (rule ends_mono) simp
  from parsed_exec_done[OF assms(1) a(1) a(2)[unfolded assms(2)] this a(4)] obtain n0 c' p where
    *: "\<forall>n\<ge>n0. parseexec n s i = Parsed c' p" "at s p (dropWhile blank u)" "means s c' c" by blast
  have "peek s p ''|'' = (False, p)"
    using peek_here[OF a(1) *(2), of "''|''"] ends_not_front[OF a(3), of "''|''"] by simp
  then have "parsepipe (Suc n) s i = Parsed c' p" if "n0 \<le> n" for n using *(1) that by simp
  then have "\<forall>n\<ge>Suc n0. parsepipe n s i = Parsed c' p" by (metis Suc_le_D Suc_le_mono)
  with * show "\<exists>n0 c' p. (\<forall>n\<ge>n0. parsepipe n s i = Parsed c' p) \<and> at s p (dropWhile blank u) \<and> means s c' c"
    by blast
qed

lemma parsed_backI:
  assumes "parsed_pipe c" and "pr 1 c = pr 2 c"
  shows "parsed_back c"
  unfolding parsed_back_def
proof (intro allI impI)
  fix s i u assume a: "CHR 0x00 \<notin> set s" "at s i (dropWhile blank (pr 1 c @ u))" "ends '')&;'' u" "stop u"
  then obtain n0 c' p where "\<forall>n\<ge>n0. parsepipe n s i = Parsed c' p" "at s p (dropWhile blank u)" "means s c' c"
    using assms unfolding parsed_pipe_def by metis
  then show "\<exists>n0 c' p. (\<forall>n\<ge>n0. pbind (parsepipe n s i) (parse_backs s) = parse_backs s c' p)
      \<and> at s p (dropWhile blank u) \<and> means s c' c"
    by (intro exI[of _ n0] exI[of _ c'] exI[of _ p]) simp
qed

lemma parse_backs_stop:
  assumes "CHR 0x00 \<notin> set s" and "at s p (dropWhile blank u)" and "\<not> front ''&'' u"
  shows "parse_backs s c p = Parsed c p"
  using peek_here[OF assms(1,2), of "''&''"] assms(3) by (subst parse_backs.simps) simp

lemma parsed_lineI:
  assumes "parsed_back c" and "pr 0 c = pr 1 c"
  shows "parsed_line c"
  unfolding parsed_line_def
proof (intro allI impI)
  fix s i u assume a: "CHR 0x00 \<notin> set s" "at s i (dropWhile blank (pr 0 c @ u))" "ends '')'' u" "stop u"
  have "ends '')&;'' u" using a(3) by (rule ends_mono) simp
  with a assms obtain n0 c' p where *: "\<forall>n\<ge>n0. pbind (parsepipe n s i) (parse_backs s) = parse_backs s c' p"
      "at s p (dropWhile blank u)" "means s c' c"
    unfolding parsed_back_def by metis
  have b: "parse_backs s c' p = Parsed c' p"
    using parse_backs_stop[OF a(1) *(2)] ends_not_front[OF a(3), of "''&''"] by simp
  have q: "peek s p '';'' = (False, p)"
    using peek_here[OF a(1) *(2), of "'';''"] ends_not_front[OF a(3), of "'';''"] by simp
  have "parseline (Suc n) s i = Parsed c' p" if "n0 \<le> n" for n
  proof (cases "parsepipe n s i")
    case (Parsed c1 p1)
    then have "parse_backs s c1 p1 = Parsed c' p" using *(1) that b by force
    then show ?thesis using Parsed q by simp
  qed (use *(1) that b in force)+
  then have "\<forall>n\<ge>Suc n0. parseline n s i = Parsed c' p" by (metis Suc_le_D Suc_le_mono)
  with * show "\<exists>n0 c' p. (\<forall>n\<ge>n0. parseline n s i = Parsed c' p) \<and> at s p (dropWhile blank u) \<and> means s c' c"
    by blast
qed

lemma parsed_execI:
  assumes "parsed_line c" and "pr 3 c = ''('' @ pr 0 c @ '')''"
  shows "parsed_exec c"
  unfolding parsed_exec_def
proof (intro allI impI)
  fix s i u assume a: "CHR 0x00 \<notin> set s" "at s i (dropWhile blank (pr 3 c @ u))" "ends ''<>|)&;'' u" "stop u"
  have a0: "at s i (CHR ''('' # pr 0 c @ CHR '')'' # u)" using a(2) by (simp add: assms(2))
  note t = take_symbol[OF a(1) a0, of "''(''"]
  let ?p1 = "skip_ws s (i + 1)"
  have a1: "at s ?p1 (dropWhile blank (pr 0 c @ CHR '')'' # u))" using t(3) by simp
  have "ends '')'' (CHR '')'' # u)" "stop (CHR '')'' # u)" by (simp_all add: ends_symbol stop_symbol symbols_def)
  with a1 a(1) assms(1) obtain n0 c' p where *: "\<forall>n\<ge>n0. parseline n s ?p1 = Parsed c' p"
      "at s p (dropWhile blank (CHR '')'' # u))" "means s c' c"
    unfolding parsed_line_def by blast
  have a2: "at s p (CHR '')'' # u)" using *(2) by simp
  note t2 = take_symbol[OF a(1) a2, of "'')''"]
  let ?p2 = "skip_ws s (p + 1)"
  have "parseexec (Suc (Suc n)) s i = parseredirs s c' ?p2" if "n0 \<le> n" for n
    using *(1) that t(1,2) t2(1,2) by simp
  then have "parseexec n s i = pbind (parseredirs s c' ?p2) Parsed" if "Suc (Suc n0) \<le> n" for n
    using that by (metis Suc_le_D Suc_le_mono pbind.simps parse.exhaust)
  moreover have "at s ?p2 (dropWhile blank u)" using t2(3) by simp
  ultimately show "\<exists>n0 c' p k. (\<forall>n\<ge>n0. parseexec n s i = pbind (parseredirs s c' p) k) \<and> at s p (dropWhile blank u)
      \<and> means s c' c \<and> (\<forall>c'' j v. at s j (dropWhile blank v) \<longrightarrow> ends ''|)&;'' v \<longrightarrow> k c'' j = Parsed c'' j)"
    using *(3) by blast
qed

lemma fold_add_arg: "fold add_arg ws (EXEC vs) = EXEC (vs @ ws)"
  by (induction ws arbitrary: vs) simp_all

lemma not_block:
  assumes "CHR 0x00 \<notin> set s" and "at s i (dropWhile blank (word_list ws @ u))" and "\<forall>w\<in>set ws. good_word w"
    and "ends ''<>|)&;'' u"
  shows "peek s i ''('' = (False, i)"
proof (cases ws)
  case Nil
  then show ?thesis
    using peek_here[OF assms(1,2), of "''(''"] ends_not_front[OF assms(4), of "''(''"] by (simp add: word_list_def)
next
  case (Cons w ws')
  then have "good_word w" using assms(3) by simp
  from front_word[OF this, of "''(''"] show ?thesis
    using peek_here[OF assms(1,2), of "''(''"] blank_word[OF \<open>good_word w\<close>]
    by (simp add: Cons word_list_def front_def symbols_def)
qed

lemma parsed_EXEC:
  assumes "good (EXEC ws)"
  shows "parsed_exec (EXEC ws)"
  unfolding parsed_exec_def
proof (intro allI impI)
  fix s i u assume a: "CHR 0x00 \<notin> set s" "at s i (dropWhile blank (pr 3 (EXEC ws) @ u))" "ends ''<>|)&;'' u" "stop u"
  have a0: "at s i (dropWhile blank (word_list ws @ u))" using a(2) by simp
  have "length ws < MAXARGS" "\<forall>w\<in>set ws. good_word w" using assms by simp_all
  with parse_words[OF a(1,3,4) a0, of 0 "EXEC []"] obtain c' p where
    *: "pbind (parseredirs s (EXEC []) i) (parse_args s 0) = pbind (parseredirs s c' p) (parse_args s (length ws))"
      "at s p (dropWhile blank u)" "means s c' (EXEC ws)"
    by (auto simp: means_def fold_add_arg)
  have "parseexec (Suc n) s i = pbind (parseredirs s c' p) (parse_args s (length ws))" for n
    using not_block[OF a(1) a0 _ a(3)] assms *(1) by simp
  then have "\<forall>n\<ge>1. parseexec n s i = pbind (parseredirs s c' p) (parse_args s (length ws))"
    by (metis One_nat_def Suc_le_D)
  with * parse_args_stop[OF a(1)] show "\<exists>n0 c' p k. (\<forall>n\<ge>n0. parseexec n s i = pbind (parseredirs s c' p) k)
      \<and> at s p (dropWhile blank u) \<and> means s c' (EXEC ws)
      \<and> (\<forall>c'' j v. at s j (dropWhile blank v) \<longrightarrow> ends ''|)&;'' v \<longrightarrow> k c'' j = Parsed c'' j)"
    by blast
qed

lemma parsed_REDIR:
  assumes "parsed_exec c" and "good (REDIR c f m d)"
  shows "parsed_exec (REDIR c f m d)"
  unfolding parsed_exec_def
proof (intro allI impI)
  fix s i u
  assume a: "CHR 0x00 \<notin> set s" "at s i (dropWhile blank (pr 3 (REDIR c f m d) @ u))" "ends ''<>|)&;'' u" "stop u"
  let ?t = "if d = 0 then CHR ''<'' else CHR ''>''"
  let ?v = "CHR '' '' # ?t # f @ u"
  have e: "(if d = 0 then '' <'' else '' >'') = [CHR '' '', ?t]" by simp
  have a0: "at s i (dropWhile blank (pr 3 c @ ?v))" using a(2) by (simp only: pr.simps e append.simps append_assoc)
  have b: "dropWhile blank ?v = ?t # f @ u" by simp
  have "ends ''<>|)&;'' ?v" "stop ?v" by (simp_all add: ends_def stop_symbol)
  with a0 a(1) assms(1) obtain n0 c' p k where *: "\<forall>n\<ge>n0. parseexec n s i = pbind (parseredirs s c' p) k"
      "at s p (dropWhile blank ?v)" "means s c' c"
      "\<forall>c'' j v. at s j (dropWhile blank v) \<longrightarrow> ends ''|)&;'' v \<longrightarrow> k c'' j = Parsed c'' j"
    unfolding parsed_exec_def by blast
  from parseredirs_one[OF a(1) *(2)[unfolded b] _ a(4)] assms(2) obtain w p' where
    w: "parseredirs s c' p = parseredirs s (REDIR c' w m d) p'" "at s p' (dropWhile blank u)" "tok_ok s w" "sub s w = f"
    by (metis good.simps(2))
  have "means s (REDIR c' w m d) (REDIR c f m d)" using *(3) w by (simp add: means_def)
  with * w show "\<exists>n0 c' p k. (\<forall>n\<ge>n0. parseexec n s i = pbind (parseredirs s c' p) k) \<and> at s p (dropWhile blank u)
      \<and> means s c' (REDIR c f m d) \<and> (\<forall>c'' j v. at s j (dropWhile blank v) \<longrightarrow> ends ''|)&;'' v \<longrightarrow> k c'' j = Parsed c'' j)"
    by metis
qed

lemma parsed_PIPE:
  assumes "parsed_exec l" and "parsed_pipe r"
  shows "parsed_pipe (PIPE l r)"
  unfolding parsed_pipe_def
proof (intro allI impI)
  fix s i u assume a: "CHR 0x00 \<notin> set s" "at s i (dropWhile blank (pr 2 (PIPE l r) @ u))" "ends '')&;'' u" "stop u"
  let ?v = "CHR ''|'' # pr 2 r @ u"
  have a0: "at s i (dropWhile blank (pr 3 l @ ?v))" using a(2) by (simp add: par_def)
  have "ends ''|)&;'' ?v" "stop ?v" by (simp_all add: ends_symbol stop_symbol symbols_def)
  from parsed_exec_done[OF assms(1) a(1) a0 this] obtain n0 l' p where
    *: "\<forall>n\<ge>n0. parseexec n s i = Parsed l' p" "at s p ?v" "means s l' l" by auto
  note t = take_symbol[OF a(1) *(2), of "''|''"]
  let ?p1 = "skip_ws s (p + 1)"
  have "at s ?p1 (dropWhile blank (pr 2 r @ u))" using t(3) by simp
  with a assms(2) obtain n1 r' p2 where **: "\<forall>n\<ge>n1. parsepipe n s ?p1 = Parsed r' p2"
      "at s p2 (dropWhile blank u)" "means s r' r"
    unfolding parsed_pipe_def by blast
  have "parsepipe (Suc n) s i = Parsed (PIPE l' r') p2" if "max n0 n1 \<le> n" for n
    using *(1) **(1) that t(1,2) by simp
  then have "\<forall>n\<ge>Suc (max n0 n1). parsepipe n s i = Parsed (PIPE l' r') p2" by (metis Suc_le_D Suc_le_mono)
  moreover have "means s (PIPE l' r') (PIPE l r)" using *(3) **(3) by (auto simp: means_def)
  ultimately show "\<exists>n0 c' p. (\<forall>n\<ge>n0. parsepipe n s i = Parsed c' p) \<and> at s p (dropWhile blank u) \<and> means s c' (PIPE l r)"
    using **(2) by blast
qed

lemma parsed_BACK:
  assumes "parsed_back c"
  shows "parsed_back (BACK c)"
  unfolding parsed_back_def
proof (intro allI impI)
  fix s i u assume a: "CHR 0x00 \<notin> set s" "at s i (dropWhile blank (pr 1 (BACK c) @ u))" "ends '')&;'' u" "stop u"
  let ?v = "CHR ''&'' # u"
  have a0: "at s i (dropWhile blank (pr 1 c @ ?v))" using a(2) by (simp add: par_def)
  have "ends '')&;'' ?v" "stop ?v" by (simp_all add: ends_symbol stop_symbol symbols_def)
  with a0 a(1) assms obtain n0 c' p where *: "\<forall>n\<ge>n0. pbind (parsepipe n s i) (parse_backs s) = parse_backs s c' p"
      "at s p (dropWhile blank ?v)" "means s c' c"
    unfolding parsed_back_def by blast
  have "at s p ?v" using *(2) by simp
  note t = take_symbol[OF a(1) this, of "''&''"]
  have "parse_backs s c' p = parse_backs s (BACK c') (skip_ws s (p + 1))"
    using t(1,2) by (subst parse_backs.simps) simp
  then have "\<forall>n\<ge>n0. pbind (parsepipe n s i) (parse_backs s) = parse_backs s (BACK c') (skip_ws s (p + 1))"
    using *(1) by simp
  moreover have "at s (skip_ws s (p + 1)) (dropWhile blank u)" using t(3) by simp
  moreover have "means s (BACK c') (BACK c)" using *(3) by (simp add: means_def)
  ultimately show "\<exists>n0 c' p. (\<forall>n\<ge>n0. pbind (parsepipe n s i) (parse_backs s) = parse_backs s c' p)
      \<and> at s p (dropWhile blank u) \<and> means s c' (BACK c)"
    by blast
qed

lemma parsed_LIST:
  assumes "parsed_back l" and "parsed_line r"
  shows "parsed_line (LIST l r)"
  unfolding parsed_line_def
proof (intro allI impI)
  fix s i u assume a: "CHR 0x00 \<notin> set s" "at s i (dropWhile blank (pr 0 (LIST l r) @ u))" "ends '')'' u" "stop u"
  let ?v = "CHR '';'' # pr 0 r @ u"
  have a0: "at s i (dropWhile blank (pr 1 l @ ?v))" using a(2) by (simp add: par_def)
  have e: "ends '')&;'' ?v" "stop ?v" by (simp_all add: ends_symbol stop_symbol symbols_def)
  with a0 a(1) assms(1) obtain n0 l' p where *: "\<forall>n\<ge>n0. pbind (parsepipe n s i) (parse_backs s) = parse_backs s l' p"
      "at s p (dropWhile blank ?v)" "means s l' l"
    unfolding parsed_back_def by blast
  have b: "parse_backs s l' p = Parsed l' p"
    using parse_backs_stop[OF a(1) *(2)] by (simp add: front_def)
  have "at s p ?v" using *(2) by simp
  note t = take_symbol[OF a(1) this, of "'';''"]
  let ?p1 = "skip_ws s (p + 1)"
  have "at s ?p1 (dropWhile blank (pr 0 r @ u))" using t(3) by simp
  with a assms(2) obtain n1 r' p2 where **: "\<forall>n\<ge>n1. parseline n s ?p1 = Parsed r' p2"
      "at s p2 (dropWhile blank u)" "means s r' r"
    unfolding parsed_line_def by blast
  have "parseline (Suc n) s i = Parsed (LIST l' r') p2" if n: "max n0 n1 \<le> n" for n
  proof (cases "parsepipe n s i")
    case (Parsed c1 p1)
    then have "parse_backs s c1 p1 = Parsed l' p" using *(1) n b by force
    then show ?thesis using Parsed t(1,2) **(1) n by simp
  qed (use *(1) n b in force)+
  then have "\<forall>n\<ge>Suc (max n0 n1). parseline n s i = Parsed (LIST l' r') p2" by (metis Suc_le_D Suc_le_mono)
  moreover have "means s (LIST l' r') (LIST l r)" using *(3) **(3) by (auto simp: means_def)
  ultimately show "\<exists>n0 c' p. (\<forall>n\<ge>n0. parseline n s i = Parsed c' p) \<and> at s p (dropWhile blank u) \<and> means s c' (LIST l r)"
    using **(2) by blast
qed

lemma parsed_all: "good c \<Longrightarrow> parsed_exec c \<and> parsed_pipe c \<and> parsed_back c \<and> parsed_line c"
proof (induction c)
  case (EXEC ws)
  then show ?case using parsed_EXEC[of ws] parsed_pipeI parsed_backI parsed_lineI by simp
next
  case (REDIR c f m d)
  then show ?case using parsed_REDIR[of c f m d] parsed_pipeI parsed_backI parsed_lineI by simp
next
  case (PIPE l r)
  then have p: "parsed_pipe (PIPE l r)" by (simp add: parsed_PIPE)
  then have b: "parsed_back (PIPE l r)" by (rule parsed_backI) (simp add: par_def)
  then have l: "parsed_line (PIPE l r)" by (rule parsed_lineI) (simp add: par_def)
  then have "parsed_exec (PIPE l r)" by (rule parsed_execI) (simp add: par_def)
  with p b l show ?case by simp
next
  case (LIST l r)
  then have l: "parsed_line (LIST l r)" by (simp add: parsed_LIST)
  then have e: "parsed_exec (LIST l r)" by (rule parsed_execI) (simp add: par_def)
  then have p: "parsed_pipe (LIST l r)" by (rule parsed_pipeI) (simp add: par_def)
  then have "parsed_back (LIST l r)" by (rule parsed_backI) (simp add: par_def)
  with p e l show ?case by simp
next
  case (BACK c)
  then have b: "parsed_back (BACK c)" by (simp add: parsed_BACK)
  then have l: "parsed_line (BACK c)" by (rule parsed_lineI) (simp add: par_def)
  then have e: "parsed_exec (BACK c)" by (rule parsed_execI) (simp add: par_def)
  then have "parsed_pipe (BACK c)" by (rule parsed_pipeI) (simp add: par_def)
  with b l e show ?case by simp
qed

subsection \<open>Cutting the buffer into strings\<close>

lemma fold_cut:
  "length (fold (\<lambda>(q, eq) b. b[eq := CHR 0x00]) ws b) = length b \<and>
   (\<forall>k < length b. fold (\<lambda>(q, eq) b. b[eq := CHR 0x00]) ws b ! k = (if k \<in> snd ` set ws then CHR 0x00 else b ! k))"
proof (induction ws arbitrary: b)
  case (Cons w ws)
  then show ?case by (cases w) (auto simp: nth_list_update)
qed simp

lemma nulterminate_nth:
  "length (nulterminate c b) = length b \<and>
   (\<forall>k < length b. nulterminate c b ! k = (if k \<in> snd ` set_cmd c then CHR 0x00 else b ! k))"
proof (induction c arbitrary: b)
  case (EXEC ws)
  then show ?case using fold_cut[of ws b] by simp
next
  case (REDIR c f m d)
  have "(nulterminate c b)[snd f := CHR 0x00] ! k = (if k = snd f then CHR 0x00 else nulterminate c b ! k)"
    if "k < length b" for k
    using REDIR[of b] that by (cases "k = snd f") simp_all
  with REDIR[of b] show ?case by auto
qed auto

lemma string_at_eq:
  assumes "length w + q < length b" and "\<And>k. k < length w \<Longrightarrow> b ! (q + k) = w ! k" and "CHR 0x00 \<notin> set w"
    and "b ! (q + length w) = CHR 0x00"
  shows "string_at b q = w"
proof -
  have "take (length w) (drop q b) = w"
    using assms(1,2) by (intro nth_equalityI) auto
  moreover have "drop q b ! length w = CHR 0x00" using assms(1,4) by simp
  ultimately have "drop q b = w @ CHR 0x00 # drop (Suc (length w)) (drop q b)"
    using id_take_nth_drop[of "length w" "drop q b"] assms(1) by (simp del: drop_drop)
  then have "string_at b q = takeWhile (\<lambda>c. c \<noteq> CHR 0x00) (w @ CHR 0x00 # drop (Suc (length w)) (drop q b))"
    unfolding string_at_def by (rule arg_cong)
  also have "\<dots> = w" by (subst takeWhile_append2) (use assms(3) in auto)
  finally show ?thesis .
qed

lemma string_at_nulterminate:
  assumes "\<forall>w\<in>set_cmd c. tok_ok s w" and "w \<in> set_cmd c"
  shows "string_at (nulterminate c (s @ [CHR 0x00])) (fst w) = sub s w"
proof (rule string_at_eq)
  let ?b = "nulterminate c (s @ [CHR 0x00])"
  have w: "fst w < snd w" "snd w \<le> length s" "\<And>k. fst w \<le> k \<Longrightarrow> k < snd w \<Longrightarrow> wordc (s ! k)"
    using assms by (auto simp: tok_ok_def)
  have l: "length (sub s w) = snd w - fst w" "length ?b = length s + 1"
    using w nulterminate_nth[of c "s @ [CHR 0x00]"] by (simp_all add: sub_def)
  show "length (sub s w) + fst w < length ?b" using l w by simp
  have n: "?b ! k = (if k \<in> snd ` set_cmd c then CHR 0x00 else (s @ [CHR 0x00]) ! k)" if "k \<le> length s" for k
    using nulterminate_nth[of c "s @ [CHR 0x00]"] that by simp
  show "?b ! (fst w + length (sub s w)) = CHR 0x00" using n[of "snd w"] w l assms(2) by auto
  have nw: "k \<notin> snd ` set_cmd c" if "k < length s" "wordc (s ! k)" for k
    using assms(1) that by (auto simp: tok_ok_def)
  show "?b ! (fst w + k) = sub s w ! k" if "k < length (sub s w)" for k
  proof -
    have "fst w + k < snd w" using that l w by simp
    then show ?thesis using n[of "fst w + k"] nw[of "fst w + k"] w by (simp add: sub_def nth_append)
  qed
  show "CHR 0x00 \<notin> set (sub s w)"
  proof
    assume "CHR 0x00 \<in> set (sub s w)"
    then obtain k where "k < length (sub s w)" "sub s w ! k = CHR 0x00" by (metis in_set_conv_nth)
    then have "k < snd w - fst w" "s ! (fst w + k) = CHR 0x00" using l w by (simp_all add: sub_def)
    moreover have "fst w + k < snd w" using \<open>k < snd w - fst w\<close> by linarith
    ultimately show False using w(3)[of "fst w + k"] by (simp add: wordc_def)
  qed
qed

lemma pr_no_nul: "good c \<Longrightarrow> CHR 0x00 \<notin> set (pr lv c)"
  by (induction c arbitrary: lv) (auto simp: good_word_def wordc_def word_list_def par_def)

lemma parse_skip: "parseline n s (skip_ws s i) = parseline n s i"
proof -
  have e: "parseexec n s (skip_ws s i) = parseexec n s i" for n by (cases n) (simp_all add: peek_def)
  have "parsepipe n s (skip_ws s i) = parsepipe n s i" for n by (cases n) (simp_all add: e)
  then show ?thesis by (cases n) simp_all
qed

text \<open>
  C34. Printing a command and parsing the text gives the command back: any nesting of pipes, lists,
  background commands and redirections whose words are non-empty and hold no blanks or operators, with at most
  nine words per simple command. The strings are those left in the buffer after \<^verbatim>\<open>nulterminate\<close>.
\<close>

theorem parse_print:
  assumes "good c"
  shows "parsecmd (pr 0 c) = Parsed c (length (pr 0 c))"
proof -
  let ?s = "pr 0 c"
  have nul: "CHR 0x00 \<notin> set ?s" by (rule pr_no_nul[OF assms])
  have "at ?s 0 ?s" by (simp add: at_def)
  from skip_ws_at[OF this] have "at ?s (skip_ws ?s 0) (dropWhile blank (pr 0 c @ []))" by simp
  moreover have "ends '')'' []" "stop []" by (simp_all add: ends_def stop_def)
  ultimately obtain n0 c' p where *: "\<forall>n\<ge>n0. parseline n ?s (skip_ws ?s 0) = Parsed c' p" "at ?s p []" "means ?s c' c"
    using parsed_all[OF assms] nul unfolding parsed_line_def by (metis dropWhile.simps(1))
  have p: "p = length ?s" using *(2) by (simp add: at_end)
  have f: "parseline (parse_fuel ?s) ?s 0 \<noteq> NoFuel"
    using parse_enough[of 0 ?s "parse_fuel ?s"] by (simp add: parse_fuel_def)
  have "parseline (max n0 (parse_fuel ?s)) ?s 0 = Parsed c' p" using *(1) by (simp add: parse_skip)
  then have l: "parseline (parse_fuel ?s) ?s 0 = Parsed c' p" using parseline_stable[OF f, of "max n0 (parse_fuel ?s)"] by simp
  have "skip_ws ?s p = p" unfolding p by (subst skip_ws.simps) simp
  then have k: "peek ?s p [] = (False, p)" by (simp add: peek_def in_str_def)
  have "map_cmd (\<lambda>(q, eq). string_at (nulterminate c' (?s @ [CHR 0x00])) q) c' = map_cmd (sub ?s) c'"
    using *(3) string_at_nulterminate[of c' ?s] by (intro cmd.map_cong) (auto simp: means_def)
  then show ?thesis using *(3) by (simp add: parsecmd_def l k[unfolded p] p means_def Let_def)
qed

theorem parse_print_witness:
  "pr 0 (LIST (BACK (PIPE (EXEC [''ls'', ''-l'']) (REDIR (EXEC [''wc'']) ''out'' SH_WRCREATE 1))) (EXEC [''echo'']))
     = '' ls -l| wc >out&; echo''
   \<and> parsecmd '' ls -l| wc >out&; echo'' =
     Parsed (LIST (BACK (PIPE (EXEC [''ls'', ''-l'']) (REDIR (EXEC [''wc'']) ''out'' SH_WRCREATE 1))) (EXEC [''echo''])) 22"
  (is "pr 0 ?c = ?t \<and> _")
proof -
  have "good ?c" by (simp add: good_word_def wordc_def set_whitespace symbols_def MAXARGS_def)
  moreover have "pr 0 ?c = ?t" by (simp add: par_def word_list_def)
  ultimately show ?thesis using parse_print[of ?c] by simp
qed

subsection \<open>The processes of a pipeline\<close>

text \<open>
  What a program does to the descriptors of its process when every call succeeds: descriptors are the lowest free
  ones, \<^verbatim>\<open>pipe\<close> makes a new pipe, a child gets a copy of the table. The outcome lists the programs executed, in
  the order of the calls, each with its descriptors; the number counts the pipes made.
\<close>

datatype obj = Opened string int | ReadEnd nat | WriteEnd nat | Inherited nat

type_synonym fds = "nat \<Rightarrow> obj option"

definition lowest :: "fds \<Rightarrow> nat option" where
  "lowest t = List.find (\<lambda>i. t i = None) [0..<16]"

primrec perform :: "prog \<Rightarrow> fds \<Rightarrow> nat \<Rightarrow> (string list \<times> fds) list \<times> nat" where
  "perform Exit = (\<lambda>t n. ([], n))"
| "perform (Exec w ws k) = (\<lambda>t n. ([(ws, t)], n))"
| "perform (Open f m k) = (\<lambda>t n. case lowest t of None \<Rightarrow> perform (k (- 1)) t n
     | Some i \<Rightarrow> perform (k (int i)) (t(i := Some (Opened f m))) n)"
| "perform (Close d k) = (\<lambda>t n. perform k (t(nat d := None)) n)"
| "perform (Dup d k) = (\<lambda>t n. case lowest t of None \<Rightarrow> perform k t n
     | Some i \<Rightarrow> perform k (t(i := t (nat d))) n)"
| "perform (Pipe k) = (\<lambda>t n. case lowest t of None \<Rightarrow> perform (k None) t n
     | Some i \<Rightarrow> (case lowest (t(i := Some (ReadEnd n))) of None \<Rightarrow> perform (k None) t n
       | Some j \<Rightarrow> perform (k (Some (int i, int j))) (t(i := Some (ReadEnd n), j := Some (WriteEnd n))) (n + 1)))"
| "perform (Fork k) = (\<lambda>t n. let (e1, n) = perform (k 0) t n; (e2, n) = perform (k 1) t n in (e1 @ e2, n))"
| "perform (Wait k) = perform k"
| "perform (Chdir f k) = perform (k 0)"
| "perform (Write d m k) = perform k"

fun pipeline :: "string list list \<Rightarrow> string cmd" where
  "pipeline [] = EXEC []"
| "pipeline [ws] = EXEC ws"
| "pipeline (ws # wss) = PIPE (EXEC ws) (pipeline wss)"

definition std :: "obj option \<Rightarrow> obj option \<Rightarrow> obj option \<Rightarrow> fds" where
  "std a b c = (\<lambda>i. if i = 0 then a else if i = 1 then b else if i = 2 then c else None)"

text \<open>The descriptors the commands of a pipeline should see: command \<open>k\<close> reads pipe \<open>k - 1\<close> and writes pipe \<open>k\<close>.\<close>

fun stages :: "obj option \<Rightarrow> obj option \<Rightarrow> obj option \<Rightarrow> nat \<Rightarrow> string list list \<Rightarrow> (string list \<times> fds) list" where
  "stages a b c n [] = []"
| "stages a b c n [ws] = [(ws, std a b c)]"
| "stages a b c n (ws # wss) = (ws, std a (Some (WriteEnd n)) c) # stages (Some (ReadEnd n)) b c (n + 1) wss"

lemma upt16: "[0..<16] = [0, 1, 2, 3, 4, 5, 6, 7, 8, 9, 10, 11, 12, 13, 14, 15]"
  by code_simp

text \<open>
  C36. A pipeline of any length is plumbed right: run with only the three standard descriptors open, command
  \<open>k\<close> is executed with the read end of pipe \<open>k - 1\<close> as its standard input and the write end of pipe \<open>k\<close> as its
  standard output (the first and the last keep those of the shell), its standard error untouched, and no
  descriptor of any pipe left open beside them, so that every pipe sees the end of its input.
\<close>

theorem pipeline_descriptors:
  assumes "a \<noteq> None" and "b \<noteq> None" and "c \<noteq> None" and "wss \<noteq> []" and "\<forall>ws\<in>set wss. ws \<noteq> []"
  shows "perform (runcmd (pipeline wss)) (std a b c) n = (stages a b c n wss, n + length wss - 1)"
  using assms
proof (induction a b c n wss rule: stages.induct)
  case (2 a b c n ws)
  then show ?case by (cases ws) auto
next
  case (3 a b c n ws ws' wss)
  let ?t = "std a b c" and ?r = "pipeline (ws' # wss)"
  have l1: "lowest ?t = Some 3" "lowest (?t(3 := Some (ReadEnd n))) = Some 4"
    using 3 by (simp_all add: lowest_def std_def upt16)
  let ?p = "?t(3 := Some (ReadEnd n), 4 := Some (WriteEnd n))"
  have l2: "lowest (?p(Suc 0 := None)) = Some 1" "lowest (?p(0 := None)) = Some 0"
    using 3 by (simp_all add: lowest_def std_def upt16)
  have t1: "?t(3 := None, Suc 0 := Some (WriteEnd n), 4 := None) = std a (Some (WriteEnd n)) c"
    and t2: "?t(0 := Some (ReadEnd n), 3 := None, 4 := None) = std (Some (ReadEnd n)) b c"
    by (auto simp: std_def fun_eq_iff)
  have "ws \<noteq> []" using 3 by simp
  then obtain w v where ws: "ws = w # v" by (cases ws) auto
  have "perform (runcmd ?r) (std (Some (ReadEnd n)) b c) (n + 1) = (stages (Some (ReadEnd n)) b c (n + 1) (ws' # wss), n + 1 + length (ws' # wss) - 1)"
    using 3 by simp
  then show ?case
    using l1 l2 by (simp add: fork1_def ws t1 t2 Let_def fun_upd_twist)
qed simp

theorem pipeline_descriptors_witness:
  "fst (perform (runcmd (pipeline [[''cat'', ''f''], [''grep'', ''x''], [''wc'']]))
     (std (Some (Inherited 0)) (Some (Inherited 1)) (Some (Inherited 2))) 0)
   = [([''cat'', ''f''], std (Some (Inherited 0)) (Some (WriteEnd 0)) (Some (Inherited 2))),
      ([''grep'', ''x''], std (Some (ReadEnd 0)) (Some (WriteEnd 1)) (Some (Inherited 2))),
      ([''wc''], std (Some (ReadEnd 1)) (Some (Inherited 1)) (Some (Inherited 2)))]"
  using pipeline_descriptors[of "Some (Inherited 0)" "Some (Inherited 1)" "Some (Inherited 2)"
      "[[''cat'', ''f''], [''grep'', ''x''], [''wc'']]" 0] by simp

end
