(* ===== verification/Spec2Isabelle.thy ===== *)
theory Spec2Isabelle
  imports Xv6_Log_Props Xv6_Fs_Claims Xv6_Mkfs_Props Xv6_Pipe_Props Xv6_Console_Props Xv6_Reach Xv6_Args_Props Xv6_Ulib_Props Xv6_Sh_Props
begin

text \<open>
  A verification development for the operating system under \<^verbatim>\<open>src/xv6-public\<close>: the xv6 kernel with a multi-level feedback
  queue combined with stride scheduling, threads inside processes, semaphores and readers-writer locks in user space,
  and files with doubly and triply indirect blocks; its shell, grep and user library; and the program that builds the
  disk image.

  \<^bold>\<open>The parts and how they interact.\<close> A trap (\<^verbatim>\<open>trap.c\<close>) enters the kernel from a process or a device and leads to the
  dispatch of system calls (\<^verbatim>\<open>syscall.c\<close>, \<^verbatim>\<open>sysproc.c\<close>, \<^verbatim>\<open>sysfile.c\<close> and the wrappers for threads and locks), to the tick
  handling of the scheduler, or to the disk and the console. System calls work on processes and threads (\<^verbatim>\<open>proc.c\<close>,
  \<^verbatim>\<open>lwp.c\<close>), on page tables (\<^verbatim>\<open>vm.c\<close>) over the page allocator (\<^verbatim>\<open>kalloc.c\<close>), and on open files (\<^verbatim>\<open>file.c\<close>), which are pipes
  (\<^verbatim>\<open>pipe.c\<close>), the console device (\<^verbatim>\<open>console.c\<close>) or inodes (\<^verbatim>\<open>fs.c\<close>). Inodes are stored in blocks that are read and
  written through the log (\<^verbatim>\<open>log.c\<close>), the buffer cache (\<^verbatim>\<open>bio.c\<close>) and a disk driver (\<^verbatim>\<open>ide.c\<close>, \<^verbatim>\<open>memide.c\<close>). Blocking is by
  \<^verbatim>\<open>sleep\<close> and \<^verbatim>\<open>wakeup\<close>; mutual exclusion is by spin locks (\<^verbatim>\<open>spinlock.c\<close>) and sleep locks (\<^verbatim>\<open>sleeplock.c\<close>).

  \<^bold>\<open>How code is modelled.\<close> The state of the kernel is one extensible record that grows from theory to theory (locks, memory,
  process table, sleep locks, buffers, log, inodes, files, console), with the C names of the variables where they do not
  clash. A C function is a function on that state with the outcome type \<open>res\<close>: \<open>Ok\<close> result and state, \<open>Fail\<close> with a panic,
  undefined behaviour or a loop that does not end, or \<open>Swtch\<close>, the state in which the running process gave up the
  CPU. What a process does after it is resumed is a function of its own (\<^verbatim>\<open>sleep_resume\<close>, \<^verbatim>\<open>yield_resume\<close>,
  \<^verbatim>\<open>pipewrite_resume\<close> and so on), so that any interleaving of processes at the points where they can be switched is a
  sequence of calls of these functions. A kernel thread runs with interrupts off while it holds a lock, and the model of
  the kernel has one CPU; the several CPUs of the machine are in \<^verbatim>\<open>Xv6_Spinlock\<close>. Pointers into tables are indices, NULL
  is \<open>None\<close>, addresses are numbers; unsigned integers whose wrap can be seen are 32-bit words, the others numbers.

  \<^bold>\<open>Kernel theories.\<close>
  \<^item> \<^verbatim>\<open>Xv6_Prelude\<close>: outcomes and their sequencing, loops, bytes in memory, chains of linked lists (locale \<open>list_unlink\<close>).
  \<^item> \<^verbatim>\<open>Xv6_String\<close>: \<^verbatim>\<open>string.c\<close>; \<^verbatim>\<open>memmove\<close> against a snapshot copy, \<^verbatim>\<open>memset\<close> by words against bytes.
  \<^item> \<^verbatim>\<open>Xv6_Spinlock\<close>: \<^verbatim>\<open>spinlock.c\<close> for any number of CPUs, with mutual exclusion along every interleaving; the set of held
    locks that the other theories use refines it, panics included.
  \<^item> \<^verbatim>\<open>Xv6_Kalloc\<close>: \<^verbatim>\<open>kalloc.c\<close>; the free list in the pages themselves, as an instance of the locale \<open>page_allocator\<close>.
  \<^item> \<^verbatim>\<open>Xv6_VM\<close>, \<^verbatim>\<open>Xv6_UMem\<close>: \<^verbatim>\<open>vm.c\<close>, and loads and stores through the active page table.
  \<^item> \<^verbatim>\<open>Xv6_Proc\<close>, \<^verbatim>\<open>Xv6_Sched\<close>: the process table, the feedback queue and the stride queue, the scheduler, \<^verbatim>\<open>yield\<close>, \<^verbatim>\<open>sleep\<close>,
    \<^verbatim>\<open>wakeup\<close>, \<^verbatim>\<open>kill\<close> of \<^verbatim>\<open>proc.c\<close>. \<^verbatim>\<open>Xv6_Sched_Props\<close>, \<^verbatim>\<open>Xv6_Sched_Inv\<close>, \<^verbatim>\<open>Xv6_Sched_Choice\<close> and \<^verbatim>\<open>Xv6_Sched_Claims\<close>: the
    invariant \<open>sched_inv\<close> (counters and queues agree with the table, shares at most 80 percent), its preservation, which
    process runs, accounting of ticks, no lost wakeups.
  \<^item> \<^verbatim>\<open>Xv6_Sem\<close>: \<^verbatim>\<open>semaphore.c\<close>, \<^verbatim>\<open>rwlock.c\<close>, \<^verbatim>\<open>sleeplock.c\<close>.
  \<^item> \<^verbatim>\<open>Xv6_Life\<close>: \<^verbatim>\<open>fork\<close>, \<^verbatim>\<open>exit\<close>, \<^verbatim>\<open>wait\<close>, \<^verbatim>\<open>growproc\<close> of \<^verbatim>\<open>proc.c\<close>, and \<^verbatim>\<open>lwp.c\<close>.
  \<^item> \<^verbatim>\<open>Xv6_Bio\<close>, \<^verbatim>\<open>Xv6_Bio_Props\<close>: \<^verbatim>\<open>bio.c\<close>, \<^verbatim>\<open>memide.c\<close>, \<^verbatim>\<open>ide.c\<close>; the cache shows one contents for each block.
  \<^item> \<^verbatim>\<open>Xv6_Log\<close>, \<^verbatim>\<open>Xv6_Log_Props\<close>: \<^verbatim>\<open>log.c\<close>; a crash at any write of a commit leaves all or nothing of a transaction.
  \<^item> \<^verbatim>\<open>Xv6_Fs\<close>, \<^verbatim>\<open>Xv6_Dir\<close>: \<^verbatim>\<open>fs.c\<close>. \<^verbatim>\<open>Xv6_Fs_Codec\<close>: layout of inodes, directory entries and paths. \<^verbatim>\<open>Xv6_Fs_Tx\<close>: what a
    transaction sees of blocks. \<^verbatim>\<open>Xv6_Fs_Blocks\<close>: the bitmap. \<^verbatim>\<open>Xv6_Fs_Map\<close>: the tree of blocks of a file and \<^verbatim>\<open>bmap\<close>.
    \<^verbatim>\<open>Xv6_Fs_RW\<close>: \<^verbatim>\<open>readi\<close>, \<^verbatim>\<open>writei\<close>, \<^verbatim>\<open>iupdate\<close> on files as arrays of bytes. \<^verbatim>\<open>Xv6_Fs_Claims\<close>: the properties, up to the
    atomicity of a write of a file under crashes.
  \<^item> \<^verbatim>\<open>Xv6_File\<close>: \<^verbatim>\<open>pipe.c\<close> and \<^verbatim>\<open>file.c\<close>. \<^verbatim>\<open>Xv6_Ring\<close>: arrays indexed by wrapping counters (locale \<open>ring\<close>).
    \<^verbatim>\<open>Xv6_Pipe_Props\<close>: pipes are first-in first-out under every interleaving.
  \<^item> \<^verbatim>\<open>Xv6_Console\<close>: \<^verbatim>\<open>console.c\<close>, \<^verbatim>\<open>kbd.c\<close> and the output of \<^verbatim>\<open>uart.c\<close>. \<^verbatim>\<open>Xv6_Console_Props\<close>: the input buffer is a
    line editor, and reads deliver its lines.
  \<^item> \<^verbatim>\<open>Xv6_Syscall\<close>, \<^verbatim>\<open>Xv6_Sysfile\<close>, \<^verbatim>\<open>Xv6_Exec\<close>: arguments and dispatch of system calls, the calls, \<^verbatim>\<open>exec.c\<close> and \<^verbatim>\<open>trap.c\<close>.
    \<^verbatim>\<open>Xv6_Args_Props\<close>: user pointers and strings are checked against the size of the process.
  \<^item> \<^verbatim>\<open>Xv6_Keeps\<close>, \<^verbatim>\<open>Xv6_Syscall_Inv\<close>, \<^verbatim>\<open>Xv6_Reach\<close>: every operation keeps the scheduler's invariant and balances its locks
    (locales \<open>quiet_inv\<close> and \<open>kernel_inv\<close>, one lemma for each operation), hence every system call and trap does, hence
    every state reachable by traps, context switches and resumptions is consistent. The calls excepted there are
    those for which it fails; the theory says which and why.
  \<^item> \<^verbatim>\<open>Xv6_Example\<close>: a concrete state on which the theorems are applied.

  \<^bold>\<open>Programs.\<close>
  \<^item> \<^verbatim>\<open>Xv6_Ulib\<close>, \<^verbatim>\<open>Xv6_Ulib_Props\<close>: \<^verbatim>\<open>ulib.c\<close> and \<^verbatim>\<open>printf.c\<close>; the printers of numbers of kernel and library (locale
    \<open>digit_printer\<close>), string routines.
  \<^item> \<^verbatim>\<open>Xv6_Grep\<close>: \<^verbatim>\<open>grep.c\<close>; the matcher against the language of the pattern, lines against chunks.
  \<^item> \<^verbatim>\<open>Xv6_Sh\<close>, \<^verbatim>\<open>Xv6_Sh_Props\<close>: \<^verbatim>\<open>sh.c\<close>; the parser returns, inverts printing, and pipelines get the right descriptors.
  \<^item> \<^verbatim>\<open>Xv6_Mkfs\<close>, \<^verbatim>\<open>Xv6_Mkfs_Props\<close>: \<^verbatim>\<open>mkfs.c\<close>; the image is a file system in the sense of the kernel's theories.

  \<^bold>\<open>Bounds and fuel.\<close> Loops whose end depends on the data are total functions with a termination proof, or follow a
  list for at most as many steps as the table has entries; running on is \<open>Fail Hang\<close>, and under the
  invariants the theorems show that it does not happen. Loops over a NUL-terminated string take fuel, and any fuel above
  the length of the string gives the result. The shell's parser takes four times the length of the line plus four, which
  is shown to be enough for every line. An operation of the file system that runs out of buffers, log entries or free
  blocks panics; the theorems about it assume that there is room, or name these panics as possible outcomes.

  \<^bold>\<open>Not modelled.\<close>
  \<^item> \<^verbatim>\<open>main.c\<close>, \<^verbatim>\<open>bootmain.c\<close>, \<^verbatim>\<open>mp.c\<close>, \<^verbatim>\<open>lapic.c\<close>, \<^verbatim>\<open>ioapic.c\<close>, \<^verbatim>\<open>picirq.c\<close>, the probing in \<^verbatim>\<open>ide.c\<close> and \<^verbatim>\<open>uart.c\<close>, \<^verbatim>\<open>seginit\<close> and \<^verbatim>\<open>tvinit\<close>,
    and the assembly files: they program processor and device registers; the model starts after boot, and a context switch
    is the outcome \<open>Swtch\<close>.
  \<^item> The key maps of \<^verbatim>\<open>kbd.h\<close> are an argument of \<open>kbdgetc\<close>; \<^verbatim>\<open>procdump\<close> and the messages of \<^verbatim>\<open>trap.c\<close> only print.
  \<^item> \<^verbatim>\<open>umalloc.c\<close> and the short programs \<^verbatim>\<open>cat\<close>, \<^verbatim>\<open>echo\<close>, \<^verbatim>\<open>init\<close>, \<^verbatim>\<open>kill\<close>, \<^verbatim>\<open>ln\<close>, \<^verbatim>\<open>ls\<close>, \<^verbatim>\<open>mkdir\<close>, \<^verbatim>\<open>rm\<close>, \<^verbatim>\<open>wc\<close>, \<^verbatim>\<open>zombie\<close>: sequences of system
    calls around a loop, and an allocator no other modelled part depends on.
  \<^item> \<^verbatim>\<open>usertests.c\<close> and the other test programs test the system and are not parts of it.
  \<^item> Several CPUs inside the kernel beyond the lock protocol, and time: interrupts arrive between the steps of the
    model, never inside a function.
\<close>

end
